(* ===== verification/MFC_Prelude.thy ===== *)
theory MFC_Prelude
  imports Main "HOL-Library.Word"
begin

unbundle bit_operations_syntax

text \<open>
  Shared vocabulary of the development: the machine types of the C++ sources, the wrap-around
  of signed arithmetic, little-endian byte codecs (\<^verbatim>\<open>src/src/crypto/common.h\<close>), the error
  plumbing used by every fallible routine, and the generic list and arithmetic facts the
  component theories rely on.

  Conventions.
  \<^item> \<^verbatim>\<open>unsigned char\<close> is \<open>byte\<close> (an 8 bit word), \<^verbatim>\<open>std::vector<unsigned char>\<close> a list of them.
  \<^item> \<^verbatim>\<open>uint32_t\<close> and \<^verbatim>\<open>uint64_t\<close> are 32 and 64 bit words where the code relies on
    wrap-around or bit operations. Signed \<^verbatim>\<open>int\<close> and \<^verbatim>\<open>int64_t\<close> are \<open>int\<close>; where a product
    or a sum can leave the range the two's complement wrap is written out with \<open>wrap32\<close> or
    \<open>wrap64\<close> (what the compiled code does; the C++ standard leaves it undefined).
  \<^item> C++ integer division truncates towards zero; \<open>cdiv\<close> is that division.
  \<^item> A routine that may fail returns a value of a sum type, \<open>Inl\<close> for the error.
\<close>

section \<open>Machine types\<close>

type_synonym byte = "8 word"
type_synonym bytes = "byte list"
type_synonym u32 = "32 word"
type_synonym u64 = "64 word"

named_theorems codec_simps \<open>rewriting of byte codecs\<close>
named_theorems script_simps \<open>unfolding of script reading and building\<close>
named_theorems exec_simps \<open>unfolding of the script interpreter\<close>
named_theorems name_simps \<open>unfolding of the name index operations\<close>

subsection \<open>Signed wrap-around and truncating division\<close>

definition INT_MAX :: int where
  "INT_MAX = 2147483647"

definition wrap32 :: "int \<Rightarrow> int" where
  "wrap32 x = (x + 2147483648) mod 4294967296 - 2147483648"

definition wrap64 :: "int \<Rightarrow> int" where
  "wrap64 x = (x + 9223372036854775808) mod 18446744073709551616 - 9223372036854775808"

definition cdiv :: "int \<Rightarrow> int \<Rightarrow> int" where
  "cdiv a b = sgn a * sgn b * (\<bar>a\<bar> div \<bar>b\<bar>)"

lemma wrap32_id [simp]: "-2147483648 \<le> x \<Longrightarrow> x < 2147483648 \<Longrightarrow> wrap32 x = x"
  by (simp add: wrap32_def)

lemma wrap64_id [simp]:
  "-9223372036854775808 \<le> x \<Longrightarrow> x < 9223372036854775808 \<Longrightarrow> wrap64 x = x"
  by (simp add: wrap64_def)

lemma wrap32_range: "-2147483648 \<le> wrap32 x \<and> wrap32 x < 2147483648"
proof -
  have "0 \<le> (x + 2147483648) mod 4294967296" "(x + 2147483648) mod 4294967296 < 4294967296"
    by simp_all
  then show ?thesis unfolding wrap32_def by linarith
qed

lemma cdiv_nonneg: "0 \<le> a \<Longrightarrow> 0 < b \<Longrightarrow> cdiv a b = a div b"
  by (cases "a = 0") (auto simp: cdiv_def sgn_if)

section \<open>Errors as values\<close>

definition bind_sum :: "'e + 'a \<Rightarrow> ('a \<Rightarrow> 'e + 'b) \<Rightarrow> 'e + 'b" where
  "bind_sum m f = (case m of Inl e \<Rightarrow> Inl e | Inr x \<Rightarrow> f x)"

lemma bind_sum_simps [simp]:
  "bind_sum (Inl e) f = Inl e"
  "bind_sum (Inr x) f = f x"
  by (simp_all add: bind_sum_def)

lemma bind_sum_eq_Inr [simp]:
  "bind_sum m f = Inr y \<longleftrightarrow> (\<exists>x. m = Inr x \<and> f x = Inr y)"
  by (cases m) auto

section \<open>Little-endian byte codecs\<close>

text \<open>
  \<open>le_bytes n v\<close> are the low \<open>n\<close> bytes of \<open>v\<close>, least significant first: what \<^verbatim>\<open>WriteLE16\<close>,
  \<^verbatim>\<open>WriteLE32\<close> and \<^verbatim>\<open>WriteLE64\<close> store. \<open>le_value\<close> is the number such a run of bytes denotes:
  what \<^verbatim>\<open>ReadLE16\<close>, \<^verbatim>\<open>ReadLE32\<close> and \<^verbatim>\<open>ReadLE64\<close> load.
\<close>

primrec le_bytes :: "nat \<Rightarrow> nat \<Rightarrow> bytes" where
  "le_bytes 0 v = []"
| "le_bytes (Suc n) v = of_nat (v mod 256) # le_bytes n (v div 256)"

primrec le_value :: "bytes \<Rightarrow> nat" where
  "le_value [] = 0"
| "le_value (b # bs) = unat b + 256 * le_value bs"

lemma unat_byte_lt [simp]: "unat (b :: byte) < 256"
  using unsigned_less [of b] by simp

lemma unat_byte_le [simp]: "unat (b :: byte) \<le> 255"
  using unat_byte_lt [of b] by linarith

lemma unat_of_nat_byte [simp]: "unat (of_nat (v mod 256) :: byte) = v mod 256"
  by (simp add: unat_of_nat)

lemma of_nat_unat_byte [simp]: "(of_nat (unat b) :: byte) = b"
  by simp

lemma length_le_bytes [simp, codec_simps]: "length (le_bytes n v) = n"
  by (induction n arbitrary: v) auto

lemma le_value_le_bytes [codec_simps]: "le_value (le_bytes n v) = v mod 256 ^ n"
proof (induction n arbitrary: v)
  case 0
  then show ?case by simp
next
  case (Suc n)
  have "le_value (le_bytes (Suc n) v) = v mod 256 + 256 * (v div 256 mod 256 ^ n)"
    using Suc.IH by simp
  also have "\<dots> = v mod (256 * 256 ^ n)"
    by (simp add: mod_mult2_eq)
  finally show ?case by simp
qed

lemma le_value_lt: "le_value bs < 256 ^ length bs"
proof (induction bs)
  case (Cons b bs)
  have "unat b + 256 * le_value bs < 256 + 256 * le_value bs" by simp
  also have "\<dots> = 256 * Suc (le_value bs)" by simp
  also have "\<dots> \<le> 256 * 256 ^ length bs" using Cons.IH by (intro mult_le_mono2) simp
  finally show ?case by simp
qed simp

lemma le_value_append [codec_simps]:
  "le_value (xs @ ys) = le_value xs + 256 ^ length xs * le_value ys"
  by (induction xs) (auto simp: algebra_simps)

lemma le_bytes_le_value [codec_simps]: "le_bytes (length bs) (le_value bs) = bs"
proof (induction bs)
  case (Cons b bs)
  have "(unat b + 256 * le_value bs) mod 256 = unat b" by simp
  moreover have "(unat b + 256 * le_value bs) div 256 = le_value bs" by simp
  ultimately show ?case using Cons.IH by simp
qed simp

lemma le_value_inj: "length xs = length ys \<Longrightarrow> le_value xs = le_value ys \<Longrightarrow> xs = ys"
  by (metis le_bytes_le_value)

definition ReadLE16 :: "bytes \<Rightarrow> nat" where
  "ReadLE16 p = le_value (take 2 p)"

definition ReadLE32 :: "bytes \<Rightarrow> nat" where
  "ReadLE32 p = le_value (take 4 p)"

definition ReadLE64 :: "bytes \<Rightarrow> nat" where
  "ReadLE64 p = le_value (take 8 p)"

definition WriteLE16 :: "nat \<Rightarrow> bytes" where
  "WriteLE16 x = le_bytes 2 x"

definition WriteLE32 :: "nat \<Rightarrow> bytes" where
  "WriteLE32 x = le_bytes 4 x"

definition WriteLE64 :: "nat \<Rightarrow> bytes" where
  "WriteLE64 x = le_bytes 8 x"

lemma ReadLE_WriteLE [codec_simps]:
  "x < 65536 \<Longrightarrow> ReadLE16 (WriteLE16 x @ r) = x"
  "x < 4294967296 \<Longrightarrow> ReadLE32 (WriteLE32 x @ r) = x"
  "x < 18446744073709551616 \<Longrightarrow> ReadLE64 (WriteLE64 x @ r) = x"
  by (simp_all add: ReadLE16_def ReadLE32_def ReadLE64_def WriteLE16_def WriteLE32_def
      WriteLE64_def le_value_le_bytes)

lemma length_WriteLE [simp]:
  "length (WriteLE16 x) = 2" "length (WriteLE32 x) = 4" "length (WriteLE64 x) = 8"
  by (simp_all add: WriteLE16_def WriteLE32_def WriteLE64_def)

subsection \<open>The sign bit of a byte\<close>

lemma byte_high_bit: "(b AND 0x80 = (0 :: byte)) \<longleftrightarrow> unat b < 128"
proof -
  have "(b AND 0x80 = (0 :: byte)) \<longleftrightarrow> \<not> bit b 7"
    using and_exp_eq_0_iff_not_bit [of b 7] by simp
  also have "bit b 7 \<longleftrightarrow> bit (unat b) 7"
    by (simp add: bit_unsigned_iff)
  also have "\<dots> \<longleftrightarrow> odd (unat b div 128)"
    by (simp add: bit_iff_odd)
  also have "\<dots> \<longleftrightarrow> 128 \<le> unat b"
  proof (cases "128 \<le> unat b")
    case True
    then have "unat b div 128 = 1" by (intro div_nat_eqI) auto
    with True show ?thesis by simp
  qed simp
  finally show ?thesis by linarith
qed

lemma byte_clear_high: "unat (b AND 0x7f :: byte) = unat b mod 128"
proof -
  have "b AND 0x7f = take_bit 7 b"
    by (simp add: take_bit_eq_mask mask_eq_decr_exp)
  then have "b AND 0x7f = b mod 128" by (simp add: take_bit_eq_mod)
  then show ?thesis by (simp add: unat_mod)
qed

lemma byte_set_high: "unat b < 128 \<Longrightarrow> unat (b OR 0x80 :: byte) = unat b + 128"
proof -
  assume "unat b < 128"
  then have "b AND 0x80 = 0" by (simp add: byte_high_bit)
  then have "b OR 0x80 = b + 0x80"
    using disjunctive_add_eq_or [of b "0x80"] by simp
  with \<open>unat b < 128\<close> show ?thesis by (simp add: unat_word_ariths)
qed

end
