(* ===== verification/MFC_Script.thy ===== *)
theory MFC_Script
  imports MFC_Prelude
begin

unbundle bit_operations_syntax

text \<open>
  The serialized script of \<^verbatim>\<open>src/src/script/script.h\<close> and \<^verbatim>\<open>script.cpp\<close>: opcodes, script numbers
  (\<^verbatim>\<open>CScriptNum\<close>), the append operators of \<^verbatim>\<open>CScript\<close>, instruction reading (\<^verbatim>\<open>GetOp2\<close>),
  \<^verbatim>\<open>FindAndDelete\<close>, \<^verbatim>\<open>Find\<close>, signature operation counting and the push-only test.

  A script is the list of its bytes. An iterator into it is either an index or the remaining
  suffix: \<open>GetOp2\<close> reads from the suffix and reports how many bytes it moved the iterator, also
  where it fails, because callers go on from the moved iterator. An \<^verbatim>\<open>opcodetype\<close> is the
  number of its enumerator.
\<close>

section \<open>Constants\<close>

abbreviation (input) MAX_SCRIPT_ELEMENT_SIZE :: nat where "MAX_SCRIPT_ELEMENT_SIZE \<equiv> 520"
abbreviation (input) MAX_OPS_PER_SCRIPT :: nat where "MAX_OPS_PER_SCRIPT \<equiv> 201"
abbreviation (input) MAX_PUBKEYS_PER_MULTISIG :: nat where "MAX_PUBKEYS_PER_MULTISIG \<equiv> 20"
abbreviation (input) MAX_SCRIPT_SIZE :: nat where "MAX_SCRIPT_SIZE \<equiv> 22000"
abbreviation (input) LOCKTIME_THRESHOLD :: int where "LOCKTIME_THRESHOLD \<equiv> 500000000"

type_synonym opcodetype = nat
type_synonym script = bytes
type_synonym valtype = bytes

abbreviation (input) OP_0 :: opcodetype where "OP_0 \<equiv> 0x00"
abbreviation (input) OP_PUSHDATA1 :: opcodetype where "OP_PUSHDATA1 \<equiv> 0x4c"
abbreviation (input) OP_PUSHDATA2 :: opcodetype where "OP_PUSHDATA2 \<equiv> 0x4d"
abbreviation (input) OP_PUSHDATA4 :: opcodetype where "OP_PUSHDATA4 \<equiv> 0x4e"
abbreviation (input) OP_1NEGATE :: opcodetype where "OP_1NEGATE \<equiv> 0x4f"
abbreviation (input) OP_RESERVED :: opcodetype where "OP_RESERVED \<equiv> 0x50"
abbreviation (input) OP_1 :: opcodetype where "OP_1 \<equiv> 0x51"
abbreviation (input) OP_16 :: opcodetype where "OP_16 \<equiv> 0x60"
abbreviation (input) OP_NOP :: opcodetype where "OP_NOP \<equiv> 0x61"
abbreviation (input) OP_IF :: opcodetype where "OP_IF \<equiv> 0x63"
abbreviation (input) OP_NOTIF :: opcodetype where "OP_NOTIF \<equiv> 0x64"
abbreviation (input) OP_ELSE :: opcodetype where "OP_ELSE \<equiv> 0x67"
abbreviation (input) OP_ENDIF :: opcodetype where "OP_ENDIF \<equiv> 0x68"
abbreviation (input) OP_VERIFY :: opcodetype where "OP_VERIFY \<equiv> 0x69"
abbreviation (input) OP_RETURN :: opcodetype where "OP_RETURN \<equiv> 0x6a"
abbreviation (input) OP_TOALTSTACK :: opcodetype where "OP_TOALTSTACK \<equiv> 0x6b"
abbreviation (input) OP_FROMALTSTACK :: opcodetype where "OP_FROMALTSTACK \<equiv> 0x6c"
abbreviation (input) OP_2DROP :: opcodetype where "OP_2DROP \<equiv> 0x6d"
abbreviation (input) OP_2DUP :: opcodetype where "OP_2DUP \<equiv> 0x6e"
abbreviation (input) OP_3DUP :: opcodetype where "OP_3DUP \<equiv> 0x6f"
abbreviation (input) OP_2OVER :: opcodetype where "OP_2OVER \<equiv> 0x70"
abbreviation (input) OP_2ROT :: opcodetype where "OP_2ROT \<equiv> 0x71"
abbreviation (input) OP_2SWAP :: opcodetype where "OP_2SWAP \<equiv> 0x72"
abbreviation (input) OP_IFDUP :: opcodetype where "OP_IFDUP \<equiv> 0x73"
abbreviation (input) OP_DEPTH :: opcodetype where "OP_DEPTH \<equiv> 0x74"
abbreviation (input) OP_DROP :: opcodetype where "OP_DROP \<equiv> 0x75"
abbreviation (input) OP_DUP :: opcodetype where "OP_DUP \<equiv> 0x76"
abbreviation (input) OP_NIP :: opcodetype where "OP_NIP \<equiv> 0x77"
abbreviation (input) OP_OVER :: opcodetype where "OP_OVER \<equiv> 0x78"
abbreviation (input) OP_PICK :: opcodetype where "OP_PICK \<equiv> 0x79"
abbreviation (input) OP_ROLL :: opcodetype where "OP_ROLL \<equiv> 0x7a"
abbreviation (input) OP_ROT :: opcodetype where "OP_ROT \<equiv> 0x7b"
abbreviation (input) OP_SWAP :: opcodetype where "OP_SWAP \<equiv> 0x7c"
abbreviation (input) OP_TUCK :: opcodetype where "OP_TUCK \<equiv> 0x7d"
abbreviation (input) OP_CAT :: opcodetype where "OP_CAT \<equiv> 0x7e"
abbreviation (input) OP_SUBSTR :: opcodetype where "OP_SUBSTR \<equiv> 0x7f"
abbreviation (input) OP_LEFT :: opcodetype where "OP_LEFT \<equiv> 0x80"
abbreviation (input) OP_RIGHT :: opcodetype where "OP_RIGHT \<equiv> 0x81"
abbreviation (input) OP_SIZE :: opcodetype where "OP_SIZE \<equiv> 0x82"
abbreviation (input) OP_INVERT :: opcodetype where "OP_INVERT \<equiv> 0x83"
abbreviation (input) OP_AND :: opcodetype where "OP_AND \<equiv> 0x84"
abbreviation (input) OP_OR :: opcodetype where "OP_OR \<equiv> 0x85"
abbreviation (input) OP_XOR :: opcodetype where "OP_XOR \<equiv> 0x86"
abbreviation (input) OP_EQUAL :: opcodetype where "OP_EQUAL \<equiv> 0x87"
abbreviation (input) OP_EQUALVERIFY :: opcodetype where "OP_EQUALVERIFY \<equiv> 0x88"
abbreviation (input) OP_1ADD :: opcodetype where "OP_1ADD \<equiv> 0x8b"
abbreviation (input) OP_1SUB :: opcodetype where "OP_1SUB \<equiv> 0x8c"
abbreviation (input) OP_2MUL :: opcodetype where "OP_2MUL \<equiv> 0x8d"
abbreviation (input) OP_2DIV :: opcodetype where "OP_2DIV \<equiv> 0x8e"
abbreviation (input) OP_NEGATE :: opcodetype where "OP_NEGATE \<equiv> 0x8f"
abbreviation (input) OP_ABS :: opcodetype where "OP_ABS \<equiv> 0x90"
abbreviation (input) OP_NOT :: opcodetype where "OP_NOT \<equiv> 0x91"
abbreviation (input) OP_0NOTEQUAL :: opcodetype where "OP_0NOTEQUAL \<equiv> 0x92"
abbreviation (input) OP_ADD :: opcodetype where "OP_ADD \<equiv> 0x93"
abbreviation (input) OP_SUB :: opcodetype where "OP_SUB \<equiv> 0x94"
abbreviation (input) OP_MUL :: opcodetype where "OP_MUL \<equiv> 0x95"
abbreviation (input) OP_DIV :: opcodetype where "OP_DIV \<equiv> 0x96"
abbreviation (input) OP_MOD :: opcodetype where "OP_MOD \<equiv> 0x97"
abbreviation (input) OP_LSHIFT :: opcodetype where "OP_LSHIFT \<equiv> 0x98"
abbreviation (input) OP_RSHIFT :: opcodetype where "OP_RSHIFT \<equiv> 0x99"
abbreviation (input) OP_BOOLAND :: opcodetype where "OP_BOOLAND \<equiv> 0x9a"
abbreviation (input) OP_BOOLOR :: opcodetype where "OP_BOOLOR \<equiv> 0x9b"
abbreviation (input) OP_NUMEQUAL :: opcodetype where "OP_NUMEQUAL \<equiv> 0x9c"
abbreviation (input) OP_NUMEQUALVERIFY :: opcodetype where "OP_NUMEQUALVERIFY \<equiv> 0x9d"
abbreviation (input) OP_NUMNOTEQUAL :: opcodetype where "OP_NUMNOTEQUAL \<equiv> 0x9e"
abbreviation (input) OP_LESSTHAN :: opcodetype where "OP_LESSTHAN \<equiv> 0x9f"
abbreviation (input) OP_GREATERTHAN :: opcodetype where "OP_GREATERTHAN \<equiv> 0xa0"
abbreviation (input) OP_LESSTHANOREQUAL :: opcodetype where "OP_LESSTHANOREQUAL \<equiv> 0xa1"
abbreviation (input) OP_GREATERTHANOREQUAL :: opcodetype where "OP_GREATERTHANOREQUAL \<equiv> 0xa2"
abbreviation (input) OP_MIN :: opcodetype where "OP_MIN \<equiv> 0xa3"
abbreviation (input) OP_MAX :: opcodetype where "OP_MAX \<equiv> 0xa4"
abbreviation (input) OP_WITHIN :: opcodetype where "OP_WITHIN \<equiv> 0xa5"
abbreviation (input) OP_RIPEMD160 :: opcodetype where "OP_RIPEMD160 \<equiv> 0xa6"
abbreviation (input) OP_SHA1 :: opcodetype where "OP_SHA1 \<equiv> 0xa7"
abbreviation (input) OP_SHA256 :: opcodetype where "OP_SHA256 \<equiv> 0xa8"
abbreviation (input) OP_HASH160 :: opcodetype where "OP_HASH160 \<equiv> 0xa9"
abbreviation (input) OP_HASH256 :: opcodetype where "OP_HASH256 \<equiv> 0xaa"
abbreviation (input) OP_CODESEPARATOR :: opcodetype where "OP_CODESEPARATOR \<equiv> 0xab"
abbreviation (input) OP_CHECKSIG :: opcodetype where "OP_CHECKSIG \<equiv> 0xac"
abbreviation (input) OP_CHECKSIGVERIFY :: opcodetype where "OP_CHECKSIGVERIFY \<equiv> 0xad"
abbreviation (input) OP_CHECKMULTISIG :: opcodetype where "OP_CHECKMULTISIG \<equiv> 0xae"
abbreviation (input) OP_CHECKMULTISIGVERIFY :: opcodetype where "OP_CHECKMULTISIGVERIFY \<equiv> 0xaf"
abbreviation (input) OP_NOP1 :: opcodetype where "OP_NOP1 \<equiv> 0xb0"
abbreviation (input) OP_CHECKLOCKTIMEVERIFY :: opcodetype where "OP_CHECKLOCKTIMEVERIFY \<equiv> 0xb1"
abbreviation (input) OP_CHECKSEQUENCEVERIFY :: opcodetype where "OP_CHECKSEQUENCEVERIFY \<equiv> 0xb2"
abbreviation (input) OP_NOP4 :: opcodetype where "OP_NOP4 \<equiv> 0xb3"
abbreviation (input) OP_NOP10 :: opcodetype where "OP_NOP10 \<equiv> 0xb9"
abbreviation (input) OP_INVALIDOPCODE :: opcodetype where "OP_INVALIDOPCODE \<equiv> 0xff"

section \<open>Script numbers\<close>

text \<open>
  A \<^verbatim>\<open>CScriptNum\<close> is its \<^verbatim>\<open>m_value\<close>. The constructor from bytes throws \<^verbatim>\<open>scriptnum_error\<close> on an
  operand that is too long or not minimal: \<open>None\<close>. The interpreter and the name decoder accept four or five
  bytes, so \<^verbatim>\<open>set_vch\<close> stays far inside the range of \<^verbatim>\<open>int64_t\<close>, and \<^verbatim>\<open>serialize\<close> is called on results of
  arithmetic on such numbers, lengths, rental days and heights. The two are modelled on unbounded integers; they agree
  with the 64-bit code for byte strings of at most eight bytes and for numbers above \<open>- 2 ^ 63\<close> and below \<open>2 ^ 63\<close>,
  and say nothing about it beyond.
\<close>

definition set_vch :: "bytes \<Rightarrow> int" where
  "set_vch vch =
     (if vch = [] then 0
      else let result = int (le_value vch) in
        if last vch AND 0x80 \<noteq> 0
        then - (result AND NOT (push_bit (8 * (length vch - 1)) 0x80))
        else result)"

definition CScriptNum :: "bytes \<Rightarrow> bool \<Rightarrow> nat \<Rightarrow> int option" where
  "CScriptNum vch fRequireMinimal nMaxNumSize =
     (if length vch > nMaxNumSize then None
      else if fRequireMinimal \<and> length vch > 0 \<and> last vch AND 0x7f = 0
              \<and> (length vch \<le> 1 \<or> (vch ! (length vch - 2)) AND 0x80 = 0) then None
      else Some (set_vch vch))"

definition getint :: "int \<Rightarrow> int" where
  "getint m_value =
     (if m_value > 2147483647 then 2147483647
      else if m_value < -2147483648 then -2147483648 else m_value)"

fun le_digits :: "nat \<Rightarrow> bytes" where
  "le_digits n = (if n = 0 then [] else of_nat (n mod 256) # le_digits (n div 256))"

declare le_digits.simps [simp del]

definition serialize :: "int \<Rightarrow> bytes" where
  "serialize value =
     (if value = 0 then []
      else let neg = value < 0; result = le_digits (nat \<bar>value\<bar>) in
        if last result AND 0x80 \<noteq> 0 then result @ [if neg then 0x80 else 0]
        else if neg then butlast result @ [last result OR 0x80]
        else result)"

section \<open>Building scripts\<close>

text \<open>\<^verbatim>\<open>operator<<(const std::vector<unsigned char>&)\<close>: a data push.\<close>

definition push_data :: "bytes \<Rightarrow> script" where
  "push_data b =
     (if length b < OP_PUSHDATA1 then [of_nat (length b)]
      else if length b \<le> 0xff then [of_nat OP_PUSHDATA1, of_nat (length b)]
      else if length b \<le> 0xffff then of_nat OP_PUSHDATA2 # WriteLE16 (length b)
      else of_nat OP_PUSHDATA4 # WriteLE32 (length b)) @ b"

text \<open>\<^verbatim>\<open>push_int64\<close>.\<close>

definition push_int64 :: "int \<Rightarrow> script" where
  "push_int64 n =
     (if n = -1 \<or> (1 \<le> n \<and> n \<le> 16) then [of_int (n + (int OP_1 - 1))]
      else if n = 0 then [of_nat OP_0]
      else push_data (serialize n))"

text \<open>\<^verbatim>\<open>operator<<(opcodetype)\<close>: a runtime error unless the opcode is a byte.\<close>

definition push_opcode :: "opcodetype \<Rightarrow> script option" where
  "push_opcode opcode = (if opcode > 0xff then None else Some [of_nat opcode])"

section \<open>Reading instructions\<close>

text \<open>
  \<open>GetOp2 r\<close> reads the instruction at the start of the suffix \<open>r\<close>. The result is whether it
  succeeded, by how much the iterator moved, the opcode and the immediate data.
\<close>

definition push_length :: "opcodetype \<Rightarrow> bytes \<Rightarrow> (nat \<times> nat) option" where
  "push_length opcode r =
     (if opcode < OP_PUSHDATA1 then Some (0, opcode)
      else if opcode = OP_PUSHDATA1 then
        (if length r < 1 then None else Some (1, unat (hd r)))
      else if opcode = OP_PUSHDATA2 then
        (if length r < 2 then None else Some (2, ReadLE16 r))
      else
        (if length r < 4 then None else Some (4, ReadLE32 r)))"

definition GetOp2 :: "bytes \<Rightarrow> bool \<times> nat \<times> opcodetype \<times> bytes" where
  "GetOp2 r =
     (case r of [] \<Rightarrow> (False, 0, OP_INVALIDOPCODE, [])
      | c # r1 \<Rightarrow>
        let opcode = unat c in
        if opcode \<le> OP_PUSHDATA4 then
          (case push_length opcode r1 of
             None \<Rightarrow> (False, 1, OP_INVALIDOPCODE, [])
           | Some (k, nSize) \<Rightarrow>
               if length r1 - k < nSize then (False, 1 + k, OP_INVALIDOPCODE, [])
               else (True, 1 + k + nSize, opcode, take nSize (drop k r1)))
        else (True, 1, opcode, []))"

definition GetOp :: "script \<Rightarrow> nat \<Rightarrow> bool \<times> nat \<times> opcodetype \<times> bytes" where
  "GetOp s pc = (case GetOp2 (drop pc s) of (ok, n, opcode, d) \<Rightarrow> (ok, pc + n, opcode, d))"

definition DecodeOP_N :: "opcodetype \<Rightarrow> nat option" where
  "DecodeOP_N opcode =
     (if opcode = OP_0 then Some 0
      else if OP_1 \<le> opcode \<and> opcode \<le> OP_16 then Some (opcode - (OP_1 - 1)) else None)"

definition EncodeOP_N :: "nat \<Rightarrow> opcodetype option" where
  "EncodeOP_N n = (if n > 16 then None else if n = 0 then Some OP_0 else Some (OP_1 + n - 1))"

subsection \<open>Facts about reading\<close>

lemma push_length_le: "push_length opcode r = Some (k, nSize) \<Longrightarrow> k \<le> length r"
  by (auto simp: push_length_def Suc_le_eq split: if_splits)

lemma GetOp2_Nil [simp]: "GetOp2 [] = (False, 0, OP_INVALIDOPCODE, [])"
  by (simp add: GetOp2_def)

lemma GetOp2_opcode [simp, script_simps]:
  "OP_PUSHDATA4 < unat c \<Longrightarrow> GetOp2 (c # r) = (True, 1, unat c, [])"
  by (simp add: GetOp2_def Let_def)

lemma GetOp2_moves_le: "GetOp2 r = (ok, n, opcode, d) \<Longrightarrow> n \<le> length r"
  by (auto simp: GetOp2_def Let_def split: list.splits if_splits option.splits dest!: push_length_le)

lemma GetOp2_ok_pos: "GetOp2 r = (True, n, opcode, d) \<Longrightarrow> 0 < n"
  by (auto simp: GetOp2_def Let_def split: list.splits if_splits option.splits)

lemma GetOp2_ok_opcode: "GetOp2 r = (True, n, opcode, d) \<Longrightarrow> r \<noteq> [] \<and> opcode = unat (hd r)"
  by (auto simp: GetOp2_def Let_def split: list.splits if_splits option.splits)

lemma GetOp2_shrinks [termination_simp]:
  "(True, n, opcode, d) = GetOp2 r \<Longrightarrow> length r - n < length r"
  by (metis GetOp2_ok_opcode GetOp2_ok_pos diff_less length_greater_0_conv)

lemma GetOp2_fail: "GetOp2 r = (False, n, opcode, d) \<Longrightarrow> opcode = OP_INVALIDOPCODE \<and> d = []"
  by (auto simp: GetOp2_def Let_def split: list.splits if_splits option.splits)

lemma push_length_append:
  "push_length opcode r = Some (k, nSize) \<Longrightarrow> push_length opcode (r @ r') = Some (k, nSize)"
  by (auto simp: push_length_def ReadLE16_def ReadLE32_def hd_append split: if_splits)

lemma GetOp2_append:
  assumes "GetOp2 r = (True, n, opcode, d)"
  shows "GetOp2 (r @ r') = (True, n, opcode, d)"
proof (cases r)
  case Nil
  with assms show ?thesis by simp
next
  case (Cons c r1)
  show ?thesis
  proof (cases "unat c \<le> OP_PUSHDATA4")
    case True
    with assms Cons obtain k nSize where
      pl: "push_length (unat c) r1 = Some (k, nSize)" and fits: "\<not> length r1 - k < nSize"
      and res: "n = 1 + k + nSize" "opcode = unat c" "d = take nSize (drop k r1)"
      by (auto simp: GetOp2_def Let_def split: option.splits if_splits)
    from push_length_le [OF pl] fits True Cons res push_length_append [OF pl, of r'] show ?thesis
      by (simp add: GetOp2_def Let_def)
  next
    case False
    with assms Cons show ?thesis by simp
  qed
qed

text \<open>Reading back a data push: any push shorter than \<open>2 ^ 32\<close> bytes is read whole.\<close>

definition push_opc :: "bytes \<Rightarrow> opcodetype" where
  "push_opc b =
     (if length b < OP_PUSHDATA1 then length b
      else if length b \<le> 0xff then OP_PUSHDATA1
      else if length b \<le> 0xffff then OP_PUSHDATA2 else OP_PUSHDATA4)"

lemma push_opc_le [simp]: "push_opc b \<le> OP_PUSHDATA4"
  by (simp add: push_opc_def)

lemma push_opc_not_drop [simp]: "push_opc b \<noteq> OP_DROP" "push_opc b \<noteq> OP_2DROP"
  by (auto simp: push_opc_def)

lemma unat_of_nat_small [simp]: "n < 256 \<Longrightarrow> unat (of_nat n :: byte) = n"
  by (simp add: unat_of_nat)

lemma GetOp2_push_data [simp, script_simps]:
  assumes "length b < 4294967296"
  shows "GetOp2 (push_data b @ r) = (True, length (push_data b), push_opc b, b)"
proof -
  consider "length b < OP_PUSHDATA1" | "OP_PUSHDATA1 \<le> length b" "length b \<le> 0xff"
    | "0xff < length b" "length b \<le> 0xffff" | "0xffff < length b"
    by linarith
  then show ?thesis
  proof cases
    case 1
    then show ?thesis
      by (simp add: GetOp2_def push_data_def push_opc_def push_length_def Let_def)
  next
    case 2
    then show ?thesis
      by (simp add: GetOp2_def push_data_def push_opc_def push_length_def Let_def)
  next
    case 3
    then show ?thesis
      by (simp add: GetOp2_def push_data_def push_opc_def push_length_def Let_def ReadLE_WriteLE)
  next
    case 4
    with assms show ?thesis
      by (simp add: GetOp2_def push_data_def push_opc_def push_length_def Let_def ReadLE_WriteLE)
  qed
qed

lemma push_data_neq_Nil [simp]: "push_data b \<noteq> []"
  by (simp add: push_data_def)

section \<open>Walking a script\<close>

text \<open>\<^verbatim>\<open>GetSigOpCount(bool)\<close>: stops at the first unreadable instruction.\<close>

function sigop_loop :: "bool \<Rightarrow> bytes \<Rightarrow> opcodetype \<Rightarrow> nat \<Rightarrow> nat" where
  "sigop_loop fAccurate r lastOpcode n =
     (case GetOp2 r of (ok, k, opcode, d) \<Rightarrow>
        if \<not> ok then n
        else sigop_loop fAccurate (drop k r) opcode
          (if opcode = OP_CHECKSIG \<or> opcode = OP_CHECKSIGVERIFY then n + 1
           else if opcode = OP_CHECKMULTISIG \<or> opcode = OP_CHECKMULTISIGVERIFY then
             (if fAccurate \<and> OP_1 \<le> lastOpcode \<and> lastOpcode \<le> OP_16
              then n + the (DecodeOP_N lastOpcode) else n + MAX_PUBKEYS_PER_MULTISIG)
           else n))"
  by pat_completeness auto
termination
  by (relation "measure (\<lambda>(_, r, _, _). length r)") (auto simp: GetOp2_shrinks)

declare sigop_loop.simps [simp del]

definition GetSigOpCount :: "script \<Rightarrow> bool \<Rightarrow> nat" where
  "GetSigOpCount s fAccurate = sigop_loop fAccurate s OP_INVALIDOPCODE 0"

text \<open>\<^verbatim>\<open>IsPushOnly\<close>; \<^verbatim>\<open>OP_RESERVED\<close> counts as a push.\<close>

function IsPushOnly :: "bytes \<Rightarrow> bool" where
  "IsPushOnly r =
     (if r = [] then True
      else case GetOp2 r of (ok, k, opcode, d) \<Rightarrow>
        if \<not> ok then False else if opcode > OP_16 then False else IsPushOnly (drop k r))"
  by pat_completeness auto
termination
  by (relation "measure length") (auto simp: GetOp2_shrinks)

declare IsPushOnly.simps [simp del]

text \<open>\<^verbatim>\<open>Find\<close>: how often an opcode occurs.\<close>

function Find :: "opcodetype \<Rightarrow> bytes \<Rightarrow> nat" where
  "Find opc r =
     (if r = [] then 0
      else case GetOp2 r of (ok, k, opcode, d) \<Rightarrow>
        if \<not> ok then 0 else (if opcode = opc then 1 else 0) + Find opc (drop k r))"
  by pat_completeness auto
termination
  by (relation "measure (\<lambda>(_, r). length r)") (auto simp: GetOp2_shrinks)

declare Find.simps [simp del]

text \<open>
  \<^verbatim>\<open>FindAndDelete\<close>: occurrences of \<open>b\<close> at instruction boundaries are removed. \<open>strip_prefix\<close> is
  the inner loop; the outer loop copies one instruction at a time until one cannot be read.
\<close>

lemma drop_shrinks: "b \<noteq> [] \<Longrightarrow> length b \<le> length r \<Longrightarrow> length r - length b < length r"
  by (cases b) auto

function strip_prefix :: "bytes \<Rightarrow> bytes \<Rightarrow> bytes \<times> nat" where
  "strip_prefix b r =
     (if b \<noteq> [] \<and> length r \<ge> length b \<and> take (length b) r = b
      then (case strip_prefix b (drop (length b) r) of (r', n) \<Rightarrow> (r', Suc n))
      else (r, 0))"
  by pat_completeness auto
termination
  by (relation "measure (\<lambda>(_, r). length r)") (auto intro: drop_shrinks)

declare strip_prefix.simps [simp del]

lemma strip_prefix_length:
  "strip_prefix b r = (r', n) \<Longrightarrow> length r = length r' + n * length b"
proof (induction b r arbitrary: r' n rule: strip_prefix.induct)
  case (1 b r)
  show ?case
  proof (cases "b \<noteq> [] \<and> length r \<ge> length b \<and> take (length b) r = b")
    case True
    obtain r1 m where s: "strip_prefix b (drop (length b) r) = (r1, m)" by fastforce
    with "1.prems" True have "r' = r1" "n = Suc m"
      by (auto simp: strip_prefix.simps [of b r])
    moreover from "1.IH" [OF True s] have "length r - length b = length r1 + m * length b"
      by simp
    then have "length r = length r1 + (length b + m * length b)" using True by linarith
    ultimately show ?thesis by simp
  next
    case False
    with "1.prems" show ?thesis by (auto simp: strip_prefix.simps [of b r])
  qed
qed

lemma strip_prefix_zero: "strip_prefix b r = (r', 0) \<Longrightarrow> r' = r"
  by (subst (asm) strip_prefix.simps) (auto split: if_splits prod.splits)

function delete_loop :: "bytes \<Rightarrow> bytes \<Rightarrow> bytes \<Rightarrow> nat \<Rightarrow> bytes \<times> nat" where
  "delete_loop b r result nFound =
     (case strip_prefix b r of (r1, m) \<Rightarrow>
        case GetOp2 r1 of (ok, k, opcode, d) \<Rightarrow>
          if ok then delete_loop b (drop k r1) (result @ take k r1) (nFound + m)
          else (result @ r1, nFound + m))"
  by pat_completeness auto
termination
  by (relation "measure (\<lambda>(_, r, _, _). length r)")
    (auto dest!: strip_prefix_length [OF sym] GetOp2_shrinks)

declare delete_loop.simps [simp del]

definition FindAndDelete :: "script \<Rightarrow> script \<Rightarrow> script \<times> nat" where
  "FindAndDelete s b =
     (if b = [] then (s, 0)
      else case delete_loop b s [] 0 of (result, nFound) \<Rightarrow>
        if nFound > 0 then (result, nFound) else (s, nFound))"

lemma delete_loop_length:
  "delete_loop b r result nFound = (res, n) \<Longrightarrow>
     nFound \<le> n \<and> length res + (n - nFound) * length b = length result + length r"
proof (induction b r result nFound arbitrary: res n rule: delete_loop.induct)
  case (1 b r result nFound)
  obtain r1 m where s: "strip_prefix b r = (r1, m)" by fastforce
  obtain ok k opcode d where g: "GetOp2 r1 = (ok, k, opcode, d)" by (metis prod_cases4)
  note len = strip_prefix_length [OF s]
  show ?case
  proof (cases ok)
    case True
    with "1.prems" s g
    have "delete_loop b (drop k r1) (result @ take k r1) (nFound + m) = (res, n)"
      by (simp add: delete_loop.simps [of b r])
    from "1.IH" [OF s [symmetric] g [symmetric] refl refl True this] len
      GetOp2_moves_le [OF g] have
      a: "nFound + m \<le> n" "length res + (n - (nFound + m)) * length b = length result + length r1"
      by auto
    have "(n - nFound) * length b = (n - (nFound + m)) * length b + m * length b"
      using a(1) by (simp flip: add_mult_distrib)
    with a len show ?thesis by simp
  next
    case False
    with "1.prems" s g len show ?thesis by (auto simp: delete_loop.simps [of b r])
  qed
qed

section \<open>Script numbers: encoding and decoding\<close>

lemma le_digits_0 [simp]: "le_digits 0 = []"
  by (simp add: le_digits.simps)

lemma le_digits_Nil_iff [simp]: "le_digits n = [] \<longleftrightarrow> n = 0"
  by (subst le_digits.simps) simp

lemma le_value_le_digits [simp]: "le_value (le_digits n) = n"
proof (induction n rule: le_digits.induct)
  case (1 n)
  then show ?case by (cases "n = 0") (simp_all add: le_digits.simps [of n])
qed

lemma last_le_digits: "n \<noteq> 0 \<Longrightarrow> last (le_digits n) \<noteq> 0"
proof (induction n rule: le_digits.induct)
  case (1 n)
  have nz: "(of_nat (n mod 256) :: byte) \<noteq> 0" if "n < 256"
    using that "1.prems" by (metis mod_less unat_of_nat_byte unat_0)
  show ?case
  proof (cases "n < 256")
    case True
    with nz "1.prems" show ?thesis by (simp add: le_digits.simps [of n])
  next
    case False
    then have "n div 256 \<noteq> 0" by simp
    with "1" show ?thesis by (simp add: le_digits.simps [of n])
  qed
qed

lemma length_le_digits_le: "n < 256 ^ k \<Longrightarrow> length (le_digits n) \<le> k"
proof (induction n arbitrary: k rule: le_digits.induct)
  case (1 n)
  show ?case
  proof (cases "n = 0")
    case False
    with "1.prems" obtain k' where k: "k = Suc k'" by (cases k) auto
    with "1.prems" have "n div 256 < 256 ^ k'" by (simp add: div_less_iff_less_mult mult.commute)
    from "1.IH" [OF False this] False k show ?thesis by (simp add: le_digits.simps [of n])
  qed simp
qed

lemma le_value_snoc: "le_value (ds @ [b]) = le_value ds + 256 ^ length ds * unat b"
  by (simp add: le_value_append)

lemma set_vch_snoc:
  "set_vch (ds @ [b]) =
     (if 128 \<le> unat b then - (int (le_value ds) + 256 ^ length ds * (int (unat b) - 128))
      else int (le_value ds) + 256 ^ length ds * int (unat b))"
proof (cases "128 \<le> unat b")
  case True
  let ?v = "int (le_value (ds @ [b]))" and ?m = "push_bit (8 * length ds) (0x80 :: int)"
  have m: "?m = 2 ^ (8 * length ds + 7)"
    by (simp add: push_bit_eq_mult power_add)
  have pw: "(2 :: nat) ^ (8 * length ds + 7) = 256 ^ length ds * 128"
    by (simp add: power_add power_mult)
  have "le_value (ds @ [b]) div 2 ^ (8 * length ds + 7) = unat b div 128"
    using le_value_lt [of ds]
    by (simp only: pw le_value_snoc div_mult2_eq) (simp add: div_mult_self2)
  also have "\<dots> = 1" using True by (intro div_nat_eqI) auto
  finally have "bit (le_value (ds @ [b])) (8 * length ds + 7)"
    by (simp add: bit_iff_odd)
  then have "bit ?v (8 * length ds + 7)"
    by (simp only: bit_of_nat_iff) simp
  then have "NOT ?v AND ?m = 0"
    by (simp only: m and_exp_eq_0_iff_not_bit) (simp add: bit_not_iff)
  then have "?v AND NOT ?m = ?v - ?m"
    by (simp add: disjunctive_diff_eq_and_not)
  moreover have "?m = 256 ^ length ds * 128"
    by (simp only: m power_add power_mult) simp
  moreover have "b AND 0x80 \<noteq> 0" using True by (simp add: byte_high_bit)
  ultimately show ?thesis using True
    by (simp add: set_vch_def Let_def le_value_snoc algebra_simps)
next
  case False
  then have "b AND 0x80 = 0" by (simp add: byte_high_bit)
  with False show ?thesis by (simp add: set_vch_def Let_def le_value_snoc)
qed

lemma le_digits_snoc: "v \<noteq> 0 \<Longrightarrow> \<exists>ds b. le_digits v = ds @ [b] \<and> b \<noteq> 0"
  by (metis append_butlast_last_id last_le_digits le_digits_Nil_iff)

lemma int_le_digits_snoc:
  "le_digits v = ds @ [b] \<Longrightarrow> int v = int (le_value ds) + 256 ^ length ds * int (unat b)"
  using le_value_le_digits [of v] by (auto simp: le_value_snoc)

lemma serialize_cases:
  assumes "value \<noteq> 0" "le_digits (nat \<bar>value\<bar>) = ds @ [b]"
  shows "serialize value =
    (if 128 \<le> unat b then (ds @ [b]) @ [if value < 0 then 0x80 else 0]
     else ds @ [if value < 0 then b OR 0x80 else b])"
  using assms byte_high_bit [of b] by (auto simp: serialize_def Let_def)

lemma set_vch_serialize [simp]: "set_vch (serialize value) = value"
proof (cases "value = 0")
  case True
  then show ?thesis by (simp add: serialize_def set_vch_def)
next
  case False
  then obtain ds b where d: "le_digits (nat \<bar>value\<bar>) = ds @ [b]"
    using le_digits_snoc [of "nat \<bar>value\<bar>"] by auto
  then have v: "\<bar>value\<bar> = int (le_value ds) + 256 ^ length ds * int (unat b)"
    using int_le_digits_snoc by fastforce
  show ?thesis
  proof (cases "128 \<le> unat b")
    case True
    then have "serialize value = (ds @ [b]) @ [if value < 0 then 0x80 else 0]"
      using serialize_cases [OF False d] by simp
    moreover have "int (le_value (ds @ [b])) = \<bar>value\<bar>"
      by (simp add: le_value_snoc v)
    ultimately show ?thesis by (simp add: set_vch_snoc del: append_assoc append.simps)
  next
    case nb: False
    then have ser: "serialize value = ds @ [if value < 0 then b OR 0x80 else b]"
      using serialize_cases [OF False d] by simp
    show ?thesis
    proof (cases "value < 0")
      case True
      with nb ser v show ?thesis by (simp add: set_vch_snoc byte_set_high)
    next
      case False
      with nb ser v show ?thesis by (simp add: set_vch_snoc)
    qed
  qed
qed

lemma length_serialize:
  assumes "\<bar>value\<bar> < 128 * 256 ^ k"
  shows "length (serialize value) \<le> Suc k"
proof (cases "value = 0")
  case False
  let ?n = "nat \<bar>value\<bar>"
  from False obtain ds b where d: "le_digits ?n = ds @ [b]" and "b \<noteq> 0"
    using le_digits_snoc [of ?n] by auto
  then have v: "\<bar>value\<bar> = int (le_value ds) + 256 ^ length ds * int (unat b)"
    using int_le_digits_snoc by fastforce
  have "int ?n < 256 ^ Suc k" using assms by simp
  then have "?n < 256 ^ Suc k" by (metis of_nat_less_iff of_nat_numeral of_nat_power)
  from length_le_digits_le [OF this] d have lk: "length ds \<le> k" by simp
  show ?thesis
  proof (cases "128 \<le> unat b")
    case True
    have "(256 :: int) ^ length ds * 128 \<le> 256 ^ length ds * int (unat b)"
      using True by (intro mult_left_mono) (linarith, simp)
    with v assms have "(256 :: int) ^ length ds * 128 < 128 * 256 ^ k" by linarith
    then have "(256 :: int) ^ length ds < 256 ^ k" by simp
    then have "length ds < k" by (simp add: power_strict_increasing_iff)
    with True serialize_cases [OF False d] show ?thesis by simp
  next
    case False
    with lk serialize_cases [OF \<open>value \<noteq> 0\<close> d] show ?thesis by simp
  qed
qed (simp add: serialize_def)

lemma serialize_minimal:
  assumes "serialize value \<noteq> []" "last (serialize value) AND 0x7f = 0"
  shows "length (serialize value) > 1 \<and>
    (serialize value ! (length (serialize value) - 2)) AND 0x80 \<noteq> 0"
proof -
  have nz: "value \<noteq> 0" using assms(1) by (auto simp: serialize_def)
  then obtain ds b where d: "le_digits (nat \<bar>value\<bar>) = ds @ [b]" and b: "b \<noteq> 0"
    using le_digits_snoc [of "nat \<bar>value\<bar>"] by auto
  have nb: "unat (last (serialize value)) mod 128 = 0"
    using assms(2) by (metis byte_clear_high unat_0)
  show ?thesis
  proof (cases "128 \<le> unat b")
    case True
    then show ?thesis
      using serialize_cases [OF nz d] by (simp add: nth_append byte_high_bit)
  next
    case False
    moreover from b have "unat b \<noteq> 0" by (simp add: unat_gt_0)
    ultimately have "unat (if value < 0 then b OR 0x80 else b) mod 128 = unat b"
      by (simp add: byte_set_high)
    with False nb \<open>unat b \<noteq> 0\<close> serialize_cases [OF nz d] show ?thesis by simp
  qed
qed

text \<open>A number in range survives the trip through its encoding, minimality demanded or not.\<close>

lemma CScriptNum_serialize:
  assumes "\<bar>value\<bar> < 128 * 256 ^ k"
  shows "CScriptNum (serialize value) fRequireMinimal (Suc k) = Some value"
proof -
  have "\<not> (serialize value \<noteq> [] \<and> last (serialize value) AND 0x7f = 0
      \<and> (length (serialize value) \<le> 1
         \<or> (serialize value ! (length (serialize value) - 2)) AND 0x80 = 0))"
    using serialize_minimal [of "value"] by force
  with length_serialize [OF assms] show ?thesis
    by (simp add: CScriptNum_def)
qed

lemma le_digits_le_value: "ds = [] \<or> last ds \<noteq> 0 \<Longrightarrow> le_digits (le_value ds) = ds"
proof (induction ds)
  case (Cons d ds)
  have IH: "le_digits (le_value ds) = ds"
    using Cons.prems by (cases "ds = []") (auto intro: Cons.IH)
  have pos: "unat d + 256 * le_value ds \<noteq> 0"
  proof (cases "ds = []")
    case True
    with Cons.prems show ?thesis by (simp add: unat_eq_zero)
  next
    case False
    with IH have "le_value ds \<noteq> 0" by (cases "le_value ds = 0") simp_all
    then show ?thesis by simp
  qed
  note IH
  moreover have "(unat d + 256 * le_value ds) div 256 = le_value ds"
      "(unat d + 256 * le_value ds) mod 256 = unat d"
    by simp_all
  ultimately show ?case using pos by (simp add: le_digits.simps [of "unat d + 256 * le_value ds"])
qed simp

lemma serialize_of_digits:
  assumes "nat \<bar>x\<bar> = le_value (ds @ [b])" and "b \<noteq> 0"
  shows "serialize x = (if 128 \<le> unat b then ds @ [b, if x < 0 then 0x80 else 0]
      else ds @ [if x < 0 then b OR 0x80 else b])"
proof -
  have d: "le_digits (nat \<bar>x\<bar>) = ds @ [b]"
    using assms le_digits_le_value [of "ds @ [b]"] by simp
  have "x \<noteq> 0" using d by auto
  from serialize_cases [OF this d] show ?thesis by simp
qed

lemma set_vch_bound:
  assumes "length vch \<le> Suc k"
  shows "\<bar>set_vch vch\<bar> < 128 * 256 ^ k"
proof (cases vch rule: rev_cases)
  case Nil
  then show ?thesis by (simp add: set_vch_def)
next
  case (snoc ds b)
  let ?p = "256 ^ length ds :: int"
  have lt: "int (le_value ds) < ?p"
    using le_value_lt [of ds] by (metis of_nat_less_iff of_nat_numeral of_nat_power)
  have top: "?p * c + ?p \<le> 128 * ?p" if "c \<le> 127" for c :: int
    using that mult_left_mono [of "c + 1" 128 ?p] by (simp add: algebra_simps)
  have "?p \<le> 256 ^ k" using assms snoc by (simp add: power_increasing)
  moreover have "\<bar>set_vch vch\<bar> < 128 * ?p"
  proof (cases "128 \<le> unat b")
    case True
    then have "set_vch vch = - (int (le_value ds) + ?p * (int (unat b) - 128))"
      unfolding snoc set_vch_snoc by simp
    moreover have "0 \<le> int (unat b) - 128" using True by linarith
    then have "0 \<le> ?p * (int (unat b) - 128)" by (intro mult_nonneg_nonneg) simp_all
    ultimately have "\<bar>set_vch vch\<bar> = int (le_value ds) + ?p * (int (unat b) - 128)"
      by linarith
    moreover have "int (unat b) - 128 \<le> 127" using unat_byte_le [of b] by linarith
    ultimately show ?thesis using lt top [of "int (unat b) - 128"] by linarith
  next
    case False
    then have "\<bar>set_vch vch\<bar> = int (le_value ds) + ?p * int (unat b)"
      by (simp add: snoc set_vch_snoc)
    moreover have "int (unat b) \<le> 127" using False by linarith
    ultimately show ?thesis using lt top [of "int (unat b)"] by linarith
  qed
  ultimately show ?thesis by linarith
qed

lemma serialize_set_vch:
  assumes "CScriptNum vch True n = Some x"
  shows "serialize x = vch"
proof (cases vch rule: rev_cases)
  case Nil
  with assms show ?thesis by (auto simp: CScriptNum_def set_vch_def serialize_def split: if_splits)
next
  case (snoc ds b)
  let ?p = "256 ^ length ds :: int"
  from assms have x: "x = set_vch (ds @ [b])" by (auto simp: CScriptNum_def snoc split: if_splits)
  from assms have m: "b AND 0x7f \<noteq> 0 \<or> ds \<noteq> [] \<and> 128 \<le> unat (last ds)"
    by (cases ds rule: rev_cases)
      (auto simp: CScriptNum_def snoc nth_append byte_high_bit split: if_splits)
  have b7: "b AND 0x7f = 0 \<longleftrightarrow> unat b mod 128 = 0"
    by (metis byte_clear_high unat_eq_zero)
  consider (big) "128 < unat b" | (top) "unat b = 128" | (mid) "0 < unat b" "unat b < 128"
    | (zero) "unat b = 0"
    by linarith
  then show ?thesis
  proof cases
    case big
    define b' where "b' = b - 0x80"
    have b': "unat b' = unat b - 128"
      using big by (simp add: b'_def unat_sub word_le_nat_alt)
    have lt: "unat b' < 128" using b' big unat_byte_le [of b] by linarith
    have nz: "b' \<noteq> 0" using b' big by auto
    have bb: "b' OR 0x80 = b"
      using byte_set_high [OF lt] b' big by (metis le_add_diff_inverse2 less_imp_le word_unat_eq_iff)
    have "x = - int (le_value (ds @ [b']))"
      using big b' by (simp add: x set_vch_snoc le_value_snoc of_nat_diff)
    moreover from nz have "le_value (ds @ [b']) \<noteq> 0"
      by (simp add: le_value_snoc unat_eq_zero)
    ultimately show ?thesis
      using serialize_of_digits [of x ds b'] lt nz bb by (simp add: snoc)
  next
    case top
    with m b7 have ne: "ds \<noteq> []" "128 \<le> unat (last ds)" by auto
    then obtain es c where ds: "ds = es @ [c]" by (metis append_butlast_last_id)
    have c: "128 \<le> unat c" "c \<noteq> 0" using ne ds by auto
    have "x = - int (le_value ds)" using top by (simp add: x set_vch_snoc)
    moreover have "le_value ds \<noteq> 0" using c by (simp add: ds le_value_snoc unat_eq_zero)
    moreover have "b = 0x80" using top by (simp add: word_unat_eq_iff)
    ultimately show ?thesis using serialize_of_digits [of x es c] c by (simp add: snoc ds)
  next
    case mid
    then have "b \<noteq> 0" by auto
    moreover have "x = int (le_value (ds @ [b]))" using mid by (simp add: x set_vch_snoc le_value_snoc)
    ultimately show ?thesis using serialize_of_digits [of x ds b] mid by (simp add: snoc)
  next
    case zero
    with m b7 have ne: "ds \<noteq> []" "128 \<le> unat (last ds)" by auto
    then obtain es c where ds: "ds = es @ [c]" by (metis append_butlast_last_id)
    have c: "128 \<le> unat c" "c \<noteq> 0" using ne ds by auto
    have "x = int (le_value ds)" using zero by (simp add: x set_vch_snoc)
    moreover have "b = 0" using zero by (simp add: unat_eq_zero)
    ultimately show ?thesis using serialize_of_digits [of x es c] c by (simp add: snoc ds)
  qed
qed

section \<open>Properties\<close>

text \<open>C16: with minimality demanded, the byte strings that the script number constructor accepts
  at a size limit of \<open>k + 1\<close> bytes are exactly the serializations of the numbers below
  \<open>128 * 256 ^ k\<close> in magnitude, and each of them reads back as the number it encodes.\<close>

theorem scriptnum_minimal_iff:
  "CScriptNum vch True (Suc k) = Some x \<longleftrightarrow> vch = serialize x \<and> \<bar>x\<bar> < 128 * 256 ^ k"
proof
  assume a: "CScriptNum vch True (Suc k) = Some x"
  then have "length vch \<le> Suc k" "x = set_vch vch" by (auto simp: CScriptNum_def split: if_splits)
  with set_vch_bound serialize_set_vch [OF a] show "vch = serialize x \<and> \<bar>x\<bar> < 128 * 256 ^ k"
    by simp
qed (simp add: CScriptNum_serialize)

text \<open>\<^verbatim>\<open>FindAndDelete\<close> accounts for every byte: the script it leaves is shorter by exactly
  the number of removed occurrences times the length of the pattern, and with no occurrence the
  script is unchanged.\<close>

theorem FindAndDelete_length:
  "length (fst (FindAndDelete s b)) + snd (FindAndDelete s b) * length b = length s
   \<and> (snd (FindAndDelete s b) = 0 \<longrightarrow> fst (FindAndDelete s b) = s)"
proof (cases "b = []")
  case False
  obtain res n where d: "delete_loop b s [] 0 = (res, n)" by fastforce
  with delete_loop_length [OF d] False show ?thesis by (simp add: FindAndDelete_def)
qed (simp add: FindAndDelete_def)

theorem FindAndDelete_length_witness:
  "fst (FindAndDelete [0x51, 0xac] [0x75]) = [0x51, 0xac]"
proof -
  have "snd (FindAndDelete [0x51, 0xac] [0x75]) = 0"
    by (simp add: FindAndDelete_def delete_loop.simps strip_prefix.simps)
  then show ?thesis using FindAndDelete_length [of "[0x51, 0xac]" "[0x75]"] by simp
qed

end
