(* ===== verification/MFC_NameScript.thy ===== *)
theory MFC_NameScript
  imports MFC_Script
begin

unbundle bit_operations_syntax

text \<open>
  The name scripts of MFCoin: the prefix of an output script that registers, updates or deletes
  a name (\<^verbatim>\<open>createNameScript\<close> of \<^verbatim>\<open>src/src/namecoin.cpp\<close>, \<^verbatim>\<open>checkNameValues\<close>,
  \<^verbatim>\<open>DecodeNameScript\<close> and \<^verbatim>\<open>RemoveNameScriptPrefix\<close> of \<^verbatim>\<open>src/src/script/script.cpp\<close>), and the
  template tests that look through such a prefix.

  \<^verbatim>\<open>DecodeNameScript\<close> fills its argument \<^verbatim>\<open>ret\<close> and moves the iterator \<^verbatim>\<open>pc\<close>; both are returned
  here, on failure too. The number it reads for the rental days may throw, and nothing in it
  catches that: \<open>Inl scriptnum_error\<close>.
\<close>

section \<open>Data\<close>

abbreviation (input) NAMECOIN_TX_VERSION :: int where "NAMECOIN_TX_VERSION \<equiv> 0x0666"
abbreviation (input) MAX_NAME_LENGTH :: nat where "MAX_NAME_LENGTH \<equiv> 512"
abbreviation (input) MAX_VALUE_LENGTH :: nat where "MAX_VALUE_LENGTH \<equiv> 20480"
abbreviation (input) MAX_RENTAL_DAYS :: int where "MAX_RENTAL_DAYS \<equiv> 366000000"

abbreviation (input) OP_NAME_NEW :: int where "OP_NAME_NEW \<equiv> 1"
abbreviation (input) OP_NAME_UPDATE :: int where "OP_NAME_UPDATE \<equiv> 2"
abbreviation (input) OP_NAME_DELETE :: int where "OP_NAME_DELETE \<equiv> 3"

type_synonym CNameVal = bytes

record NameTxInfo =
  nti_name :: CNameVal
  nti_value :: CNameVal
  nti_nRentalDays :: int
  nti_op :: int
  nti_nOut :: int
  nti_err_msg :: string
  nti_strAddress :: string
  nti_fIsMine :: bool
  nti_nExpiresAt :: int

definition NameTxInfo0 :: NameTxInfo where
  "NameTxInfo0 = \<lparr>nti_name = [], nti_value = [], nti_nRentalDays = -1, nti_op = -1, nti_nOut = -1,
     nti_err_msg = '''', nti_strAddress = '''', nti_fIsMine = False, nti_nExpiresAt = -1\<rparr>"

lemma NameTxInfo0_sel [simp]:
  "nti_name NameTxInfo0 = []" "nti_value NameTxInfo0 = []" "nti_nRentalDays NameTxInfo0 = -1"
  "nti_op NameTxInfo0 = -1" "nti_nOut NameTxInfo0 = -1" "nti_err_msg NameTxInfo0 = []"
  "nti_strAddress NameTxInfo0 = []"
  by (simp_all add: NameTxInfo0_def)

lemma NameTxInfo0_err [simp]: "NameTxInfo0\<lparr>nti_err_msg := []\<rparr> = NameTxInfo0"
  by (simp add: NameTxInfo0_def)

datatype cpp_exn = scriptnum_error

section \<open>Limits\<close>

definition nl :: string where
  "nl = [CHR 0x0A]"

definition checkNameValues :: "NameTxInfo \<Rightarrow> bool \<times> NameTxInfo" where
  "checkNameValues ret =
     (let msg =
        (if length (nti_name ret) > MAX_NAME_LENGTH then ''name is too long.'' @ nl else []) @
        (if length (nti_value ret) > MAX_VALUE_LENGTH then ''value is too long.'' @ nl else []) @
        (if nti_op ret = OP_NAME_NEW \<and> nti_nRentalDays ret < 1
         then ''rental days must be greater than 0.'' @ nl else []) @
        (if nti_op ret = OP_NAME_UPDATE \<and> nti_nRentalDays ret < 0
         then ''rental days must be greater or equal 0.'' @ nl else []) @
        (if nti_nRentalDays ret > MAX_RENTAL_DAYS
         then ''rental days value is too large.'' @ nl else [])
      in (msg = '''', ret\<lparr>nti_err_msg := msg\<rparr>))"

definition name_limits_ok :: "NameTxInfo \<Rightarrow> bool" where
  "name_limits_ok ret \<longleftrightarrow>
     length (nti_name ret) \<le> MAX_NAME_LENGTH \<and> length (nti_value ret) \<le> MAX_VALUE_LENGTH
     \<and> (nti_op ret = OP_NAME_NEW \<longrightarrow> 1 \<le> nti_nRentalDays ret)
     \<and> (nti_op ret = OP_NAME_UPDATE \<longrightarrow> 0 \<le> nti_nRentalDays ret)
     \<and> nti_nRentalDays ret \<le> MAX_RENTAL_DAYS"

lemma checkNameValues_ok_iff: "fst (checkNameValues ret) \<longleftrightarrow> name_limits_ok ret"
  by (auto simp: checkNameValues_def Let_def name_limits_ok_def split: if_split)

lemma checkNameValues_good:
  "name_limits_ok ret \<Longrightarrow> nti_err_msg ret = [] \<Longrightarrow> checkNameValues ret = (True, ret)"
  by (auto simp: checkNameValues_def Let_def name_limits_ok_def)

lemma checkNameValues_err_msg [simp]:
  "checkNameValues (ret\<lparr>nti_err_msg := m\<rparr>) = checkNameValues ret"
  by (simp add: checkNameValues_def Let_def)

section \<open>Decoding\<close>

text \<open>The loop that collects the value pushes, up to the first drop.\<close>

function read_value_loop :: "script \<Rightarrow> nat \<Rightarrow> CNameVal \<Rightarrow> nat \<Rightarrow> bool \<times> nat \<times> opcodetype \<times> CNameVal \<times> nat"
  where
  "read_value_loop s pc v valueSize =
     (case GetOp s pc of (ok, pc', opcode, vch) \<Rightarrow>
        if \<not> ok then (False, pc', opcode, v, valueSize)
        else if opcode = OP_DROP \<or> opcode = OP_2DROP then (True, pc', opcode, v, valueSize)
        else if \<not> opcode \<le> OP_PUSHDATA4 then (False, pc', opcode, v, valueSize)
        else read_value_loop s pc' (v @ vch) (Suc valueSize))"
  by pat_completeness auto

lemma GetOp_ok_moves:
  assumes "(True, pc', opcode, d) = GetOp s pc"
  shows "pc < pc' \<and> pc' \<le> length s"
proof -
  obtain n where g: "GetOp2 (drop pc s) = (True, n, opcode, d)" and n: "pc' = pc + n"
    using assms by (auto simp: GetOp_def split: prod.splits)
  have "0 < n" "n \<le> length s - pc"
    using GetOp2_ok_pos [OF g] GetOp2_moves_le [OF g] by simp_all
  with n show ?thesis by simp
qed

termination read_value_loop
  by (relation "measure (\<lambda>(s, pc, _, _). length s - pc)") (auto dest!: GetOp_ok_moves)

declare read_value_loop.simps [simp del]

text \<open>The loop over the drops that follow; it reads one instruction past them.\<close>

function read_drops_loop :: "script \<Rightarrow> nat \<Rightarrow> opcodetype \<Rightarrow> nat \<Rightarrow> nat \<times> nat" where
  "read_drops_loop s pc opcode delimiterSize =
     (if opcode = OP_DROP \<or> opcode = OP_2DROP then
        (case GetOp s pc of (ok, pc', opcode', vch) \<Rightarrow>
           if \<not> ok then (pc', delimiterSize)
           else read_drops_loop s pc' opcode'
             (delimiterSize + (if opcode' = OP_2DROP then 2 else 0)
                            + (if opcode' = OP_DROP then 1 else 0)))
      else (pc, delimiterSize))"
  by pat_completeness auto
termination read_drops_loop
  by (relation "measure (\<lambda>(s, pc, _, _). length s - pc)") (auto dest!: GetOp_ok_moves)

declare read_drops_loop.simps [simp del]

definition is_push :: "opcodetype \<Rightarrow> bool" where
  "is_push opcode \<longleftrightarrow> \<not> (opcode = OP_DROP \<or> opcode = OP_2DROP) \<and> opcode \<le> OP_PUSHDATA4"

text \<open>The value part and the closing checks of a \<^verbatim>\<open>name_new\<close> or \<^verbatim>\<open>name_update\<close> script.\<close>

definition decode_value_part :: "script \<Rightarrow> NameTxInfo \<Rightarrow> nat \<Rightarrow> bool \<times> NameTxInfo \<times> nat" where
  "decode_value_part s ret pc =
     (case read_value_loop s pc (nti_value ret) 0 of (ok, pc, opcode, v, valueSize) \<Rightarrow>
        let ret = ret\<lparr>nti_value := v, nti_err_msg := ''failed to read value''\<rparr> in
        if \<not> ok then (False, ret, pc)
        else case read_drops_loop s (pc - 1) opcode 0 of (pc, delimiterSize) \<Rightarrow>
          let pc = pc - 1;
              ret = ret\<lparr>nti_err_msg :=
                ''failed to read correct number of DROP operations after value''\<rparr> in
          if valueSize \<noteq> delimiterSize then (False, ret, pc)
          else case checkNameValues ret of (good, ret) \<Rightarrow> (good, ret, pc))"

text \<open>The rental days and the delimiter after them.\<close>

definition decode_days_part ::
    "script \<Rightarrow> NameTxInfo \<Rightarrow> nat \<Rightarrow> cpp_exn + bool \<times> NameTxInfo \<times> nat" where
  "decode_days_part s ret pc =
     (let ret = ret\<lparr>nti_err_msg := ''failed to read rental days''\<rparr> in
      case GetOp s pc of (ok, pc, opcode, vch) \<Rightarrow>
        if \<not> ok \<or> \<not> is_push opcode then Inr (False, ret, pc)
        else case CScriptNum vch False 4 of
          None \<Rightarrow> Inl scriptnum_error
        | Some m_value \<Rightarrow>
            let ret = ret\<lparr>nti_nRentalDays := getint m_value, nti_err_msg :=
                  ''failed to read delimeter d in: name << rental << d << value''\<rparr> in
            case GetOp s pc of (ok, pc, opcode, vch) \<Rightarrow>
              if \<not> ok \<or> opcode \<noteq> OP_2DROP then Inr (False, ret, pc)
              else Inr (decode_value_part s ret pc))"

definition DecodeNameScript ::
    "script \<Rightarrow> NameTxInfo \<Rightarrow> nat \<Rightarrow> cpp_exn + bool \<times> NameTxInfo \<times> nat" where
  "DecodeNameScript s ret pc =
     (let ret = ret\<lparr>nti_err_msg := ''failed to read op''\<rparr> in
      case GetOp s pc of (ok, pc, opcode, vch) \<Rightarrow>
        if \<not> ok \<or> opcode < OP_1 \<or> opcode > OP_16 then Inr (False, ret, pc)
        else
          let ret = ret\<lparr>nti_op := int opcode - int OP_1 + 1\<rparr> in
          if nti_op ret \<noteq> OP_NAME_NEW \<and> nti_op ret \<noteq> OP_NAME_UPDATE \<and> nti_op ret \<noteq> OP_NAME_DELETE
          then Inr (False, ret, pc)
          else
            let ret = ret\<lparr>nti_err_msg := ''failed to read OP_DROP after op_type''\<rparr> in
            case GetOp s pc of (ok, pc, opcode, vch) \<Rightarrow>
              if \<not> ok \<or> opcode \<noteq> OP_DROP then Inr (False, ret, pc)
              else
                let ret = ret\<lparr>nti_err_msg := ''failed to read name''\<rparr> in
                case GetOp s pc of (ok, pc, opcode, vch) \<Rightarrow>
                  if \<not> ok \<or> \<not> is_push opcode then Inr (False, ret, pc)
                  else
                    let ret = ret\<lparr>nti_name := vch\<rparr> in
                    if nti_op ret = OP_NAME_DELETE then
                      (let ret = ret\<lparr>nti_err_msg := ''failed to read OP2_DROP in name_delete''\<rparr> in
                       case GetOp s pc of (ok, pc, opcode, vch) \<Rightarrow>
                         if \<not> ok \<or> opcode \<noteq> OP_DROP then Inr (False, ret, pc)
                         else Inr (True, ret\<lparr>nti_err_msg := ''''\<rparr>, pc))
                    else decode_days_part s ret pc)"

definition RemoveNameScriptPrefix :: "script \<Rightarrow> cpp_exn + script option" where
  "RemoveNameScriptPrefix scriptIn =
     (case DecodeNameScript scriptIn NameTxInfo0 0 of
        Inl e \<Rightarrow> Inl e
      | Inr (ok, nti, pc) \<Rightarrow> Inr (if ok then Some (drop pc scriptIn) else None))"

section \<open>Template tests\<close>

text \<open>
  \<^verbatim>\<open>IsPayToScriptHash\<close>, \<^verbatim>\<open>IsPayToWitnessScriptHash\<close> and \<^verbatim>\<open>IsWitnessProgram\<close>: on a transaction of
  version \<^verbatim>\<open>NAMECOIN_TX_VERSION\<close> a script that is not of the form itself is tried again without
  its name prefix. An exception of the decoder passes through.
\<close>

definition IsPayToScriptHashInner :: "script \<Rightarrow> bool" where
  "IsPayToScriptHashInner s \<longleftrightarrow>
     length s = 23 \<and> unat (s ! 0) = OP_HASH160 \<and> unat (s ! 1) = 0x14 \<and> unat (s ! 22) = OP_EQUAL"

definition IsPayToScriptHash :: "script \<Rightarrow> int \<Rightarrow> cpp_exn + bool" where
  "IsPayToScriptHash s nVersion =
     (let ret = IsPayToScriptHashInner s in
      if \<not> ret \<and> nVersion = NAMECOIN_TX_VERSION then
        (case RemoveNameScriptPrefix s of
           Inl e \<Rightarrow> Inl e
         | Inr None \<Rightarrow> Inr False
         | Inr (Some scriptRemainder) \<Rightarrow> Inr (IsPayToScriptHashInner scriptRemainder))
      else Inr ret)"

definition IsPayToWitnessScriptHashInner :: "script \<Rightarrow> bool" where
  "IsPayToWitnessScriptHashInner s \<longleftrightarrow>
     length s = 34 \<and> unat (s ! 0) = OP_0 \<and> unat (s ! 1) = 0x20"

definition IsPayToWitnessScriptHash :: "script \<Rightarrow> int \<Rightarrow> cpp_exn + bool" where
  "IsPayToWitnessScriptHash s nVersion =
     (let ret = IsPayToWitnessScriptHashInner s in
      if \<not> ret \<and> nVersion = NAMECOIN_TX_VERSION then
        (case RemoveNameScriptPrefix s of
           Inl e \<Rightarrow> Inl e
         | Inr None \<Rightarrow> Inr False
         | Inr (Some scriptRemainder) \<Rightarrow> Inr (IsPayToWitnessScriptHashInner scriptRemainder))
      else Inr ret)"

text \<open>The version and the program, where the script is a witness program.\<close>

definition IsWitnessProgramInner :: "script \<Rightarrow> (nat \<times> bytes) option" where
  "IsWitnessProgramInner s =
     (if length s < 4 \<or> length s > 42 then None
      else if unat (s ! 0) \<noteq> OP_0 \<and> (unat (s ! 0) < OP_1 \<or> unat (s ! 0) > OP_16) then None
      else if unat (s ! 1) + 2 = length s
      then Some (the (DecodeOP_N (unat (s ! 0))), drop 2 s)
      else None)"

definition IsWitnessProgram :: "script \<Rightarrow> int \<Rightarrow> cpp_exn + (nat \<times> bytes) option" where
  "IsWitnessProgram s txVersion =
     (let ret = IsWitnessProgramInner s in
      if ret = None \<and> txVersion = NAMECOIN_TX_VERSION then
        (case RemoveNameScriptPrefix s of
           Inl e \<Rightarrow> Inl e
         | Inr None \<Rightarrow> Inr None
         | Inr (Some scriptRemainder) \<Rightarrow> Inr (IsWitnessProgramInner scriptRemainder))
      else Inr ret)"

text \<open>
  \<^verbatim>\<open>GetSigOpCount(scriptSig, nVersion)\<close>: for pay-to-script-hash the operations of the script that
  the last push of \<^verbatim>\<open>scriptSig\<close> carries.
\<close>

function last_push_loop :: "bytes \<Rightarrow> bytes \<Rightarrow> bytes option" where
  "last_push_loop r dat =
     (if r = [] then Some dat
      else case GetOp2 r of (ok, k, opcode, d) \<Rightarrow>
        if \<not> ok then None else if opcode > OP_16 then None else last_push_loop (drop k r) d)"
  by pat_completeness auto
termination
  by (relation "measure (\<lambda>(r, _). length r)") (auto simp: GetOp2_shrinks)

declare last_push_loop.simps [simp del]

definition GetSigOpCount_sig :: "script \<Rightarrow> script \<Rightarrow> int \<Rightarrow> cpp_exn + nat" where
  "GetSigOpCount_sig s scriptSig nVersion =
     (case IsPayToScriptHash s nVersion of
        Inl e \<Rightarrow> Inl e
      | Inr p2sh \<Rightarrow>
          if \<not> p2sh then Inr (GetSigOpCount s True)
          else case last_push_loop scriptSig [] of
            None \<Rightarrow> Inr 0
          | Some subscript \<Rightarrow> Inr (GetSigOpCount subscript True))"

section \<open>Encoding\<close>

text \<open>The value, cut into pushes of at most 520 bytes.\<close>

definition value_chunks :: "CNameVal \<Rightarrow> bytes list" where
  "value_chunks v = map (\<lambda>i. take 520 (drop (i * 520) v)) [0..<(length v + 519) div 520]"

definition drop_markers :: "nat \<Rightarrow> script" where
  "drop_markers nChunks = replicate (nChunks div 2) (of_nat OP_2DROP)
     @ (if nChunks mod 2 \<noteq> 0 then [of_nat OP_DROP] else [])"

definition createNameScript ::
    "script \<Rightarrow> CNameVal \<Rightarrow> CNameVal \<Rightarrow> int \<Rightarrow> int \<Rightarrow> string \<Rightarrow> bool \<times> script \<times> string" where
  "createNameScript nameScript name v nRentalDays op err_msg =
     (if op = OP_NAME_DELETE
      then (True, nameScript @ push_int64 op @ [of_nat OP_DROP] @ push_data name @ [of_nat OP_DROP],
            err_msg)
      else case checkNameValues (NameTxInfo0\<lparr>nti_name := name, nti_value := v,
                  nti_nRentalDays := nRentalDays, nti_op := op, nti_err_msg := err_msg\<rparr>) of
        (ok, nti) \<Rightarrow>
          if \<not> ok then (False, nameScript, nti_err_msg nti)
          else (True,
            nameScript @ push_int64 op @ [of_nat OP_DROP] @ push_data name
              @ push_data (serialize nRentalDays) @ [of_nat OP_2DROP]
              @ concat (map push_data (value_chunks v)) @ drop_markers (length (value_chunks v)),
            err_msg))"

section \<open>Encoding and decoding agree\<close>

lemma GetOp_at: "drop pc s = r \<Longrightarrow>
    GetOp s pc = (case GetOp2 r of (ok, n, opcode, d) \<Rightarrow> (ok, pc + n, opcode, d))"
  by (simp add: GetOp_def)

lemma drop_plus: "drop pc s = x @ r \<Longrightarrow> drop (pc + length x) s = r"
  by (metis add.commute append_eq_conv_conj drop_drop)

lemma drop_Suc: "drop pc s = x # r \<Longrightarrow> drop (Suc pc) s = r"
  using drop_plus [of pc s "[x]" r] by simp

lemma read_value_loop_chunks:
  assumes "drop pc s = concat (map push_data cs) @ of_nat mk # r"
    and "mk = OP_DROP \<or> mk = OP_2DROP"
    and "\<And>c. c \<in> set cs \<Longrightarrow> length c < 4294967296"
  shows "read_value_loop s pc v n =
    (True, Suc (pc + length (concat (map push_data cs))), mk, v @ concat cs, n + length cs)"
  using assms
proof (induction cs arbitrary: pc v n)
  case Nil
  then have "GetOp s pc = (True, Suc pc, mk, [])"
    by (subst GetOp_at [OF Nil(1)]) (auto simp: unat_of_nat)
  with Nil(2) show ?case by (subst read_value_loop.simps) auto
next
  case (Cons c cs)
  let ?r = "concat (map push_data cs) @ of_nat mk # r" and ?pc = "pc + length (push_data c)"
  have at: "drop pc s = push_data c @ ?r" using Cons.prems(1) by simp
  have g: "GetOp s pc = (True, ?pc, push_opc c, c)"
    using Cons.prems(3) [of c] by (subst GetOp_at [OF at]) simp
  have "read_value_loop s pc v n = read_value_loop s ?pc (v @ c) (Suc n)"
    by (simp add: read_value_loop.simps [of s pc v n] g)
  also have "\<dots> = (True, Suc (?pc + length (concat (map push_data cs))), mk, (v @ c) @ concat cs,
      Suc n + length cs)"
    using Cons.prems by (intro Cons.IH drop_plus [OF at]) auto
  finally show ?case by simp
qed

definition drop_weight :: "bytes \<Rightarrow> nat" where
  "drop_weight ds = sum_list (map (\<lambda>b. if unat b = OP_2DROP then 2 else 1) ds)"

definition is_drop_byte :: "byte \<Rightarrow> bool" where
  "is_drop_byte b \<longleftrightarrow> unat b = OP_DROP \<or> unat b = OP_2DROP"

lemma read_drops_loop_markers:
  assumes "drop pc s = ds @ r" and "\<forall>b \<in> set ds. is_drop_byte b"
    and "GetOp2 r = (ok, k, opc, d)" and "opc \<noteq> OP_DROP" and "opc \<noteq> OP_2DROP"
    and "opcode = OP_DROP \<or> opcode = OP_2DROP"
  shows "read_drops_loop s pc opcode n = (pc + length ds + k, n + drop_weight ds)"
  using assms
proof (induction ds arbitrary: pc opcode n)
  case Nil
  have g: "GetOp s pc = (ok, pc + k, opc, d)"
    using Nil.prems(3) by (subst GetOp_at [OF Nil.prems(1)]) simp
  show ?case
  proof (cases ok)
    case True
    have "read_drops_loop s (pc + k) opc n = (pc + k, n)"
      using Nil.prems(4,5) by (subst read_drops_loop.simps) simp
    with True g Nil.prems show ?thesis
      by (subst read_drops_loop.simps) (simp add: drop_weight_def)
  next
    case False
    with g Nil.prems show ?thesis by (subst read_drops_loop.simps) (simp add: drop_weight_def)
  qed
next
  case (Cons b ds)
  then have b: "unat b = OP_DROP \<or> unat b = OP_2DROP" by (simp add: is_drop_byte_def)
  then have g: "GetOp s pc = (True, Suc pc, unat b, [])"
    using Cons.prems(1) by (subst GetOp_at [OF Cons.prems(1)]) auto
  have at: "drop (Suc pc) s = ds @ r" using Cons.prems(1) by (simp add: drop_Suc)
  let ?n = "n + (if unat b = OP_2DROP then 2 else 0) + (if unat b = OP_DROP then 1 else 0)"
  have "read_drops_loop s pc opcode n = read_drops_loop s (Suc pc) (unat b) ?n"
    using Cons.prems(6) by (subst read_drops_loop.simps) (simp add: g)
  also have "\<dots> = (Suc pc + length ds + k, ?n + drop_weight ds)"
    using Cons.prems b by (intro Cons.IH at) auto
  finally show ?case using b by (auto simp: drop_weight_def)
qed

lemma drop_markers_weight [simp]: "drop_weight (drop_markers n) = n"
proof -
  have "drop_weight (drop_markers n) = 2 * (n div 2) + n mod 2"
    by (simp add: drop_weight_def drop_markers_def sum_list_replicate unat_of_nat mod2_eq_if)
  then show ?thesis by simp
qed

lemma drop_markers_drops: "\<forall>b \<in> set (drop_markers n). is_drop_byte b"
  by (auto simp: drop_markers_def is_drop_byte_def unat_of_nat)

lemma drop_markers_Cons:
  assumes "0 < n"
  obtains mk ms where "drop_markers n = of_nat mk # ms" "mk = OP_DROP \<or> mk = OP_2DROP"
proof (cases "n div 2")
  case 0
  with assms have "n = 1" by auto
  then show ?thesis using that [of OP_DROP "[]"] by (simp add: drop_markers_def)
next
  case (Suc m)
  then show ?thesis
    using that [of OP_2DROP "tl (drop_markers n)"] by (simp add: drop_markers_def)
qed

lemma concat_chunks: "concat (map (\<lambda>i. take k (drop (i * k) v)) [0..<n]) = take (n * k) v"
proof (induction n)
  case (Suc n)
  have "take (Suc n * k) v = take (n * k + k) v" by (simp add: add.commute)
  also have "\<dots> = take (n * k) v @ take k (drop (n * k) v)" by (rule take_add)
  finally show ?case using Suc by simp
qed simp

lemma concat_value_chunks [simp]: "concat (value_chunks v) = v"
proof -
  have "length v + 519 = (length v + 519) div 520 * 520 + (length v + 519) mod 520"
      "(length v + 519) mod 520 < 520"
    by simp_all
  then have "length v \<le> (length v + 519) div 520 * 520" by linarith
  then show ?thesis by (simp add: value_chunks_def concat_chunks)
qed

lemma value_chunks_small: "c \<in> set (value_chunks v) \<Longrightarrow> length c \<le> 520"
  by (auto simp: value_chunks_def)

lemma value_chunks_pos: "v \<noteq> [] \<Longrightarrow> 0 < length (value_chunks v)"
  by (metis concat.simps(1) concat_value_chunks length_greater_0_conv)

text \<open>
  The value part, over whatever follows it: the iterator ends one byte before the end of the
  instruction after the drops.
\<close>

lemma decode_value_part_chunks:
  assumes at: "drop pc s = concat (map push_data cs) @ drop_markers (length cs) @ r"
    and cs: "cs \<noteq> []" "\<And>c. c \<in> set cs \<Longrightarrow> length c < 4294967296"
    and nxt: "GetOp2 r = (ok, k, opc, d)" "opc \<noteq> OP_DROP" "opc \<noteq> OP_2DROP"
    and empty: "nti_value ret = []"
    and good: "checkNameValues (ret\<lparr>nti_value := concat cs\<rparr>) = (True, ret')"
  shows "decode_value_part s ret pc =
    (True, ret', pc + length (concat (map push_data cs)) + length cs div 2 + length cs mod 2 + k - 1)"
proof -
  obtain mk ms where mk: "drop_markers (length cs) = of_nat mk # ms"
      "mk = OP_DROP \<or> mk = OP_2DROP"
    using cs(1) drop_markers_Cons [of "length cs"] by blast
  let ?e = "pc + length (concat (map push_data cs))"
  have v: "read_value_loop s pc (nti_value ret) 0 = (True, Suc ?e, mk, concat cs, length cs)"
    using read_value_loop_chunks [of pc s cs mk "ms @ r" "[]" 0] at mk cs(2) empty by simp
  have l: "length (drop_markers (length cs)) = length cs div 2 + length cs mod 2"
    by (simp add: drop_markers_def mod2_eq_if)
  have "drop ?e s = drop_markers (length cs) @ r" by (rule drop_plus [OF at])
  then have d: "read_drops_loop s ?e mk 0 = (?e + length (drop_markers (length cs)) + k, length cs)"
    using read_drops_loop_markers [OF _ drop_markers_drops nxt mk(2), of ?e s "length cs" 0]
    by simp
  from v d l good show ?thesis by (simp add: decode_value_part_def Let_def)
qed

text \<open>
  The whole script of a \<^verbatim>\<open>name_new\<close> or \<^verbatim>\<open>name_update\<close>, for any output script after the prefix
  whose first instruction is read as \<open>(ok, k, opc, d)\<close>.
\<close>

lemma push_int64_op: "1 \<le> op \<Longrightarrow> op \<le> 16 \<Longrightarrow> push_int64 op = [of_int (op + 80)]"
  by (simp add: push_int64_def)

lemma unat_op_byte:
  "op = 1 \<or> op = 2 \<or> op = 3 \<Longrightarrow> unat (of_int (op + 80) :: byte) = nat op + 80"
  by auto

lemma createNameScript_prefix:
  assumes "createNameScript [] name v nRentalDays op err = (True, p, err')"
    and "op = OP_NAME_NEW \<or> op = OP_NAME_UPDATE"
  shows "p = of_int (op + 80) # of_nat OP_DROP # push_data name @ push_data (serialize nRentalDays)
      @ of_nat OP_2DROP # concat (map push_data (value_chunks v))
      @ drop_markers (length (value_chunks v))"
    and "length name \<le> MAX_NAME_LENGTH" and "length v \<le> MAX_VALUE_LENGTH"
    and "0 \<le> nRentalDays" and "nRentalDays \<le> MAX_RENTAL_DAYS"
    and "op = OP_NAME_NEW \<Longrightarrow> 1 \<le> nRentalDays"
  using assms checkNameValues_ok_iff [of "NameTxInfo0\<lparr>nti_name := name, nti_value := v,
      nti_nRentalDays := nRentalDays, nti_op := op, nti_err_msg := err\<rparr>"]
  by (auto simp: createNameScript_def push_int64_op name_limits_ok_def
      split: prod.splits if_splits)

lemma decode_created:
  assumes cr: "createNameScript [] name v nRentalDays op err = (True, p, err')"
    and op: "op = OP_NAME_NEW \<or> op = OP_NAME_UPDATE"
    and v: "v \<noteq> []"
    and nxt: "GetOp2 r = (ok, k, opc, d)" "opc \<noteq> OP_DROP" "opc \<noteq> OP_2DROP"
  shows "DecodeNameScript (p @ r) NameTxInfo0 0 =
    Inr (True, NameTxInfo0\<lparr>nti_name := name, nti_value := v, nti_nRentalDays := nRentalDays,
      nti_op := op\<rparr>, length p + k - 1)"
proof -
  note cp = createNameScript_prefix [OF cr op]
  let ?s = "p @ r" and ?n = "length (push_data name)" and ?dd = "push_data (serialize nRentalDays)"
  let ?tail = "concat (map push_data (value_chunks v)) @ drop_markers (length (value_chunks v)) @ r"
  let ?ret = "NameTxInfo0\<lparr>nti_name := name, nti_nRentalDays := nRentalDays, nti_op := op\<rparr>"
  have d4: "CScriptNum (serialize nRentalDays) False 4 = Some nRentalDays"
    using CScriptNum_serialize [of nRentalDays 3 False] cp(4,5) by (simp add: numeral_eq_Suc)
  have sl: "length (serialize nRentalDays) < 4294967296"
    using length_serialize [of nRentalDays 3] cp(4,5) by simp
  have nl: "length name < 4294967296" using cp(2) by simp
  define pc2 where "pc2 = 2 + ?n"
  define pc3 where "pc3 = pc2 + length ?dd"
  have at2: "drop 2 ?s = push_data name @ ?dd @ of_nat OP_2DROP # ?tail"
    by (simp add: cp(1))
  have at3: "drop pc2 ?s = ?dd @ of_nat OP_2DROP # ?tail"
    using drop_plus [OF at2] by (simp add: pc2_def)
  have at4: "drop pc3 ?s = of_nat OP_2DROP # ?tail"
    using drop_plus [OF at3] by (simp add: pc3_def)
  have at5: "drop (Suc pc3) ?s = ?tail"
    by (rule drop_Suc [OF at4])
  have g0: "GetOp ?s 0 = (True, 1, nat op + 80, [])"
    using op by (auto simp: GetOp_def cp(1) unat_op_byte)
  have g1: "GetOp ?s 1 = (True, 2, OP_DROP, [])"
    by (simp add: GetOp_def cp(1) unat_of_nat)
  have g2: "GetOp ?s 2 = (True, pc2, push_opc name, name)"
    by (subst GetOp_at [OF at2]) (simp add: nl pc2_def)
  have g3: "GetOp ?s pc2 =
      (True, pc3, push_opc (serialize nRentalDays), serialize nRentalDays)"
    by (subst GetOp_at [OF at3]) (simp add: sl pc3_def)
  have g4: "GetOp ?s pc3 = (True, Suc pc3, OP_2DROP, [])"
    by (subst GetOp_at [OF at4]) (simp add: unat_of_nat)
  have chk: "checkNameValues (?ret\<lparr>nti_value := v\<rparr>) = (True, ?ret\<lparr>nti_value := v\<rparr>)"
    using cp op by (intro checkNameValues_good) (auto simp: name_limits_ok_def)
  have "?ret\<lparr>nti_err_msg := m, nti_value := v\<rparr> = ?ret\<lparr>nti_value := v, nti_err_msg := m\<rparr>" for m
    by simp
  then have chk': "checkNameValues (?ret\<lparr>nti_err_msg := m, nti_value := v\<rparr>) =
      (True, ?ret\<lparr>nti_value := v\<rparr>)" for m
    by (simp only: checkNameValues_err_msg chk)
  have val: "decode_value_part ?s (?ret\<lparr>nti_err_msg := m\<rparr>) (Suc pc3) =
      (True, ?ret\<lparr>nti_value := v\<rparr>, length p + k - 1)" for m
  proof -
    have "value_chunks v \<noteq> []" using value_chunks_pos [OF v] by auto
    moreover have "length c < 4294967296" if "c \<in> set (value_chunks v)" for c
      using value_chunks_small [OF that] by simp
    ultimately have "decode_value_part ?s (?ret\<lparr>nti_err_msg := m\<rparr>) (Suc pc3) =
      (True, ?ret\<lparr>nti_value := v\<rparr>, Suc pc3
         + length (concat (map push_data (value_chunks v)))
         + length (value_chunks v) div 2 + length (value_chunks v) mod 2 + k - 1)"
      using chk' by (intro decode_value_part_chunks [OF at5 _ _ nxt]) auto
    moreover have "length p = Suc pc3
         + length (concat (map push_data (value_chunks v)))
         + length (value_chunks v) div 2 + length (value_chunks v) mod 2"
      by (simp add: cp(1) drop_markers_def mod2_eq_if pc2_def pc3_def)
    ultimately show ?thesis by simp
  qed
  have days: "getint nRentalDays = nRentalDays"
    using cp(4,5) by (simp add: getint_def)
  have o: "int (nat op + 80) - int OP_1 + 1 = op" "\<not> nat op + 80 < OP_1" "\<not> OP_16 < nat op + 80"
      "op \<noteq> OP_NAME_DELETE"
    using op by auto
  have dp: "decode_days_part ?s (NameTxInfo0\<lparr>nti_name := name, nti_op := op, nti_err_msg := m\<rparr>) pc2
      = Inr (True, ?ret\<lparr>nti_value := v\<rparr>, length p + k - 1)" for m
    using val by (simp add: decode_days_part_def Let_def is_push_def g3 g4 d4 days NameTxInfo0_def)
  show ?thesis
    using op dp by (auto simp: DecodeNameScript_def Let_def is_push_def g0 g1 [simplified] g2 o NameTxInfo0_def)
qed

lemma GetOp2_first_byte:
  assumes "GetOp2 r = (ok, k, opc, d)" and "r = [] \<or> unat (hd r) \<noteq> OP_DROP \<and> unat (hd r) \<noteq> OP_2DROP"
  shows "opc \<noteq> OP_DROP \<and> opc \<noteq> OP_2DROP"
proof (cases ok)
  case True
  with assms GetOp2_ok_opcode [of r k opc d] show ?thesis by auto
next
  case False
  with assms(1) GetOp2_fail [of r k opc d] show ?thesis by auto
qed

lemma drop_remainder: "0 < k \<Longrightarrow> drop (length p + k - 1) (p @ r) = drop (k - 1) r"
  by (cases k) simp_all

lemma Remove_created:
  assumes "createNameScript [] name v nRentalDays op err = (True, p, err')"
    and "op = OP_NAME_NEW \<or> op = OP_NAME_UPDATE" and "v \<noteq> []"
    and "r = [] \<or> unat (hd r) \<noteq> OP_DROP \<and> unat (hd r) \<noteq> OP_2DROP"
  shows "RemoveNameScriptPrefix (p @ r) =
    Inr (Some (drop (length p + fst (snd (GetOp2 r)) - 1) (p @ r)))"
proof -
  obtain ok k opc d where g: "GetOp2 r = (ok, k, opc, d)" by (metis prod_cases4)
  with GetOp2_first_byte [OF g assms(4)] decode_created [OF assms(1,2,3) g] show ?thesis
    by (simp add: RemoveNameScriptPrefix_def)
qed

lemma decode_deleted:
  assumes "length name < 4294967296"
  shows "DecodeNameScript (fst (snd (createNameScript [] name v nRentalDays OP_NAME_DELETE err)) @ r)
      NameTxInfo0 0 =
    Inr (True, NameTxInfo0\<lparr>nti_name := name, nti_op := OP_NAME_DELETE\<rparr>,
      length (fst (snd (createNameScript [] name v nRentalDays OP_NAME_DELETE err))))"
proof -
  define s where "s = (83 :: byte) # 0x75 # push_data name @ 0x75 # r"
  define pc2 where "pc2 = 2 + length (push_data name)"
  have c: "createNameScript [] name v nRentalDays OP_NAME_DELETE err =
      (True, 83 # 0x75 # push_data name @ [0x75], err)"
    by (simp add: createNameScript_def push_int64_op)
  have at2: "drop 2 s = push_data name @ 0x75 # r" by (simp add: s_def)
  have at3: "drop pc2 s = 0x75 # r" using drop_plus [OF at2] by (simp add: pc2_def)
  have g: "GetOp s 0 = (True, 1, 83, [])" "GetOp s (Suc 0) = (True, 2, OP_DROP, [])"
    by (simp_all add: GetOp_def s_def)
  have g2: "GetOp s 2 = (True, pc2, push_opc name, name)"
    using assms by (subst GetOp_at [OF at2]) (simp add: pc2_def)
  have g3: "GetOp s pc2 = (True, Suc pc2, OP_DROP, [])"
    by (subst GetOp_at [OF at3]) simp
  have "DecodeNameScript s NameTxInfo0 0 =
      Inr (True, NameTxInfo0\<lparr>nti_name := name, nti_op := OP_NAME_DELETE\<rparr>, Suc pc2)"
    by (simp add: DecodeNameScript_def Let_def is_push_def g g2 g3 NameTxInfo0_def)
  then show ?thesis by (simp add: c s_def pc2_def)
qed

section \<open>Sizes\<close>

lemma length_push_data: "length b \<le> 0xffff \<Longrightarrow> length (push_data b) \<le> length b + 3"
  by (simp add: push_data_def)

lemma length_concat_push:
  "(\<And>c. c \<in> set cs \<Longrightarrow> length c \<le> 0xffff) \<Longrightarrow>
     length (concat (map push_data cs)) \<le> length (concat cs) + 3 * length cs"
proof (induction cs)
  case (Cons c cs)
  have "length (push_data c) \<le> length c + 3" using Cons.prems by (intro length_push_data) simp
  moreover have "length (concat (map push_data cs)) \<le> length (concat cs) + 3 * length cs"
    using Cons.prems by (intro Cons.IH) simp
  ultimately show ?case by simp
qed simp

lemma length_value_chunks: "length (value_chunks v) = (length v + 519) div 520"
  by (simp add: value_chunks_def)

lemma createNameScript_size:
  assumes cr: "createNameScript [] name v nRentalDays op err = (True, p, err')"
    and op: "op = OP_NAME_NEW \<or> op = OP_NAME_UPDATE"
  shows "length p \<le> 21144"
proof -
  note cp = createNameScript_prefix [OF cr op]
  let ?n = "length (value_chunks v)"
  have n: "?n \<le> 40"
    using cp(3) div_le_mono [of "length v + 519" 20999 520] by (simp add: length_value_chunks)
  have a: "length (push_data name) \<le> 515"
    using cp(2) length_push_data [of name] by simp
  have s: "length (serialize nRentalDays) \<le> 4"
    using length_serialize [of nRentalDays 3] cp(4,5) by simp
  have b: "length (push_data (serialize nRentalDays)) \<le> 5"
    using s by (simp add: push_data_def)
  have "length c \<le> 0xffff" if "c \<in> set (value_chunks v)" for c
    using value_chunks_small [OF that] by simp
  then have c: "length (concat (map push_data (value_chunks v))) \<le> length v + 3 * ?n"
    using length_concat_push [of "value_chunks v"] by simp
  have d: "length (drop_markers ?n) = ?n div 2 + ?n mod 2"
    by (simp add: drop_markers_def mod2_eq_if)
  have "?n div 2 + ?n mod 2 \<le> 20"
    using n div_le_mono [of "?n + 1" 41 2] by (auto simp: mod2_eq_if)
  with a b c d n cp(1,3) show ?thesis by simp
qed

text \<open>A small registration, the concrete input of the examples below.\<close>

lemma sample_created:
  "createNameScript [] [0x61] [0x62, 0x63] 100 OP_NAME_NEW [] =
     (True, [0x51, 0x75, 1, 0x61, 1, 100, 0x6d, 2, 0x62, 0x63, 0x75], [])"
  by (simp add: createNameScript_def checkNameValues_def value_chunks_def drop_markers_def
      push_data_def push_int64_def serialize_def le_digits.simps)

section \<open>Properties\<close>

text \<open>C13: a name script that \<^verbatim>\<open>createNameScript\<close> builds for a registration or an update with a non-empty value, put in front of
  any script that does not start with a drop, decodes to exactly the name, value, days and operation it was built
  from. Removing the prefix gives back the script behind it exactly when the first instruction of that script is
  read as a single byte (as it is in pay-to-pubkey-hash, pay-to-script-hash and witness programs).\<close>

theorem name_script_roundtrip:
  assumes "createNameScript [] name v nRentalDays op err = (True, p, err')"
    and "op = OP_NAME_NEW \<or> op = OP_NAME_UPDATE" and "v \<noteq> []"
    and "r = [] \<or> unat (hd r) \<noteq> OP_DROP \<and> unat (hd r) \<noteq> OP_2DROP"
  shows "(\<exists>pc. DecodeNameScript (p @ r) NameTxInfo0 0 =
      Inr (True, NameTxInfo0\<lparr>nti_name := name, nti_value := v, nti_nRentalDays := nRentalDays, nti_op := op\<rparr>, pc))
    \<and> (RemoveNameScriptPrefix (p @ r) = Inr (Some r) \<longleftrightarrow> fst (snd (GetOp2 r)) = 1)"
proof -
  obtain ok k opc d where g: "GetOp2 r = (ok, k, opc, d)" by (metis prod_cases4)
  have dec: "DecodeNameScript (p @ r) NameTxInfo0 0 = Inr (True, NameTxInfo0\<lparr>nti_name := name, nti_value := v,
      nti_nRentalDays := nRentalDays, nti_op := op\<rparr>, length p + k - 1)"
    using decode_created [OF assms(1-3) g] GetOp2_first_byte [OF g assms(4)] by simp
  have "drop (length p + k - 1) (p @ r) = r \<longleftrightarrow> k = 1"
  proof (cases k)
    case 0
    have "p \<noteq> []" using createNameScript_prefix(1) [OF assms(1,2)] by simp
    then have "length (drop (length p - 1) (p @ r)) = Suc (length r)" by (simp add: Suc_leI)
    then have "drop (length p - 1) (p @ r) \<noteq> r" by (metis n_not_Suc_n)
    then show ?thesis using 0 by simp
  next
    case (Suc j)
    have "drop j r = r \<longleftrightarrow> j = 0"
    proof
      assume "drop j r = r"
      then have "length r - j = length r" by (metis length_drop)
      moreover have "k \<le> length r" by (rule GetOp2_moves_le [OF g])
      ultimately show "j = 0" using Suc by linarith
    qed simp
    then show ?thesis using Suc drop_remainder [of k p r] by simp
  qed
  then show ?thesis using Remove_created [OF assms] dec g by simp
qed

theorem name_script_roundtrip_witness:
  "createNameScript [] [0x61] [0x62, 0x63] 100 OP_NAME_NEW [] =
     (True, [0x51, 0x75, 1, 0x61, 1, 100, 0x6d, 2, 0x62, 0x63, 0x75], [])
   \<and> RemoveNameScriptPrefix ([0x51, 0x75, 1, 0x61, 1, 100, 0x6d, 2, 0x62, 0x63, 0x75] @ [0x76, 0xa9])
     = Inr (Some [0x76, 0xa9])"
  using name_script_roundtrip [OF sample_created, of "[0x76, 0xa9]"] sample_created by simp



text \<open>A deletion script decodes to its name, and its prefix comes off exactly, whatever
  script follows it.\<close>

theorem name_delete_roundtrip:
  assumes "length name < 4294967296"
    and "createNameScript [] name v nRentalDays OP_NAME_DELETE err = (ok, p, err')"
  shows "ok \<and> DecodeNameScript (p @ r) NameTxInfo0 0 =
      Inr (True, NameTxInfo0\<lparr>nti_name := name, nti_op := OP_NAME_DELETE\<rparr>, length p)
    \<and> RemoveNameScriptPrefix (p @ r) = Inr (Some r)"
  using decode_deleted [OF assms(1), of v nRentalDays err r] assms(2)
  by (auto simp: RemoveNameScriptPrefix_def createNameScript_def)

theorem name_delete_roundtrip_witness:
  "RemoveNameScriptPrefix ([0x53, 0x75, 1, 0x61, 0x75] @ [1, 5, 0xac]) = Inr (Some [1, 5, 0xac])"
proof -
  have "createNameScript [] [0x61] [] 0 OP_NAME_DELETE [] = (True, [0x53, 0x75, 1, 0x61, 0x75], [])"
    by (simp add: createNameScript_def push_data_def push_int64_def)
  from name_delete_roundtrip [OF _ this, of "[1, 5, 0xac]"] show ?thesis by simp
qed

text \<open>Every registration or update script that is built stays inside the limits of the
  interpreter: together with any script of at most 856 bytes behind it, it is within
  \<^verbatim>\<open>MAX_SCRIPT_SIZE\<close>, and every value push is within \<^verbatim>\<open>MAX_SCRIPT_ELEMENT_SIZE\<close>.\<close>

theorem name_script_fits:
  assumes "createNameScript [] name v nRentalDays op err = (True, p, err')"
    and "op = OP_NAME_NEW \<or> op = OP_NAME_UPDATE" and "length r \<le> 856"
  shows "length (p @ r) \<le> MAX_SCRIPT_SIZE
    \<and> (\<forall>c \<in> set (value_chunks v). length c \<le> MAX_SCRIPT_ELEMENT_SIZE)"
  using createNameScript_size [OF assms(1,2)] assms(3) value_chunks_small by auto

theorem name_script_fits_witness:
  "length ([0x51, 0x75, 1, 0x61, 1, 100, 0x6d, 2, 0x62, 0x63, 0x75] @ replicate 856 (0x76 :: byte))
     \<le> MAX_SCRIPT_SIZE"
proof -
  from name_script_fits [OF sample_created, of "replicate 856 0x76"] show ?thesis by simp
qed

end
