(* ===== verification/MFC_Interpreter.thy ===== *)
theory MFC_Interpreter
  imports MFC_NameScript
begin

unbundle bit_operations_syntax

text \<open>
  The script interpreter of \<^verbatim>\<open>src/src/script/interpreter.cpp\<close>: the encoding checks, every opcode of
  \<^verbatim>\<open>EvalScript\<close>, its loop and limits, \<^verbatim>\<open>VerifyWitnessProgram\<close>, \<^verbatim>\<open>VerifyScript\<close> and the witness
  signature operation count.

  The stacks are lists with the top element first (the source keeps it last); \<^verbatim>\<open>stacktop(-i)\<close> is the
  element at index \<open>i - 1\<close>. Iterators into the script are the suffixes that start there.
  \<^verbatim>\<open>EvalScript\<close> returns false with an error code, \<open>Inl\<close>, or true with the final stack, \<open>Inr\<close>;
  its catch-all handler turns the only exception that can arise in it, a script number error, into
  \<^verbatim>\<open>SCRIPT_ERR_UNKNOWN_ERROR\<close>. A failed \<^verbatim>\<open>assert\<close> of \<^verbatim>\<open>VerifyScript\<close> stops the process: it is a
  separate outcome.

  The hash functions, the low-S test of the curve library and the virtual signature checker are the
  fields of \<open>script_env\<close>.
\<close>

section \<open>Flags and errors\<close>

abbreviation (input) SCRIPT_VERIFY_P2SH :: u32 where "SCRIPT_VERIFY_P2SH \<equiv> 0x1"
abbreviation (input) SCRIPT_VERIFY_STRICTENC :: u32 where "SCRIPT_VERIFY_STRICTENC \<equiv> 0x2"
abbreviation (input) SCRIPT_VERIFY_DERSIG :: u32 where "SCRIPT_VERIFY_DERSIG \<equiv> 0x4"
abbreviation (input) SCRIPT_VERIFY_LOW_S :: u32 where "SCRIPT_VERIFY_LOW_S \<equiv> 0x8"
abbreviation (input) SCRIPT_VERIFY_NULLDUMMY :: u32 where "SCRIPT_VERIFY_NULLDUMMY \<equiv> 0x10"
abbreviation (input) SCRIPT_VERIFY_SIGPUSHONLY :: u32 where "SCRIPT_VERIFY_SIGPUSHONLY \<equiv> 0x20"
abbreviation (input) SCRIPT_VERIFY_MINIMALDATA :: u32 where "SCRIPT_VERIFY_MINIMALDATA \<equiv> 0x40"
abbreviation (input) SCRIPT_VERIFY_DISCOURAGE_UPGRADABLE_NOPS :: u32
  where "SCRIPT_VERIFY_DISCOURAGE_UPGRADABLE_NOPS \<equiv> 0x80"
abbreviation (input) SCRIPT_VERIFY_CLEANSTACK :: u32 where "SCRIPT_VERIFY_CLEANSTACK \<equiv> 0x100"
abbreviation (input) SCRIPT_VERIFY_CHECKLOCKTIMEVERIFY :: u32
  where "SCRIPT_VERIFY_CHECKLOCKTIMEVERIFY \<equiv> 0x200"
abbreviation (input) SCRIPT_VERIFY_CHECKSEQUENCEVERIFY :: u32
  where "SCRIPT_VERIFY_CHECKSEQUENCEVERIFY \<equiv> 0x400"
abbreviation (input) SCRIPT_VERIFY_WITNESS :: u32 where "SCRIPT_VERIFY_WITNESS \<equiv> 0x800"
abbreviation (input) SCRIPT_VERIFY_DISCOURAGE_UPGRADABLE_WITNESS_PROGRAM :: u32
  where "SCRIPT_VERIFY_DISCOURAGE_UPGRADABLE_WITNESS_PROGRAM \<equiv> 0x1000"
abbreviation (input) SCRIPT_VERIFY_MINIMALIF :: u32 where "SCRIPT_VERIFY_MINIMALIF \<equiv> 0x2000"
abbreviation (input) SCRIPT_VERIFY_NULLFAIL :: u32 where "SCRIPT_VERIFY_NULLFAIL \<equiv> 0x4000"
abbreviation (input) SCRIPT_VERIFY_WITNESS_PUBKEYTYPE :: u32
  where "SCRIPT_VERIFY_WITNESS_PUBKEYTYPE \<equiv> 0x8000"

abbreviation (input) SIGHASH_ALL :: byte where "SIGHASH_ALL \<equiv> 1"
abbreviation (input) SIGHASH_SINGLE :: byte where "SIGHASH_SINGLE \<equiv> 3"
abbreviation (input) SIGHASH_ANYONECANPAY :: byte where "SIGHASH_ANYONECANPAY \<equiv> 0x80"

datatype (plugins only: code) ScriptError =
    SCRIPT_ERR_OK | SCRIPT_ERR_UNKNOWN_ERROR | SCRIPT_ERR_EVAL_FALSE | SCRIPT_ERR_OP_RETURN
  | SCRIPT_ERR_SCRIPT_SIZE | SCRIPT_ERR_PUSH_SIZE | SCRIPT_ERR_OP_COUNT | SCRIPT_ERR_STACK_SIZE
  | SCRIPT_ERR_SIG_COUNT | SCRIPT_ERR_PUBKEY_COUNT
  | SCRIPT_ERR_VERIFY | SCRIPT_ERR_EQUALVERIFY | SCRIPT_ERR_CHECKMULTISIGVERIFY
  | SCRIPT_ERR_CHECKSIGVERIFY | SCRIPT_ERR_NUMEQUALVERIFY
  | SCRIPT_ERR_BAD_OPCODE | SCRIPT_ERR_DISABLED_OPCODE | SCRIPT_ERR_INVALID_STACK_OPERATION
  | SCRIPT_ERR_INVALID_ALTSTACK_OPERATION | SCRIPT_ERR_UNBALANCED_CONDITIONAL
  | SCRIPT_ERR_NEGATIVE_LOCKTIME | SCRIPT_ERR_UNSATISFIED_LOCKTIME
  | SCRIPT_ERR_SIG_HASHTYPE | SCRIPT_ERR_SIG_DER | SCRIPT_ERR_MINIMALDATA | SCRIPT_ERR_SIG_PUSHONLY
  | SCRIPT_ERR_SIG_HIGH_S | SCRIPT_ERR_SIG_NULLDUMMY | SCRIPT_ERR_PUBKEYTYPE | SCRIPT_ERR_CLEANSTACK
  | SCRIPT_ERR_MINIMALIF | SCRIPT_ERR_SIG_NULLFAIL
  | SCRIPT_ERR_DISCOURAGE_UPGRADABLE_NOPS | SCRIPT_ERR_DISCOURAGE_UPGRADABLE_WITNESS_PROGRAM
  | SCRIPT_ERR_WITNESS_PROGRAM_WRONG_LENGTH | SCRIPT_ERR_WITNESS_PROGRAM_WITNESS_EMPTY
  | SCRIPT_ERR_WITNESS_PROGRAM_MISMATCH | SCRIPT_ERR_WITNESS_MALLEATED
  | SCRIPT_ERR_WITNESS_MALLEATED_P2SH | SCRIPT_ERR_WITNESS_UNEXPECTED | SCRIPT_ERR_WITNESS_PUBKEYTYPE
  | SCRIPT_ERR_ERROR_COUNT

datatype SigVersion = SIGVERSION_BASE | SIGVERSION_WITNESS_V0

text \<open>The virtual \<^verbatim>\<open>BaseSignatureChecker\<close> and the primitives of the crypto libraries.\<close>

record script_env =
  RIPEMD160 :: "bytes \<Rightarrow> bytes"
  SHA1 :: "bytes \<Rightarrow> bytes"
  SHA256 :: "bytes \<Rightarrow> bytes"
  CheckLowS :: "bytes \<Rightarrow> bool"
  CheckSig :: "bytes \<Rightarrow> bytes \<Rightarrow> script \<Rightarrow> SigVersion \<Rightarrow> bool"
  CheckLockTime :: "int \<Rightarrow> bool"
  CheckSequence :: "int \<Rightarrow> bool"

type_synonym stack = "valtype list"

section \<open>Values and encodings\<close>

fun CastToBool :: "valtype \<Rightarrow> bool" where
  "CastToBool [] = False"
| "CastToBool (b # bs) = (if b \<noteq> 0 then \<not> (bs = [] \<and> b = 0x80) else CastToBool bs)"

definition IsCompressedOrUncompressedPubKey :: "valtype \<Rightarrow> bool" where
  "IsCompressedOrUncompressedPubKey vchPubKey =
     (if length vchPubKey < 33 then False
      else if vchPubKey ! 0 = 0x04 then length vchPubKey = 65
      else if vchPubKey ! 0 = 0x02 \<or> vchPubKey ! 0 = 0x03 then length vchPubKey = 33
      else False)"

definition IsCompressedPubKey :: "valtype \<Rightarrow> bool" where
  "IsCompressedPubKey vchPubKey =
     (if length vchPubKey \<noteq> 33 then False
      else \<not> (vchPubKey ! 0 \<noteq> 0x02 \<and> vchPubKey ! 0 \<noteq> 0x03))"

definition IsValidSignatureEncoding :: "valtype \<Rightarrow> bool" where
  "IsValidSignatureEncoding sig =
     (if length sig < 9 then False
      else if length sig > 73 then False
      else if sig ! 0 \<noteq> 0x30 then False
      else if unat (sig ! 1) \<noteq> length sig - 3 then False
      else let lenR = unat (sig ! 3) in
        if 5 + lenR \<ge> length sig then False
        else let lenS = unat (sig ! (5 + lenR)) in
          if lenR + lenS + 7 \<noteq> length sig then False
          else if sig ! 2 \<noteq> 0x02 then False
          else if lenR = 0 then False
          else if sig ! 4 AND 0x80 \<noteq> 0 then False
          else if lenR > 1 \<and> sig ! 4 = 0x00 \<and> \<not> (sig ! 5 AND 0x80 \<noteq> 0) then False
          else if sig ! (lenR + 4) \<noteq> 0x02 then False
          else if lenS = 0 then False
          else if sig ! (lenR + 6) AND 0x80 \<noteq> 0 then False
          else if lenS > 1 \<and> sig ! (lenR + 6) = 0x00 \<and> \<not> (sig ! (lenR + 7) AND 0x80 \<noteq> 0) then False
          else True)"

text \<open>The checks below return the error they set, \<open>None\<close> when they pass.\<close>

definition IsLowDERSignature :: "script_env \<Rightarrow> valtype \<Rightarrow> ScriptError option" where
  "IsLowDERSignature E vchSig =
     (if \<not> IsValidSignatureEncoding vchSig then Some SCRIPT_ERR_SIG_DER
      else if \<not> CheckLowS E (take (length vchSig - 1) vchSig) then Some SCRIPT_ERR_SIG_HIGH_S
      else None)"

definition IsDefinedHashtypeSignature :: "valtype \<Rightarrow> bool" where
  "IsDefinedHashtypeSignature vchSig =
     (if length vchSig = 0 then False
      else let nHashType = vchSig ! (length vchSig - 1) AND NOT SIGHASH_ANYONECANPAY in
        \<not> (nHashType < SIGHASH_ALL \<or> nHashType > SIGHASH_SINGLE))"

definition CheckSignatureEncoding :: "script_env \<Rightarrow> valtype \<Rightarrow> u32 \<Rightarrow> ScriptError option" where
  "CheckSignatureEncoding E vchSig flags =
     (if length vchSig = 0 then None
      else if flags AND (SCRIPT_VERIFY_DERSIG OR SCRIPT_VERIFY_LOW_S OR SCRIPT_VERIFY_STRICTENC) \<noteq> 0
              \<and> \<not> IsValidSignatureEncoding vchSig then Some SCRIPT_ERR_SIG_DER
      else if flags AND SCRIPT_VERIFY_LOW_S \<noteq> 0 \<and> IsLowDERSignature E vchSig \<noteq> None
      then IsLowDERSignature E vchSig
      else if flags AND SCRIPT_VERIFY_STRICTENC \<noteq> 0 \<and> \<not> IsDefinedHashtypeSignature vchSig
      then Some SCRIPT_ERR_SIG_HASHTYPE
      else None)"

definition CheckPubKeyEncoding :: "valtype \<Rightarrow> u32 \<Rightarrow> SigVersion \<Rightarrow> ScriptError option" where
  "CheckPubKeyEncoding vchPubKey flags sigversion =
     (if flags AND SCRIPT_VERIFY_STRICTENC \<noteq> 0 \<and> \<not> IsCompressedOrUncompressedPubKey vchPubKey
      then Some SCRIPT_ERR_PUBKEYTYPE
      else if flags AND SCRIPT_VERIFY_WITNESS_PUBKEYTYPE \<noteq> 0 \<and> sigversion = SIGVERSION_WITNESS_V0
              \<and> \<not> IsCompressedPubKey vchPubKey
      then Some SCRIPT_ERR_WITNESS_PUBKEYTYPE
      else None)"

definition CheckMinimalPush :: "valtype \<Rightarrow> opcodetype \<Rightarrow> bool" where
  "CheckMinimalPush dat opcode =
     (if length dat = 0 then opcode = OP_0
      else if length dat = 1 \<and> dat ! 0 \<ge> 1 \<and> dat ! 0 \<le> 16 then opcode = OP_1 + (unat (dat ! 0) - 1)
      else if length dat = 1 \<and> dat ! 0 = 0x81 then opcode = OP_1NEGATE
      else if length dat \<le> 75 then opcode = length dat
      else if length dat \<le> 255 then opcode = OP_PUSHDATA1
      else if length dat \<le> 65535 then opcode = OP_PUSHDATA2
      else True)"

text \<open>\<^verbatim>\<open>CHash160\<close> and \<^verbatim>\<open>CHash256\<close> of \<^verbatim>\<open>src/src/hash.h\<close>.\<close>

definition Hash160 :: "script_env \<Rightarrow> bytes \<Rightarrow> bytes" where
  "Hash160 E b = RIPEMD160 E (SHA256 E b)"

definition Hash256 :: "script_env \<Rightarrow> bytes \<Rightarrow> bytes" where
  "Hash256 E b = SHA256 E (SHA256 E b)"

section \<open>Opcodes on the stack alone\<close>

text \<open>
  Each group returns \<open>None\<close> for an opcode that is not its own, and otherwise the new stack or the
  error the case sets.
\<close>

definition vchFalse :: valtype where "vchFalse = []"
definition vchTrue :: valtype where "vchTrue = [1]"

definition vchBool :: "bool \<Rightarrow> valtype" where
  "vchBool b = (if b then vchTrue else vchFalse)"

abbreviation (input) bad_stack :: "ScriptError + 'a" where
  "bad_stack \<equiv> Inl SCRIPT_ERR_INVALID_STACK_OPERATION"

definition stack_op_many :: "opcodetype \<Rightarrow> stack \<Rightarrow> (ScriptError + stack) option" where
  "stack_op_many opcode stk =
     (if opcode = OP_2DROP then Some (case stk of x2 # x1 # s \<Rightarrow> Inr s | _ \<Rightarrow> bad_stack)
      else if opcode = OP_2DUP then
        Some (case stk of x2 # x1 # s \<Rightarrow> Inr (x2 # x1 # x2 # x1 # s) | _ \<Rightarrow> bad_stack)
      else if opcode = OP_3DUP then
        Some (case stk of x3 # x2 # x1 # s \<Rightarrow> Inr (x3 # x2 # x1 # x3 # x2 # x1 # s) | _ \<Rightarrow> bad_stack)
      else if opcode = OP_2OVER then
        Some (case stk of x4 # x3 # x2 # x1 # s \<Rightarrow> Inr (x2 # x1 # x4 # x3 # x2 # x1 # s)
              | _ \<Rightarrow> bad_stack)
      else if opcode = OP_2ROT then
        Some (case stk of x6 # x5 # x4 # x3 # x2 # x1 # s \<Rightarrow> Inr (x2 # x1 # x6 # x5 # x4 # x3 # s)
              | _ \<Rightarrow> bad_stack)
      else if opcode = OP_2SWAP then
        Some (case stk of x4 # x3 # x2 # x1 # s \<Rightarrow> Inr (x2 # x1 # x4 # x3 # s) | _ \<Rightarrow> bad_stack)
      else None)"

definition stack_op_one :: "opcodetype \<Rightarrow> bool \<Rightarrow> stack \<Rightarrow> (ScriptError + stack) option" where
  "stack_op_one opcode fRequireMinimal stk =
     (if opcode = OP_IFDUP then
        Some (case stk of x # s \<Rightarrow> Inr (if CastToBool x then x # x # s else x # s) | _ \<Rightarrow> bad_stack)
      else if opcode = OP_DEPTH then Some (Inr (serialize (int (length stk)) # stk))
      else if opcode = OP_DROP then Some (case stk of x # s \<Rightarrow> Inr s | _ \<Rightarrow> bad_stack)
      else if opcode = OP_DUP then Some (case stk of x # s \<Rightarrow> Inr (x # x # s) | _ \<Rightarrow> bad_stack)
      else if opcode = OP_NIP then
        Some (case stk of x2 # x1 # s \<Rightarrow> Inr (x2 # s) | _ \<Rightarrow> bad_stack)
      else if opcode = OP_OVER then
        Some (case stk of x2 # x1 # s \<Rightarrow> Inr (x1 # x2 # x1 # s) | _ \<Rightarrow> bad_stack)
      else if opcode = OP_PICK \<or> opcode = OP_ROLL then
        Some (case stk of x # y # s \<Rightarrow>
                (case CScriptNum x fRequireMinimal 4 of
                   None \<Rightarrow> Inl SCRIPT_ERR_UNKNOWN_ERROR
                 | Some m_value \<Rightarrow>
                     let n = getint m_value; stk' = y # s in
                     if n < 0 \<or> n \<ge> int (length stk') then bad_stack
                     else let vch = stk' ! nat n in
                       Inr (vch # (if opcode = OP_ROLL
                                   then take (nat n) stk' @ drop (Suc (nat n)) stk' else stk')))
              | _ \<Rightarrow> bad_stack)
      else if opcode = OP_ROT then
        Some (case stk of x3 # x2 # x1 # s \<Rightarrow> Inr (x1 # x3 # x2 # s) | _ \<Rightarrow> bad_stack)
      else if opcode = OP_SWAP then
        Some (case stk of x2 # x1 # s \<Rightarrow> Inr (x1 # x2 # s) | _ \<Rightarrow> bad_stack)
      else if opcode = OP_TUCK then
        Some (case stk of x2 # x1 # s \<Rightarrow> Inr (x2 # x1 # x2 # s) | _ \<Rightarrow> bad_stack)
      else if opcode = OP_SIZE then
        Some (case stk of x # s \<Rightarrow> Inr (serialize (int (length x)) # x # s) | _ \<Rightarrow> bad_stack)
      else None)"

definition equal_op :: "opcodetype \<Rightarrow> stack \<Rightarrow> (ScriptError + stack) option" where
  "equal_op opcode stk =
     (if opcode = OP_EQUAL \<or> opcode = OP_EQUALVERIFY then
        Some (case stk of x2 # x1 # s \<Rightarrow>
                let fEqual = (x1 = x2) in
                if opcode = OP_EQUALVERIFY then
                  (if fEqual then Inr s else Inl SCRIPT_ERR_EQUALVERIFY)
                else Inr (vchBool fEqual # s)
              | _ \<Rightarrow> bad_stack)
      else None)"

definition bn_bool :: "bool \<Rightarrow> int" where
  "bn_bool b = (if b then 1 else 0)"

definition unary_num :: "opcodetype \<Rightarrow> int \<Rightarrow> int" where
  "unary_num opcode bn =
     (if opcode = OP_1ADD then bn + 1
      else if opcode = OP_1SUB then bn - 1
      else if opcode = OP_NEGATE then - bn
      else if opcode = OP_ABS then (if bn < 0 then - bn else bn)
      else if opcode = OP_NOT then bn_bool (bn = 0)
      else bn_bool (bn \<noteq> 0))"

definition unary_op :: "opcodetype \<Rightarrow> bool \<Rightarrow> stack \<Rightarrow> (ScriptError + stack) option" where
  "unary_op opcode fRequireMinimal stk =
     (if opcode = OP_1ADD \<or> opcode = OP_1SUB \<or> opcode = OP_NEGATE \<or> opcode = OP_ABS
         \<or> opcode = OP_NOT \<or> opcode = OP_0NOTEQUAL then
        Some (case stk of x # s \<Rightarrow>
                (case CScriptNum x fRequireMinimal 4 of
                   None \<Rightarrow> Inl SCRIPT_ERR_UNKNOWN_ERROR
                 | Some bn \<Rightarrow> Inr (serialize (unary_num opcode bn) # s))
              | _ \<Rightarrow> bad_stack)
      else None)"

definition binary_num :: "opcodetype \<Rightarrow> int \<Rightarrow> int \<Rightarrow> int" where
  "binary_num opcode bn1 bn2 =
     (if opcode = OP_ADD then bn1 + bn2
      else if opcode = OP_SUB then bn1 - bn2
      else if opcode = OP_BOOLAND then bn_bool (bn1 \<noteq> 0 \<and> bn2 \<noteq> 0)
      else if opcode = OP_BOOLOR then bn_bool (bn1 \<noteq> 0 \<or> bn2 \<noteq> 0)
      else if opcode = OP_NUMEQUAL \<or> opcode = OP_NUMEQUALVERIFY then bn_bool (bn1 = bn2)
      else if opcode = OP_NUMNOTEQUAL then bn_bool (bn1 \<noteq> bn2)
      else if opcode = OP_LESSTHAN then bn_bool (bn1 < bn2)
      else if opcode = OP_GREATERTHAN then bn_bool (bn1 > bn2)
      else if opcode = OP_LESSTHANOREQUAL then bn_bool (bn1 \<le> bn2)
      else if opcode = OP_GREATERTHANOREQUAL then bn_bool (bn1 \<ge> bn2)
      else if opcode = OP_MIN then (if bn1 < bn2 then bn1 else bn2)
      else (if bn1 > bn2 then bn1 else bn2))"

definition binary_op :: "opcodetype \<Rightarrow> bool \<Rightarrow> stack \<Rightarrow> (ScriptError + stack) option" where
  "binary_op opcode fRequireMinimal stk =
     (if opcode = OP_ADD \<or> opcode = OP_SUB \<or> (OP_BOOLAND \<le> opcode \<and> opcode \<le> OP_MAX) then
        Some (case stk of x2 # x1 # s \<Rightarrow>
                (case (CScriptNum x1 fRequireMinimal 4, CScriptNum x2 fRequireMinimal 4) of
                   (Some bn1, Some bn2) \<Rightarrow>
                     let vch = serialize (binary_num opcode bn1 bn2) in
                     if opcode = OP_NUMEQUALVERIFY then
                       (if CastToBool vch then Inr s else Inl SCRIPT_ERR_NUMEQUALVERIFY)
                     else Inr (vch # s)
                 | _ \<Rightarrow> Inl SCRIPT_ERR_UNKNOWN_ERROR)
              | _ \<Rightarrow> bad_stack)
      else None)"

definition within_op :: "opcodetype \<Rightarrow> bool \<Rightarrow> stack \<Rightarrow> (ScriptError + stack) option" where
  "within_op opcode fRequireMinimal stk =
     (if opcode = OP_WITHIN then
        Some (case stk of x3 # x2 # x1 # s \<Rightarrow>
                (case (CScriptNum x1 fRequireMinimal 4, CScriptNum x2 fRequireMinimal 4,
                       CScriptNum x3 fRequireMinimal 4) of
                   (Some bn1, Some bn2, Some bn3) \<Rightarrow> Inr (vchBool (bn2 \<le> bn1 \<and> bn1 < bn3) # s)
                 | _ \<Rightarrow> Inl SCRIPT_ERR_UNKNOWN_ERROR)
              | _ \<Rightarrow> bad_stack)
      else None)"

definition hash_op :: "script_env \<Rightarrow> opcodetype \<Rightarrow> stack \<Rightarrow> (ScriptError + stack) option" where
  "hash_op E opcode stk =
     (if opcode = OP_RIPEMD160 \<or> opcode = OP_SHA1 \<or> opcode = OP_SHA256 \<or> opcode = OP_HASH160
         \<or> opcode = OP_HASH256 then
        Some (case stk of vch # s \<Rightarrow>
                Inr ((if opcode = OP_RIPEMD160 then RIPEMD160 E vch
                      else if opcode = OP_SHA1 then SHA1 E vch
                      else if opcode = OP_SHA256 then SHA256 E vch
                      else if opcode = OP_HASH160 then Hash160 E vch
                      else Hash256 E vch) # s)
              | _ \<Rightarrow> bad_stack)
      else None)"

section \<open>Signature opcodes\<close>

definition sig_encoding_error ::
    "script_env \<Rightarrow> valtype \<Rightarrow> valtype \<Rightarrow> u32 \<Rightarrow> SigVersion \<Rightarrow> ScriptError option" where
  "sig_encoding_error E vchSig vchPubKey flags sigversion =
     (case CheckSignatureEncoding E vchSig flags of
        Some e \<Rightarrow> Some e
      | None \<Rightarrow> CheckPubKeyEncoding vchPubKey flags sigversion)"

text \<open>\<open>code\<close> is the script from the last code separator on.\<close>

definition checksig_op ::
    "script_env \<Rightarrow> opcodetype \<Rightarrow> u32 \<Rightarrow> SigVersion \<Rightarrow> script \<Rightarrow> stack \<Rightarrow> (ScriptError + stack) option"
  where
  "checksig_op E opcode flags sigversion code stk =
     (if opcode = OP_CHECKSIG \<or> opcode = OP_CHECKSIGVERIFY then
        Some (case stk of vchPubKey # vchSig # s \<Rightarrow>
                let scriptCode = (if sigversion = SIGVERSION_BASE
                                  then fst (FindAndDelete code (push_data vchSig)) else code) in
                (case sig_encoding_error E vchSig vchPubKey flags sigversion of
                   Some e \<Rightarrow> Inl e
                 | None \<Rightarrow>
                     let fSuccess = CheckSig E vchSig vchPubKey scriptCode sigversion in
                     if \<not> fSuccess \<and> flags AND SCRIPT_VERIFY_NULLFAIL \<noteq> 0 \<and> length vchSig \<noteq> 0
                     then Inl SCRIPT_ERR_SIG_NULLFAIL
                     else if opcode = OP_CHECKSIGVERIFY then
                       (if fSuccess then Inr s else Inl SCRIPT_ERR_CHECKSIGVERIFY)
                     else Inr (vchBool fSuccess # s))
              | _ \<Rightarrow> bad_stack)
      else None)"

text \<open>Removing the signatures from the script code before a multi-signature check.\<close>

fun drop_sigs :: "SigVersion \<Rightarrow> valtype list \<Rightarrow> script \<Rightarrow> script" where
  "drop_sigs sigversion [] scriptCode = scriptCode"
| "drop_sigs sigversion (vchSig # sigs) scriptCode =
     drop_sigs sigversion sigs
       (if sigversion = SIGVERSION_BASE then fst (FindAndDelete scriptCode (push_data vchSig))
        else scriptCode)"

text \<open>The matching loop; \<open>isig\<close> and \<open>ikey\<close> count from the top of the stack, which is 1.\<close>

function multisig_loop ::
    "script_env \<Rightarrow> u32 \<Rightarrow> SigVersion \<Rightarrow> script \<Rightarrow> stack \<Rightarrow> bool \<Rightarrow> nat \<Rightarrow> nat \<Rightarrow> int \<Rightarrow> int
      \<Rightarrow> ScriptError + bool" where
  "multisig_loop E flags sigversion scriptCode stk fSuccess isig ikey nSigsCount nKeysCount =
     (if fSuccess \<and> nSigsCount > 0 then
        let vchSig = stk ! (isig - 1); vchPubKey = stk ! (ikey - 1) in
        (case sig_encoding_error E vchSig vchPubKey flags sigversion of
           Some e \<Rightarrow> Inl e
         | None \<Rightarrow>
             let fOk = CheckSig E vchSig vchPubKey scriptCode sigversion;
                 isig' = (if fOk then isig + 1 else isig);
                 nSigs' = (if fOk then nSigsCount - 1 else nSigsCount) in
             multisig_loop E flags sigversion scriptCode stk (\<not> nSigs' > nKeysCount - 1)
               isig' (ikey + 1) nSigs' (nKeysCount - 1))
      else Inr fSuccess)"
  by pat_completeness auto
termination
  by (relation "measure (\<lambda>(_, _, _, _, _, fSuccess, _, _, nSigsCount, nKeysCount).
      if fSuccess \<and> nSigsCount > 0 then Suc (nat nKeysCount) else 0)") (auto split: if_splits)

declare multisig_loop.simps [simp del]

text \<open>Removing the arguments: \<open>n\<close> pops, the first \<open>ikey2\<close> of which are not signatures.\<close>

fun multisig_cleanup :: "u32 \<Rightarrow> bool \<Rightarrow> nat \<Rightarrow> nat \<Rightarrow> stack \<Rightarrow> ScriptError + stack" where
  "multisig_cleanup flags fSuccess 0 ikey2 stk = Inr stk"
| "multisig_cleanup flags fSuccess (Suc n) ikey2 stk =
     (case stk of [] \<Rightarrow> Inl SCRIPT_ERR_UNKNOWN_ERROR
      | x # s \<Rightarrow>
          if \<not> fSuccess \<and> flags AND SCRIPT_VERIFY_NULLFAIL \<noteq> 0 \<and> ikey2 = 0 \<and> length x \<noteq> 0
          then Inl SCRIPT_ERR_SIG_NULLFAIL
          else multisig_cleanup flags fSuccess n (ikey2 - 1) s)"

text \<open>The whole case, over the operation counter as well.\<close>

definition checkmultisig_op ::
    "script_env \<Rightarrow> opcodetype \<Rightarrow> u32 \<Rightarrow> SigVersion \<Rightarrow> script \<Rightarrow> nat \<Rightarrow> stack
      \<Rightarrow> ScriptError + (nat \<times> stack)" where
  "checkmultisig_op E opcode flags sigversion code nOpCount stk =
     (let fRequireMinimal = (flags AND SCRIPT_VERIFY_MINIMALDATA \<noteq> 0) in
      if length stk < 1 then bad_stack
      else case CScriptNum (stk ! 0) fRequireMinimal 4 of
        None \<Rightarrow> Inl SCRIPT_ERR_UNKNOWN_ERROR
      | Some k \<Rightarrow>
        let nKeysCount = getint k in
        if nKeysCount < 0 \<or> nKeysCount > int MAX_PUBKEYS_PER_MULTISIG then Inl SCRIPT_ERR_PUBKEY_COUNT
        else let nOpCount = nOpCount + nat nKeysCount in
        if nOpCount > MAX_OPS_PER_SCRIPT then Inl SCRIPT_ERR_OP_COUNT
        else let i = 2 + nat nKeysCount in
        if length stk < i then bad_stack
        else case CScriptNum (stk ! (i - 1)) fRequireMinimal 4 of
          None \<Rightarrow> Inl SCRIPT_ERR_UNKNOWN_ERROR
        | Some n \<Rightarrow>
          let nSigsCount = getint n in
          if nSigsCount < 0 \<or> nSigsCount > nKeysCount then Inl SCRIPT_ERR_SIG_COUNT
          else let isig = i + 1; i = i + 1 + nat nSigsCount in
          if length stk < i then bad_stack
          else
            let scriptCode = drop_sigs sigversion (take (nat nSigsCount) (drop (isig - 1) stk)) code in
            case multisig_loop E flags sigversion scriptCode stk True isig 2 nSigsCount nKeysCount of
              Inl e \<Rightarrow> Inl e
            | Inr fSuccess \<Rightarrow>
              (case multisig_cleanup flags fSuccess (i - 1) (nat nKeysCount + 2) stk of
                 Inl e \<Rightarrow> Inl e
               | Inr stk \<Rightarrow>
                 (case stk of [] \<Rightarrow> bad_stack
                  | dummy # s \<Rightarrow>
                    if flags AND SCRIPT_VERIFY_NULLDUMMY \<noteq> 0 \<and> length dummy \<noteq> 0
                    then Inl SCRIPT_ERR_SIG_NULLDUMMY
                    else if opcode = OP_CHECKMULTISIGVERIFY then
                      (if fSuccess then Inr (nOpCount, s) else Inl SCRIPT_ERR_CHECKMULTISIGVERIFY)
                    else Inr (nOpCount, vchBool fSuccess # s))))"

section \<open>The machine\<close>

text \<open>
  The local variables of \<^verbatim>\<open>EvalScript\<close>: \<open>es_code\<close> is the suffix \<^verbatim>\<open>pbegincodehash\<close> starts, and
  \<open>es_vfExec\<close> has the innermost branch first.
\<close>

record exec_state =
  es_stack :: stack
  es_altstack :: stack
  es_vfExec :: "bool list"
  es_nOpCount :: nat
  es_code :: script

definition disabled_opcode :: "opcodetype \<Rightarrow> bool" where
  "disabled_opcode opcode \<longleftrightarrow>
     opcode = OP_CAT \<or> opcode = OP_SUBSTR \<or> opcode = OP_LEFT \<or> opcode = OP_RIGHT
     \<or> opcode = OP_INVERT \<or> opcode = OP_AND \<or> opcode = OP_OR \<or> opcode = OP_XOR
     \<or> opcode = OP_2MUL \<or> opcode = OP_2DIV \<or> opcode = OP_MUL \<or> opcode = OP_DIV
     \<or> opcode = OP_MOD \<or> opcode = OP_LSHIFT \<or> opcode = OP_RSHIFT"

definition op_checklocktimeverify :: "script_env \<Rightarrow> u32 \<Rightarrow> exec_state \<Rightarrow> ScriptError + exec_state" where
  "op_checklocktimeverify E flags st =
     (if flags AND SCRIPT_VERIFY_CHECKLOCKTIMEVERIFY = 0 then
        (if flags AND SCRIPT_VERIFY_DISCOURAGE_UPGRADABLE_NOPS \<noteq> 0
         then Inl SCRIPT_ERR_DISCOURAGE_UPGRADABLE_NOPS else Inr st)
      else case es_stack st of [] \<Rightarrow> bad_stack
      | x # s \<Rightarrow>
        (case CScriptNum x (flags AND SCRIPT_VERIFY_MINIMALDATA \<noteq> 0) 5 of
           None \<Rightarrow> Inl SCRIPT_ERR_UNKNOWN_ERROR
         | Some nLockTime \<Rightarrow>
             if nLockTime < 0 then Inl SCRIPT_ERR_NEGATIVE_LOCKTIME
             else if \<not> CheckLockTime E nLockTime then Inl SCRIPT_ERR_UNSATISFIED_LOCKTIME
             else Inr st))"

abbreviation (input) SEQUENCE_LOCKTIME_DISABLE_FLAG :: int
  where "SEQUENCE_LOCKTIME_DISABLE_FLAG \<equiv> 0x80000000"

definition op_checksequenceverify :: "script_env \<Rightarrow> u32 \<Rightarrow> exec_state \<Rightarrow> ScriptError + exec_state" where
  "op_checksequenceverify E flags st =
     (if flags AND SCRIPT_VERIFY_CHECKSEQUENCEVERIFY = 0 then
        (if flags AND SCRIPT_VERIFY_DISCOURAGE_UPGRADABLE_NOPS \<noteq> 0
         then Inl SCRIPT_ERR_DISCOURAGE_UPGRADABLE_NOPS else Inr st)
      else case es_stack st of [] \<Rightarrow> bad_stack
      | x # s \<Rightarrow>
        (case CScriptNum x (flags AND SCRIPT_VERIFY_MINIMALDATA \<noteq> 0) 5 of
           None \<Rightarrow> Inl SCRIPT_ERR_UNKNOWN_ERROR
         | Some nSequence \<Rightarrow>
             if nSequence < 0 then Inl SCRIPT_ERR_NEGATIVE_LOCKTIME
             else if nSequence AND SEQUENCE_LOCKTIME_DISABLE_FLAG \<noteq> 0 then Inr st
             else if \<not> CheckSequence E nSequence then Inl SCRIPT_ERR_UNSATISFIED_LOCKTIME
             else Inr st))"

definition op_if :: "opcodetype \<Rightarrow> u32 \<Rightarrow> SigVersion \<Rightarrow> bool \<Rightarrow> exec_state \<Rightarrow> ScriptError + exec_state" where
  "op_if opcode flags sigversion fExec st =
     (if \<not> fExec then Inr (st\<lparr>es_vfExec := False # es_vfExec st\<rparr>)
      else case es_stack st of [] \<Rightarrow> Inl SCRIPT_ERR_UNBALANCED_CONDITIONAL
      | vch # s \<Rightarrow>
          if sigversion = SIGVERSION_WITNESS_V0 \<and> flags AND SCRIPT_VERIFY_MINIMALIF \<noteq> 0
             \<and> (length vch > 1 \<or> (length vch = 1 \<and> vch ! 0 \<noteq> 1))
          then Inl SCRIPT_ERR_MINIMALIF
          else
            let fValue = (if opcode = OP_NOTIF then \<not> CastToBool vch else CastToBool vch) in
            Inr (st\<lparr>es_stack := s, es_vfExec := fValue # es_vfExec st\<rparr>))"

definition control_op ::
    "script_env \<Rightarrow> opcodetype \<Rightarrow> u32 \<Rightarrow> SigVersion \<Rightarrow> bool \<Rightarrow> exec_state
      \<Rightarrow> (ScriptError + exec_state) option" where
  "control_op E opcode flags sigversion fExec st =
     (if opcode = OP_NOP then Some (Inr st)
      else if opcode = OP_CHECKLOCKTIMEVERIFY then Some (op_checklocktimeverify E flags st)
      else if opcode = OP_CHECKSEQUENCEVERIFY then Some (op_checksequenceverify E flags st)
      else if opcode = OP_NOP1 \<or> (OP_NOP4 \<le> opcode \<and> opcode \<le> OP_NOP10) then
        Some (if flags AND SCRIPT_VERIFY_DISCOURAGE_UPGRADABLE_NOPS \<noteq> 0
              then Inl SCRIPT_ERR_DISCOURAGE_UPGRADABLE_NOPS else Inr st)
      else if opcode = OP_IF \<or> opcode = OP_NOTIF then Some (op_if opcode flags sigversion fExec st)
      else if opcode = OP_ELSE then
        Some (case es_vfExec st of [] \<Rightarrow> Inl SCRIPT_ERR_UNBALANCED_CONDITIONAL
              | b # bs \<Rightarrow> Inr (st\<lparr>es_vfExec := (\<not> b) # bs\<rparr>))
      else if opcode = OP_ENDIF then
        Some (case es_vfExec st of [] \<Rightarrow> Inl SCRIPT_ERR_UNBALANCED_CONDITIONAL
              | b # bs \<Rightarrow> Inr (st\<lparr>es_vfExec := bs\<rparr>))
      else if opcode = OP_VERIFY then
        Some (case es_stack st of [] \<Rightarrow> bad_stack
              | x # s \<Rightarrow> if CastToBool x then Inr (st\<lparr>es_stack := s\<rparr>) else Inl SCRIPT_ERR_VERIFY)
      else if opcode = OP_RETURN then Some (Inl SCRIPT_ERR_OP_RETURN)
      else None)"

definition altstack_op :: "opcodetype \<Rightarrow> exec_state \<Rightarrow> (ScriptError + exec_state) option" where
  "altstack_op opcode st =
     (if opcode = OP_TOALTSTACK then
        Some (case es_stack st of [] \<Rightarrow> bad_stack
              | x # s \<Rightarrow> Inr (st\<lparr>es_stack := s, es_altstack := x # es_altstack st\<rparr>))
      else if opcode = OP_FROMALTSTACK then
        Some (case es_altstack st of [] \<Rightarrow> Inl SCRIPT_ERR_INVALID_ALTSTACK_OPERATION
              | x # s \<Rightarrow> Inr (st\<lparr>es_stack := x # es_stack st, es_altstack := s\<rparr>))
      else None)"

text \<open>The opcodes that only change the stack.\<close>

definition or_else :: "'a option \<Rightarrow> 'a option \<Rightarrow> 'a option" where
  "or_else a b = (case a of None \<Rightarrow> b | Some x \<Rightarrow> Some x)"

lemma or_else_simps [simp]:
  "or_else None b = b" "or_else (Some x) b = Some x"
  by (simp_all add: or_else_def)

lemma or_else_eq_Some: "or_else a b = Some x \<longleftrightarrow> a = Some x \<or> (a = None \<and> b = Some x)"
  by (cases a) auto

definition stack_ops ::
    "script_env \<Rightarrow> opcodetype \<Rightarrow> u32 \<Rightarrow> SigVersion \<Rightarrow> script \<Rightarrow> stack \<Rightarrow> (ScriptError + stack) option"
  where
  "stack_ops E opcode flags sigversion code stk =
     (let fRequireMinimal = (flags AND SCRIPT_VERIFY_MINIMALDATA \<noteq> 0) in
      or_else (stack_op_many opcode stk)
      (or_else (stack_op_one opcode fRequireMinimal stk)
      (or_else (equal_op opcode stk)
      (or_else (unary_op opcode fRequireMinimal stk)
      (or_else (binary_op opcode fRequireMinimal stk)
      (or_else (within_op opcode fRequireMinimal stk)
      (or_else (hash_op E opcode stk) (checksig_op E opcode flags sigversion code stk))))))))"

definition exec_switch ::
    "script_env \<Rightarrow> opcodetype \<Rightarrow> u32 \<Rightarrow> SigVersion \<Rightarrow> bool \<Rightarrow> script \<Rightarrow> exec_state
      \<Rightarrow> ScriptError + exec_state" where
  "exec_switch E opcode flags sigversion fExec rest st =
     (if opcode = OP_1NEGATE \<or> (OP_1 \<le> opcode \<and> opcode \<le> OP_16) then
        Inr (st\<lparr>es_stack := serialize (int opcode - (int OP_1 - 1)) # es_stack st\<rparr>)
      else case or_else (control_op E opcode flags sigversion fExec st) (altstack_op opcode st) of
        Some res \<Rightarrow> res
      | None \<Rightarrow>
        (case stack_ops E opcode flags sigversion (es_code st) (es_stack st) of
           Some (Inl e) \<Rightarrow> Inl e
         | Some (Inr s) \<Rightarrow> Inr (st\<lparr>es_stack := s\<rparr>)
         | None \<Rightarrow>
             if opcode = OP_CODESEPARATOR then Inr (st\<lparr>es_code := rest\<rparr>)
             else if opcode = OP_CHECKMULTISIG \<or> opcode = OP_CHECKMULTISIGVERIFY then
               (case checkmultisig_op E opcode flags sigversion (es_code st) (es_nOpCount st)
                       (es_stack st) of
                  Inl e \<Rightarrow> Inl e
                | Inr (n, s) \<Rightarrow> Inr (st\<lparr>es_nOpCount := n, es_stack := s\<rparr>))
             else Inl SCRIPT_ERR_BAD_OPCODE))"

text \<open>One turn of the loop, after the instruction has been read; \<open>rest\<close> is what follows it.\<close>

definition exec_instr ::
    "script_env \<Rightarrow> u32 \<Rightarrow> SigVersion \<Rightarrow> opcodetype \<Rightarrow> valtype \<Rightarrow> script \<Rightarrow> exec_state
      \<Rightarrow> ScriptError + exec_state" where
  "exec_instr E flags sigversion opcode vchPushValue rest st =
     (let fExec = (False \<notin> set (es_vfExec st)) in
      if length vchPushValue > MAX_SCRIPT_ELEMENT_SIZE then Inl SCRIPT_ERR_PUSH_SIZE
      else
        let st = (if opcode > OP_16 then st\<lparr>es_nOpCount := es_nOpCount st + 1\<rparr> else st) in
        if opcode > OP_16 \<and> es_nOpCount st > MAX_OPS_PER_SCRIPT then Inl SCRIPT_ERR_OP_COUNT
        else if disabled_opcode opcode then Inl SCRIPT_ERR_DISABLED_OPCODE
        else
          case (if fExec \<and> opcode \<le> OP_PUSHDATA4 then
                  (if flags AND SCRIPT_VERIFY_MINIMALDATA \<noteq> 0 \<and> \<not> CheckMinimalPush vchPushValue opcode
                   then Inl SCRIPT_ERR_MINIMALDATA
                   else Inr (st\<lparr>es_stack := vchPushValue # es_stack st\<rparr>))
                else if fExec \<or> (OP_IF \<le> opcode \<and> opcode \<le> OP_ENDIF) then
                  exec_switch E opcode flags sigversion fExec rest st
                else Inr st) of
            Inl e \<Rightarrow> Inl e
          | Inr st \<Rightarrow>
              if length (es_stack st) + length (es_altstack st) > 1000 then Inl SCRIPT_ERR_STACK_SIZE
              else Inr st)"

function eval_loop ::
    "script_env \<Rightarrow> u32 \<Rightarrow> SigVersion \<Rightarrow> script \<Rightarrow> exec_state \<Rightarrow> ScriptError + exec_state" where
  "eval_loop E flags sigversion r st =
     (if r = [] then Inr st
      else case GetOp2 r of (ok, k, opcode, vchPushValue) \<Rightarrow>
        if \<not> ok then Inl SCRIPT_ERR_BAD_OPCODE
        else case exec_instr E flags sigversion opcode vchPushValue (drop k r) st of
          Inl e \<Rightarrow> Inl e
        | Inr st' \<Rightarrow> eval_loop E flags sigversion (drop k r) st')"
  by pat_completeness auto
termination
  by (relation "measure (\<lambda>(_, _, _, r, _). length r)") (auto simp: GetOp2_shrinks)

declare eval_loop.simps [simp del]

definition EvalScript ::
    "script_env \<Rightarrow> stack \<Rightarrow> script \<Rightarrow> u32 \<Rightarrow> SigVersion \<Rightarrow> ScriptError + stack" where
  "EvalScript E stk scr flags sigversion =
     (if length scr > MAX_SCRIPT_SIZE then Inl SCRIPT_ERR_SCRIPT_SIZE
      else case eval_loop E flags sigversion scr
                  \<lparr>es_stack = stk, es_altstack = [], es_vfExec = [], es_nOpCount = 0, es_code = scr\<rparr> of
        Inl e \<Rightarrow> Inl e
      | Inr st \<Rightarrow>
          if es_vfExec st \<noteq> [] then Inl SCRIPT_ERR_UNBALANCED_CONDITIONAL else Inr (es_stack st))"

section \<open>Verification\<close>

text \<open>
  The witness stack is kept in the order of the source, its last element the top.
\<close>

definition VerifyWitnessProgram ::
    "script_env \<Rightarrow> bytes list \<Rightarrow> nat \<Rightarrow> bytes \<Rightarrow> u32 \<Rightarrow> ScriptError + unit" where
  "VerifyWitnessProgram E witness witversion program flags =
     (let run = (\<lambda>stk scriptPubKey.
        if \<exists>x \<in> set stk. length x > MAX_SCRIPT_ELEMENT_SIZE then Inl SCRIPT_ERR_PUSH_SIZE
        else case EvalScript E (rev stk) scriptPubKey flags SIGVERSION_WITNESS_V0 of
          Inl e \<Rightarrow> Inl e
        | Inr stk' \<Rightarrow>
            if length stk' \<noteq> 1 then Inl SCRIPT_ERR_EVAL_FALSE
            else if \<not> CastToBool (hd stk') then Inl SCRIPT_ERR_EVAL_FALSE else Inr ()) in
      if witversion = 0 then
        (if length program = 32 then
           (if length witness = 0 then Inl SCRIPT_ERR_WITNESS_PROGRAM_WITNESS_EMPTY
            else if SHA256 E (last witness) \<noteq> program then Inl SCRIPT_ERR_WITNESS_PROGRAM_MISMATCH
            else run (butlast witness) (last witness))
         else if length program = 20 then
           (if length witness \<noteq> 2 then Inl SCRIPT_ERR_WITNESS_PROGRAM_MISMATCH
            else run witness ([of_nat OP_DUP, of_nat OP_HASH160] @ push_data program
                   @ [of_nat OP_EQUALVERIFY, of_nat OP_CHECKSIG]))
         else Inl SCRIPT_ERR_WITNESS_PROGRAM_WRONG_LENGTH)
      else if flags AND SCRIPT_VERIFY_DISCOURAGE_UPGRADABLE_WITNESS_PROGRAM \<noteq> 0
      then Inl SCRIPT_ERR_DISCOURAGE_UPGRADABLE_WITNESS_PROGRAM
      else Inr ())"

text \<open>
  What a call of \<^verbatim>\<open>VerifyScript\<close> can end in: true, false with an error, an exception that leaves it,
  or a failed assertion.
\<close>

datatype verify_outcome = Verified | Failed ScriptError | Threw cpp_exn | Aborted

definition verify_witness_part ::
    "script_env \<Rightarrow> script \<Rightarrow> script \<Rightarrow> int \<Rightarrow> bytes list \<Rightarrow> u32 \<Rightarrow> stack
      \<Rightarrow> verify_outcome + (stack \<times> bool)" where
  "verify_witness_part E scriptSig scriptPubKey nVersion witness flags stk =
     (if flags AND SCRIPT_VERIFY_WITNESS = 0 then Inr (stk, False)
      else case IsWitnessProgram scriptPubKey nVersion of
        Inl x \<Rightarrow> Inl (Threw x)
      | Inr None \<Rightarrow> Inr (stk, False)
      | Inr (Some (witnessversion, witnessprogram)) \<Rightarrow>
          if length scriptSig \<noteq> 0 then Inl (Failed SCRIPT_ERR_WITNESS_MALLEATED)
          else case VerifyWitnessProgram E witness witnessversion witnessprogram flags of
            Inl e \<Rightarrow> Inl (Failed e)
          | Inr _ \<Rightarrow> Inr ([last stk], True))"

definition verify_p2sh_part ::
    "script_env \<Rightarrow> script \<Rightarrow> bytes list \<Rightarrow> u32 \<Rightarrow> stack \<Rightarrow> bool \<Rightarrow> verify_outcome + (stack \<times> bool)" where
  "verify_p2sh_part E scriptSig witness flags stackCopy hadWitness =
     (if \<not> IsPushOnly scriptSig then Inl (Failed SCRIPT_ERR_SIG_PUSHONLY)
      else case stackCopy of
        [] \<Rightarrow> Inl Aborted
      | pubKey2 # s \<Rightarrow>
        (case EvalScript E s pubKey2 flags SIGVERSION_BASE of
           Inl e \<Rightarrow> Inl (Failed e)
         | Inr stk \<Rightarrow>
             if stk = [] then Inl (Failed SCRIPT_ERR_EVAL_FALSE)
             else if \<not> CastToBool (hd stk) then Inl (Failed SCRIPT_ERR_EVAL_FALSE)
             else if flags AND SCRIPT_VERIFY_WITNESS = 0 then Inr (stk, hadWitness)
             else case IsWitnessProgram pubKey2 0 of
               Inl x \<Rightarrow> Inl (Threw x)
             | Inr None \<Rightarrow> Inr (stk, hadWitness)
             | Inr (Some (witnessversion, witnessprogram)) \<Rightarrow>
                 if scriptSig \<noteq> push_data pubKey2 then Inl (Failed SCRIPT_ERR_WITNESS_MALLEATED_P2SH)
                 else case VerifyWitnessProgram E witness witnessversion witnessprogram flags of
                   Inl e \<Rightarrow> Inl (Failed e)
                 | Inr _ \<Rightarrow> Inr ([last stk], True)))"

definition verify_final_part :: "bytes list \<Rightarrow> u32 \<Rightarrow> stack \<Rightarrow> bool \<Rightarrow> verify_outcome" where
  "verify_final_part witness flags stk hadWitness =
     (if flags AND SCRIPT_VERIFY_CLEANSTACK \<noteq> 0
         \<and> (flags AND SCRIPT_VERIFY_P2SH = 0 \<or> flags AND SCRIPT_VERIFY_WITNESS = 0) then Aborted
      else if flags AND SCRIPT_VERIFY_CLEANSTACK \<noteq> 0 \<and> length stk \<noteq> 1
      then Failed SCRIPT_ERR_CLEANSTACK
      else if flags AND SCRIPT_VERIFY_WITNESS \<noteq> 0 \<and> flags AND SCRIPT_VERIFY_P2SH = 0 then Aborted
      else if flags AND SCRIPT_VERIFY_WITNESS \<noteq> 0 \<and> \<not> hadWitness \<and> witness \<noteq> []
      then Failed SCRIPT_ERR_WITNESS_UNEXPECTED
      else Verified)"

definition VerifyScript ::
    "script_env \<Rightarrow> script \<Rightarrow> script \<Rightarrow> int \<Rightarrow> bytes list \<Rightarrow> u32 \<Rightarrow> verify_outcome" where
  "VerifyScript E scriptSig scriptPubKey nVersion witness flags0 =
     (let flags = (if nVersion = NAMECOIN_TX_VERSION
                   then flags0 AND NOT SCRIPT_VERIFY_MINIMALDATA else flags0) in
      if flags AND SCRIPT_VERIFY_SIGPUSHONLY \<noteq> 0 \<and> \<not> IsPushOnly scriptSig
      then Failed SCRIPT_ERR_SIG_PUSHONLY
      else case EvalScript E [] scriptSig flags SIGVERSION_BASE of
        Inl e \<Rightarrow> Failed e
      | Inr stackCopy \<Rightarrow>
        (case EvalScript E stackCopy scriptPubKey flags SIGVERSION_BASE of
           Inl e \<Rightarrow> Failed e
         | Inr stk \<Rightarrow>
           if stk = [] then Failed SCRIPT_ERR_EVAL_FALSE
           else if \<not> CastToBool (hd stk) then Failed SCRIPT_ERR_EVAL_FALSE
           else case verify_witness_part E scriptSig scriptPubKey nVersion witness flags stk of
             Inl out \<Rightarrow> out
           | Inr (stk, hadWitness) \<Rightarrow>
             (case IsPayToScriptHash scriptPubKey
                     (if flags AND SCRIPT_VERIFY_WITNESS \<noteq> 0 then nVersion else 0) of
                Inl x \<Rightarrow> Threw x
              | Inr fIsP2SH \<Rightarrow>
                (case (if flags AND SCRIPT_VERIFY_P2SH \<noteq> 0 \<and> fIsP2SH
                       then verify_p2sh_part E scriptSig witness flags stackCopy hadWitness
                       else Inr (stk, hadWitness)) of
                   Inl out \<Rightarrow> out
                 | Inr (stk, hadWitness) \<Rightarrow> verify_final_part witness flags stk hadWitness))))"

section \<open>Signature operations in witnesses\<close>

definition WitnessSigOps :: "nat \<Rightarrow> bytes \<Rightarrow> bytes list \<Rightarrow> nat" where
  "WitnessSigOps witversion witprogram witness =
     (if witversion = 0 \<and> length witprogram = 20 then 1
      else if witversion = 0 \<and> length witprogram = 32 \<and> length witness > 0
      then GetSigOpCount (last witness) True
      else 0)"

text \<open>
  The loop has no exit on a bad instruction: an unreadable one still moves the iterator, by
  \<open>GetOp2_moves\<close> below, so that \<open>None\<close> never arises.
\<close>

function last_data_loop :: "bytes \<Rightarrow> bytes \<Rightarrow> bytes option" where
  "last_data_loop r dat =
     (if r = [] then Some dat
      else case GetOp2 r of (ok, k, opcode, d) \<Rightarrow>
        if k = 0 then None else last_data_loop (drop k r) d)"
  by pat_completeness auto
termination
  by (relation "measure (\<lambda>(r, _). length r)") auto

declare last_data_loop.simps [simp del]

definition CountWitnessSigOps ::
    "script \<Rightarrow> script \<Rightarrow> bytes list \<Rightarrow> u32 \<Rightarrow> int \<Rightarrow> verify_outcome + nat" where
  "CountWitnessSigOps scriptSig scriptPubKey witness flags nVersion =
     (if flags AND SCRIPT_VERIFY_WITNESS = 0 then Inr 0
      else if flags AND SCRIPT_VERIFY_P2SH = 0 then Inl Aborted
      else case IsWitnessProgram scriptPubKey nVersion of
        Inl x \<Rightarrow> Inl (Threw x)
      | Inr (Some (v, prog)) \<Rightarrow> Inr (WitnessSigOps v prog witness)
      | Inr None \<Rightarrow>
        (case IsPayToScriptHash scriptPubKey nVersion of
           Inl x \<Rightarrow> Inl (Threw x)
         | Inr p2sh \<Rightarrow>
             if p2sh \<and> IsPushOnly scriptSig then
               (case IsWitnessProgramInner (the (last_data_loop scriptSig [])) of
                  Some (v, prog) \<Rightarrow> Inr (WitnessSigOps v prog witness)
                | None \<Rightarrow> Inr 0)
             else Inr 0))"

lemma GetOp2_moves: "r \<noteq> [] \<Longrightarrow> GetOp2 r = (ok, k, opcode, d) \<Longrightarrow> 0 < k"
  by (auto simp: GetOp2_def Let_def split: list.splits if_splits option.splits)

lemma last_data_loop_total: "last_data_loop r dat \<noteq> None"
proof (induction r dat rule: last_data_loop.induct)
  case (1 r dat)
  obtain ok k opcode d where g: "GetOp2 r = (ok, k, opcode, d)" by (metis prod_cases4)
  with 1 GetOp2_moves [OF _ g] show ?case
    by (cases "r = []") (simp_all add: last_data_loop.simps [of r] last_data_loop.simps [of "[]"])
qed

end
