(* ===== verification/MFC_InterpreterProps.thy ===== *)
theory MFC_InterpreterProps
  imports MFC_Interpreter "HOL-Library.Sublist"
begin

unbundle bit_operations_syntax

text \<open>
  Correctness of the script interpreter: how single instructions compose, the resource limits, the
  meaning of the boolean and signature encodings, multi-signature checking against a declarative
  specification, the standard output templates, and what a name prefix does to an evaluation.
\<close>

section \<open>Composition\<close>

lemma eval_loop_Nil [simp]: "eval_loop E flags sv [] st = Inr st"
  by (simp add: eval_loop.simps)

lemma eval_loop_step:
  assumes "GetOp2 r = (True, k, opcode, v)"
  shows "eval_loop E flags sv r st =
    bind_sum (exec_instr E flags sv opcode v (drop k r) st) (eval_loop E flags sv (drop k r))"
proof -
  have "r \<noteq> []" using assms by auto
  with assms show ?thesis
    by (simp add: eval_loop.simps [of E flags sv r] bind_sum_def split: sum.split)
qed

lemma eval_loop_opcode:
  assumes "OP_PUSHDATA4 < unat c"
  shows "eval_loop E flags sv (c # r) st =
    bind_sum (exec_instr E flags sv (unat c) [] r st) (eval_loop E flags sv r)"
  using eval_loop_step [of "c # r" 1 "unat c" "[]"] assms by simp

lemma eval_loop_push:
  assumes "length b < 4294967296"
  shows "eval_loop E flags sv (push_data b @ r) st =
    bind_sum (exec_instr E flags sv (push_opc b) b r st) (eval_loop E flags sv r)"
  using eval_loop_step [of "push_data b @ r" "length (push_data b)" "push_opc b" b] assms by simp

lemma not_disabled_push [simp]: "opcode \<le> OP_PUSHDATA4 \<Longrightarrow> \<not> disabled_opcode opcode"
  by (auto simp: disabled_opcode_def)

text \<open>A data push in an executed branch.\<close>

lemma exec_instr_push [exec_simps]:
  assumes "opcode \<le> OP_PUSHDATA4" "length b \<le> MAX_SCRIPT_ELEMENT_SIZE"
    and "False \<notin> set (es_vfExec st)"
    and "flags AND SCRIPT_VERIFY_MINIMALDATA = 0 \<or> CheckMinimalPush b opcode"
    and "length (es_stack st) + length (es_altstack st) < 1000"
  shows "exec_instr E flags sv opcode b r st = Inr (st\<lparr>es_stack := b # es_stack st\<rparr>)"
  using assms by (auto simp: exec_instr_def Let_def)

text \<open>The two drop opcodes, which close every name script.\<close>

lemma exec_instr_drop [exec_simps]:
  assumes "False \<notin> set (es_vfExec st)" "es_nOpCount st < MAX_OPS_PER_SCRIPT"
    and "es_stack st = x # s" "length s + length (es_altstack st) \<le> 1000"
  shows "exec_instr E flags sv OP_DROP [] r st =
    Inr (st\<lparr>es_stack := s, es_nOpCount := es_nOpCount st + 1\<rparr>)"
  using assms
  by (simp add: exec_instr_def Let_def disabled_opcode_def exec_switch_def control_op_def
      altstack_op_def stack_ops_def stack_op_many_def stack_op_one_def)

lemma exec_instr_2drop [exec_simps]:
  assumes "False \<notin> set (es_vfExec st)" "es_nOpCount st < MAX_OPS_PER_SCRIPT"
    and "es_stack st = x # y # s" "length s + length (es_altstack st) \<le> 1000"
  shows "exec_instr E flags sv OP_2DROP [] r st =
    Inr (st\<lparr>es_stack := s, es_nOpCount := es_nOpCount st + 1\<rparr>)"
  using assms
  by (simp add: exec_instr_def Let_def disabled_opcode_def exec_switch_def control_op_def
      altstack_op_def stack_ops_def stack_op_many_def)

section \<open>Limits\<close>

definition small :: "stack \<Rightarrow> bool" where
  "small s \<longleftrightarrow> (\<forall>x \<in> set s. length x \<le> MAX_SCRIPT_ELEMENT_SIZE)"

lemma small_simps [simp]:
  "small []" "small (x # s) \<longleftrightarrow> length x \<le> MAX_SCRIPT_ELEMENT_SIZE \<and> small s"
  by (auto simp: small_def)

lemma small_pick:
  assumes "\<not> n < 0" "\<not> 1 + int (length s) \<le> n" "length y \<le> MAX_SCRIPT_ELEMENT_SIZE" "small s"
  shows "length ((y # s) ! nat n) \<le> MAX_SCRIPT_ELEMENT_SIZE"
    and "small (take (nat n) (y # s) @ drop (nat n) s)"
proof -
  have "(y # s) ! nat n \<in> set (y # s)" using assms(1,2) by (intro nth_mem) auto
  with assms(3,4) show "length ((y # s) ! nat n) \<le> MAX_SCRIPT_ELEMENT_SIZE" by (auto simp: small_def)
  have "set (take (nat n) (y # s) @ drop (nat n) s) \<subseteq> set (y # s)"
    by (auto dest: in_set_takeD in_set_dropD simp del: take_Cons')
  with assms(3,4) show "small (take (nat n) (y # s) @ drop (nat n) s)"
    unfolding small_def by fastforce
qed

lemma small_vchBool [simp]: "length (vchBool b) \<le> MAX_SCRIPT_ELEMENT_SIZE"
  by (simp add: vchBool_def vchTrue_def vchFalse_def)

text \<open>The digest sizes of the hash functions.\<close>

definition hash_sized :: "script_env \<Rightarrow> bool" where
  "hash_sized E \<longleftrightarrow> (\<forall>b. length (RIPEMD160 E b) = 20) \<and> (\<forall>b. length (SHA1 E b) = 20)
     \<and> (\<forall>b. length (SHA256 E b) = 32)"

lemma serialize_small:
  assumes "\<bar>x\<bar> < 9223372036854775808"
  shows "length (serialize x) \<le> MAX_SCRIPT_ELEMENT_SIZE"
  using length_serialize [of x 7] assms by simp

lemma CScriptNum_small:
  assumes "CScriptNum v m n = Some x" "n \<le> 5"
  shows "\<bar>x\<bar> < 549755813888"
proof -
  have "length v \<le> Suc 4" "x = set_vch v" using assms by (auto simp: CScriptNum_def split: if_splits)
  with set_vch_bound [of v 4] show ?thesis by simp
qed

lemma stack_op_many_small:
  "stack_op_many opcode s = Some (Inr s') \<Longrightarrow> small s \<Longrightarrow> small s'"
  by (auto simp: stack_op_many_def split: if_splits list.splits)

lemma stack_op_one_small:
  assumes "stack_op_one opcode m s = Some (Inr s')" "small s" "length s < 9223372036854775808"
  shows "small s'"
  using assms
  by (auto simp: stack_op_one_def Let_def serialize_small
      intro!: small_pick split: if_splits list.splits option.splits)

lemma equal_op_small: "equal_op opcode s = Some (Inr s') \<Longrightarrow> small s \<Longrightarrow> small s'"
  by (auto simp: equal_op_def Let_def split: if_splits list.splits)

lemma unary_num_bound: "\<bar>bn\<bar> < 549755813888 \<Longrightarrow> \<bar>unary_num opcode bn\<bar> < 9223372036854775808"
  by (auto simp: unary_num_def bn_bool_def)

lemma unary_op_small:
  assumes "unary_op opcode m s = Some (Inr s')" "small s"
  shows "small s'"
  using assms
  by (auto simp: unary_op_def serialize_small split: if_splits list.splits option.splits
      intro!: serialize_small unary_num_bound CScriptNum_small)

lemma binary_num_bound:
  assumes "\<bar>a\<bar> < 549755813888" "\<bar>b\<bar> < 549755813888"
  shows "\<bar>binary_num opcode a b\<bar> < 9223372036854775808"
proof -
  have "binary_num opcode a b \<in> {a + b, a - b, 0, 1, a, b}"
    unfolding binary_num_def bn_bool_def by simp
  with assms show ?thesis by auto
qed

lemma binary_op_small:
  assumes "binary_op opcode m s = Some (Inr s')" "small s"
  shows "small s'"
  using assms
  by (auto simp: binary_op_def Let_def split: if_splits list.splits option.splits prod.splits
      intro!: serialize_small binary_num_bound CScriptNum_small)

lemma within_op_small: "within_op opcode m s = Some (Inr s') \<Longrightarrow> small s \<Longrightarrow> small s'"
  by (auto simp: within_op_def split: if_splits list.splits option.splits)

lemma hash_op_small: "hash_op E opcode s = Some (Inr s') \<Longrightarrow> hash_sized E \<Longrightarrow> small s \<Longrightarrow> small s'"
  by (auto simp: hash_op_def hash_sized_def Hash160_def Hash256_def split: if_splits list.splits)

lemma checksig_op_small:
  "checksig_op E opcode flags sv code s = Some (Inr s') \<Longrightarrow> small s \<Longrightarrow> small s'"
  by (auto simp: checksig_op_def Let_def split: if_splits list.splits option.splits)

lemma stack_ops_small:
  assumes "stack_ops E opcode flags sv code s = Some (Inr s')" "hash_sized E" "small s"
    and "length s < 9223372036854775808"
  shows "small s'"
  using assms(1) unfolding stack_ops_def Let_def or_else_eq_Some
  using assms(2-) stack_op_many_small stack_op_one_small equal_op_small unary_op_small
    binary_op_small within_op_small hash_op_small checksig_op_small
  by metis

lemma multisig_cleanup_drop:
  "multisig_cleanup flags fSuccess n ikey2 s = Inr s' \<Longrightarrow> s' = drop n s"
  by (induction flags fSuccess n ikey2 s rule: multisig_cleanup.induct)
    (auto split: list.splits if_splits)

lemma checkmultisig_op_Inr:
  assumes "checkmultisig_op E opcode flags sv code n s = Inr (n', s')"
  shows "n' \<le> MAX_OPS_PER_SCRIPT \<and>
    (\<exists>k x t. x # t = drop k s \<and> (s' = t \<or> (\<exists>b. s' = vchBool b # t)))"
proof -
  have *: "\<exists>k x t. x # t = drop k s \<and> P t"
    if "multisig_cleanup flags b i j s = Inr (x # t)" "P t" for b i j x t and P :: "stack \<Rightarrow> bool"
    using multisig_cleanup_drop [OF that(1)] that(2) by blast
  from assms show ?thesis
    unfolding checkmultisig_op_def Let_def
    by (auto split: if_split_asm option.split_asm sum.split_asm list.split_asm simp del: multisig_cleanup.simps
        intro: *)
qed

lemma checkmultisig_op_small:
  assumes "checkmultisig_op E opcode flags sv code n s = Inr (n', s')" "small s"
  shows "small s' \<and> n' \<le> MAX_OPS_PER_SCRIPT"
proof -
  obtain k x t where "x # t = drop k s" "n' \<le> MAX_OPS_PER_SCRIPT" "s' = t \<or> (\<exists>b. s' = vchBool b # t)"
    using checkmultisig_op_Inr [OF assms(1)] by blast
  moreover have "small (drop k s)" using assms(2) by (auto simp: small_def dest: in_set_dropD)
  ultimately show ?thesis by (metis small_simps(2) small_vchBool)
qed

definition st_small :: "exec_state \<Rightarrow> bool" where
  "st_small st \<longleftrightarrow> small (es_stack st) \<and> small (es_altstack st) \<and> es_nOpCount st \<le> MAX_OPS_PER_SCRIPT"

lemma control_op_small:
  "control_op E opcode flags sv fExec st = Some (Inr st') \<Longrightarrow> st_small st \<Longrightarrow> st_small st'"
  by (auto simp: control_op_def op_checklocktimeverify_def op_checksequenceverify_def op_if_def
      st_small_def Let_def split: if_split_asm list.split_asm option.split_asm)

lemma altstack_op_small:
  "altstack_op opcode st = Some (Inr st') \<Longrightarrow> st_small st \<Longrightarrow> st_small st'"
  by (auto simp: altstack_op_def st_small_def split: if_split_asm list.split_asm)

lemma exec_switch_small:
  assumes ex: "exec_switch E opcode flags sv fExec rest st = Inr st'" and E: "hash_sized E"
    and st: "st_small st" and len: "length (es_stack st) \<le> 1000"
  shows "st_small st'"
proof (cases "opcode = OP_1NEGATE \<or> (OP_1 \<le> opcode \<and> opcode \<le> OP_16)")
  case True
  then have "\<bar>int opcode - (int OP_1 - 1)\<bar> < 9223372036854775808" by auto
  with True ex st serialize_small show ?thesis by (auto simp: exec_switch_def st_small_def)
next
  case False
  note ex = ex [unfolded exec_switch_def if_not_P [OF False]]
  show ?thesis
  proof (cases "or_else (control_op E opcode flags sv fExec st) (altstack_op opcode st)")
    case (Some res)
    with ex st control_op_small altstack_op_small show ?thesis
      unfolding or_else_eq_Some by auto
  next
    case None
    note ex = ex [unfolded None, simplified]
    show ?thesis
    proof (cases "stack_ops E opcode flags sv (es_code st) (es_stack st)")
      case (Some res)
      then obtain s' where "res = Inr s'" "st' = st\<lparr>es_stack := s'\<rparr>" using ex by (cases res) auto
      with Some stack_ops_small [of E opcode flags sv "es_code st" "es_stack st" s'] E st len
      show ?thesis by (simp add: st_small_def)
    next
      case None
      with ex st checkmultisig_op_small show ?thesis
        by (auto simp: st_small_def split: if_split_asm sum.split_asm)
    qed
  qed
qed

lemma exec_instr_small:
  assumes ex: "exec_instr E flags sv opcode v rest st = Inr st'" and E: "hash_sized E"
    and st: "st_small st" and len: "length (es_stack st) \<le> 1000"
  shows "st_small st' \<and> length (es_stack st') + length (es_altstack st') \<le> 1000"
proof -
  define st1 where "st1 = (if opcode > OP_16 then st\<lparr>es_nOpCount := es_nOpCount st + 1\<rparr> else st)"
  have v: "length v \<le> MAX_SCRIPT_ELEMENT_SIZE" and n: "\<not> (opcode > OP_16 \<and> es_nOpCount st1 > MAX_OPS_PER_SCRIPT)"
    and fin: "length (es_stack st') + length (es_altstack st') \<le> 1000"
    and cases: "st' = st1\<lparr>es_stack := v # es_stack st1\<rparr> \<or> st' = st1 \<or>
      exec_switch E opcode flags sv (False \<notin> set (es_vfExec st)) rest st1 = Inr st'"
    using ex unfolding exec_instr_def Let_def st1_def [symmetric]
    by (auto split: if_split_asm sum.split_asm)
  have "st_small st1" "length (es_stack st1) \<le> 1000"
    using st n len by (auto simp: st1_def st_small_def)
  with cases v E exec_switch_small show ?thesis
    using fin by (auto simp: st_small_def)
qed

lemma eval_loop_small:
  "eval_loop E flags sv r st = Inr st' \<Longrightarrow> hash_sized E \<Longrightarrow> st_small st \<Longrightarrow>
     length (es_stack st) + length (es_altstack st) \<le> 1000 \<Longrightarrow>
     st_small st' \<and> length (es_stack st') + length (es_altstack st') \<le> 1000"
proof (induction E flags sv r st rule: eval_loop.induct)
  case (1 E flags sv r st)
  show ?case
  proof (cases "r = []")
    case True
    with 1 show ?thesis by simp
  next
    case False
    obtain ok k opcode v where g: "GetOp2 r = (ok, k, opcode, v)" by (metis prod_cases4)
    from "1.prems"(1) False g have ok: "ok"
      by (auto simp: eval_loop.simps [of E flags sv r] split: if_split_asm)
    with "1.prems"(1) eval_loop_step [of r k opcode v] g obtain st1
      where e: "exec_instr E flags sv opcode v (drop k r) st = Inr st1"
        and l: "eval_loop E flags sv (drop k r) st1 = Inr st'"
      by auto
    have "st_small st1 \<and> length (es_stack st1) + length (es_altstack st1) \<le> 1000"
      using exec_instr_small [OF e "1.prems"(2,3)] "1.prems"(4) by simp
    with "1.IH" [OF False g [symmetric] refl refl _ e l "1.prems"(2)] ok show ?thesis by auto
  qed
qed

section \<open>Booleans and encodings\<close>

lemma le_value_eq_0: "le_value ds = 0 \<longleftrightarrow> (\<forall>d \<in> set ds. d = 0)"
  by (induction ds) (auto simp: unat_eq_zero)

lemma CastToBool_snoc:
  "CastToBool (ds @ [b]) \<longleftrightarrow> (\<exists>d \<in> set ds. d \<noteq> 0) \<or> (b \<noteq> 0 \<and> b \<noteq> 0x80)"
  by (induction ds) auto

lemma CastToBool_set_vch: "CastToBool v \<longleftrightarrow> set_vch v \<noteq> 0"
proof (cases v rule: rev_cases)
  case Nil
  then show ?thesis by (simp add: set_vch_def)
next
  case (snoc ds b)
  let ?p = "256 ^ length ds :: int"
  have b: "b = 0 \<longleftrightarrow> unat b = 0" by (simp add: unat_eq_zero)
  have b': "b = 0x80 \<longleftrightarrow> unat b = 128" by (simp add: word_unat_eq_iff)
  have "set_vch v = 0 \<longleftrightarrow> le_value ds = 0 \<and> (unat b = 0 \<or> unat b = 128)"
  proof (cases "128 \<le> unat b")
    case True
    then have "0 \<le> int (unat b) - 128" by linarith
    then have "int (le_value ds) + ?p * (int (unat b) - 128) = 0 \<longleftrightarrow>
        int (le_value ds) = 0 \<and> ?p * (int (unat b) - 128) = 0"
      by (intro add_nonneg_eq_0_iff mult_nonneg_nonneg) simp_all
    also have "?p * (int (unat b) - 128) = 0 \<longleftrightarrow> int (unat b) - 128 = 0"
      unfolding mult_eq_0_iff by simp
    also have "int (unat b) - 128 = 0 \<longleftrightarrow> unat b = 128" by linarith
    finally show ?thesis using True unfolding snoc set_vch_snoc by auto
  next
    case False
    have "int (le_value ds) + ?p * int (unat b) = 0 \<longleftrightarrow> int (le_value ds) = 0 \<and> ?p * int (unat b) = 0"
      by (intro add_nonneg_eq_0_iff mult_nonneg_nonneg) simp_all
    also have "?p * int (unat b) = 0 \<longleftrightarrow> int (unat b) = 0" unfolding mult_eq_0_iff by simp
    also have "int (unat b) = 0 \<longleftrightarrow> unat b = 0" by linarith
    finally show ?thesis using False unfolding snoc set_vch_snoc by auto
  qed
  then show ?thesis using b b' by (auto simp: snoc CastToBool_snoc le_value_eq_0)
qed

text \<open>
  The DER form of a signature with its hash type byte, and when a big-endian integer is canonical:
  not empty, not negative, no superfluous leading zero.
\<close>

definition der_int_ok :: "bytes \<Rightarrow> bool" where
  "der_int_ok R \<longleftrightarrow> R \<noteq> [] \<and> hd R AND 0x80 = 0
     \<and> (length R > 1 \<and> hd R = 0 \<longrightarrow> R ! 1 AND 0x80 \<noteq> 0)"

definition der_sig :: "bytes \<Rightarrow> bytes \<Rightarrow> byte \<Rightarrow> bytes" where
  "der_sig R S ht = [0x30, of_nat (length R + length S + 4), 0x02, of_nat (length R)] @ R
     @ [0x02, of_nat (length S)] @ S @ [ht]"

lemma der_sig_nth:
  assumes "R \<noteq> []" "S \<noteq> []"
  shows "der_sig R S ht ! 0 = 0x30" "der_sig R S ht ! 1 = of_nat (length R + length S + 4)"
    "der_sig R S ht ! 2 = 2" "der_sig R S ht ! 3 = of_nat (length R)"
    "der_sig R S ht ! 4 = hd R" "1 < length R \<Longrightarrow> der_sig R S ht ! 5 = R ! 1"
    "der_sig R S ht ! (length R + 4) = 2" "der_sig R S ht ! (5 + length R) = of_nat (length S)"
    "der_sig R S ht ! (length R + 6) = hd S" "1 < length S \<Longrightarrow> der_sig R S ht ! (length R + 7) = S ! 1"
    "length (der_sig R S ht) = length R + length S + 7"
  using assms by (auto simp: der_sig_def nth_append hd_conv_nth nth_Cons')

lemma IsValidSignatureEncoding_iff:
  "IsValidSignatureEncoding sig \<longleftrightarrow>
     9 \<le> length sig \<and> length sig \<le> 73 \<and> sig ! 0 = 0x30 \<and> unat (sig ! 1) = length sig - 3
     \<and> (\<exists>lenR lenS. lenR = unat (sig ! 3) \<and> lenS = unat (sig ! (5 + lenR))
         \<and> 5 + lenR < length sig \<and> lenR + lenS + 7 = length sig \<and> sig ! 2 = 2
         \<and> lenR \<noteq> 0 \<and> sig ! 4 AND 0x80 = 0 \<and> (lenR > 1 \<and> sig ! 4 = 0 \<longrightarrow> sig ! 5 AND 0x80 \<noteq> 0)
         \<and> sig ! (lenR + 4) = 2 \<and> lenS \<noteq> 0 \<and> sig ! (lenR + 6) AND 0x80 = 0
         \<and> (lenS > 1 \<and> sig ! (lenR + 6) = 0 \<longrightarrow> sig ! (lenR + 7) AND 0x80 \<noteq> 0))"
  unfolding IsValidSignatureEncoding_def Let_def by (simp add: not_less not_le) (meson leD not_le)

lemma IsValidSignatureEncodingI:
  assumes "9 \<le> length sig" "length sig \<le> 73" "sig ! 0 = 0x30" "unat (sig ! 1) = length sig - 3"
    and "lenR = unat (sig ! 3)" "lenS = unat (sig ! (5 + lenR))"
    and "5 + lenR < length sig" "lenR + lenS + 7 = length sig" "sig ! 2 = 2"
    and "lenR \<noteq> 0" "sig ! 4 AND 0x80 = 0" "lenR > 1 \<and> sig ! 4 = 0 \<Longrightarrow> sig ! 5 AND 0x80 \<noteq> 0"
    and "sig ! (lenR + 4) = 2" "lenS \<noteq> 0" "sig ! (lenR + 6) AND 0x80 = 0"
    and "lenS > 1 \<and> sig ! (lenR + 6) = 0 \<Longrightarrow> sig ! (lenR + 7) AND 0x80 \<noteq> 0"
  shows "IsValidSignatureEncoding sig"
  unfolding IsValidSignatureEncoding_iff using assms by blast

lemma valid_der_sig:
  assumes "der_int_ok R" "der_int_ok S" "length R + length S \<le> 66"
  shows "IsValidSignatureEncoding (der_sig R S ht)"
proof -
  have ne: "R \<noteq> []" "S \<noteq> []" using assms by (auto simp: der_int_ok_def)
  then have pos: "length R \<noteq> 0" "length S \<noteq> 0" by auto
  note d = der_sig_nth [OF ne, of ht]
  have u: "unat (der_sig R S ht ! 1) = length (der_sig R S ht) - 3"
    using assms(3) unfolding d(2,11) by (subst unat_of_nat_small) auto
  have r: "unat (der_sig R S ht ! 3) = length R" and s: "unat (der_sig R S ht ! (5 + length R)) = length S"
    using assms(3) d by (auto intro!: unat_of_nat_small)
  show ?thesis
  proof (rule IsValidSignatureEncodingI [where lenR = "length R" and lenS = "length S"])
    show "9 \<le> length (der_sig R S ht)" "length (der_sig R S ht) \<le> 73"
      "5 + length R < length (der_sig R S ht)" "length R + length S + 7 = length (der_sig R S ht)"
      using d(11) pos assms(3) by linarith+
    show "unat (der_sig R S ht ! 1) = length (der_sig R S ht) - 3"
      "length R = unat (der_sig R S ht ! 3)" "length S = unat (der_sig R S ht ! (5 + length R))"
      by (simp_all only: u r s)
  qed (use d pos assms in \<open>auto simp: der_int_ok_def\<close>)
qed

lemma list_from_parts:
  assumes "length sig = lr + ls + 7" "0 < lr" "0 < ls"
  shows "sig = [sig ! 0, sig ! 1, sig ! 2, sig ! 3] @ take lr (drop 4 sig)
    @ [sig ! (lr + 4), sig ! (5 + lr)] @ take ls (drop (lr + 6) sig) @ [last sig]"
proof -
  have d: "drop n sig = sig ! n # drop (Suc n) sig" if "n < length sig" for n
    using Cons_nth_drop_Suc [OF that] by simp
  have 1: "sig = [sig ! 0, sig ! 1, sig ! 2, sig ! 3] @ drop 4 sig"
    using d [of 0] d [of 1] d [of 2] d [of 3] assms by (simp add: eval_nat_numeral)
  have 2: "drop 4 sig = take lr (drop 4 sig) @ drop (lr + 4) sig"
    using append_take_drop_id [of lr "drop 4 sig"] by (simp only: drop_drop)
  have 3: "drop (lr + 4) sig = [sig ! (lr + 4), sig ! (5 + lr)] @ drop (lr + 6) sig"
    using d [of "lr + 4"] d [of "5 + lr"] assms by (simp add: eval_nat_numeral)
  have 4: "drop (lr + 6) sig = take ls (drop (lr + 6) sig) @ drop (ls + (lr + 6)) sig"
    using append_take_drop_id [of ls "drop (lr + 6) sig"] by (simp only: drop_drop)
  have "ls + (lr + 6) = length sig - 1" "sig \<noteq> []" using assms by auto
  then have 5: "drop (ls + (lr + 6)) sig = [last sig]"
    using d [of "length sig - 1"] by (simp add: last_conv_nth)
  show ?thesis
    by (subst 1, subst 2, subst 3, subst 4, subst 5) simp
qed

lemma valid_sig_is_der:
  assumes "IsValidSignatureEncoding sig"
  shows "\<exists>R S ht. sig = der_sig R S ht \<and> der_int_ok R \<and> der_int_ok S \<and> length R + length S \<le> 66"
proof -
  from assms obtain lenR lenS where
    len: "length sig \<le> 73" "lenR + lenS + 7 = length sig" "lenR \<noteq> 0" "lenS \<noteq> 0"
    and f: "sig ! 0 = 0x30" "unat (sig ! 1) = length sig - 3" "lenR = unat (sig ! 3)"
      "lenS = unat (sig ! (5 + lenR))" "sig ! 2 = 2" "sig ! (lenR + 4) = 2"
    and r: "sig ! 4 AND 0x80 = 0" "lenR > 1 \<and> sig ! 4 = 0 \<longrightarrow> sig ! 5 AND 0x80 \<noteq> 0"
    and s: "sig ! (lenR + 6) AND 0x80 = 0"
      "lenS > 1 \<and> sig ! (lenR + 6) = 0 \<longrightarrow> sig ! (lenR + 7) AND 0x80 \<noteq> 0"
    unfolding IsValidSignatureEncoding_iff by blast
  define R where "R = take lenR (drop 4 sig)"
  define S where "S = take lenS (drop (lenR + 6) sig)"
  have lens: "length R = lenR" "length S = lenS" using len by (auto simp: R_def S_def)
  have "unat (sig ! 1) = lenR + lenS + 4" using f(2) len(2) by linarith
  then have bytes: "sig ! 1 = of_nat (length R + length S + 4)" "sig ! 3 = of_nat (length R)"
      "sig ! (5 + lenR) = of_nat (length S)"
    unfolding lens using f(3,4) by (metis of_nat_unat_byte)+
  have "sig = der_sig R S (last sig)"
    using list_from_parts [of sig lenR lenS] len f(1,5,6) bytes
    unfolding der_sig_def R_def [symmetric] S_def [symmetric] by simp
  moreover have "hd R = sig ! 4" "hd S = sig ! (lenR + 6)"
    using len lens by (auto simp: R_def S_def hd_conv_nth)
  moreover have "1 < lenR \<Longrightarrow> R ! 1 = sig ! 5" "1 < lenS \<Longrightarrow> S ! 1 = sig ! (lenR + 7)"
    using len by (auto simp: R_def S_def add.commute)
  ultimately have "sig = der_sig R S (last sig) \<and> der_int_ok R \<and> der_int_ok S \<and> length R + length S \<le> 66"
    using r s len lens by (auto simp: der_int_ok_def)
  then show ?thesis by blast
qed

section \<open>Multi-signature checking\<close>

text \<open>
  The loop walks keys and signatures once. Its verdict is that of the declarative relation: the
  signatures match, in order, a subsequence of the keys (\<open>list_emb\<close> of the library).
\<close>

lemma list_emb_greedy:
  assumes "P s k"
  shows "list_emb P (s # ss) (k # ks) \<longleftrightarrow> list_emb P ss ks"
proof
  assume "list_emb P (s # ss) (k # ks)"
  then consider "list_emb P (s # ss) ks" | "list_emb P ss ks" by (auto elim: list_emb.cases)
  then show "list_emb P ss ks"
  proof cases
    case 1
    then obtain us v vs where ks: "ks = us @ v # vs" and "list_emb P ss vs"
      using list_emb_ConsD [of P s ss ks] by blast
    then have "list_emb P ss (us @ v # vs)" by (intro list_emb_append2 list_emb_Cons)
    then show ?thesis by (simp only: ks)
  qed
qed (use assms in \<open>rule list_emb_Cons2\<close>)

lemma list_emb_skip:
  "\<not> P s k \<Longrightarrow> list_emb P (s # ss) (k # ks) \<longleftrightarrow> list_emb P (s # ss) ks"
  by (auto elim: list_emb.cases)

lemma list_emb_longer: "length ks < length ss \<Longrightarrow> \<not> list_emb P ss ks"
  using list_emb_length by fastforce

lemma multisig_loop_stop [simp]:
  "multisig_loop E flags sv code stk False isig ikey n m = Inr False"
  "multisig_loop E flags sv code stk b isig ikey 0 m = Inr b"
  by (simp_all add: multisig_loop.simps)

lemma multisig_loop_correct:
  assumes "length sigs \<le> length keys"
    and "drop i stk = sigs @ rs" and "drop j stk = keys @ rk"
    and "\<And>s k. s \<in> set sigs \<Longrightarrow> k \<in> set keys \<Longrightarrow> sig_encoding_error E s k flags sv = None"
  shows "multisig_loop E flags sv code stk True (Suc i) (Suc j) (int (length sigs)) (int (length keys)) =
    Inr (list_emb (\<lambda>s k. CheckSig E s k code sv) sigs keys)"
  using assms
proof (induction keys arbitrary: sigs i j)
  case Nil
  then show ?case by simp
next
  case (Cons k keys)
  show ?case
  proof (cases sigs)
    case Nil
    then show ?thesis by simp
  next
    case sigs: (Cons s ss)
    let ?P = "\<lambda>s k. CheckSig E s k code sv"
    have si: "stk ! i = s" "drop (Suc i) stk = ss @ rs"
      using Cons.prems(2) sigs by (auto dest: nth_via_drop MFC_NameScript.drop_Suc)
    have kj: "stk ! j = k" "drop (Suc j) stk = keys @ rk"
      using Cons.prems(3) by (auto dest: nth_via_drop MFC_NameScript.drop_Suc)
    have enc: "sig_encoding_error E s k flags sv = None" using Cons.prems(4) sigs by simp
    show ?thesis
    proof (cases "?P s k")
      case True
      have "multisig_loop E flags sv code stk True (Suc i) (Suc j) (int (length sigs)) (int (length (k # keys)))
          = multisig_loop E flags sv code stk True (Suc (Suc i)) (Suc (Suc j)) (int (length ss)) (int (length keys))"
        using True enc si kj sigs Cons.prems(1)
        by (subst multisig_loop.simps) (simp add: Let_def)
      also have "\<dots> = Inr (list_emb ?P ss keys)"
        using Cons.prems sigs si(2) kj(2) by (intro Cons.IH) auto
      finally show ?thesis using list_emb_greedy [of ?P, OF True] sigs by simp
    next
      case False
      have step: "multisig_loop E flags sv code stk True (Suc i) (Suc j) (int (length sigs)) (int (length (k # keys)))
          = multisig_loop E flags sv code stk (int (length sigs) \<le> int (length keys)) (Suc i) (Suc (Suc j))
              (int (length sigs)) (int (length keys))"
        using False enc si kj sigs
        by (subst multisig_loop.simps) (simp add: Let_def not_less)
      show ?thesis
      proof (cases "length sigs \<le> length keys")
        case True
        have "multisig_loop E flags sv code stk True (Suc i) (Suc (Suc j)) (int (length sigs)) (int (length keys))
            = Inr (list_emb ?P sigs keys)"
          using Cons.prems True kj(2) by (intro Cons.IH) auto
        with step True list_emb_skip [of ?P, OF False] sigs show ?thesis by simp
      next
        case short: False
        with step list_emb_skip [of ?P, OF False] list_emb_longer [of keys sigs] sigs show ?thesis
          by simp
      qed
    qed
  qed
qed

lemma multisig_cleanup_ok:
  "flags AND SCRIPT_VERIFY_NULLFAIL = 0 \<Longrightarrow> n \<le> length s \<Longrightarrow>
     multisig_cleanup flags b n j s = Inr (drop n s)"
  by (induction flags b n j s rule: multisig_cleanup.induct) (auto split: list.split)

lemma CScriptNum_count:
  "n \<le> 20 \<Longrightarrow> CScriptNum (serialize (int n)) m 4 = Some (int n)" "n \<le> 20 \<Longrightarrow> getint (int n) = int n"
  using CScriptNum_serialize [of "int n" 3 m] by (simp_all add: getint_def)

lemma checkmultisig_op_correct:
  assumes keys: "length keys \<le> MAX_PUBKEYS_PER_MULTISIG" and sigs: "length sigs \<le> length keys"
    and ops: "n + length keys \<le> MAX_OPS_PER_SCRIPT"
    and enc: "\<And>sg k. sg \<in> set sigs \<Longrightarrow> k \<in> set keys \<Longrightarrow> sig_encoding_error E sg k flags sv = None"
    and fl: "flags AND SCRIPT_VERIFY_NULLFAIL = 0"
  shows "checkmultisig_op E OP_CHECKMULTISIG flags sv code n
      (serialize (int (length keys)) # keys @ serialize (int (length sigs)) # sigs @ [] # s)
    = Inr (n + length keys,
        vchBool (list_emb (\<lambda>sg k. CheckSig E sg k (drop_sigs sv sigs code) sv) sigs keys) # s)"
proof -
  let ?stk = "serialize (int (length keys)) # keys @ serialize (int (length sigs)) # sigs @ [] # s"
  let ?code = "drop_sigs sv sigs code"
  have s2: "length sigs \<le> 20" using keys sigs by simp
  have at: "?stk ! Suc (length keys) = serialize (int (length sigs))" by (simp add: nth_append)
  have dk: "drop 1 ?stk = keys @ serialize (int (length sigs)) # sigs @ [] # s" by simp
  have ds: "drop (Suc (Suc (length keys))) ?stk = sigs @ [] # s" by simp
  have tk: "take (length sigs) (drop (Suc (Suc (length keys))) ?stk) = sigs" unfolding ds by simp
  have loop: "multisig_loop E flags sv ?code ?stk True (Suc (Suc (Suc (length keys)))) 2
      (int (length sigs)) (int (length keys)) = Inr (list_emb (\<lambda>sg k. CheckSig E sg k ?code sv) sigs keys)"
    using multisig_loop_correct [OF sigs ds dk enc, of ?code] by (simp add: numeral_2_eq_2)
  have clean: "multisig_cleanup flags b (Suc (Suc (length keys + length sigs))) j ?stk = Inr ([] # s)" for b j
    by (subst multisig_cleanup_ok [OF fl]) simp_all
  show ?thesis
    unfolding checkmultisig_op_def Let_def
    using keys ops sigs s2 at tk loop clean
    by (simp add: CScriptNum_count del: drop_Suc_Cons multisig_cleanup.simps)
qed

section \<open>Symbolic execution of plain opcodes\<close>

definition plain_opcode :: "opcodetype \<Rightarrow> bool" where
  "plain_opcode opcode \<longleftrightarrow> OP_16 < opcode \<and> \<not> disabled_opcode opcode
     \<and> (\<forall>E flags sv fExec st. control_op E opcode flags sv fExec st = None)
     \<and> (\<forall>st. altstack_op opcode st = None)"

lemma plain_opcodes [simp]:
  "plain_opcode OP_DUP" "plain_opcode OP_HASH160" "plain_opcode OP_EQUAL" "plain_opcode OP_EQUALVERIFY"
  "plain_opcode OP_CHECKSIG"
  by (simp_all add: plain_opcode_def disabled_opcode_def control_op_def altstack_op_def)

lemma exec_instr_plain:
  assumes "plain_opcode opcode" "False \<notin> set (es_vfExec st)" "es_nOpCount st < MAX_OPS_PER_SCRIPT"
    and "stack_ops E opcode flags sv (es_code st) (es_stack st) = Some res"
  shows "exec_instr E flags sv opcode [] r st =
    (case res of Inl e \<Rightarrow> Inl e
     | Inr s \<Rightarrow> if length s + length (es_altstack st) > 1000 then Inl SCRIPT_ERR_STACK_SIZE
         else Inr (st\<lparr>es_stack := s, es_nOpCount := es_nOpCount st + 1\<rparr>))"
  using assms
  by (auto simp: exec_instr_def Let_def plain_opcode_def exec_switch_def split: sum.split)

lemma stack_ops_plain [simp]:
  "stack_ops E OP_DUP flags sv code (x # s) = Some (Inr (x # x # s))"
  "stack_ops E OP_HASH160 flags sv code (x # s) = Some (Inr (Hash160 E x # s))"
  "stack_ops E OP_HASH160 flags sv code [] = Some bad_stack"
  "stack_ops E OP_EQUAL flags sv code (x # y # s) = Some (Inr (vchBool (y = x) # s))"
  "stack_ops E OP_EQUALVERIFY flags sv code (x # y # s) =
     Some (if y = x then Inr s else Inl SCRIPT_ERR_EQUALVERIFY)"
  by (simp_all add: stack_ops_def stack_op_many_def stack_op_one_def equal_op_def unary_op_def
      binary_op_def within_op_def hash_op_def Let_def)

lemma stack_ops_checksig [simp]:
  "stack_ops E OP_CHECKSIG flags sv code (pk # sg # s) =
     Some (case sig_encoding_error E sg pk flags sv of Some e \<Rightarrow> Inl e
       | None \<Rightarrow>
           let ok = CheckSig E sg pk (if sv = SIGVERSION_BASE
                 then fst (FindAndDelete code (push_data sg)) else code) sv in
           if \<not> ok \<and> flags AND SCRIPT_VERIFY_NULLFAIL \<noteq> 0 \<and> length sg \<noteq> 0 then Inl SCRIPT_ERR_SIG_NULLFAIL
           else Inr (vchBool ok # s))"
  by (simp add: stack_ops_def stack_op_many_def stack_op_one_def equal_op_def unary_op_def
      binary_op_def within_op_def hash_op_def checksig_op_def Let_def split: option.split)

section \<open>Name prefixes\<close>

lemma exec_instr_small_int:
  assumes "OP_1 \<le> opcode" "opcode \<le> OP_16" "False \<notin> set (es_vfExec st)"
    and "length (es_stack st) + length (es_altstack st) < 1000"
  shows "exec_instr E flags sv opcode [] r st =
    Inr (st\<lparr>es_stack := serialize (int opcode - 80) # es_stack st\<rparr>)"
  using assms by (auto simp: exec_instr_def Let_def disabled_opcode_def exec_switch_def)

lemma eval_pushes:
  assumes "\<And>c. c \<in> set cs \<Longrightarrow> length c \<le> MAX_SCRIPT_ELEMENT_SIZE"
    and "length (es_stack st) + length (es_altstack st) + length cs \<le> 1000"
    and "False \<notin> set (es_vfExec st)" and "flags AND SCRIPT_VERIFY_MINIMALDATA = 0"
  shows "eval_loop E flags sv (concat (map push_data cs) @ r) st =
    eval_loop E flags sv r (st\<lparr>es_stack := rev cs @ es_stack st\<rparr>)"
  using assms
proof (induction cs arbitrary: st)
  case (Cons c cs)
  have c: "length c \<le> 520" using Cons.prems(1) by simp
  let ?st = "st\<lparr>es_stack := c # es_stack st\<rparr>"
  have "exec_instr E flags sv (push_opc c) c (concat (map push_data cs) @ r) st = Inr ?st"
    using Cons.prems c by (intro exec_instr_push) simp_all
  moreover have "eval_loop E flags sv (concat (map push_data cs) @ r) ?st =
      eval_loop E flags sv r (?st\<lparr>es_stack := rev cs @ es_stack ?st\<rparr>)"
    using Cons.prems by (intro Cons.IH) simp_all
  ultimately show ?case
    using eval_loop_push [of c E flags sv "concat (map push_data cs) @ r" st] c by simp
qed simp

lemma eval_drop1:
  assumes "es_stack st = x # s" "False \<notin> set (es_vfExec st)" "es_nOpCount st < MAX_OPS_PER_SCRIPT"
    and "length s + length (es_altstack st) \<le> 1000"
  shows "eval_loop E flags sv (of_nat OP_DROP # r) st =
    eval_loop E flags sv r (st\<lparr>es_stack := s, es_nOpCount := es_nOpCount st + 1\<rparr>)"
  using eval_loop_opcode [of "of_nat OP_DROP" E flags sv r st]
    exec_instr_drop [OF assms(2,3,1,4), of E flags sv r] by simp

lemma eval_drop2:
  assumes "es_stack st = x # y # s" "False \<notin> set (es_vfExec st)" "es_nOpCount st < MAX_OPS_PER_SCRIPT"
    and "length s + length (es_altstack st) \<le> 1000"
  shows "eval_loop E flags sv (of_nat OP_2DROP # r) st =
    eval_loop E flags sv r (st\<lparr>es_stack := s, es_nOpCount := es_nOpCount st + 1\<rparr>)"
  using eval_loop_opcode [of "of_nat OP_2DROP" E flags sv r st]
    exec_instr_2drop [OF assms(2,3,1,4), of E flags sv r] by simp

lemma eval_drops2:
  assumes "es_stack st = xs @ s" "length xs = 2 * k" "False \<notin> set (es_vfExec st)"
    and "es_nOpCount st + k \<le> MAX_OPS_PER_SCRIPT"
    and "length (es_stack st) + length (es_altstack st) \<le> 1000"
  shows "eval_loop E flags sv (replicate k (of_nat OP_2DROP) @ r) st =
    eval_loop E flags sv r (st\<lparr>es_stack := s, es_nOpCount := es_nOpCount st + k\<rparr>)"
  using assms
proof (induction k arbitrary: st xs)
  case 0
  then show ?case by (cases st) simp
next
  case (Suc k)
  then obtain x y ys where xs: "xs = x # y # ys" by (cases xs; cases "tl xs") auto
  let ?st = "st\<lparr>es_stack := ys @ s, es_nOpCount := es_nOpCount st + 1\<rparr>"
  have "eval_loop E flags sv (of_nat OP_2DROP # replicate k (of_nat OP_2DROP) @ r) st =
      eval_loop E flags sv (replicate k (of_nat OP_2DROP) @ r) ?st"
    using Suc.prems xs by (intro eval_drop2) simp_all
  also have "\<dots> = eval_loop E flags sv r (?st\<lparr>es_stack := s, es_nOpCount := es_nOpCount ?st + k\<rparr>)"
    using Suc.prems xs by (intro Suc.IH) simp_all
  finally show ?case by simp
qed

lemma eval_drop_markers:
  assumes "es_stack st = xs @ s" "length xs = n" "False \<notin> set (es_vfExec st)"
    and "es_nOpCount st + n div 2 + n mod 2 \<le> MAX_OPS_PER_SCRIPT"
    and "length (es_stack st) + length (es_altstack st) \<le> 1000"
  shows "eval_loop E flags sv (drop_markers n @ r) st =
    eval_loop E flags sv r (st\<lparr>es_stack := s, es_nOpCount := es_nOpCount st + n div 2 + n mod 2\<rparr>)"
proof -
  let ?ys = "take (2 * (n div 2)) xs" and ?zs = "drop (2 * (n div 2)) xs"
  let ?st = "st\<lparr>es_stack := ?zs @ s, es_nOpCount := es_nOpCount st + n div 2\<rparr>"
  have n: "n = 2 * (n div 2) + n mod 2" by simp
  have 1: "eval_loop E flags sv (replicate (n div 2) (of_nat OP_2DROP) @ r') st = eval_loop E flags sv r' ?st"
    for r'
    using assms by (intro eval_drops2 [of _ ?ys]) auto
  show ?thesis
  proof (cases "n mod 2 = 0")
    case True
    with n assms(2) have "?zs = []" by simp
    with True 1 [of r] show ?thesis by (simp add: drop_markers_def)
  next
    case False
    then have m: "n mod 2 = 1" by simp
    with n assms(2) obtain z where z: "?zs = [z]"
      by (metis (no_types, lifting) length_drop diff_add_inverse length_0_conv length_Suc_conv One_nat_def)
    have "eval_loop E flags sv (of_nat OP_DROP # r) ?st =
        eval_loop E flags sv r (?st\<lparr>es_stack := s, es_nOpCount := es_nOpCount ?st + 1\<rparr>)"
      using assms z m by (intro eval_drop1) auto
    with m 1 [of "of_nat OP_DROP # r"] show ?thesis by (simp add: drop_markers_def)
  qed
qed

end
