(* ===== verification/MFC_VerifyProps.thy ===== *)
theory MFC_VerifyProps
  imports MFC_InterpreterProps
begin

unbundle bit_operations_syntax

text \<open>
  Properties of whole evaluations: a name prefix leaves the stack alone, the standard outputs accept
  exactly what they should, also behind a name, what a verified pay-to-script-hash spend proves, and
  an input on which \<^verbatim>\<open>VerifyScript\<close> stops on its own assertion.
\<close>

section \<open>A name prefix leaves the stack alone\<close>

definition name_ops :: "CNameVal \<Rightarrow> nat" where
  "name_ops v = 2 + length (value_chunks v) div 2 + length (value_chunks v) mod 2"

lemma value_chunks_le:
  assumes "length v \<le> MAX_VALUE_LENGTH"
  shows "length (value_chunks v) \<le> 40"
  using assms div_le_mono [of "length v + 519" 20999 520] by (simp add: length_value_chunks)

lemma name_ops_le: "length v \<le> MAX_VALUE_LENGTH \<Longrightarrow> name_ops v \<le> 22"
proof -
  assume "length v \<le> MAX_VALUE_LENGTH"
  then have "length (value_chunks v) div 2 + length (value_chunks v) mod 2 \<le> 20"
    using value_chunks_le [of v] div_le_mono [of "length (value_chunks v) + 1" 41 2]
    by (auto simp: mod2_eq_if)
  then show ?thesis by (simp add: name_ops_def)
qed

lemma eval_name_prefix:
  assumes cr: "createNameScript [] name v nRentalDays op err = (True, p, err')"
    and op: "op = OP_NAME_NEW \<or> op = OP_NAME_UPDATE"
    and fl: "flags AND SCRIPT_VERIFY_MINIMALDATA = 0" and ex: "False \<notin> set (es_vfExec st)"
    and ops: "es_nOpCount st + 22 \<le> MAX_OPS_PER_SCRIPT"
    and sz: "length (es_stack st) + length (es_altstack st) + 40 \<le> 1000"
  shows "eval_loop E flags sv (p @ r) st =
    eval_loop E flags sv r (st\<lparr>es_nOpCount := es_nOpCount st + name_ops v\<rparr>)"
proof -
  note cp = createNameScript_prefix [OF cr op]
  let ?n = "length (value_chunks v)" and ?d = "serialize nRentalDays"
  let ?o = "of_int (op + 80) :: byte" and ?x = "serialize (int (nat op + 80) - 80)"
  let ?tail = "concat (map push_data (value_chunks v)) @ drop_markers ?n @ r"
  let ?S = "es_stack st" and ?k = "es_nOpCount st"
  have n40: "?n \<le> 40" using cp(3) by (rule value_chunks_le)
  have nops: "?n div 2 + ?n mod 2 \<le> 20" using name_ops_le [OF cp(3)] by (simp add: name_ops_def)
  have o: "unat ?o = nat op + 80" using op by (intro unat_op_byte) auto
  have d: "length ?d \<le> 520" using length_serialize [of nRentalDays 3] cp(4,5) by simp
  have "eval_loop E flags sv (p @ r) st =
      eval_loop E flags sv (of_nat OP_DROP # push_data name @ push_data ?d @ of_nat OP_2DROP # ?tail)
        (st\<lparr>es_stack := ?x # ?S\<rparr>)"
    using o op ex sz by (subst cp(1)) (auto simp: eval_loop_opcode exec_instr_small_int)
  also have "\<dots> = eval_loop E flags sv (push_data name @ push_data ?d @ of_nat OP_2DROP # ?tail)
      (st\<lparr>es_nOpCount := ?k + 1\<rparr>)"
    using ex ops sz by (subst eval_drop1 [where x = ?x and s = ?S]) simp_all
  also have "\<dots> = eval_loop E flags sv (push_data ?d @ of_nat OP_2DROP # ?tail)
      (st\<lparr>es_nOpCount := ?k + 1, es_stack := name # ?S\<rparr>)"
    using eval_pushes [of "[name]" "st\<lparr>es_nOpCount := ?k + 1\<rparr>"] cp(2) ex sz fl by simp
  also have "\<dots> = eval_loop E flags sv (of_nat OP_2DROP # ?tail)
      (st\<lparr>es_nOpCount := ?k + 1, es_stack := ?d # name # ?S\<rparr>)"
    using eval_pushes [of "[?d]" "st\<lparr>es_nOpCount := ?k + 1, es_stack := name # ?S\<rparr>"] d ex sz fl
    by simp
  also have "\<dots> = eval_loop E flags sv ?tail (st\<lparr>es_nOpCount := ?k + 2\<rparr>)"
    using ex ops sz by (subst eval_drop2 [where x = ?d and y = name and s = ?S]) simp_all
  also have "\<dots> = eval_loop E flags sv (drop_markers ?n @ r)
      (st\<lparr>es_nOpCount := ?k + 2, es_stack := rev (value_chunks v) @ ?S\<rparr>)"
    using value_chunks_small ex sz n40 fl by (subst eval_pushes) auto
  also have "\<dots> = eval_loop E flags sv r (st\<lparr>es_nOpCount := ?k + 2 + ?n div 2 + ?n mod 2, es_stack := ?S\<rparr>)"
    using ex sz n40 ops nops by (subst eval_drop_markers [where xs = "rev (value_chunks v)" and s = ?S]) auto
  finally show ?thesis by (simp add: name_ops_def add.assoc)
qed

section \<open>Pay to public key hash\<close>

definition p2pkh :: "bytes \<Rightarrow> script" where
  "p2pkh h = [of_nat OP_DUP, of_nat OP_HASH160] @ push_data h @ [of_nat OP_EQUALVERIFY, of_nat OP_CHECKSIG]"

lemma minimal_20: "length h = 20 \<Longrightarrow> CheckMinimalPush h (push_opc h)"
  by (auto simp: CheckMinimalPush_def push_opc_def)

text \<open>What a signature check leaves, over the script code it is run on.\<close>

definition checksig_result ::
    "script_env \<Rightarrow> u32 \<Rightarrow> SigVersion \<Rightarrow> script \<Rightarrow> bytes \<Rightarrow> bytes \<Rightarrow> stack \<Rightarrow> ScriptError + stack" where
  "checksig_result E flags sv code sg pk s =
     (case sig_encoding_error E sg pk flags sv of Some e \<Rightarrow> Inl e
      | None \<Rightarrow>
          let ok = CheckSig E sg pk (if sv = SIGVERSION_BASE
                then fst (FindAndDelete code (push_data sg)) else code) sv in
          if \<not> ok \<and> flags AND SCRIPT_VERIFY_NULLFAIL \<noteq> 0 \<and> length sg \<noteq> 0 then Inl SCRIPT_ERR_SIG_NULLFAIL
          else Inr (vchBool ok # s))"

lemma stack_ops_checksig_result:
  "stack_ops E OP_CHECKSIG flags sv code (pk # sg # s) = Some (checksig_result E flags sv code sg pk s)"
  by (simp only: stack_ops_checksig checksig_result_def)

lemma checksig_result_length:
  "checksig_result E flags sv code sg pk s = Inr s' \<Longrightarrow> length s' = Suc (length s)"
  by (auto simp: checksig_result_def Let_def split: option.split_asm if_split_asm)

lemma eval_p2pkh:
  assumes "es_stack st = pk # sg # s" "length h = 20" "False \<notin> set (es_vfExec st)"
    and "es_nOpCount st + 4 \<le> MAX_OPS_PER_SCRIPT" "length s + length (es_altstack st) + 4 \<le> 1000"
  shows "eval_loop E flags sv (p2pkh h) st =
    (if h \<noteq> Hash160 E pk then Inl SCRIPT_ERR_EQUALVERIFY
     else case checksig_result E flags sv (es_code st) sg pk s of
       Inl e \<Rightarrow> Inl e
     | Inr s' \<Rightarrow> Inr (st\<lparr>es_stack := s', es_nOpCount := es_nOpCount st + 4\<rparr>))"
  using assms minimal_20 [OF assms(2)]
  by (auto simp: p2pkh_def eval_loop_opcode eval_loop_push exec_instr_plain exec_instr_push
      stack_ops_checksig_result simp del: stack_ops_checksig dest: checksig_result_length split: sum.split)

section \<open>Pay to script hash\<close>

definition p2sh :: "bytes \<Rightarrow> script" where
  "p2sh h = [of_nat OP_HASH160] @ push_data h @ [of_nat OP_EQUAL]"

lemma p2sh_bytes: "length h = 20 \<Longrightarrow> p2sh h = 0xa9 # 0x14 # h @ [0x87]"
  by (simp add: p2sh_def push_data_def)

lemma p2sh_inner: "length h = 20 \<Longrightarrow> IsPayToScriptHashInner (p2sh h)"
  by (simp add: p2sh_bytes IsPayToScriptHashInner_def nth_append)

lemma p2sh_test: "length h = 20 \<Longrightarrow> IsPayToScriptHash (p2sh h) v = Inr True"
  by (simp add: IsPayToScriptHash_def p2sh_inner)

lemma p2sh_not_witness_inner: "length h = 20 \<Longrightarrow> IsWitnessProgramInner (p2sh h) = None"
  by (simp add: p2sh_bytes IsWitnessProgramInner_def)

lemma exec_instr_push_if:
  assumes "opcode \<le> OP_PUSHDATA4" "length b \<le> MAX_SCRIPT_ELEMENT_SIZE" "False \<notin> set (es_vfExec st)"
    and "CheckMinimalPush b opcode"
  shows "exec_instr E flags sv opcode b r st =
    (if length (es_stack st) + length (es_altstack st) < 1000
     then Inr (st\<lparr>es_stack := b # es_stack st\<rparr>) else Inl SCRIPT_ERR_STACK_SIZE)"
  using assms by (auto simp: exec_instr_def Let_def)

lemma length_push_20: "length h = 20 \<Longrightarrow> length (push_data h) = 21"
  by (simp add: push_data_def)

lemma eval_p2sh:
  assumes "length h = 20" "EvalScript E (x # s) (p2sh h) flags sv = Inr stk"
  shows "stk = vchBool (Hash160 E x = h) # s"
  using assms minimal_20 [OF assms(1)] length_push_20 [OF assms(1)]
  by (auto simp: EvalScript_def p2sh_def eval_loop_opcode eval_loop_push exec_instr_plain
      exec_instr_push_if split: if_split_asm)

lemma eval_p2sh_empty:
  assumes "length h = 20"
  shows "EvalScript E [] (p2sh h) flags sv = Inl SCRIPT_ERR_INVALID_STACK_OPERATION"
  using length_push_20 [OF assms]
  by (simp add: EvalScript_def p2sh_def eval_loop_opcode exec_instr_plain)

lemma p2sh_part_Verified:
  assumes "verify_p2sh_part E scriptSig witness flags stackCopy hadWitness = Inr res"
  obtains redeem s stk where "stackCopy = redeem # s" "IsPushOnly scriptSig"
    "EvalScript E s redeem flags SIGVERSION_BASE = Inr stk" "stk \<noteq> []" "CastToBool (hd stk)"
  using assms unfolding verify_p2sh_part_def
  by (auto split: if_split_asm list.split_asm sum.split_asm)

definition verify_flags :: "int \<Rightarrow> u32 \<Rightarrow> u32" where
  "verify_flags nVersion flags =
     (if nVersion = NAMECOIN_TX_VERSION then flags AND NOT SCRIPT_VERIFY_MINIMALDATA else flags)"

text \<open>The stages a verified spend has gone through.\<close>

lemma Verified_stages:
  assumes "VerifyScript E scriptSig scriptPubKey nVersion witness flags = Verified"
  obtains stackCopy stk fIsP2SH where
    "EvalScript E [] scriptSig (verify_flags nVersion flags) SIGVERSION_BASE = Inr stackCopy"
    "EvalScript E stackCopy scriptPubKey (verify_flags nVersion flags) SIGVERSION_BASE = Inr stk"
    "stk \<noteq> []" "CastToBool (hd stk)"
    "IsPayToScriptHash scriptPubKey
       (if verify_flags nVersion flags AND SCRIPT_VERIFY_WITNESS \<noteq> 0 then nVersion else 0) = Inr fIsP2SH"
    "verify_flags nVersion flags AND SCRIPT_VERIFY_P2SH \<noteq> 0 \<and> fIsP2SH \<longrightarrow>
       (\<exists>hadWitness res. verify_p2sh_part E scriptSig witness (verify_flags nVersion flags) stackCopy
          hadWitness = Inr res)"
proof -
  have out: "verify_p2sh_part E scriptSig witness fl sc hw \<noteq> Inl Verified"
      "verify_witness_part E scriptSig scriptPubKey nVersion witness fl st \<noteq> Inl Verified" for fl sc hw st
    by (auto simp: verify_p2sh_part_def verify_witness_part_def
        split: list.split sum.split option.split)
  show ?thesis
    using assms out that unfolding VerifyScript_def Let_def verify_flags_def [symmetric]
    by (auto split: if_split_asm sum.split_asm prod.split_asm) blast+
qed

lemma p2sh_verified_spend:
  assumes v: "VerifyScript E scriptSig (p2sh h) nVersion witness flags = Verified"
    and h: "length h = 20" and fl: "verify_flags nVersion flags AND SCRIPT_VERIFY_P2SH \<noteq> 0"
  shows "\<exists>redeem s stk. IsPushOnly scriptSig
    \<and> EvalScript E [] scriptSig (verify_flags nVersion flags) SIGVERSION_BASE = Inr (redeem # s)
    \<and> Hash160 E redeem = h
    \<and> EvalScript E s redeem (verify_flags nVersion flags) SIGVERSION_BASE = Inr stk
    \<and> stk \<noteq> [] \<and> CastToBool (hd stk)"
proof -
  let ?f = "verify_flags nVersion flags"
  obtain sc stk fIsP2SH where e1: "EvalScript E [] scriptSig ?f SIGVERSION_BASE = Inr sc"
    and e2: "EvalScript E sc (p2sh h) ?f SIGVERSION_BASE = Inr stk" and c: "CastToBool (hd stk)"
    and p: "IsPayToScriptHash (p2sh h) (if ?f AND SCRIPT_VERIFY_WITNESS \<noteq> 0 then nVersion else 0) = Inr fIsP2SH"
    and imp: "?f AND SCRIPT_VERIFY_P2SH \<noteq> 0 \<and> fIsP2SH \<longrightarrow>
       (\<exists>hadWitness res. verify_p2sh_part E scriptSig witness ?f sc hadWitness = Inr res)"
    using Verified_stages [OF v] by metis
  from p p2sh_test [OF h] have "fIsP2SH" by simp
  with imp fl obtain hw res where "verify_p2sh_part E scriptSig witness ?f sc hw = Inr res" by blast
  then obtain redeem s stk2 where sc: "sc = redeem # s" and rest: "IsPushOnly scriptSig"
    "EvalScript E s redeem ?f SIGVERSION_BASE = Inr stk2" "stk2 \<noteq> []" "CastToBool (hd stk2)"
    by (rule p2sh_part_Verified)
  from e2 sc eval_p2sh [OF h] have "stk = vchBool (Hash160 E redeem = h) # s" by simp
  with c have "Hash160 E redeem = h"
    by (cases "Hash160 E redeem = h") (simp_all add: vchBool_def vchFalse_def)
  with e1 sc rest show ?thesis by blast
qed

section \<open>An input that stops the node\<close>

text \<open>
  Behind the name prefix: two pushes of the same 20 bytes, the last of them the \<^verbatim>\<open>OP_HASH160\<close> byte,
  and \<^verbatim>\<open>OP_EQUAL\<close>. It evaluates to true on an empty stack, and the mangled remainder of the prefix
  removal looks like pay-to-script-hash.
\<close>

definition abort_script :: "script \<Rightarrow> bytes \<Rightarrow> script" where
  "abort_script p x = p @ push_data x @ push_data x @ [of_nat OP_EQUAL]"

lemma abort_remainder:
  assumes cr: "createNameScript [] name v nRentalDays op err = (True, p, err')"
    and op: "op = OP_NAME_NEW \<or> op = OP_NAME_UPDATE" and v: "v \<noteq> []"
    and x: "length x = 20" "last x = 0xa9"
  shows "RemoveNameScriptPrefix (abort_script p x) = Inr (Some (p2sh x))"
proof -
  have ne: "x \<noteq> []" using x by auto
  have first: "unat (hd (push_data x @ push_data x @ [of_nat OP_EQUAL])) = 20"
    using x by (simp add: push_data_def)
  have g: "fst (snd (GetOp2 (push_data x @ push_data x @ [of_nat OP_EQUAL]))) = 21"
    using x by (simp add: length_push_20)
  have "push_data x = 20 # butlast x @ [0xa9]"
    using x ne by (simp add: push_data_def flip: x(2))
  then have "drop 20 (push_data x) = [0xa9]" "length (push_data x) = 21"
    using x by (simp_all add: length_push_20)
  then have "drop (length p + 21 - 1) (p @ push_data x @ push_data x @ [of_nat OP_EQUAL]) = p2sh x"
    by (subst drop_remainder) (simp_all add: p2sh_def)
  with Remove_created [OF cr op v, of "push_data x @ push_data x @ [of_nat OP_EQUAL]"] first g
  show ?thesis by (simp add: abort_script_def)
qed

lemma abort_head:
  assumes "createNameScript [] name v nRentalDays op err = (True, p, err')"
    and "op = OP_NAME_NEW \<or> op = OP_NAME_UPDATE"
  shows "IsWitnessProgramInner (p @ r) = None" "\<not> IsPayToScriptHashInner (p @ r)"
proof -
  have p: "p @ r = of_int (op + 80) # 0x75 # drop 2 (p @ r)"
    by (subst (1 2) createNameScript_prefix(1) [OF assms]) simp
  have "unat (of_int (op + 80) :: byte) \<noteq> OP_HASH160" using assms(2) by auto
  then show "\<not> IsPayToScriptHashInner (p @ r)"
    by (subst p) (simp add: IsPayToScriptHashInner_def)
  show "IsWitnessProgramInner (p @ r) = None"
    by (subst p) (auto simp: IsWitnessProgramInner_def)
qed

lemma eval_abort_script:
  assumes cr: "createNameScript [] name v nRentalDays op err = (True, p, err')"
    and op: "op = OP_NAME_NEW \<or> op = OP_NAME_UPDATE"
    and x: "length x = 20" and fl: "flags AND SCRIPT_VERIFY_MINIMALDATA = 0"
  shows "EvalScript E [] (abort_script p x) flags sv = Inr [vchTrue]"
proof -
  let ?st = "\<lparr>es_stack = [], es_altstack = [], es_vfExec = [], es_nOpCount = 0, es_code = abort_script p x\<rparr>"
  have ops: "name_ops v \<le> 22" using createNameScript_prefix(3) [OF cr op] by (rule name_ops_le)
  have "eval_loop E flags sv (p @ push_data x @ push_data x @ [of_nat OP_EQUAL]) ?st =
      eval_loop E flags sv (push_data x @ push_data x @ [of_nat OP_EQUAL]) (?st\<lparr>es_nOpCount := name_ops v\<rparr>)"
    using eval_name_prefix [OF cr op fl, of ?st E sv] by simp
  also have "\<dots> = Inr (?st\<lparr>es_stack := [vchTrue], es_nOpCount := Suc (name_ops v)\<rparr>)"
    using x ops minimal_20 [OF x]
    by (simp add: eval_loop_opcode eval_loop_push exec_instr_plain exec_instr_push_if vchBool_def)
  finally show ?thesis
    using createNameScript_size [OF cr op] length_push_20 [OF x]
    by (simp add: EvalScript_def abort_script_def)
qed

lemma EvalScript_Nil [simp]: "EvalScript E stk [] flags sv = Inr stk"
  by (simp add: EvalScript_def)

section \<open>Properties\<close>

text \<open>The smallest environment for the examples: constant digests, no signature is good.\<close>

definition env0 :: script_env where
  "env0 = \<lparr>RIPEMD160 = (\<lambda>_. replicate 20 0), SHA1 = (\<lambda>_. replicate 20 0),
     SHA256 = (\<lambda>_. replicate 32 0), CheckLowS = (\<lambda>_. True), CheckSig = (\<lambda>sg pk _ _. hd sg = hd pk),
     CheckLockTime = (\<lambda>_. False), CheckSequence = (\<lambda>_. False)\<rparr>"

lemma env0_sel [simp]:
  "RIPEMD160 env0 b = replicate 20 0" "SHA256 env0 b = replicate 32 0" "SHA1 env0 b = replicate 20 0"
  "CheckSig env0 sg pk c v = (hd sg = hd pk)"
  by (simp_all add: env0_def)

lemma env0_hash_sized: "hash_sized env0"
  by (simp add: hash_sized_def)

text \<open>C19: evaluation stays inside its limits. From a stack of at most 1000 elements of at most 520
  bytes each, a script that evaluates successfully leaves a stack of at most 1000 elements of at
  most 520 bytes.\<close>

theorem EvalScript_limits:
  assumes "EvalScript E stk scr flags sv = Inr stk'"
    and "\<forall>b. length (RIPEMD160 E b) = 20 \<and> length (SHA1 E b) = 20 \<and> length (SHA256 E b) = 32"
    and "length stk \<le> 1000" and "\<forall>x \<in> set stk. length x \<le> MAX_SCRIPT_ELEMENT_SIZE"
  shows "length stk' \<le> 1000 \<and> (\<forall>x \<in> set stk'. length x \<le> MAX_SCRIPT_ELEMENT_SIZE)"
proof -
  from assms(1) obtain st where "eval_loop E flags sv scr \<lparr>es_stack = stk, es_altstack = [],
      es_vfExec = [], es_nOpCount = 0, es_code = scr\<rparr> = Inr st" "stk' = es_stack st"
    by (auto simp: EvalScript_def split: if_split_asm sum.split_asm)
  with eval_loop_small [OF this(1)] assms(2-) show ?thesis
    by (auto simp: st_small_def small_def hash_sized_def)
qed

theorem EvalScript_limits_witness:
  "EvalScript env0 [[7]] [0x76] 0 SIGVERSION_BASE = Inr [[7], [7]] \<and> length [[7], [7::byte]] \<le> 1000"
proof -
  have e: "EvalScript env0 [[7]] [0x76] 0 SIGVERSION_BASE = Inr [[7], [7]]"
    by (simp add: EvalScript_def eval_loop_opcode exec_instr_plain)
  with EvalScript_limits [OF e] show ?thesis by simp
qed

text \<open>The boolean reading of a stack element agrees with its reading as a number: it is true
  exactly when the number it encodes is not zero (both zero encodings and negative zero are false).\<close>

theorem CastToBool_is_nonzero:
  "CastToBool v \<longleftrightarrow> set_vch v \<noteq> 0"
  by (rule CastToBool_set_vch)

text \<open>C20: the signature encodings accepted are exactly the strict DER encodings of two integers that are not negative
  (zero included) and minimally encoded, of together at most 66 bytes, followed by one hash type byte.\<close>

theorem IsValidSignatureEncoding_is_der:
  "IsValidSignatureEncoding sig \<longleftrightarrow>
     (\<exists>R S ht. sig = der_sig R S ht \<and> der_int_ok R \<and> der_int_ok S \<and> length R + length S \<le> 66)"
  using valid_sig_is_der valid_der_sig by blast

text \<open>C7: multi-signature checking is sound and complete. On a well-formed argument block whose
  signatures and keys pass the encoding checks, \<^verbatim>\<open>OP_CHECKMULTISIG\<close> consumes the block and pushes true
  exactly when the signatures match, in order, a subsequence of the keys; the keys are charged to
  the operation count.\<close>

theorem checkmultisig_decides:
  assumes "length keys \<le> MAX_PUBKEYS_PER_MULTISIG" and "length sigs \<le> length keys"
    and "n + length keys \<le> MAX_OPS_PER_SCRIPT"
    and "\<forall>sg \<in> set sigs. \<forall>k \<in> set keys. sig_encoding_error E sg k flags sv = None"
    and "flags AND SCRIPT_VERIFY_NULLFAIL = 0"
  shows "checkmultisig_op E OP_CHECKMULTISIG flags sv code n
      (serialize (int (length keys)) # keys @ serialize (int (length sigs)) # sigs @ [] # s)
    = Inr (n + length keys,
        vchBool (list_emb (\<lambda>sg k. CheckSig E sg k (drop_sigs sv sigs code) sv) sigs keys) # s)"
  using assms by (intro checkmultisig_op_correct) auto

theorem checkmultisig_decides_witness:
  "checkmultisig_op env0 OP_CHECKMULTISIG 0 SIGVERSION_WITNESS_V0 [] 0 [[2], [5], [6], [1], [6], []]
     = Inr (2, [vchTrue])"
proof -
  have "checkmultisig_op env0 OP_CHECKMULTISIG 0 SIGVERSION_WITNESS_V0 [] 0
      (serialize (int (length [[5], [6 :: byte]])) # [[5], [6]] @ serialize (int (length [[6 :: byte]])) # [[6]] @ [] # [])
    = Inr (0 + length [[5], [6 :: byte]],
        vchBool (list_emb (\<lambda>sg k. CheckSig env0 sg k (drop_sigs SIGVERSION_WITNESS_V0 [[6]] []) SIGVERSION_WITNESS_V0)
          [[6]] [[5], [6]]) # [])"
    by (rule checkmultisig_decides)
      (simp_all add: sig_encoding_error_def CheckSignatureEncoding_def CheckPubKeyEncoding_def)
  then show ?thesis by (simp add: serialize_def le_digits.simps vchBool_def numeral_2_eq_2)
qed



text \<open>C18: what a verified pay-to-script-hash spend proves: the input script only pushes, the last
  thing it pushes hashes to the committed value, and that script itself evaluates to true on the
  rest of the pushes.\<close>

theorem p2sh_spend_sound:
  assumes "VerifyScript E scriptSig (p2sh h) nVersion witness flags = Verified"
    and "length h = 20" and "verify_flags nVersion flags AND SCRIPT_VERIFY_P2SH \<noteq> 0"
  shows "\<exists>redeem s stk. IsPushOnly scriptSig
    \<and> EvalScript E [] scriptSig (verify_flags nVersion flags) SIGVERSION_BASE = Inr (redeem # s)
    \<and> Hash160 E redeem = h
    \<and> EvalScript E s redeem (verify_flags nVersion flags) SIGVERSION_BASE = Inr stk
    \<and> stk \<noteq> [] \<and> CastToBool (hd stk)"
  by (rule p2sh_verified_spend [OF assms])

lemma sample_p2sh_spend:
  "VerifyScript env0 [1, 0x51] (p2sh (replicate 20 0)) 1 [] 1 = Verified"
proof -
  have e1: "EvalScript env0 [] [1, 0x51] 1 SIGVERSION_BASE = Inr [[0x51]]"
    by (simp add: EvalScript_def eval_loop.simps GetOp2_def push_length_def exec_instr_push)
  have e2: "EvalScript env0 [[0x51]] (p2sh (replicate 20 0)) 1 SIGVERSION_BASE = Inr [vchTrue]"
    by (simp add: EvalScript_def p2sh_def eval_loop_opcode eval_loop_push exec_instr_plain
        exec_instr_push_if minimal_20 length_push_20 Hash160_def vchBool_def)
  have e3: "EvalScript env0 [] [0x51] 1 SIGVERSION_BASE = Inr [[1]]"
    by (simp add: EvalScript_def eval_loop_opcode exec_instr_small_int serialize_def le_digits.simps)
  have po: "IsPushOnly [1, 0x51]"
    by (simp add: IsPushOnly.simps GetOp2_def push_length_def)
  show ?thesis
    using e1 e2 e3 po p2sh_test [of "replicate 20 0" 0]
    by (simp add: VerifyScript_def verify_witness_part_def verify_p2sh_part_def verify_final_part_def vchTrue_def)
qed

theorem p2sh_spend_sound_witness:
  "\<exists>redeem s stk. IsPushOnly [1, 0x51]
    \<and> EvalScript env0 [] [1, 0x51] (verify_flags 1 1) SIGVERSION_BASE = Inr (redeem # s)
    \<and> Hash160 env0 redeem = replicate 20 0
    \<and> EvalScript env0 s redeem (verify_flags 1 1) SIGVERSION_BASE = Inr stk
    \<and> stk \<noteq> [] \<and> CastToBool (hd stk)"
  by (rule p2sh_spend_sound [OF sample_p2sh_spend]) (simp_all add: verify_flags_def)

text \<open>C21: on a name transaction with the pay-to-script-hash and witness rules on,
  \<^verbatim>\<open>VerifyScript\<close> fails its own assertion \<^verbatim>\<open>assert(!stack.empty())\<close> for an empty input script
  and an output that carries any registration or update with a non-empty value, followed by two
  equal pushes of 20 bytes ending in the byte of \<^verbatim>\<open>OP_HASH160\<close> and \<^verbatim>\<open>OP_EQUAL\<close>.\<close>

theorem VerifyScript_assertion_reachable:
  assumes "createNameScript [] name v nRentalDays op err = (True, p, err')"
    and "op = OP_NAME_NEW \<or> op = OP_NAME_UPDATE" and "v \<noteq> []" and "length x = 20" and "last x = 0xa9"
  shows "VerifyScript E [] (p @ push_data x @ push_data x @ [of_nat OP_EQUAL]) NAMECOIN_TX_VERSION witness
    (SCRIPT_VERIFY_P2SH OR SCRIPT_VERIFY_WITNESS) = Aborted"
proof -
  let ?s = "abort_script p x"
  have rem: "RemoveNameScriptPrefix ?s = Inr (Some (p2sh x))" by (rule abort_remainder [OF assms])
  have w: "IsWitnessProgram ?s NAMECOIN_TX_VERSION = Inr None"
    using abort_head(1) [OF assms(1,2)] rem p2sh_not_witness_inner [OF assms(4)]
    by (simp add: IsWitnessProgram_def abort_script_def)
  have h: "IsPayToScriptHash ?s NAMECOIN_TX_VERSION = Inr True"
    using abort_head(2) [OF assms(1,2)] rem p2sh_inner [OF assms(4)]
    by (simp add: IsPayToScriptHash_def abort_script_def)
  have "VerifyScript E [] ?s NAMECOIN_TX_VERSION witness (SCRIPT_VERIFY_P2SH OR SCRIPT_VERIFY_WITNESS) = Aborted"
    using w h eval_abort_script [OF assms(1,2,4)]
    by (simp add: VerifyScript_def verify_witness_part_def verify_p2sh_part_def IsPushOnly.simps vchTrue_def)
  then show ?thesis by (simp add: abort_script_def)
qed

theorem VerifyScript_assertion_reachable_witness:
  "VerifyScript env0 [] ([0x51, 0x75, 1, 0x61, 1, 100, 0x6d, 2, 0x62, 0x63, 0x75]
     @ push_data (replicate 20 0xa9) @ push_data (replicate 20 0xa9) @ [of_nat OP_EQUAL])
     NAMECOIN_TX_VERSION [] (SCRIPT_VERIFY_P2SH OR SCRIPT_VERIFY_WITNESS) = Aborted"
  by (rule VerifyScript_assertion_reachable [OF sample_created]) simp_all

end
