(* ===== verification/MFC_Serialize.thy ===== *)
theory MFC_Serialize
  imports MFC_Prelude
begin

unbundle bit_operations_syntax

text \<open>
  The stream codecs of \<^verbatim>\<open>src/src/serialize.h\<close>: fixed-width integers, \<^verbatim>\<open>CompactSize\<close>, \<^verbatim>\<open>VarInt\<close>, byte
  vectors and vectors of objects. A stream being written is the list of bytes written; a stream being
  read is the list of bytes left, and a reader returns the value with the rest or the exception
  (\<^verbatim>\<open>std::ios_base::failure\<close>) it throws. The locale \<open>codec\<close> is the contract of a pair of a writer and a
  reader; the readers and writers of this theory are its first instances.
\<close>

datatype ser_error = EndOfData | NonCanonicalSize | SizeTooLarge | UnknownOptionalData | AssertionFailed

type_synonym 'a reader = "bytes \<Rightarrow> ser_error + 'a \<times> bytes"

abbreviation (input) MAX_SIZE :: nat where "MAX_SIZE \<equiv> 0x02000000"

named_theorems ser_simps \<open>reading back what was written\<close>

section \<open>Raw data\<close>

definition stream_read :: "nat \<Rightarrow> bytes reader" where
  "stream_read n s = (if length s < n then Inl EndOfData else Inr (take n s, drop n s))"

definition ser_writedata8 :: "nat \<Rightarrow> bytes" where
  "ser_writedata8 obj = [of_nat obj]"

definition ser_writedata16 :: "nat \<Rightarrow> bytes" where
  "ser_writedata16 obj = WriteLE16 obj"

definition ser_writedata32 :: "nat \<Rightarrow> bytes" where
  "ser_writedata32 obj = WriteLE32 obj"

definition ser_writedata64 :: "nat \<Rightarrow> bytes" where
  "ser_writedata64 obj = WriteLE64 obj"

definition ser_readdata8 :: "nat reader" where
  "ser_readdata8 s = bind_sum (stream_read 1 s) (\<lambda>(b, s). Inr (unat (hd b), s))"

definition ser_readdata16 :: "nat reader" where
  "ser_readdata16 s = bind_sum (stream_read 2 s) (\<lambda>(b, s). Inr (ReadLE16 b, s))"

definition ser_readdata32 :: "nat reader" where
  "ser_readdata32 s = bind_sum (stream_read 4 s) (\<lambda>(b, s). Inr (ReadLE32 b, s))"

definition ser_readdata64 :: "nat reader" where
  "ser_readdata64 s = bind_sum (stream_read 8 s) (\<lambda>(b, s). Inr (ReadLE64 b, s))"

lemma stream_read_append [simp, ser_simps]: "length b = n \<Longrightarrow> stream_read n (b @ s) = Inr (b, s)"
  by (simp add: stream_read_def)

lemma ser_readdata_writedata [simp, ser_simps]:
  "n < 256 \<Longrightarrow> ser_readdata8 (ser_writedata8 n @ s) = Inr (n, s)"
  "n < 65536 \<Longrightarrow> ser_readdata16 (ser_writedata16 n @ s) = Inr (n, s)"
  "n < 4294967296 \<Longrightarrow> ser_readdata32 (ser_writedata32 n @ s) = Inr (n, s)"
  "n < 18446744073709551616 \<Longrightarrow> ser_readdata64 (ser_writedata64 n @ s) = Inr (n, s)"
  using ReadLE_WriteLE [where r = "[]"]
  by (simp_all add: ser_readdata8_def ser_writedata8_def stream_read_def unat_of_nat
      ser_readdata16_def ser_writedata16_def ser_readdata32_def ser_writedata32_def
      ser_readdata64_def ser_writedata64_def)

text \<open>The typed versions: a signed integer is written through its unsigned bit pattern.\<close>

definition Serialize_uint32 :: "u32 \<Rightarrow> bytes" where
  "Serialize_uint32 a = ser_writedata32 (unat a)"

definition Unserialize_uint32 :: "u32 reader" where
  "Unserialize_uint32 s = bind_sum (ser_readdata32 s) (\<lambda>(n, s). Inr (of_nat n, s))"

definition Serialize_int32 :: "int \<Rightarrow> bytes" where
  "Serialize_int32 a = ser_writedata32 (nat (a mod 4294967296))"

definition Unserialize_int32 :: "int reader" where
  "Unserialize_int32 s = bind_sum (ser_readdata32 s) (\<lambda>(n, s). Inr (wrap32 (int n), s))"

definition Serialize_int64 :: "int \<Rightarrow> bytes" where
  "Serialize_int64 a = ser_writedata64 (nat (a mod 18446744073709551616))"

definition Unserialize_int64 :: "int reader" where
  "Unserialize_int64 s = bind_sum (ser_readdata64 s) (\<lambda>(n, s). Inr (wrap64 (int n), s))"

definition int32 :: "int \<Rightarrow> bool" where
  "int32 a \<longleftrightarrow> -2147483648 \<le> a \<and> a < 2147483648"

definition int64 :: "int \<Rightarrow> bool" where
  "int64 a \<longleftrightarrow> -9223372036854775808 \<le> a \<and> a < 9223372036854775808"

lemma wrap_mod [simp]: "wrap32 (a mod 4294967296) = wrap32 a" "wrap64 (a mod 18446744073709551616) = wrap64 a"
  by (simp_all add: wrap32_def wrap64_def mod_add_left_eq)

section \<open>Compact sizes\<close>

definition GetSizeOfCompactSize :: "nat \<Rightarrow> nat" where
  "GetSizeOfCompactSize nSize =
     (if nSize < 253 then 1 else if nSize \<le> 65535 then 3 else if nSize \<le> 4294967295 then 5 else 9)"

definition WriteCompactSize :: "nat \<Rightarrow> bytes" where
  "WriteCompactSize nSize =
     (if nSize < 253 then ser_writedata8 nSize
      else if nSize \<le> 65535 then ser_writedata8 253 @ ser_writedata16 nSize
      else if nSize \<le> 4294967295 then ser_writedata8 254 @ ser_writedata32 nSize
      else ser_writedata8 255 @ ser_writedata64 nSize)"

definition ReadCompactSize :: "nat reader" where
  "ReadCompactSize is =
     bind_sum (ser_readdata8 is) (\<lambda>(chSize, is).
       bind_sum
         (if chSize < 253 then Inr (chSize, is)
          else if chSize = 253 then
            bind_sum (ser_readdata16 is) (\<lambda>(n, is). if n < 253 then Inl NonCanonicalSize else Inr (n, is))
          else if chSize = 254 then
            bind_sum (ser_readdata32 is) (\<lambda>(n, is). if n < 0x10000 then Inl NonCanonicalSize else Inr (n, is))
          else
            bind_sum (ser_readdata64 is) (\<lambda>(n, is). if n < 0x100000000 then Inl NonCanonicalSize else Inr (n, is)))
         (\<lambda>(nSizeRet, is). if nSizeRet > MAX_SIZE then Inl SizeTooLarge else Inr (nSizeRet, is)))"

lemma ReadCompactSize_Write [simp, ser_simps]:
  "n \<le> MAX_SIZE \<Longrightarrow> ReadCompactSize (WriteCompactSize n @ s) = Inr (n, s)"
  by (simp add: ReadCompactSize_def WriteCompactSize_def)

lemma length_WriteCompactSize: "length (WriteCompactSize n) = GetSizeOfCompactSize n"
  by (simp add: WriteCompactSize_def GetSizeOfCompactSize_def ser_writedata8_def ser_writedata16_def
      ser_writedata32_def ser_writedata64_def)

section \<open>Variable-length integers\<close>

text \<open>Values of \<^verbatim>\<open>uint64_t\<close>; \<open>varint_tmp\<close> is the array \<^verbatim>\<open>tmp\<close>, which is written from its end.\<close>

function GetSizeOfVarInt :: "nat \<Rightarrow> nat" where
  "GetSizeOfVarInt n = (if n \<le> 0x7F then 1 else 1 + GetSizeOfVarInt (n div 128 - 1))"
  by pat_completeness auto
termination by (relation "measure id") auto

function varint_tmp :: "nat \<Rightarrow> bool \<Rightarrow> bytes" where
  "varint_tmp n first =
     (of_nat (n mod 128) OR (if first then 0x00 else 0x80)) #
     (if n \<le> 0x7F then [] else varint_tmp (n div 128 - 1) False)"
  by pat_completeness auto
termination by (relation "measure fst") auto

declare GetSizeOfVarInt.simps [simp del] varint_tmp.simps [simp del]

definition WriteVarInt :: "nat \<Rightarrow> bytes" where
  "WriteVarInt n = rev (varint_tmp n True)"

fun read_varint :: "nat \<Rightarrow> nat reader" where
  "read_varint n [] = Inl EndOfData"
| "read_varint n (chData # is) =
     (let n = (n * 128) mod 18446744073709551616 + unat (chData AND 0x7F) in
      if chData AND 0x80 \<noteq> 0 then read_varint ((n + 1) mod 18446744073709551616) is else Inr (n, is))"

definition ReadVarInt :: "nat reader" where
  "ReadVarInt is = read_varint 0 is"

lemma varint_byte:
  "unat ((of_nat (n mod 128) OR 0x80 :: byte) AND 0x7F) = n mod 128"
  "(of_nat (n mod 128) OR 0x80 :: byte) AND 0x80 \<noteq> 0"
  "unat ((of_nat (n mod 128) :: byte) AND 0x7F) = n mod 128"
  "(of_nat (n mod 128) :: byte) AND 0x80 = 0"
proof -
  have u: "unat (of_nat (n mod 128) :: byte) = n mod 128" by (simp add: unat_of_nat)
  then have s: "unat (of_nat (n mod 128) OR 0x80 :: byte) = n mod 128 + 128" by (subst byte_set_high) simp_all
  show "unat ((of_nat (n mod 128) OR 0x80 :: byte) AND 0x7F) = n mod 128" unfolding byte_clear_high s by simp
  show "(of_nat (n mod 128) OR 0x80 :: byte) AND 0x80 \<noteq> 0" unfolding byte_high_bit s by simp
  show "unat ((of_nat (n mod 128) :: byte) AND 0x7F) = n mod 128" unfolding byte_clear_high u by simp
  show "(of_nat (n mod 128) :: byte) AND 0x80 = 0" unfolding byte_high_bit u by simp
qed

lemma read_varint_tmp:
  "n < 18446744073709551615 \<Longrightarrow> read_varint 0 (rev (varint_tmp n False) @ s) = read_varint (n + 1) s"
proof (induction n arbitrary: s rule: less_induct)
  case (less n)
  show ?case
  proof (cases "n \<le> 0x7F")
    case True
    then show ?thesis using varint_byte [of n] less.prems by (subst varint_tmp.simps) (simp add: Let_def)
  next
    case False
    let ?m = "n div 128 - 1"
    have m: "?m < n" "?m + 1 = n div 128" using False by auto
    have lt: "n div 128 * 128 \<le> n" by simp
    have "read_varint 0 (rev (varint_tmp n False) @ s) =
        read_varint 0 (rev (varint_tmp ?m False) @ (of_nat (n mod 128) OR 0x80) # s)"
      using False by (subst varint_tmp.simps) simp
    also have "\<dots> = read_varint (n div 128) ((of_nat (n mod 128) OR 0x80) # s)"
      using less.IH [OF m(1)] less.prems m by simp
    also have "\<dots> = read_varint (n + 1) s" using less.prems lt by (simp add: varint_byte Let_def)
    finally show ?thesis .
  qed
qed

lemma ReadVarInt_Write [simp, ser_simps]:
  assumes "n < 18446744073709551616"
  shows "ReadVarInt (WriteVarInt n @ s) = Inr (n, s)"
proof (cases "n \<le> 0x7F")
  case True
  then show ?thesis using varint_byte [of n]
    by (subst WriteVarInt_def, subst varint_tmp.simps) (simp add: ReadVarInt_def Let_def)
next
  case False
  have m: "n div 128 - 1 + 1 = n div 128" "n div 128 - 1 < 18446744073709551615" using False assms by auto
  have lt: "n div 128 * 128 \<le> n" by simp
  have "ReadVarInt (WriteVarInt n @ s) =
      read_varint 0 (rev (varint_tmp (n div 128 - 1) False) @ of_nat (n mod 128) # s)"
    unfolding ReadVarInt_def WriteVarInt_def using False by (subst varint_tmp.simps) simp
  also have "\<dots> = read_varint (n div 128) (of_nat (n mod 128) # s)"
    using read_varint_tmp [OF m(2)] m(1) by simp
  also have "\<dots> = Inr (n, s)" using assms lt by (simp add: varint_byte Let_def)
  finally show ?thesis .
qed

lemma length_varint_tmp: "length (varint_tmp n first) = GetSizeOfVarInt n"
  by (induction n first rule: varint_tmp.induct)
    (subst varint_tmp.simps, subst GetSizeOfVarInt.simps, auto)

section \<open>Vectors\<close>

text \<open>A byte vector is read in blocks of at most five million bytes, so that a bogus length does not
  allocate more than the stream can provide.\<close>

definition Serialize_bytes :: "bytes \<Rightarrow> bytes" where
  "Serialize_bytes v = WriteCompactSize (length v) @ v"

function read_blocks :: "nat \<Rightarrow> bytes reader" where
  "read_blocks n is =
     (if n = 0 then Inr ([], is)
      else let blk = min n 5000000 in
        bind_sum (stream_read blk is) (\<lambda>(b, is).
          bind_sum (read_blocks (n - blk) is) (\<lambda>(v, is). Inr (b @ v, is))))"
  by pat_completeness auto
termination by (relation "measure fst") auto

declare read_blocks.simps [simp del]

definition Unserialize_bytes :: "bytes reader" where
  "Unserialize_bytes is = bind_sum (ReadCompactSize is) (\<lambda>(nSize, is). read_blocks nSize is)"

definition Serialize_vector :: "('a \<Rightarrow> bytes) \<Rightarrow> 'a list \<Rightarrow> bytes" where
  "Serialize_vector ser v = WriteCompactSize (length v) @ concat (map ser v)"

fun read_items :: "'a reader \<Rightarrow> nat \<Rightarrow> 'a list reader" where
  "read_items unser 0 is = Inr ([], is)"
| "read_items unser (Suc n) is =
     bind_sum (unser is) (\<lambda>(x, is). bind_sum (read_items unser n is) (\<lambda>(v, is). Inr (x # v, is)))"

definition Unserialize_vector :: "'a reader \<Rightarrow> 'a list reader" where
  "Unserialize_vector unser is = bind_sum (ReadCompactSize is) (\<lambda>(nSize, is). read_items unser nSize is)"

lemma read_blocks_append [ser_simps]: "length v = n \<Longrightarrow> read_blocks n (v @ s) = Inr (v, s)"
proof (induction n arbitrary: v rule: less_induct)
  case (less n)
  show ?case
  proof (cases "n = 0")
    case True
    then show ?thesis using less.prems by (simp add: read_blocks.simps)
  next
    case False
    let ?b = "min n 5000000"
    have "stream_read ?b (v @ s) = Inr (take ?b v, drop ?b v @ s)"
      using less.prems by (simp add: stream_read_def)
    moreover have "read_blocks (n - ?b) (drop ?b v @ s) = Inr (drop ?b v, s)"
      using False less.prems by (intro less.IH) auto
    ultimately show ?thesis using False by (subst read_blocks.simps) (simp add: Let_def)
  qed
qed

section \<open>The contract of a codec\<close>

locale codec =
  fixes enc :: "'a \<Rightarrow> bytes" and dec :: "'a reader" and ok :: "'a \<Rightarrow> bool"
  assumes dec_enc: "ok x \<Longrightarrow> dec (enc x @ s) = Inr (x, s)"
begin

text \<open>An encoding is prefix-free, so that a concatenation of encodings can be cut in one way only.\<close>

lemma enc_prefix_free:
  assumes "ok x" "ok y" "enc x @ s = enc y @ t"
  shows "x = y \<and> s = t"
  using dec_enc [OF assms(1), of s] dec_enc [OF assms(2), of t] unfolding assms(3) by simp

lemma read_items_concat: "list_all ok xs \<Longrightarrow> read_items dec (length xs) (concat (map enc xs) @ s) = Inr (xs, s)"
proof (induction xs)
  case (Cons x xs)
  then have "dec (enc x @ (concat (map enc xs) @ s)) = Inr (x, concat (map enc xs) @ s)"
    by (intro dec_enc) simp
  with Cons show ?case by simp
qed simp

lemma vector_dec_enc:
  assumes "list_all ok xs" "length xs \<le> MAX_SIZE"
  shows "Unserialize_vector dec (Serialize_vector enc xs @ s) = Inr (xs, s)"
  using read_items_concat [OF assms(1)] assms(2) by (simp add: Unserialize_vector_def Serialize_vector_def)

end

interpretation uint32: codec Serialize_uint32 Unserialize_uint32 "\<lambda>_. True"
proof
  show "Unserialize_uint32 (Serialize_uint32 x @ s) = Inr (x, s)" for x s
    using unsigned_less [of x, where 'a = nat] by (simp add: Serialize_uint32_def Unserialize_uint32_def)
qed

interpretation sint32: codec Serialize_int32 Unserialize_int32 int32
  by unfold_locales (simp add: Serialize_int32_def Unserialize_int32_def int32_def nat_less_iff)

interpretation sint64: codec Serialize_int64 Unserialize_int64 int64
  by unfold_locales (simp add: Serialize_int64_def Unserialize_int64_def int64_def nat_less_iff)

interpretation compactsize: codec WriteCompactSize ReadCompactSize "\<lambda>n. n \<le> MAX_SIZE"
  by unfold_locales simp

interpretation varint: codec WriteVarInt ReadVarInt "\<lambda>n. n < 2 ^ 64"
  by unfold_locales simp

interpretation blob: codec Serialize_bytes Unserialize_bytes "\<lambda>v. length v \<le> MAX_SIZE"
  by unfold_locales (simp add: Serialize_bytes_def Unserialize_bytes_def read_blocks_append)

interpretation uint256: codec id "stream_read 32" "\<lambda>h. length h = 32"
  by unfold_locales simp

lemmas codec_facts [ser_simps] = uint32.dec_enc sint32.dec_enc sint64.dec_enc blob.dec_enc uint256.dec_enc

end
