(* ===== verification/MFC_Tx.thy ===== *)
theory MFC_Tx
  imports MFC_Serialize MFC_Script
begin

unbundle bit_operations_syntax

text \<open>
  Transactions, \<^verbatim>\<open>src/src/primitives/transaction.h\<close> and \<^verbatim>\<open>transaction.cpp\<close>, with amounts and fees of
  \<^verbatim>\<open>amount.h\<close> and \<^verbatim>\<open>amount.cpp\<close>: the record types, the null and emptiness tests, the coinbase and
  coinstake tests, the value of the outputs, and the two serialization formats with their reader.
  A \<^verbatim>\<open>uint256\<close> is a list of 32 bytes, an amount an integer in the range of \<^verbatim>\<open>int64_t\<close>.
\<close>

section \<open>Amounts and fees\<close>

type_synonym CAmount = int

abbreviation (input) COIN :: CAmount where "COIN \<equiv> 100000000"
abbreviation (input) MIN_TX_FEE :: CAmount where "MIN_TX_FEE \<equiv> 10000"
abbreviation (input) MAX_MONEY :: CAmount where "MAX_MONEY \<equiv> 100000000000000000"

definition MoneyRange :: "CAmount \<Rightarrow> bool" where
  "MoneyRange nValue \<longleftrightarrow> nValue \<ge> 0 \<and> nValue \<le> MAX_MONEY"

text \<open>The size is a \<^verbatim>\<open>size_t\<close>; \<open>(1 + nBytes / 10240) * nBaseFee\<close> is computed in \<^verbatim>\<open>uint64_t\<close>.\<close>

definition GetMinFee :: "nat \<Rightarrow> CAmount" where
  "GetMinFee nBytes =
     (let nMinFee = wrap64 ((1 + int nBytes div 10240) * MIN_TX_FEE)
      in if \<not> MoneyRange nMinFee then MAX_MONEY else nMinFee)"

definition CFeeRate_make :: "CAmount \<Rightarrow> nat \<Rightarrow> CAmount" where
  "CFeeRate_make nFeePaid nBytes =
     (if nBytes > 0 then cdiv (wrap64 (nFeePaid * 1000)) (int nBytes) else 0)"

definition GetFee :: "CAmount \<Rightarrow> nat \<Rightarrow> CAmount" where
  "GetFee nSatoshisPerK nBytes =
     (let nSize = int nBytes;
          nFee = cdiv (wrap64 (nSatoshisPerK * nSize)) 1000;
          nFee = (if nFee = 0 \<and> nSize \<noteq> 0
                  then (if nSatoshisPerK > 0 then 1 else if nSatoshisPerK < 0 then -1 else nFee) else nFee)
      in max nFee (GetMinFee nBytes))"

section \<open>The parts of a transaction\<close>

type_synonym uint256 = bytes

definition uint256_null :: uint256 where
  "uint256_null = replicate 32 0"

record COutPoint =
  out_hash :: uint256
  out_n :: u32

definition COutPoint_SetNull :: COutPoint where
  "COutPoint_SetNull = \<lparr>out_hash = uint256_null, out_n = -1\<rparr>"

definition COutPoint_IsNull :: "COutPoint \<Rightarrow> bool" where
  "COutPoint_IsNull p \<longleftrightarrow> out_hash p = uint256_null \<and> out_n p = -1"

record CTxIn =
  prevout :: COutPoint
  scriptSig :: script
  nSequence :: u32
  scriptWitness :: "bytes list"

abbreviation (input) SEQUENCE_FINAL :: u32 where "SEQUENCE_FINAL \<equiv> 0xffffffff"

record CTxOut =
  nValue :: CAmount
  scriptPubKey :: script

definition CTxOut_SetNull :: CTxOut where
  "CTxOut_SetNull = \<lparr>nValue = -1, scriptPubKey = []\<rparr>"

definition CTxOut_IsNull :: "CTxOut \<Rightarrow> bool" where
  "CTxOut_IsNull t \<longleftrightarrow> nValue t = -1"

definition CTxOut_IsEmpty :: "CTxOut \<Rightarrow> bool" where
  "CTxOut_IsEmpty t \<longleftrightarrow> nValue t = 0 \<and> scriptPubKey t = []"

record CTransaction =
  tx_nVersion :: int
  tx_nTime :: u32
  vin :: "CTxIn list"
  vout :: "CTxOut list"
  nLockTime :: u32

definition CTransaction_IsNull :: "CTransaction \<Rightarrow> bool" where
  "CTransaction_IsNull tx \<longleftrightarrow> vin tx = [] \<and> vout tx = []"

definition IsCoinBase :: "CTransaction \<Rightarrow> bool" where
  "IsCoinBase tx \<longleftrightarrow> length (vin tx) = 1 \<and> COutPoint_IsNull (prevout (vin tx ! 0)) \<and> length (vout tx) \<ge> 1"

definition IsCoinStake :: "CTransaction \<Rightarrow> bool" where
  "IsCoinStake tx \<longleftrightarrow> length (vin tx) > 0 \<and> \<not> COutPoint_IsNull (prevout (vin tx ! 0))
     \<and> length (vout tx) \<ge> 2 \<and> CTxOut_IsEmpty (vout tx ! 0)"

definition HasWitness :: "CTransaction \<Rightarrow> bool" where
  "HasWitness tx \<longleftrightarrow> (\<exists>i \<in> set (vin tx). scriptWitness i \<noteq> [])"

text \<open>\<^verbatim>\<open>GetValueOut\<close>: \<open>None\<close> is the thrown \<^verbatim>\<open>runtime_error\<close>. The sum is a 64-bit addition.\<close>

fun value_out_loop :: "CTxOut list \<Rightarrow> CAmount \<Rightarrow> CAmount option" where
  "value_out_loop [] nValueOut = Some nValueOut"
| "value_out_loop (o1 # os) nValueOut =
     (let nValueOut = wrap64 (nValueOut + nValue o1) in
      if \<not> MoneyRange (nValue o1) \<or> \<not> MoneyRange nValueOut then None
      else value_out_loop os nValueOut)"

definition GetValueOut :: "CTransaction \<Rightarrow> CAmount option" where
  "GetValueOut tx = value_out_loop (vout tx) 0"

section \<open>Serialization\<close>

definition Serialize_COutPoint :: "COutPoint \<Rightarrow> bytes" where
  "Serialize_COutPoint p = out_hash p @ Serialize_uint32 (out_n p)"

definition Unserialize_COutPoint :: "COutPoint reader" where
  "Unserialize_COutPoint s =
     bind_sum (stream_read 32 s) (\<lambda>(h, s).
     bind_sum (Unserialize_uint32 s) (\<lambda>(i, s). Inr (\<lparr>out_hash = h, out_n = i\<rparr>, s)))"

definition Serialize_CTxIn :: "CTxIn \<Rightarrow> bytes" where
  "Serialize_CTxIn i = Serialize_COutPoint (prevout i) @ Serialize_bytes (scriptSig i) @ Serialize_uint32 (nSequence i)"

definition Unserialize_CTxIn :: "CTxIn reader" where
  "Unserialize_CTxIn s =
     bind_sum (Unserialize_COutPoint s) (\<lambda>(p, s).
     bind_sum (Unserialize_bytes s) (\<lambda>(sc, s).
     bind_sum (Unserialize_uint32 s) (\<lambda>(q, s).
       Inr (\<lparr>prevout = p, scriptSig = sc, nSequence = q, scriptWitness = []\<rparr>, s))))"

definition Serialize_CTxOut :: "CTxOut \<Rightarrow> bytes" where
  "Serialize_CTxOut t = Serialize_int64 (nValue t) @ Serialize_bytes (scriptPubKey t)"

definition Unserialize_CTxOut :: "CTxOut reader" where
  "Unserialize_CTxOut s =
     bind_sum (Unserialize_int64 s) (\<lambda>(v, s).
     bind_sum (Unserialize_bytes s) (\<lambda>(sc, s). Inr (\<lparr>nValue = v, scriptPubKey = sc\<rparr>, s)))"

definition Serialize_witness :: "bytes list \<Rightarrow> bytes" where
  "Serialize_witness w = Serialize_vector Serialize_bytes w"

text \<open>The parameters are the stream's type and version bits: \<open>fAllowWitness\<close> is the absence of
  \<^verbatim>\<open>SERIALIZE_TRANSACTION_NO_WITNESS\<close>, \<open>fBtcTx\<close> the bit \<^verbatim>\<open>SER_BTC_TX\<close> of merged mining.\<close>

definition SerializeTransaction :: "bool \<Rightarrow> bool \<Rightarrow> CTransaction \<Rightarrow> bytes" where
  "SerializeTransaction fAllowWitness fBtcTx tx =
     (let flags = (if fAllowWitness \<and> HasWitness tx then 1 else 0 :: byte) in
      Serialize_int32 (tx_nVersion tx)
      @ (if \<not> fBtcTx then Serialize_uint32 (tx_nTime tx) else [])
      @ (if flags \<noteq> 0 then Serialize_vector Serialize_CTxIn [] @ [flags] else [])
      @ Serialize_vector Serialize_CTxIn (vin tx)
      @ Serialize_vector Serialize_CTxOut (vout tx)
      @ (if flags AND 1 \<noteq> 0 then concat (map (\<lambda>i. Serialize_witness (scriptWitness i)) (vin tx)) else [])
      @ Serialize_uint32 (nLockTime tx))"

fun read_witnesses :: "CTxIn list \<Rightarrow> CTxIn list reader" where
  "read_witnesses [] s = Inr ([], s)"
| "read_witnesses (i # is) s =
     bind_sum (Unserialize_vector Unserialize_bytes s) (\<lambda>(w, s).
     bind_sum (read_witnesses is s) (\<lambda>(is, s). Inr (i\<lparr>scriptWitness := w\<rparr> # is, s)))"

text \<open>The inputs and outputs with the optional flags byte.\<close>

definition read_inouts :: "bool \<Rightarrow> (byte \<times> CTxIn list \<times> CTxOut list) reader" where
  "read_inouts fAllowWitness s =
     bind_sum (Unserialize_vector Unserialize_CTxIn s) (\<lambda>(vin, s).
       if length vin = 0 \<and> fAllowWitness then
         bind_sum (stream_read 1 s) (\<lambda>(f, s).
           if hd f \<noteq> 0 then
             bind_sum (Unserialize_vector Unserialize_CTxIn s) (\<lambda>(vin, s).
             bind_sum (Unserialize_vector Unserialize_CTxOut s) (\<lambda>(vout, s). Inr ((hd f, vin, vout), s)))
           else Inr ((hd f, vin, []), s))
       else bind_sum (Unserialize_vector Unserialize_CTxOut s) (\<lambda>(vout, s). Inr ((0, vin, vout), s)))"

definition UnserializeTransaction :: "bool \<Rightarrow> bool \<Rightarrow> u32 \<Rightarrow> CTransaction reader" where
  "UnserializeTransaction fAllowWitness fBtcTx nTime0 s =
     bind_sum (Unserialize_int32 s) (\<lambda>(version, s).
     bind_sum (if \<not> fBtcTx then Unserialize_uint32 s else Inr (nTime0, s)) (\<lambda>(time, s).
     bind_sum (read_inouts fAllowWitness s) (\<lambda>((flags, ins, outs), s).
     bind_sum (if flags AND 1 \<noteq> 0 \<and> fAllowWitness
               then bind_sum (read_witnesses ins s) (\<lambda>(ins, s). Inr (flags XOR 1, ins, s))
               else Inr (flags, ins, s)) (\<lambda>(flags, ins, s).
       if flags \<noteq> 0 then Inl UnknownOptionalData
       else bind_sum (Unserialize_uint32 s) (\<lambda>(lock, s).
         Inr (\<lparr>tx_nVersion = version, tx_nTime = time, vin = ins, vout = outs, nLockTime = lock\<rparr>, s))))))"

text \<open>The transaction id leaves the witnesses out, the witness id includes them; the hash function is
  the double SHA-256 of \<^verbatim>\<open>SerializeHash\<close>.\<close>

definition ComputeHash :: "(bytes \<Rightarrow> uint256) \<Rightarrow> CTransaction \<Rightarrow> uint256" where
  "ComputeHash H tx = H (SerializeTransaction False False tx)"

definition GetWitnessHash :: "(bytes \<Rightarrow> uint256) \<Rightarrow> CTransaction \<Rightarrow> uint256" where
  "GetWitnessHash H tx =
     (if \<not> HasWitness tx then ComputeHash H tx else H (SerializeTransaction True False tx))"

definition GetBtcHash :: "(bytes \<Rightarrow> uint256) \<Rightarrow> CTransaction \<Rightarrow> uint256" where
  "GetBtcHash H tx = H (SerializeTransaction False True tx)"

end
