(* ===== verification/MFC_TxProps.thy ===== *)
theory MFC_TxProps
  imports MFC_Tx
begin

unbundle bit_operations_syntax

text \<open>
  Transactions read back as they were written, in both formats, so that a transaction id commits to
  everything but the witnesses; the sum of the outputs never wraps.
\<close>

section \<open>Codecs of the parts\<close>

definition ok_outpoint :: "COutPoint \<Rightarrow> bool" where
  "ok_outpoint p \<longleftrightarrow> length (out_hash p) = 32"

definition ok_txin :: "CTxIn \<Rightarrow> bool" where
  "ok_txin i \<longleftrightarrow> ok_outpoint (prevout i) \<and> length (scriptSig i) \<le> MAX_SIZE"

definition ok_txout :: "CTxOut \<Rightarrow> bool" where
  "ok_txout t \<longleftrightarrow> int64 (nValue t) \<and> length (scriptPubKey t) \<le> MAX_SIZE"

definition ok_witness :: "bytes list \<Rightarrow> bool" where
  "ok_witness w \<longleftrightarrow> length w \<le> MAX_SIZE \<and> list_all (\<lambda>v. length v \<le> MAX_SIZE) w"

definition ok_tx :: "CTransaction \<Rightarrow> bool" where
  "ok_tx tx \<longleftrightarrow> int32 (tx_nVersion tx)
     \<and> length (vin tx) \<le> MAX_SIZE \<and> list_all ok_txin (vin tx) \<and> list_all (\<lambda>i. ok_witness (scriptWitness i)) (vin tx)
     \<and> length (vout tx) \<le> MAX_SIZE \<and> list_all ok_txout (vout tx)"

definition strip :: "CTxIn \<Rightarrow> CTxIn" where
  "strip i = i\<lparr>scriptWitness := []\<rparr>"

interpretation outpoint: codec Serialize_COutPoint Unserialize_COutPoint ok_outpoint
proof
  show "Unserialize_COutPoint (Serialize_COutPoint p @ s) = Inr (p, s)" if "ok_outpoint p" for p s
    using that uint32.dec_enc [of "out_n p" s]
    by (simp add: Unserialize_COutPoint_def Serialize_COutPoint_def ok_outpoint_def)
qed

interpretation txin: codec Serialize_CTxIn Unserialize_CTxIn "\<lambda>i. ok_txin i \<and> scriptWitness i = []"
proof
  fix i s
  assume ok: "ok_txin i \<and> scriptWitness i = []"
  show "Unserialize_CTxIn (Serialize_CTxIn i @ s) = Inr (i, s)"
    using ok outpoint.dec_enc [of "prevout i"] blob.dec_enc [of "scriptSig i"] uint32.dec_enc [of "nSequence i" s]
    by (simp add: Unserialize_CTxIn_def Serialize_CTxIn_def ok_txin_def)
qed

interpretation txout: codec Serialize_CTxOut Unserialize_CTxOut ok_txout
proof
  fix t s
  assume ok: "ok_txout t"
  show "Unserialize_CTxOut (Serialize_CTxOut t @ s) = Inr (t, s)"
    using ok sint64.dec_enc [of "nValue t"] blob.dec_enc [of "scriptPubKey t" s]
    by (simp add: Unserialize_CTxOut_def Serialize_CTxOut_def ok_txout_def)
qed

section \<open>Codecs of the whole\<close>

lemma Serialize_strip [simp]: "Serialize_CTxIn (strip i) = Serialize_CTxIn i"
  by (simp add: Serialize_CTxIn_def strip_def)

lemma Serialize_vin_strip: "Serialize_vector Serialize_CTxIn (map strip is) = Serialize_vector Serialize_CTxIn is"
  by (simp add: Serialize_vector_def o_def)

lemma read_vin:
  assumes "list_all ok_txin is" "length is \<le> MAX_SIZE"
  shows "Unserialize_vector Unserialize_CTxIn (Serialize_vector Serialize_CTxIn is @ s) = Inr (map strip is, s)"
proof -
  have "list_all (\<lambda>i. ok_txin i \<and> scriptWitness i = []) (map strip is)"
    using assms(1) by (auto simp: list_all_iff strip_def ok_txin_def)
  from txin.vector_dec_enc [OF this] show ?thesis using assms(2) by (simp add: Serialize_vin_strip)
qed

lemma read_witnesses_append:
  assumes "list_all (\<lambda>i. ok_witness (scriptWitness i)) is"
  shows "read_witnesses (map strip is) (concat (map (\<lambda>i. Serialize_witness (scriptWitness i)) is) @ s) = Inr (is, s)"
  using assms
proof (induction "is")
  case (Cons i "is")
  let ?r = "concat (map (\<lambda>i. Serialize_witness (scriptWitness i)) is) @ s"
  have "Unserialize_vector Unserialize_bytes (Serialize_witness (scriptWitness i) @ ?r) = Inr (scriptWitness i, ?r)"
    unfolding Serialize_witness_def using Cons.prems
    by (intro blob.vector_dec_enc) (auto simp: ok_witness_def)
  with Cons show ?case by (simp add: strip_def)
qed simp

lemma strip_no_witness: "\<not> HasWitness tx \<Longrightarrow> map strip (vin tx) = vin tx"
  by (rule map_idI) (auto simp: HasWitness_def strip_def)

lemma Serialize_empty_vin: "Serialize_vector Serialize_CTxIn [] @ [f] @ s = [0, f] @ s"
  by (simp add: Serialize_vector_def WriteCompactSize_def ser_writedata8_def)

lemma read_empty_vin: "Unserialize_vector Unserialize_CTxIn (0 # s) = Inr ([], s)"
  by (simp add: Unserialize_vector_def ReadCompactSize_def ser_readdata8_def stream_read_def)

text \<open>With witnesses the extended format is read, otherwise the basic one.\<close>

lemma read_inouts_basic:
  assumes "ok_tx tx" and "vin tx \<noteq> [] \<or> \<not> fAllowWitness"
  shows "read_inouts fAllowWitness
    (Serialize_vector Serialize_CTxIn (vin tx) @ Serialize_vector Serialize_CTxOut (vout tx) @ s)
      = Inr ((0, map strip (vin tx), vout tx), s)"
  using assms read_vin [of "vin tx"] txout.vector_dec_enc [of "vout tx" s]
  by (auto simp: read_inouts_def ok_tx_def)

lemma read_inouts_extended:
  assumes "ok_tx tx"
  shows "read_inouts True
    ([0, 1] @ Serialize_vector Serialize_CTxIn (vin tx) @ Serialize_vector Serialize_CTxOut (vout tx) @ s)
      = Inr ((1, map strip (vin tx), vout tx), s)"
  using assms read_vin [of "vin tx"] txout.vector_dec_enc [of "vout tx" s]
  by (auto simp: read_inouts_def ok_tx_def read_empty_vin stream_read_def)

lemma Unserialize_Serialize_basic:
  assumes "ok_tx tx" and "vin tx \<noteq> [] \<or> \<not> fAllowWitness" and "\<not> (fAllowWitness \<and> HasWitness tx)"
  shows "UnserializeTransaction fAllowWitness fBtcTx nTime0 (SerializeTransaction fAllowWitness fBtcTx tx @ s)
    = Inr (tx\<lparr>vin := map strip (vin tx), tx_nTime := if fBtcTx then nTime0 else tx_nTime tx\<rparr>, s)"
  using assms sint32.dec_enc [of "tx_nVersion tx"] uint32.dec_enc [of "tx_nTime tx"] uint32.dec_enc [of "nLockTime tx" s]
    read_inouts_basic [OF assms(1,2)]
  by (auto simp: UnserializeTransaction_def SerializeTransaction_def Let_def ok_tx_def)

lemma Unserialize_Serialize_extended:
  assumes "ok_tx tx" and "HasWitness tx"
  shows "UnserializeTransaction True fBtcTx nTime0 (SerializeTransaction True fBtcTx tx @ s)
    = Inr (tx\<lparr>tx_nTime := if fBtcTx then nTime0 else tx_nTime tx\<rparr>, s)"
proof -
  let ?w = "concat (map (\<lambda>i. Serialize_witness (scriptWitness i)) (vin tx))"
  have "SerializeTransaction True fBtcTx tx @ s = Serialize_int32 (tx_nVersion tx)
      @ (if \<not> fBtcTx then Serialize_uint32 (tx_nTime tx) else [])
      @ ([0, 1] @ Serialize_vector Serialize_CTxIn (vin tx) @ Serialize_vector Serialize_CTxOut (vout tx)
      @ ?w @ Serialize_uint32 (nLockTime tx) @ s)"
    using assms(2) Serialize_empty_vin [of 1] by (simp add: SerializeTransaction_def)
  then show ?thesis
    using assms sint32.dec_enc [of "tx_nVersion tx"] uint32.dec_enc [of "tx_nTime tx"] uint32.dec_enc [of "nLockTime tx" s]
      read_inouts_extended [OF assms(1), of "?w @ Serialize_uint32 (nLockTime tx) @ s"]
      read_witnesses_append [of "vin tx" "Serialize_uint32 (nLockTime tx) @ s"]
    by (auto simp: UnserializeTransaction_def ok_tx_def)
qed

section \<open>The value of the outputs\<close>

lemma value_out_loop_correct:
  assumes "MoneyRange acc"
  shows "value_out_loop os acc =
    (if (\<forall>t \<in> set os. MoneyRange (nValue t)) \<and> acc + sum_list (map nValue os) \<le> MAX_MONEY
     then Some (acc + sum_list (map nValue os)) else None)"
  using assms
proof (induction os arbitrary: acc)
  case (Cons t os)
  show ?case
  proof (cases "MoneyRange (nValue t)")
    case True
    then have w: "wrap64 (acc + nValue t) = acc + nValue t" using Cons.prems by (simp add: MoneyRange_def)
    show ?thesis
    proof (cases "MoneyRange (acc + nValue t)")
      case m: True
      show ?thesis using True m w Cons.IH [OF m] by (simp add: Let_def add.assoc)
    next
      case False
      then have "acc + nValue t > MAX_MONEY" using True Cons.prems by (auto simp: MoneyRange_def)
      moreover have "0 \<le> sum_list (map nValue os)" if "\<forall>t \<in> set os. MoneyRange (nValue t)"
        using that by (intro sum_list_nonneg) (auto simp: MoneyRange_def)
      ultimately have "\<not> ((\<forall>t \<in> set os. MoneyRange (nValue t)) \<and> acc + (nValue t + sum_list (map nValue os)) \<le> MAX_MONEY)"
        by force
      then show ?thesis using True False w by (simp add: Let_def)
    qed
  qed (simp add: Let_def)
qed (simp add: MoneyRange_def)

section \<open>Properties\<close>

definition sample_tx :: CTransaction where
  "sample_tx = \<lparr>tx_nVersion = 2, tx_nTime = 1500000000,
     vin = [\<lparr>prevout = \<lparr>out_hash = replicate 32 7, out_n = 1\<rparr>, scriptSig = [0x51], nSequence = SEQUENCE_FINAL,
              scriptWitness = [[1, 2]]\<rparr>],
     vout = [\<lparr>nValue = 5, scriptPubKey = [0x51]\<rparr>], nLockTime = 0\<rparr>"

lemma ok_sample_tx: "ok_tx sample_tx"
  by (simp add: ok_tx_def sample_tx_def int32_def ok_txin_def ok_outpoint_def ok_witness_def ok_txout_def int64_def)

text \<open>C11: a transaction with at least one input reads back from its serialization in every format, and the reader stops
  exactly at its end. The format with witnesses gives back the witnesses, the one without drops them and nothing
  else; the format of the parent chain of merged mining, which has no time stamp, keeps the time the reader
  started with.\<close>

theorem tx_roundtrip:
  assumes "ok_tx tx" and "vin tx \<noteq> []"
  shows "UnserializeTransaction fAllowWitness fBtcTx nTime0 (SerializeTransaction fAllowWitness fBtcTx tx @ s)
    = Inr (tx\<lparr>vin := (if fAllowWitness then vin tx else map strip (vin tx)), tx_nTime := (if fBtcTx then nTime0 else tx_nTime tx)\<rparr>, s)"
proof (cases "fAllowWitness \<and> HasWitness tx")
  case True
  then show ?thesis using Unserialize_Serialize_extended [OF assms(1)] by simp
next
  case False
  then show ?thesis using Unserialize_Serialize_basic [OF assms(1), of fAllowWitness] assms(2) strip_no_witness [of tx]
    by (cases fAllowWitness) simp_all
qed

theorem tx_roundtrip_witness:
  "UnserializeTransaction True False 0 (SerializeTransaction True False sample_tx @ [9]) = Inr (sample_tx, [9])
   \<and> UnserializeTransaction False True 5 (SerializeTransaction False True sample_tx @ [9])
     = Inr (sample_tx\<lparr>vin := map strip (vin sample_tx), tx_nTime := 5\<rparr>, [9])"
  using tx_roundtrip [OF ok_sample_tx, of True False 0 "[9]"] tx_roundtrip [OF ok_sample_tx, of False True 5 "[9]"]
  by (simp add: sample_tx_def)

text \<open>C24: the transaction identifier commits to everything but the witnesses. Two well-formed transactions have the same
  identifier exactly when they agree in version, time, outputs, lock time and inputs up to the witnesses, or their
  two serializations are different strings with the same hash.\<close>

theorem txid_commits:
  assumes "ok_tx tx" and "ok_tx tx'"
  shows "ComputeHash Hash tx = ComputeHash Hash tx' \<longleftrightarrow>
    tx\<lparr>vin := map strip (vin tx)\<rparr> = tx'\<lparr>vin := map strip (vin tx')\<rparr>
    \<or> (SerializeTransaction False False tx \<noteq> SerializeTransaction False False tx'
       \<and> Hash (SerializeTransaction False False tx) = Hash (SerializeTransaction False False tx'))"
proof -
  have s: "SerializeTransaction False False (t\<lparr>vin := map strip (vin t)\<rparr>) = SerializeTransaction False False t" for t
    by (simp add: SerializeTransaction_def Serialize_vin_strip)
  have "SerializeTransaction False False tx = SerializeTransaction False False tx' \<longleftrightarrow>
      tx\<lparr>vin := map strip (vin tx)\<rparr> = tx'\<lparr>vin := map strip (vin tx')\<rparr>"
    using Unserialize_Serialize_basic [OF assms(1), of False False 0 "[]"]
      Unserialize_Serialize_basic [OF assms(2), of False False 0 "[]"] s [of tx] s [of tx'] by auto
  then show ?thesis by (auto simp: ComputeHash_def)
qed

theorem txid_commits_witness:
  "ComputeHash id sample_tx = ComputeHash id (sample_tx\<lparr>vin := map strip (vin sample_tx)\<rparr>)
   \<and> ComputeHash id sample_tx \<noteq> ComputeHash id (sample_tx\<lparr>nLockTime := 1\<rparr>)"
proof -
  have "ok_tx (sample_tx\<lparr>vin := map strip (vin sample_tx)\<rparr>)" "ok_tx (sample_tx\<lparr>nLockTime := 1\<rparr>)"
    using ok_sample_tx by (auto simp: ok_tx_def list_all_iff strip_def ok_txin_def ok_witness_def)
  from this [THEN txid_commits [OF ok_sample_tx, of _ id]] show ?thesis by (simp add: sample_tx_def strip_def)
qed

text \<open>The value of the outputs is their exact sum, without wrap-around: it is refused exactly when
  some output or the sum is out of the money range.\<close>

theorem GetValueOut_exact:
  "GetValueOut tx =
    (if list_all (\<lambda>t. MoneyRange (nValue t)) (vout tx) \<and> sum_list (map nValue (vout tx)) \<le> MAX_MONEY
     then Some (sum_list (map nValue (vout tx))) else None)"
  unfolding GetValueOut_def by (subst value_out_loop_correct) (simp_all add: MoneyRange_def list_all_iff)

text \<open>A variable-length integer of 64 bits reads back unchanged and takes the number of bytes that
  the size computation announces.\<close>

theorem varint_roundtrip:
  assumes "n < 2 ^ 64"
  shows "ReadVarInt (WriteVarInt n @ s) = Inr (n, s) \<and> length (WriteVarInt n) = GetSizeOfVarInt n"
  using varint.dec_enc [of n s] assms by (simp add: WriteVarInt_def length_varint_tmp)

theorem varint_roundtrip_witness:
  "ReadVarInt (WriteVarInt 65535 @ [1]) = Inr (65535, [1])"
  using varint_roundtrip [of 65535 "[1]"] by simp

end
