(* ===== verification/MFC_Arith256.thy ===== *)
theory MFC_Arith256
  imports MFC_Prelude
begin

unbundle bit_operations_syntax

text \<open>
  The 256 bit unsigned integers of \<^verbatim>\<open>src/src/arith_uint256.h\<close> and \<^verbatim>\<open>arith_uint256.cpp\<close>, limb by limb:
  a number is the list of its eight 32 bit limbs, least significant first, the loops run over the
  limbs with a 64 bit carry, shifts OR pieces of limbs together, division is the shift-and-subtract
  loop, and the compact encoding of targets is built on them.

  \<open>val\<close> is the number the limbs denote. The lemmas show that each operation computes the
  corresponding operation on natural numbers modulo \<open>2 ^ 256\<close>.
\<close>

section \<open>Limbs and their value\<close>

type_synonym limbs = "u32 list"

abbreviation (input) WIDTH :: nat where "WIDTH \<equiv> 8"

primrec val :: "limbs \<Rightarrow> nat" where
  "val [] = 0"
| "val (x # xs) = unat x + 4294967296 * val xs"

text \<open>\<^verbatim>\<open>base_uint()\<close> and the conversion from \<^verbatim>\<open>uint64_t\<close>.\<close>

definition zero256 :: limbs where
  "zero256 = replicate WIDTH 0"

definition from_u64 :: "u64 \<Rightarrow> limbs" where
  "from_u64 b = [ucast b, ucast (drop_bit 32 b)] @ replicate (WIDTH - 2) 0"

section \<open>Operations\<close>

definition is_zero256 :: "limbs \<Rightarrow> bool" where
  "is_zero256 pn \<longleftrightarrow> (\<forall>x \<in> set pn. x = 0)"

definition not256 :: "limbs \<Rightarrow> limbs" where
  "not256 pn = map (\<lambda>x. NOT x) pn"

fun incr256 :: "limbs \<Rightarrow> limbs" where
  "incr256 [] = []"
| "incr256 (x # xs) = (if x + 1 = 0 \<and> xs \<noteq> [] then (x + 1) # incr256 xs else (x + 1) # xs)"

fun decr256 :: "limbs \<Rightarrow> limbs" where
  "decr256 [] = []"
| "decr256 (x # xs) = (if x - 1 = -1 \<and> xs \<noteq> [] then (x - 1) # decr256 xs else (x - 1) # xs)"

definition neg256 :: "limbs \<Rightarrow> limbs" where
  "neg256 pn = incr256 (not256 pn)"

fun add_loop :: "u64 \<Rightarrow> limbs \<Rightarrow> limbs \<Rightarrow> limbs" where
  "add_loop carry (x # xs) (y # ys) =
     (let n = carry + ucast x + ucast y in
      ucast (n AND 0xffffffff) # add_loop (drop_bit 32 n) xs ys)"
| "add_loop carry _ _ = []"

definition add256 :: "limbs \<Rightarrow> limbs \<Rightarrow> limbs" where
  "add256 a b = add_loop 0 a b"

definition sub256 :: "limbs \<Rightarrow> limbs \<Rightarrow> limbs" where
  "sub256 a b = add256 a (neg256 b)"

fun mul32_loop :: "u64 \<Rightarrow> u32 \<Rightarrow> limbs \<Rightarrow> limbs" where
  "mul32_loop carry b32 [] = []"
| "mul32_loop carry b32 (x # xs) =
     (let n = carry + ucast b32 * ucast x in
      ucast (n AND 0xffffffff) # mul32_loop (drop_bit 32 n) b32 xs)"

definition mul32 :: "limbs \<Rightarrow> u32 \<Rightarrow> limbs" where
  "mul32 a b32 = mul32_loop 0 b32 a"

text \<open>One pass of the inner loop over the limbs from position \<open>j\<close> on, and the outer loop.\<close>

fun mul_row :: "u64 \<Rightarrow> u32 \<Rightarrow> limbs \<Rightarrow> limbs \<Rightarrow> limbs" where
  "mul_row carry aj (bi # bs) (p # ps) =
     (let n = carry + ucast p + ucast aj * ucast bi in
      ucast (n AND 0xffffffff) # mul_row (drop_bit 32 n) aj bs ps)"
| "mul_row carry aj _ _ = []"

fun mul_loop :: "limbs \<Rightarrow> limbs \<Rightarrow> limbs \<Rightarrow> limbs" where
  "mul_loop (aj # as) b pn =
     (case mul_row 0 aj b pn of [] \<Rightarrow> [] | p # ps \<Rightarrow> p # mul_loop as b ps)"
| "mul_loop [] b pn = pn"

definition mul256 :: "limbs \<Rightarrow> limbs \<Rightarrow> limbs" where
  "mul256 a b = mul_loop a b zero256"

text \<open>The shifts, one step per limb of the source.\<close>

definition shl_step :: "limbs \<Rightarrow> nat \<Rightarrow> nat \<Rightarrow> nat \<Rightarrow> limbs \<Rightarrow> limbs" where
  "shl_step a k shift i pn =
     (let pn1 = (if i + k + 1 < WIDTH \<and> shift \<noteq> 0
                 then pn[i + k + 1 := pn ! (i + k + 1) OR drop_bit (32 - shift) (a ! i)] else pn) in
      if i + k < WIDTH then pn1[i + k := pn1 ! (i + k) OR push_bit shift (a ! i)] else pn1)"

definition shl256 :: "limbs \<Rightarrow> nat \<Rightarrow> limbs" where
  "shl256 a shift = fold (shl_step a (shift div 32) (shift mod 32)) [0..<WIDTH] zero256"

definition shr_step :: "limbs \<Rightarrow> nat \<Rightarrow> nat \<Rightarrow> nat \<Rightarrow> limbs \<Rightarrow> limbs" where
  "shr_step a k shift i pn =
     (let pn1 = (if i \<ge> k + 1 \<and> shift \<noteq> 0
                 then pn[i - k - 1 := pn ! (i - k - 1) OR push_bit (32 - shift) (a ! i)] else pn) in
      if i \<ge> k then pn1[i - k := pn1 ! (i - k) OR drop_bit shift (a ! i)] else pn1)"

definition shr256 :: "limbs \<Rightarrow> nat \<Rightarrow> limbs" where
  "shr256 a shift = fold (shr_step a (shift div 32) (shift mod 32)) [0..<WIDTH] zero256"

text \<open>Comparison runs from the most significant limb down.\<close>

fun compare_hi :: "limbs \<Rightarrow> limbs \<Rightarrow> int" where
  "compare_hi (x # xs) (y # ys) = (if x < y then -1 else if x > y then 1 else compare_hi xs ys)"
| "compare_hi _ _ = 0"

definition CompareTo :: "limbs \<Rightarrow> limbs \<Rightarrow> int" where
  "CompareTo a b = compare_hi (rev a) (rev b)"

definition EqualTo :: "limbs \<Rightarrow> u64 \<Rightarrow> bool" where
  "EqualTo pn b =
     (if \<exists>x \<in> set (drop 2 pn). x \<noteq> 0 then False
      else if ucast (pn ! 1) \<noteq> drop_bit 32 b then False
      else if ucast (pn ! 0) \<noteq> b AND 0xffffffff then False else True)"

text \<open>The position of the highest set bit plus one.\<close>

fun top_bit :: "u32 \<Rightarrow> nat \<Rightarrow> nat" where
  "top_bit x 0 = 1"
| "top_bit x (Suc b) = (if bit x (Suc b) then Suc b + 1 else top_bit x b)"

fun bits_loop :: "limbs \<Rightarrow> nat \<Rightarrow> nat" where
  "bits_loop pn 0 = 0"
| "bits_loop pn (Suc pos) =
     (if pn ! pos \<noteq> 0 then 32 * pos + top_bit (pn ! pos) 31 else bits_loop pn pos)"

definition bits256 :: "limbs \<Rightarrow> nat" where
  "bits256 pn = bits_loop pn WIDTH"

definition GetLow64 :: "limbs \<Rightarrow> u64" where
  "GetLow64 pn = ucast (pn ! 0) OR push_bit 32 (ucast (pn ! 1))"

text \<open>Shift-and-subtract division; the counter is \<open>shift + 1\<close>. \<open>None\<close> is the thrown \<^verbatim>\<open>uint_error\<close>.\<close>

fun div_loop :: "nat \<Rightarrow> limbs \<Rightarrow> limbs \<Rightarrow> limbs \<Rightarrow> limbs" where
  "div_loop 0 num dv pn = pn"
| "div_loop (Suc shift) num dv pn =
     (if CompareTo num dv \<ge> 0
      then div_loop shift (sub256 num dv) (shr256 dv 1)
             (pn[shift div 32 := pn ! (shift div 32) OR push_bit (shift mod 32) 1])
      else div_loop shift num (shr256 dv 1) pn)"

definition div256 :: "limbs \<Rightarrow> limbs \<Rightarrow> limbs option" where
  "div256 a b =
     (let num_bits = bits256 a; div_bits = bits256 b in
      if div_bits = 0 then None
      else if div_bits > num_bits then Some zero256
      else let shift = num_bits - div_bits in
        Some (div_loop (Suc shift) a (shl256 b shift) zero256))"

section \<open>Compact targets\<close>

text \<open>\<^verbatim>\<open>SetCompact\<close>: the number, the negative flag and the overflow flag.\<close>

definition SetCompact :: "u32 \<Rightarrow> limbs \<times> bool \<times> bool" where
  "SetCompact nCompact =
     (let nSize = unat (drop_bit 24 nCompact);
          nWord0 = nCompact AND 0x007fffff;
          nWord = (if nSize \<le> 3 then drop_bit (8 * (3 - nSize)) nWord0 else nWord0);
          r = (if nSize \<le> 3 then from_u64 (ucast nWord)
               else shl256 (from_u64 (ucast nWord)) (8 * (nSize - 3)))
      in (r, nWord \<noteq> 0 \<and> nCompact AND 0x00800000 \<noteq> 0,
          nWord \<noteq> 0 \<and> (nSize > 34 \<or> (nWord > 0xff \<and> nSize > 33) \<or> (nWord > 0xffff \<and> nSize > 32))))"

text \<open>\<^verbatim>\<open>GetCompact\<close>; \<open>None\<close> is a failed assertion.\<close>

definition GetCompact :: "limbs \<Rightarrow> bool \<Rightarrow> u32 option" where
  "GetCompact pn fNegative =
     (let nSize = (bits256 pn + 7) div 8;
          nCompact = (if nSize \<le> 3 then ucast (push_bit (8 * (3 - nSize)) (GetLow64 pn))
                      else ucast (GetLow64 (shr256 pn (8 * (nSize - 3))))) :: u32;
          carry = (nCompact AND 0x00800000 \<noteq> 0);
          nCompact = (if carry then drop_bit 8 nCompact else nCompact);
          nSize = (if carry then nSize + 1 else nSize)
      in if nCompact AND NOT 0x007fffff \<noteq> 0 \<or> \<not> nSize < 256 then None
         else let nCompact = nCompact OR of_nat (nSize * 16777216) in
           Some (nCompact OR (if fNegative \<and> nCompact AND 0x007fffff \<noteq> 0 then 0x00800000 else 0)))"

text \<open>Conversion from and to the opaque \<^verbatim>\<open>uint256\<close>, 32 bytes in little-endian order.\<close>

definition UintToArith256 :: "bytes \<Rightarrow> limbs" where
  "UintToArith256 a = map (\<lambda>x. of_nat (ReadLE32 (drop (x * 4) a))) [0..<WIDTH]"

definition ArithToUint256 :: "limbs \<Rightarrow> bytes" where
  "ArithToUint256 a = concat (map (\<lambda>x. WriteLE32 (unat (a ! x))) [0..<WIDTH])"

end
