(* ===== verification/MFC_Block.thy ===== *)
theory MFC_Block
  imports MFC_TxProps MFC_Arith256
begin

unbundle bit_operations_syntax

text \<open>
  Block headers and blocks, \<^verbatim>\<open>src/src/primitives/block.h\<close> and \<^verbatim>\<open>block.cpp\<close>. The merged-mining proof and
  the MTP proof data are opaque byte strings; neither is part of the block hash.
\<close>

abbreviation (input) AUXPOW_CHAIN_ID :: int where "AUXPOW_CHAIN_ID \<equiv> 666"
abbreviation (input) BLOCK_VERSION_AUXPOW :: int where "BLOCK_VERSION_AUXPOW \<equiv> 256"
abbreviation (input) BLOCK_VERSION_CHAIN_START :: int where "BLOCK_VERSION_CHAIN_START \<equiv> 65536"

record CBlockHeader =
  hdr_nVersion :: int
  hashPrevBlock :: uint256
  hdr_hashMerkleRoot :: uint256
  hdr_nTime :: u32
  hdr_nBits :: u32
  hdr_nNonce :: u32
  hdr_nVersionMTP :: int
  hdr_mtpHashValue :: uint256
  auxpow :: "bytes option"
  mtpHashData :: "bytes option"
  hdr_nFlags :: int

record CBlock = CBlockHeader +
  vtx :: "CTransaction list"
  vchBlockSig :: bytes

text \<open>The version keeps the chain id of merged mining in its high bits.\<close>

definition SetBlockVersion :: "int \<Rightarrow> 'a CBlockHeader_scheme \<Rightarrow> 'a CBlockHeader_scheme" where
  "SetBlockVersion nBlockVersion b =
     b\<lparr>hdr_nVersion := nBlockVersion OR (AUXPOW_CHAIN_ID * BLOCK_VERSION_CHAIN_START)\<rparr>"

definition CBlockHeader_SetNull :: CBlockHeader where
  "CBlockHeader_SetNull = SetBlockVersion 8
     \<lparr>hdr_nVersion = 0, hashPrevBlock = uint256_null, hdr_hashMerkleRoot = uint256_null, hdr_nTime = 0,
      hdr_nBits = 0, hdr_nNonce = 0, hdr_nVersionMTP = 0x1000, hdr_mtpHashValue = uint256_null,
      auxpow = None, mtpHashData = None, hdr_nFlags = 0\<rparr>"

definition CBlockHeader_IsNull :: "'a CBlockHeader_scheme \<Rightarrow> bool" where
  "CBlockHeader_IsNull b \<longleftrightarrow> hdr_nBits b = 0"

definition GetChainID :: "'a CBlockHeader_scheme \<Rightarrow> int" where
  "GetChainID b = cdiv (hdr_nVersion b) BLOCK_VERSION_CHAIN_START"

definition hdr_GetBlockVersion :: "'a CBlockHeader_scheme \<Rightarrow> int" where
  "hdr_GetBlockVersion b = hdr_nVersion b AND 0xff"

definition hdr_GetBlockTime :: "'a CBlockHeader_scheme \<Rightarrow> int" where
  "hdr_GetBlockTime b = int (unat (hdr_nTime b))"

text \<open>The header as it is hashed (\<^verbatim>\<open>SER_GETHASH\<close>): without the merged-mining proof, the MTP proof data
  and the flags.\<close>

definition SerializeHeader :: "'a CBlockHeader_scheme \<Rightarrow> bytes" where
  "SerializeHeader b =
     Serialize_int32 (hdr_nVersion b) @ hashPrevBlock b @ hdr_hashMerkleRoot b @ Serialize_uint32 (hdr_nTime b)
     @ Serialize_uint32 (hdr_nBits b) @ Serialize_uint32 (hdr_nNonce b) @ Serialize_int32 (hdr_nVersionMTP b)
     @ hdr_mtpHashValue b"

definition GetHash :: "(bytes \<Rightarrow> uint256) \<Rightarrow> 'a CBlockHeader_scheme \<Rightarrow> uint256" where
  "GetHash H b = H (SerializeHeader b)"

definition GetPoWHash :: "'a CBlockHeader_scheme \<Rightarrow> uint256" where
  "GetPoWHash b = hdr_mtpHashValue b"

definition GetBlockHeader :: "CBlock \<Rightarrow> CBlockHeader" where
  "GetBlockHeader b = CBlockHeader_SetNull
     \<lparr>hdr_nVersion := hdr_nVersion b, hashPrevBlock := hashPrevBlock b, hdr_hashMerkleRoot := hdr_hashMerkleRoot b,
      hdr_nTime := hdr_nTime b, hdr_nBits := hdr_nBits b, hdr_nNonce := hdr_nNonce b,
      hdr_nVersionMTP := hdr_nVersionMTP b, auxpow := auxpow b, mtpHashData := mtpHashData b,
      hdr_nFlags := hdr_nFlags b\<rparr>"

definition block_IsProofOfStake :: "CBlock \<Rightarrow> bool" where
  "block_IsProofOfStake b \<longleftrightarrow> length (vtx b) > 1 \<and> IsCoinStake (vtx b ! 1)"

definition block_IsProofOfWork :: "CBlock \<Rightarrow> bool" where
  "block_IsProofOfWork b \<longleftrightarrow> \<not> block_IsProofOfStake b"

definition GetProofOfStake :: "CBlock \<Rightarrow> COutPoint \<times> u32" where
  "GetProofOfStake b =
     (if block_IsProofOfStake b then (prevout (vin (vtx b ! 1) ! 0), tx_nTime (vtx b ! 1))
      else (COutPoint_SetNull, 0))"

definition GetMaxTransactionTime :: "CBlock \<Rightarrow> int" where
  "GetMaxTransactionTime b = fold (\<lambda>tx m. max m (int (unat (tx_nTime tx)))) (vtx b) 0"

definition IsProtocolV03 :: "u32 \<Rightarrow> bool" where
  "IsProtocolV03 nTimeCoinStake \<longleftrightarrow> nTimeCoinStake \<ge> 1363800000"

definition IsProtocolV04 :: "u32 \<Rightarrow> bool" where
  "IsProtocolV04 nTimeBlock \<longleftrightarrow> nTimeBlock \<ge> 1449100800"

text \<open>The entropy bit of a block: the last bit of its hash, or before protocol 0.4 a bit of the
  precomputed table \<^verbatim>\<open>vEntropyBits\<close>, whose contents are a parameter.\<close>

definition block_GetStakeEntropyBit :: "(bytes \<Rightarrow> uint256) \<Rightarrow> u32 list \<Rightarrow> int \<Rightarrow> CBlock \<Rightarrow> int \<Rightarrow> u32" where
  "block_GetStakeEntropyBit H vEntropyBits nBlocks b height =
     (if IsProtocolV04 (hdr_nTime b) then ucast (GetLow64 (UintToArith256 (GetHash H b)) AND 1)
      else if height > -1 \<and> height \<le> nBlocks
      then drop_bit (nat height mod 32) (vEntropyBits ! (nat height div 32)) AND 1
      else 0)"

section \<open>What the block hash commits to\<close>

definition ok_header :: "'a CBlockHeader_scheme \<Rightarrow> bool" where
  "ok_header b \<longleftrightarrow> int32 (hdr_nVersion b) \<and> int32 (hdr_nVersionMTP b) \<and> length (hashPrevBlock b) = 32
     \<and> length (hdr_hashMerkleRoot b) = 32 \<and> length (hdr_mtpHashValue b) = 32"

lemma append_split: "length a = length c \<Longrightarrow> a @ b = c @ d \<Longrightarrow> a = c \<and> b = d"
  by simp

lemma SerializeHeader_inj:
  assumes "ok_header a" "ok_header b" "SerializeHeader a = SerializeHeader b"
  shows "hdr_nVersion a = hdr_nVersion b" "hashPrevBlock a = hashPrevBlock b"
    "hdr_hashMerkleRoot a = hdr_hashMerkleRoot b" "hdr_nTime a = hdr_nTime b" "hdr_nBits a = hdr_nBits b"
    "hdr_nNonce a = hdr_nNonce b" "hdr_nVersionMTP a = hdr_nVersionMTP b" "hdr_mtpHashValue a = hdr_mtpHashValue b"
proof -
  have oa: "int32 (hdr_nVersion a)" "int32 (hdr_nVersionMTP a)" and ob: "int32 (hdr_nVersion b)" "int32 (hdr_nVersionMTP b)"
    and l1: "length (hashPrevBlock a) = length (hashPrevBlock b)"
    and l2: "length (hdr_hashMerkleRoot a) = length (hdr_hashMerkleRoot b)"
    using assms(1,2) by (simp_all only: ok_header_def)
  note e1 = sint32.enc_prefix_free [OF oa(1) ob(1) assms(3) [unfolded SerializeHeader_def]]
  note e2 = append_split [OF l1 conjunct2 [OF e1]]
  note e3 = append_split [OF l2 conjunct2 [OF e2]]
  note e4 = uint32.enc_prefix_free [OF TrueI TrueI conjunct2 [OF e3]]
  note e5 = uint32.enc_prefix_free [OF TrueI TrueI conjunct2 [OF e4]]
  note e6 = uint32.enc_prefix_free [OF TrueI TrueI conjunct2 [OF e5]]
  note e7 = sint32.enc_prefix_free [OF oa(2) ob(2) conjunct2 [OF e6]]
  show "hdr_nVersion a = hdr_nVersion b" "hashPrevBlock a = hashPrevBlock b"
    "hdr_hashMerkleRoot a = hdr_hashMerkleRoot b" "hdr_nTime a = hdr_nTime b" "hdr_nBits a = hdr_nBits b"
    "hdr_nNonce a = hdr_nNonce b" "hdr_nVersionMTP a = hdr_nVersionMTP b" "hdr_mtpHashValue a = hdr_mtpHashValue b"
    by (fact conjunct1 [OF e1] conjunct1 [OF e2] conjunct1 [OF e3] conjunct1 [OF e4] conjunct1 [OF e5]
        conjunct1 [OF e6] conjunct1 [OF e7] conjunct2 [OF e7])+
qed

lemma chain_id_SetBlockVersion: "0 \<le> v \<Longrightarrow> v < 65536 \<Longrightarrow> GetChainID (SetBlockVersion v b) = AUXPOW_CHAIN_ID"
proof -
  assume v: "0 \<le> v" "v < 65536"
  have "v AND push_bit 16 666 = 0"
  proof (rule bit_eqI)
    fix n :: nat
    have "\<not> bit v n" if "16 \<le> n"
    proof -
      have "v < 2 ^ n" using v(2) power_increasing [OF that, of "2 :: int"] by simp
      then show ?thesis using v(1) by (simp add: bit_iff_odd)
    qed
    then show "bit (v AND push_bit 16 666) n \<longleftrightarrow> bit 0 n" 
      unfolding bit_and_iff bit_push_bit_iff by auto
  qed
  then have "v OR push_bit 16 666 = v + push_bit 16 666" by (simp only: disjunctive_add_eq_or)
  then have "hdr_nVersion (SetBlockVersion v b) = v + 666 * 65536" by (simp add: SetBlockVersion_def push_bit_eq_mult)
  then show ?thesis using v by (simp add: GetChainID_def cdiv_nonneg)
qed

section \<open>Properties\<close>

text \<open>C28: \<^verbatim>\<open>CBlock::GetBlockHeader\<close> does not carry over the MTP hash. The hash of the header it returns is the hash of the
  block exactly when the MTP hash of the block is zero, or the two different serializations have the same hash; so
  the header of a block with proof of work does not identify the block.\<close>

theorem GetBlockHeader_loses_mtp:
  assumes "ok_header b"
  shows "GetHash Hash (GetBlockHeader b) = GetHash Hash b \<longleftrightarrow> hdr_mtpHashValue b = uint256_null
    \<or> (SerializeHeader (GetBlockHeader b) \<noteq> SerializeHeader b \<and> Hash (SerializeHeader (GetBlockHeader b)) = Hash (SerializeHeader b))"
proof -
  have m: "hdr_mtpHashValue (GetBlockHeader b) = uint256_null"
    by (simp add: GetBlockHeader_def CBlockHeader_SetNull_def SetBlockVersion_def)
  have ok: "ok_header (GetBlockHeader b)" using assms m
    by (simp add: ok_header_def) (simp add: GetBlockHeader_def uint256_null_def)
  have "SerializeHeader (GetBlockHeader b) = SerializeHeader b \<longleftrightarrow> hdr_mtpHashValue b = uint256_null"
  proof
    assume "SerializeHeader (GetBlockHeader b) = SerializeHeader b"
    then show "hdr_mtpHashValue b = uint256_null" using SerializeHeader_inj(8) [OF ok assms] m by simp
  next
    assume "hdr_mtpHashValue b = uint256_null"
    then show "SerializeHeader (GetBlockHeader b) = SerializeHeader b"
      using m by (simp add: SerializeHeader_def) (simp add: GetBlockHeader_def)
  qed
  then show ?thesis by (auto simp: GetHash_def)
qed

definition sample_block :: CBlock where
  "sample_block = CBlockHeader.extend (CBlockHeader_SetNull\<lparr>hdr_mtpHashValue := replicate 32 1\<rparr>) (CBlock.fields [] [])"

theorem GetBlockHeader_loses_mtp_witness:
  "GetHash id (GetBlockHeader sample_block) \<noteq> GetHash id sample_block"
proof -
  have "ok_header sample_block" "hdr_mtpHashValue sample_block \<noteq> uint256_null"
    by (simp_all add: sample_block_def CBlockHeader.defs CBlock.defs CBlockHeader_SetNull_def SetBlockVersion_def
      ok_header_def int32_def uint256_null_def replicate_eq_replicate)
  then show ?thesis using GetBlockHeader_loses_mtp [of sample_block id] by simp
qed

end
