(* ===== verification/MFC_Chain.thy ===== *)
theory MFC_Chain
  imports MFC_Tx MFC_Arith256
begin

unbundle bit_operations_syntax

text \<open>
  The block index of \<^verbatim>\<open>src/src/chain.h\<close> and \<^verbatim>\<open>chain.cpp\<close>: block index entries, the skip list, the active
  chain, median time past and block trust.

  The entries live in a heap, a function from pointers to \<^verbatim>\<open>CBlockIndex\<close> records, and \<^verbatim>\<open>pprev\<close> and
  \<^verbatim>\<open>pskip\<close> are pointers (\<open>None\<close> is \<^verbatim>\<open>NULL\<close>), because the code shares entries between chains and updates
  them in place. A routine that may fail an assertion, index out of range or follow a cycle of pointers
  returns an option, \<open>None\<close> when it does. Heights are integers, as \<^verbatim>\<open>int\<close> in the code.
\<close>

section \<open>Block index entries\<close>

type_synonym ptr = nat

abbreviation (input) BLOCK_PROOF_OF_STAKE :: u32 where "BLOCK_PROOF_OF_STAKE \<equiv> 1"
abbreviation (input) BLOCK_STAKE_ENTROPY :: u32 where "BLOCK_STAKE_ENTROPY \<equiv> 2"
abbreviation (input) BLOCK_STAKE_MODIFIER :: u32 where "BLOCK_STAKE_MODIFIER \<equiv> 4"

abbreviation (input) BLOCK_VALID_HEADER :: u32 where "BLOCK_VALID_HEADER \<equiv> 1"
abbreviation (input) BLOCK_VALID_TREE :: u32 where "BLOCK_VALID_TREE \<equiv> 2"
abbreviation (input) BLOCK_VALID_TRANSACTIONS :: u32 where "BLOCK_VALID_TRANSACTIONS \<equiv> 3"
abbreviation (input) BLOCK_VALID_CHAIN :: u32 where "BLOCK_VALID_CHAIN \<equiv> 4"
abbreviation (input) BLOCK_VALID_SCRIPTS :: u32 where "BLOCK_VALID_SCRIPTS \<equiv> 5"
abbreviation (input) BLOCK_VALID_MASK :: u32 where "BLOCK_VALID_MASK \<equiv> 7"
abbreviation (input) BLOCK_HAVE_DATA :: u32 where "BLOCK_HAVE_DATA \<equiv> 8"
abbreviation (input) BLOCK_HAVE_UNDO :: u32 where "BLOCK_HAVE_UNDO \<equiv> 16"
abbreviation (input) BLOCK_FAILED_VALID :: u32 where "BLOCK_FAILED_VALID \<equiv> 32"
abbreviation (input) BLOCK_FAILED_CHILD :: u32 where "BLOCK_FAILED_CHILD \<equiv> 64"
abbreviation (input) BLOCK_FAILED_MASK :: u32 where "BLOCK_FAILED_MASK \<equiv> 96"
abbreviation (input) BLOCK_OPT_WITNESS :: u32 where "BLOCK_OPT_WITNESS \<equiv> 128"

record CBlockIndex =
  phashBlock :: "uint256 option"
  pprev :: "ptr option"
  pskip :: "ptr option"
  nHeight :: int
  nFile :: int
  nDataPos :: u32
  nUndoPos :: u32
  nChainTrust :: limbs
  nTx :: u32
  nChainTx :: u32
  nStatus :: u32
  nVersion :: int
  hashMerkleRoot :: uint256
  nTime :: u32
  nBits :: u32
  nNonce :: u32
  nVersionMTP :: int
  mtpHashValue :: uint256
  nSequenceId :: int
  nTimeMax :: u32
  nMint :: CAmount
  nMoneySupply :: CAmount
  nFlags :: u32
  nStakeModifier :: u64
  nStakeModifierChecksum :: u32
  prevoutStake :: COutPoint
  nStakeTime :: u32
  hashProofOfStake :: uint256

type_synonym heap = "ptr \<Rightarrow> CBlockIndex"

definition CBlockIndex_SetNull :: CBlockIndex where
  "CBlockIndex_SetNull =
     \<lparr>phashBlock = None, pprev = None, pskip = None, nHeight = 0, nFile = 0, nDataPos = 0, nUndoPos = 0,
      nChainTrust = zero256, nTx = 0, nChainTx = 0, nStatus = 0, nVersion = 0, hashMerkleRoot = uint256_null,
      nTime = 0, nBits = 0, nNonce = 0, nVersionMTP = 0, mtpHashValue = uint256_null, nSequenceId = 0,
      nTimeMax = 0, nMint = 0, nMoneySupply = 0, nFlags = 0, nStakeModifier = 0, nStakeModifierChecksum = 0,
      prevoutStake = COutPoint_SetNull, nStakeTime = 0, hashProofOfStake = uint256_null\<rparr>"

definition IsProofOfWork :: "CBlockIndex \<Rightarrow> bool" where
  "IsProofOfWork b \<longleftrightarrow> nFlags b AND BLOCK_PROOF_OF_STAKE = 0"

definition IsProofOfStake :: "CBlockIndex \<Rightarrow> bool" where
  "IsProofOfStake b \<longleftrightarrow> nFlags b AND BLOCK_PROOF_OF_STAKE \<noteq> 0"

definition SetProofOfStake :: "CBlockIndex \<Rightarrow> CBlockIndex" where
  "SetProofOfStake b = b\<lparr>nFlags := nFlags b OR BLOCK_PROOF_OF_STAKE\<rparr>"

definition GetStakeEntropyBit :: "CBlockIndex \<Rightarrow> u32" where
  "GetStakeEntropyBit b = drop_bit 1 (nFlags b AND BLOCK_STAKE_ENTROPY)"

definition SetStakeEntropyBit :: "u32 \<Rightarrow> CBlockIndex \<Rightarrow> bool \<times> CBlockIndex" where
  "SetStakeEntropyBit nEntropyBit b =
     (if nEntropyBit > 1 then (False, b)
      else (True, b\<lparr>nFlags := nFlags b OR (if nEntropyBit \<noteq> 0 then BLOCK_STAKE_ENTROPY else 0)\<rparr>))"

definition GeneratedStakeModifier :: "CBlockIndex \<Rightarrow> bool" where
  "GeneratedStakeModifier b \<longleftrightarrow> nFlags b AND BLOCK_STAKE_MODIFIER \<noteq> 0"

definition SetStakeModifier :: "u64 \<Rightarrow> bool \<Rightarrow> CBlockIndex \<Rightarrow> CBlockIndex" where
  "SetStakeModifier nModifier fGenerated b =
     (let b = b\<lparr>nStakeModifier := nModifier\<rparr>
      in if fGenerated then b\<lparr>nFlags := nFlags b OR BLOCK_STAKE_MODIFIER\<rparr> else b)"

record CDiskBlockPos =
  pos_nFile :: int
  pos_nPos :: u32

definition CDiskBlockPos_SetNull :: CDiskBlockPos where
  "CDiskBlockPos_SetNull = \<lparr>pos_nFile = -1, pos_nPos = 0\<rparr>"

definition GetBlockPos :: "CBlockIndex \<Rightarrow> CDiskBlockPos" where
  "GetBlockPos b =
     (if nStatus b AND BLOCK_HAVE_DATA \<noteq> 0 then \<lparr>pos_nFile = nFile b, pos_nPos = nDataPos b\<rparr>
      else CDiskBlockPos_SetNull)"

definition GetUndoPos :: "CBlockIndex \<Rightarrow> CDiskBlockPos" where
  "GetUndoPos b =
     (if nStatus b AND BLOCK_HAVE_UNDO \<noteq> 0 then \<lparr>pos_nFile = nFile b, pos_nPos = nUndoPos b\<rparr>
      else CDiskBlockPos_SetNull)"

definition GetBlockTime :: "CBlockIndex \<Rightarrow> int" where
  "GetBlockTime b = int (unat (nTime b))"

definition GetBlockTimeMax :: "CBlockIndex \<Rightarrow> int" where
  "GetBlockTimeMax b = int (unat (nTimeMax b))"

definition GetBlockVersion :: "CBlockIndex \<Rightarrow> int" where
  "GetBlockVersion b = nVersion b AND 0xff"

text \<open>\<^verbatim>\<open>IsValid\<close> and \<^verbatim>\<open>RaiseValidity\<close>; \<open>None\<close> is the failed assertion on the argument.\<close>

definition IsValid :: "CBlockIndex \<Rightarrow> u32 \<Rightarrow> bool option" where
  "IsValid b nUpTo =
     (if nUpTo AND NOT BLOCK_VALID_MASK \<noteq> 0 then None
      else if nStatus b AND BLOCK_FAILED_MASK \<noteq> 0 then Some False
      else Some (nStatus b AND BLOCK_VALID_MASK \<ge> nUpTo))"

definition RaiseValidity :: "u32 \<Rightarrow> CBlockIndex \<Rightarrow> (bool \<times> CBlockIndex) option" where
  "RaiseValidity nUpTo b =
     (if nUpTo AND NOT BLOCK_VALID_MASK \<noteq> 0 then None
      else if nStatus b AND BLOCK_FAILED_MASK \<noteq> 0 then Some (False, b)
      else if nStatus b AND BLOCK_VALID_MASK < nUpTo
      then Some (True, b\<lparr>nStatus := (nStatus b AND NOT BLOCK_VALID_MASK) OR nUpTo\<rparr>)
      else Some (False, b))"

section \<open>Median time past\<close>

abbreviation (input) nMedianTimeSpan :: nat where "nMedianTimeSpan \<equiv> 11"

fun times_back :: "heap \<Rightarrow> nat \<Rightarrow> ptr option \<Rightarrow> int list" where
  "times_back H 0 p = []"
| "times_back H (Suc i) None = []"
| "times_back H (Suc i) (Some p) = GetBlockTime (H p) # times_back H i (pprev (H p))"

text \<open>The array is filled from its end, so the sorted range starts with the oldest of the times.\<close>

definition GetMedianTimePast :: "heap \<Rightarrow> ptr \<Rightarrow> int" where
  "GetMedianTimePast H p =
     (let pmedian = sort (rev (times_back H nMedianTimeSpan (Some p))) in pmedian ! (length pmedian div 2))"

section \<open>The skip list\<close>

definition InvertLowestOne :: "int \<Rightarrow> int" where
  "InvertLowestOne n = n AND (n - 1)"

definition GetSkipHeight :: "int \<Rightarrow> int" where
  "GetSkipHeight height =
     (if height < 2 then 0
      else if height AND 1 \<noteq> 0 then InvertLowestOne (InvertLowestOne (height - 1)) + 1
      else InvertLowestOne height)"

lemma InvertLowestOne_bounds: "0 < n \<Longrightarrow> 0 \<le> InvertLowestOne n \<and> InvertLowestOne n < n"
  unfolding InvertLowestOne_def using AND_lower [of n "n - 1"] AND_upper2 [of "n - 1" n] by simp

lemma InvertLowestOne_0 [simp]: "InvertLowestOne 0 = 0"
  by (simp add: InvertLowestOne_def)

lemma GetSkipHeight_bounds: "0 < h \<Longrightarrow> 0 \<le> GetSkipHeight h \<and> GetSkipHeight h < h"
proof -
  assume h: "0 < h"
  show ?thesis
  proof (cases "2 \<le> h \<and> h AND 1 \<noteq> 0")
    case True
    let ?m = "InvertLowestOne (h - 1)"
    have m: "0 \<le> ?m" "?m < h - 1" using InvertLowestOne_bounds [of "h - 1"] True by auto
    have "0 \<le> InvertLowestOne ?m \<and> InvertLowestOne ?m \<le> ?m"
      using m InvertLowestOne_bounds [of ?m] by (cases "?m = 0") auto
    with True m show ?thesis by (auto simp: GetSkipHeight_def)
  next
    case False
    with h InvertLowestOne_bounds [OF h] show ?thesis by (auto simp: GetSkipHeight_def)
  qed
qed

text \<open>The walk of \<^verbatim>\<open>GetAncestor\<close>; \<open>None\<close> is the failed assertion on \<^verbatim>\<open>pprev\<close>.\<close>

function ancestor_walk :: "heap \<Rightarrow> nat \<Rightarrow> ptr \<Rightarrow> int \<Rightarrow> ptr option" where
  "ancestor_walk H height pindexWalk heightWalk =
     (if heightWalk > int height then
        let heightSkip = GetSkipHeight heightWalk; heightSkipPrev = GetSkipHeight (heightWalk - 1) in
        if pskip (H pindexWalk) \<noteq> None \<and>
           (heightSkip = int height \<or>
            (heightSkip > int height \<and>
             \<not> (heightSkipPrev < heightSkip - 2 \<and> heightSkipPrev \<ge> int height)))
        then ancestor_walk H height (the (pskip (H pindexWalk))) heightSkip
        else (case pprev (H pindexWalk) of
                None \<Rightarrow> None
              | Some q \<Rightarrow> ancestor_walk H height q (heightWalk - 1))
      else Some pindexWalk)"
  by pat_completeness auto
termination
proof (relation "measure (\<lambda>(_, _, _, h). nat h)", goal_cases)
  case (2 H height p h hs hsp)
  then show ?case using GetSkipHeight_bounds [of h] by auto
qed auto

declare ancestor_walk.simps [simp del]

text \<open>The result of a routine that may abort is an option of its result; a \<^verbatim>\<open>NULL\<close> result is \<open>Some None\<close>.\<close>

definition GetAncestor :: "heap \<Rightarrow> ptr \<Rightarrow> int \<Rightarrow> ptr option option" where
  "GetAncestor H p height =
     (if height > nHeight (H p) \<or> height < 0 then Some None
      else map_option Some (ancestor_walk H (nat height) p (nHeight (H p))))"

definition BuildSkip :: "heap \<Rightarrow> ptr \<Rightarrow> heap option" where
  "BuildSkip H p =
     (case pprev (H p) of
        None \<Rightarrow> Some H
      | Some q \<Rightarrow> map_option (\<lambda>a. H(p := (H p)\<lparr>pskip := a\<rparr>)) (GetAncestor H q (GetSkipHeight (nHeight (H p)))))"

section \<open>The active chain\<close>

text \<open>\<^verbatim>\<open>vChain\<close> by height; an entry that \<^verbatim>\<open>resize\<close> has just added is \<^verbatim>\<open>NULL\<close>.\<close>

type_synonym CChain = "ptr option list"

definition Genesis :: "CChain \<Rightarrow> ptr option" where
  "Genesis vChain = (if length vChain > 0 then vChain ! 0 else None)"

definition Tip :: "CChain \<Rightarrow> ptr option" where
  "Tip vChain = (if length vChain > 0 then vChain ! (length vChain - 1) else None)"

definition chain_at :: "CChain \<Rightarrow> int \<Rightarrow> ptr option" where
  "chain_at vChain h = (if h < 0 \<or> h \<ge> int (length vChain) then None else vChain ! nat h)"

definition Contains :: "heap \<Rightarrow> CChain \<Rightarrow> ptr \<Rightarrow> bool" where
  "Contains H vChain p \<longleftrightarrow> chain_at vChain (nHeight (H p)) = Some p"

definition Next :: "heap \<Rightarrow> CChain \<Rightarrow> ptr \<Rightarrow> ptr option" where
  "Next H vChain p = (if Contains H vChain p then chain_at vChain (nHeight (H p) + 1) else None)"

definition Height :: "CChain \<Rightarrow> int" where
  "Height vChain = int (length vChain) - 1"

definition resize :: "nat \<Rightarrow> CChain \<Rightarrow> CChain" where
  "resize n v = take n v @ replicate (n - length v) None"

partial_function (option) SetTip_loop :: "heap \<Rightarrow> ptr option \<Rightarrow> CChain \<Rightarrow> CChain option" where
  "SetTip_loop H pindex vChain =
     (case pindex of
        None \<Rightarrow> Some vChain
      | Some p \<Rightarrow>
          let h = nHeight (H p) in
          if h < 0 \<or> h \<ge> int (length vChain) then None
          else if vChain ! nat h \<noteq> Some p
          then SetTip_loop H (pprev (H p)) (vChain[nat h := Some p])
          else Some vChain)"

definition SetTip :: "heap \<Rightarrow> ptr option \<Rightarrow> CChain \<Rightarrow> CChain option" where
  "SetTip H pindex vChain =
     (case pindex of
        None \<Rightarrow> Some []
      | Some p \<Rightarrow>
          if nHeight (H p) < 0 then None
          else SetTip_loop H (Some p) (resize (nat (nHeight (H p) + 1)) vChain))"

partial_function (option) find_fork_loop :: "heap \<Rightarrow> CChain \<Rightarrow> ptr option \<Rightarrow> ptr option option" where
  "find_fork_loop H vChain pindex =
     (case pindex of
        None \<Rightarrow> Some None
      | Some p \<Rightarrow> if Contains H vChain p then Some (Some p) else find_fork_loop H vChain (pprev (H p)))"

definition FindFork :: "heap \<Rightarrow> CChain \<Rightarrow> ptr option \<Rightarrow> ptr option option" where
  "FindFork H vChain pindex =
     (case pindex of
        None \<Rightarrow> Some None
      | Some p \<Rightarrow>
          Option.bind (if nHeight (H p) > Height vChain then GetAncestor H p (Height vChain) else Some (Some p))
            (find_fork_loop H vChain))"

partial_function (option) locator_loop ::
    "heap \<Rightarrow> CChain \<Rightarrow> ptr option \<Rightarrow> int \<Rightarrow> uint256 list \<Rightarrow> uint256 list option" where
  "locator_loop H vChain pindex nStep vHave =
     (case pindex of
        None \<Rightarrow> Some vHave
      | Some p \<Rightarrow>
          (case phashBlock (H p) of
             None \<Rightarrow> None
           | Some h \<Rightarrow>
               let vHave = vHave @ [h] in
               if nHeight (H p) = 0 then Some vHave
               else
                 let height = max (nHeight (H p) - nStep) 0 in
                 Option.bind (if Contains H vChain p then Some (chain_at vChain height) else GetAncestor H p height)
                   (\<lambda>q. locator_loop H vChain q (if length vHave > 10 then nStep * 2 else nStep) vHave)))"

definition GetLocator :: "heap \<Rightarrow> CChain \<Rightarrow> ptr option \<Rightarrow> uint256 list option" where
  "GetLocator H vChain pindex =
     locator_loop H vChain (case pindex of None \<Rightarrow> Tip vChain | Some p \<Rightarrow> Some p) 1 []"

text \<open>\<^verbatim>\<open>std::lower_bound\<close>: the binary search over \<open>len\<close> entries from \<open>first\<close>.\<close>

function lower_bound :: "('a \<Rightarrow> bool) \<Rightarrow> 'a list \<Rightarrow> nat \<Rightarrow> nat \<Rightarrow> nat" where
  "lower_bound before v first len =
     (if len > 0 then
        let half = len div 2 in
        if before (v ! (first + half)) then lower_bound before v (first + half + 1) (len - half - 1)
        else lower_bound before v first half
      else first)"
  by pat_completeness auto
termination by (relation "measure (\<lambda>(_, _, _, len). len)") auto

declare lower_bound.simps [simp del]

definition FindEarliestAtLeast :: "heap \<Rightarrow> CChain \<Rightarrow> int \<Rightarrow> ptr option" where
  "FindEarliestAtLeast H vChain time =
     (let lower = lower_bound (\<lambda>e. GetBlockTimeMax (H (the e)) < time) vChain 0 (length vChain)
      in if lower = length vChain then None else vChain ! lower)"

section \<open>Trust\<close>

text \<open>\<open>None\<close> is the exception of a division by zero.\<close>

definition GetBlockTrust :: "CBlockIndex \<Rightarrow> limbs option" where
  "GetBlockTrust block =
     (let (bnTarget, fNegative, fOverflow) = SetCompact (nBits block) in
      if fNegative \<or> fOverflow \<or> EqualTo bnTarget 0 then Some (from_u64 0)
      else if IsProofOfStake block
      then map_option (\<lambda>q. add256 q (from_u64 1)) (div256 (not256 bnTarget) (add256 bnTarget (from_u64 1)))
      else Some (from_u64 1))"

definition GetBlockProofEquivalentTime :: "CBlockIndex \<Rightarrow> CBlockIndex \<Rightarrow> CBlockIndex \<Rightarrow> u64 \<Rightarrow> int option" where
  "GetBlockProofEquivalentTime to from tip nTargetSpacing =
     (let (r, sign) = (if CompareTo (nChainTrust to) (nChainTrust from) > 0
                       then (sub256 (nChainTrust to) (nChainTrust from), 1)
                       else (sub256 (nChainTrust from) (nChainTrust to), -1)) in
      Option.bind (GetBlockTrust tip) (\<lambda>trust.
        map_option (\<lambda>r. if bits256 r > 63 then sign * 9223372036854775807
                          else wrap64 (sign * int (unat (GetLow64 r))))
          (div256 (mul256 r (from_u64 nTargetSpacing)) trust)))"

text \<open>Counting the blocks of at least a version among the last \<open>nToCheck\<close> ones, up to \<open>nRequired\<close>.\<close>

fun majority_loop :: "heap \<Rightarrow> int \<Rightarrow> nat \<Rightarrow> nat \<Rightarrow> ptr option \<Rightarrow> nat \<Rightarrow> nat" where
  "majority_loop H minVersion nRequired 0 pstart nFound = nFound"
| "majority_loop H minVersion nRequired (Suc i) pstart nFound =
     (case pstart of
        None \<Rightarrow> nFound
      | Some p \<Rightarrow>
          if nFound < nRequired
          then majority_loop H minVersion nRequired i (pprev (H p))
                 (if GetBlockVersion (H p) \<ge> minVersion then nFound + 1 else nFound)
          else nFound)"

definition IsSuperMajority :: "heap \<Rightarrow> int \<Rightarrow> ptr option \<Rightarrow> nat \<Rightarrow> nat \<Rightarrow> bool" where
  "IsSuperMajority H minVersion pstart nRequired nToCheck \<longleftrightarrow>
     majority_loop H minVersion nRequired nToCheck pstart 0 \<ge> nRequired"

end
