(* ===== verification/MFC_BlockIndex.thy ===== *)
theory MFC_BlockIndex
  imports MFC_Block MFC_Chain
begin

unbundle bit_operations_syntax

text \<open>
  The block tree manager of \<^verbatim>\<open>src/src/validation.cpp\<close>: adding headers, linking received blocks, choosing
  the best chain, pruning candidates, marking blocks invalid or valid again. The global variables of the
  file are the fields of one record. \<^verbatim>\<open>mapBlockIndex\<close> is an association list in iteration order;
  \<^verbatim>\<open>setBlockIndexCandidates\<close>, a set ordered by \<^verbatim>\<open>CBlockIndexWorkComparator\<close>, is a list without duplicates
  searched with that comparator. Results are options, \<open>None\<close> for a failed assertion, a null dereference
  or a walk that does not end.
\<close>

record block_tree =
  bt_heap :: heap
  mapBlockIndex :: "(uint256 \<times> ptr) list"
  chainActive :: CChain
  pindexBestHeader :: "ptr option"
  pindexBestInvalid :: "ptr option"
  setBlockIndexCandidates :: "ptr list"
  mapBlocksUnlinked :: "(ptr \<times> ptr) list"
  nBlockSequenceId :: int
  nBlockReverseSequenceId :: int
  nLastPreciousChainwork :: limbs
  setDirtyBlockIndex :: "ptr list"
  mapDirtyAuxPow :: "(uint256 \<times> bytes option) list"

definition set_insert :: "'a \<Rightarrow> 'a list \<Rightarrow> 'a list" where
  "set_insert x xs = (if x \<in> set xs then xs else x # xs)"

definition set_entry :: "ptr \<Rightarrow> (CBlockIndex \<Rightarrow> CBlockIndex) \<Rightarrow> block_tree \<Rightarrow> block_tree" where
  "set_entry p f T = T\<lparr>bt_heap := (bt_heap T)(p := f (bt_heap T p))\<rparr>"

definition mark_dirty :: "ptr \<Rightarrow> block_tree \<Rightarrow> block_tree" where
  "mark_dirty p T = T\<lparr>setDirtyBlockIndex := set_insert p (setDirtyBlockIndex T)\<rparr>"

definition erase_candidate :: "ptr \<Rightarrow> block_tree \<Rightarrow> block_tree" where
  "erase_candidate p T = T\<lparr>setBlockIndexCandidates := removeAll p (setBlockIndexCandidates T)\<rparr>"

definition insert_candidate :: "ptr \<Rightarrow> block_tree \<Rightarrow> block_tree" where
  "insert_candidate p T = T\<lparr>setBlockIndexCandidates := set_insert p (setBlockIndexCandidates T)\<rparr>"

section \<open>The order of candidates\<close>

definition work_less :: "heap \<Rightarrow> ptr \<Rightarrow> ptr \<Rightarrow> bool" where
  "work_less H pa pb =
     (if CompareTo (nChainTrust (H pa)) (nChainTrust (H pb)) > 0 then False
      else if CompareTo (nChainTrust (H pa)) (nChainTrust (H pb)) < 0 then True
      else if nSequenceId (H pa) < nSequenceId (H pb) then False
      else if nSequenceId (H pa) > nSequenceId (H pb) then True
      else if pa < pb then False
      else if pa > pb then True
      else False)"

text \<open>The first and the last element in the order, \<^verbatim>\<open>begin()\<close> and \<^verbatim>\<open>rbegin()\<close>.\<close>

fun order_first :: "heap \<Rightarrow> ptr list \<Rightarrow> ptr option" where
  "order_first H [] = None"
| "order_first H (p # ps) =
     (case order_first H ps of None \<Rightarrow> Some p | Some q \<Rightarrow> Some (if work_less H p q then p else q))"

fun order_last :: "heap \<Rightarrow> ptr list \<Rightarrow> ptr option" where
  "order_last H [] = None"
| "order_last H (p # ps) =
     (case order_last H ps of None \<Rightarrow> Some p | Some q \<Rightarrow> Some (if work_less H q p then p else q))"

section \<open>New headers\<close>

definition CBlockIndex_of_header :: "CBlockHeader \<Rightarrow> CBlockIndex" where
  "CBlockIndex_of_header block = CBlockIndex_SetNull
     \<lparr>nVersion := hdr_nVersion block, hashMerkleRoot := hdr_hashMerkleRoot block, nTime := hdr_nTime block,
      nBits := hdr_nBits block, nNonce := hdr_nNonce block, nVersionMTP := hdr_nVersionMTP block,
      mtpHashValue := hdr_mtpHashValue block\<rparr>"

text \<open>\<^verbatim>\<open>AddToBlockIndex\<close>. \<open>hash\<close> is the hash of the header, \<open>fresh\<close> the address of the new entry.\<close>

definition link_entry :: "block_tree \<Rightarrow> ptr \<Rightarrow> uint256 \<Rightarrow> block_tree option" where
  "link_entry T p hashPrev =
     (case map_of (mapBlockIndex T) hashPrev of
        None \<Rightarrow> Some T
      | Some q \<Rightarrow>
          let T = set_entry p (\<lambda>b. b\<lparr>pprev := Some q, nHeight := nHeight (bt_heap T q) + 1\<rparr>) T in
          map_option (\<lambda>H. T\<lparr>bt_heap := H\<rparr>) (BuildSkip (bt_heap T) p))"

definition weigh_entry :: "block_tree \<Rightarrow> ptr \<Rightarrow> bool \<Rightarrow> block_tree option" where
  "weigh_entry T p bSetAsProofOfstake =
     (let H = bt_heap T;
          T = set_entry p (\<lambda>b. b\<lparr>nTimeMax := (case pprev b of
                Some q \<Rightarrow> max (nTimeMax (H q)) (nTime b) | None \<Rightarrow> nTime b)\<rparr>) T;
          T = (if bSetAsProofOfstake then set_entry p SetProofOfStake T else T)
      in Option.bind (GetBlockTrust (bt_heap T p)) (\<lambda>trust.
           let T = set_entry p (\<lambda>b. b\<lparr>nChainTrust := add256 (case pprev b of
                 Some q \<Rightarrow> nChainTrust (H q) | None \<Rightarrow> from_u64 0) trust\<rparr>) T
           in map_option (\<lambda>(_, b). set_entry p (\<lambda>_. b) T) (RaiseValidity BLOCK_VALID_TREE (bt_heap T p))))"

definition AddToBlockIndex :: "uint256 \<Rightarrow> ptr \<Rightarrow> CBlockHeader \<Rightarrow> bool \<Rightarrow> block_tree \<Rightarrow> (ptr \<times> block_tree) option" where
  "AddToBlockIndex hash fresh block bSetAsProofOfstake T =
     (case map_of (mapBlockIndex T) hash of
        Some p \<Rightarrow> Some (p, T)
      | None \<Rightarrow>
          let T = set_entry fresh (\<lambda>_. (CBlockIndex_of_header block)\<lparr>nSequenceId := 0, phashBlock := Some hash\<rparr>) T;
              T = T\<lparr>mapBlockIndex := (hash, fresh) # mapBlockIndex T\<rparr> in
          Option.bind (link_entry T fresh (hashPrevBlock block)) (\<lambda>T.
          Option.bind (weigh_entry T fresh bSetAsProofOfstake) (\<lambda>T.
            let T = (case pindexBestHeader T of
                       None \<Rightarrow> T\<lparr>pindexBestHeader := Some fresh\<rparr>
                     | Some q \<Rightarrow> if CompareTo (nChainTrust (bt_heap T q)) (nChainTrust (bt_heap T fresh)) < 0
                                 then T\<lparr>pindexBestHeader := Some fresh\<rparr> else T);
                T = mark_dirty fresh T;
                T = (if hdr_nVersion block AND BLOCK_VERSION_AUXPOW \<noteq> 0 \<and> map_of (mapDirtyAuxPow T) hash = None
                     then T\<lparr>mapDirtyAuxPow := (hash, auxpow block) # mapDirtyAuxPow T\<rparr> else T)
            in Some (fresh, T))))"

section \<open>Received blocks\<close>

definition IsV7Enabled :: "heap \<Rightarrow> ptr option \<Rightarrow> int \<Rightarrow> bool" where
  "IsV7Enabled H pindexPrev V7Height =
     (case pindexPrev of Some p \<Rightarrow> nHeight (H p) + 1 \<ge> V7Height | None \<Rightarrow> False)"

text \<open>One entry of the queue becomes connectable: its transaction count and sequence number are set and
  it may become a candidate. The unlinked children are queued.\<close>

definition connectable :: "ptr \<Rightarrow> block_tree \<Rightarrow> block_tree" where
  "connectable p T =
     (let H = bt_heap T;
          T = set_entry p (\<lambda>b. b\<lparr>nChainTx := (case pprev b of Some q \<Rightarrow> nChainTx (H q) | None \<Rightarrow> 0) + nTx b,
                                  nSequenceId := nBlockSequenceId T\<rparr>) T;
          T = T\<lparr>nBlockSequenceId := nBlockSequenceId T + 1\<rparr>
      in case Tip (chainActive T) of
           None \<Rightarrow> insert_candidate p T
         | Some t \<Rightarrow> if \<not> work_less (bt_heap T) p t then insert_candidate p T else T)"

function link_queue :: "ptr list \<Rightarrow> block_tree \<Rightarrow> block_tree" where
  "link_queue [] T = T"
| "link_queue (p # queue) T =
     (let T = connectable p T;
          (children, rest) = partition (\<lambda>(k, _). k = p) (mapBlocksUnlinked T)
      in link_queue (queue @ map snd children) (T\<lparr>mapBlocksUnlinked := rest\<rparr>))"
  by pat_completeness auto

lemma unlinked_connectable [simp]: "mapBlocksUnlinked (connectable p T) = mapBlocksUnlinked T"
  by (simp add: connectable_def Let_def set_entry_def insert_candidate_def split: option.split)

termination link_queue
proof (relation "measure (\<lambda>(queue, T). length queue + 2 * length (mapBlocksUnlinked T))", goal_cases)
  case (2 p queue T U z children rest)
  then have "children = filter (\<lambda>(k, _). k = p) (mapBlocksUnlinked T)"
    "rest = filter (\<lambda>x. \<not> (case x of (k, _) \<Rightarrow> k = p)) (mapBlocksUnlinked T)"
    by (auto simp: partition_filter1 partition_filter2 o_def prod_eq_iff)
  then have "length children + length rest = length (mapBlocksUnlinked T)"
    using sum_length_filter_compl [of "\<lambda>(k, _). k = p" "mapBlocksUnlinked T"] by simp
  then show ?case by simp
qed simp

text \<open>\<^verbatim>\<open>ReceivedBlockTransactions\<close>; \<open>nVtx\<close> is the number of transactions of the block, \<open>V7Height\<close> a consensus
  parameter.\<close>

definition ReceivedBlockTransactions ::
    "int \<Rightarrow> uint256 \<Rightarrow> CBlock \<Rightarrow> ptr \<Rightarrow> CDiskBlockPos \<Rightarrow> block_tree \<Rightarrow> block_tree option" where
  "ReceivedBlockTransactions V7Height hash block p pos T =
     (let T = set_entry p (\<lambda>b. b\<lparr>nTx := of_nat (length (vtx block)), nChainTx := 0, nFile := pos_nFile pos,
                nDataPos := pos_nPos pos, nUndoPos := 0, nStatus := nStatus b OR BLOCK_HAVE_DATA\<rparr>) T;
          T = (if IsV7Enabled (bt_heap T) (pprev (bt_heap T p)) V7Height
               then set_entry p (\<lambda>b. b\<lparr>nStatus := nStatus b OR BLOCK_OPT_WITNESS\<rparr>) T else T)
      in Option.bind (RaiseValidity BLOCK_VALID_TRANSACTIONS (bt_heap T p)) (\<lambda>(_, b).
        let T = mark_dirty p (set_entry p (\<lambda>_. b) T);
            T = (if hdr_nVersion block AND BLOCK_VERSION_AUXPOW \<noteq> 0 \<and> map_of (mapDirtyAuxPow T) hash = None
                 then T\<lparr>mapDirtyAuxPow := (hash, auxpow block) # mapDirtyAuxPow T\<rparr> else T)
        in case pprev (bt_heap T p) of
             None \<Rightarrow> Some (link_queue [p] T)
           | Some q \<Rightarrow>
               if nChainTx (bt_heap T q) \<noteq> 0 then Some (link_queue [p] T)
               else map_option (\<lambda>ok. if ok then T\<lparr>mapBlocksUnlinked := mapBlocksUnlinked T @ [(q, p)]\<rparr> else T)
                      (IsValid (bt_heap T q) BLOCK_VALID_TREE)))"

section \<open>The best chain\<close>

datatype path_check = PathOk | PathBad ptr

text \<open>The path from a candidate to the active chain: the first block that is marked as failed or has no
  data, if any.\<close>

partial_function (option) check_path :: "heap \<Rightarrow> CChain \<Rightarrow> ptr option \<Rightarrow> path_check option" where
  "check_path H chain pindexTest =
     (case pindexTest of
        None \<Rightarrow> Some PathOk
      | Some p \<Rightarrow>
          if Contains H chain p then Some PathOk
          else if nChainTx (H p) = 0 \<and> nHeight (H p) \<noteq> 0 then None
          else if nStatus (H p) AND BLOCK_FAILED_MASK \<noteq> 0 \<or> nStatus (H p) AND BLOCK_HAVE_DATA = 0
          then Some (PathBad p)
          else check_path H chain (pprev (H p)))"

text \<open>Removing the branch above the unusable block \<open>pindexTest\<close> from the candidates.\<close>

partial_function (option) drop_branch :: "bool \<Rightarrow> ptr \<Rightarrow> ptr \<Rightarrow> block_tree \<Rightarrow> block_tree option" where
  "drop_branch fFailedChain pindexTest pindexFailed T =
     (if pindexTest \<noteq> pindexFailed then
        (let T = (if fFailedChain
                  then set_entry pindexFailed (\<lambda>b. b\<lparr>nStatus := nStatus b OR BLOCK_FAILED_CHILD\<rparr>) T
                  else T\<lparr>mapBlocksUnlinked := mapBlocksUnlinked T
                         @ (case pprev (bt_heap T pindexFailed) of Some q \<Rightarrow> [(q, pindexFailed)] | None \<Rightarrow> [])\<rparr>);
             T = erase_candidate pindexFailed T
         in case pprev (bt_heap T pindexFailed) of
              None \<Rightarrow> None
            | Some q \<Rightarrow> drop_branch fFailedChain pindexTest q T)
      else Some T)"

definition best_invalid :: "ptr \<Rightarrow> block_tree \<Rightarrow> block_tree" where
  "best_invalid p T =
     (case pindexBestInvalid T of
        None \<Rightarrow> T\<lparr>pindexBestInvalid := Some p\<rparr>
      | Some q \<Rightarrow> if CompareTo (nChainTrust (bt_heap T p)) (nChainTrust (bt_heap T q)) > 0
                  then T\<lparr>pindexBestInvalid := Some p\<rparr> else T)"

definition reject_candidate :: "ptr \<Rightarrow> ptr \<Rightarrow> block_tree \<Rightarrow> block_tree option" where
  "reject_candidate pindexNew pindexTest T =
     (let fFailedChain = (nStatus (bt_heap T pindexTest) AND BLOCK_FAILED_MASK \<noteq> 0);
          T = (if fFailedChain then best_invalid pindexNew T else T)
      in map_option (erase_candidate pindexTest) (drop_branch fFailedChain pindexTest pindexNew T))"

partial_function (option) FindMostWorkChain :: "block_tree \<Rightarrow> (ptr option \<times> block_tree) option" where
  "FindMostWorkChain T =
     (case order_last (bt_heap T) (setBlockIndexCandidates T) of
        None \<Rightarrow> Some (None, T)
      | Some pindexNew \<Rightarrow>
          Option.bind (check_path (bt_heap T) (chainActive T) (Some pindexNew)) (\<lambda>r.
            case r of
              PathOk \<Rightarrow> Some (Some pindexNew, T)
            | PathBad pindexTest \<Rightarrow> Option.bind (reject_candidate pindexNew pindexTest T) FindMostWorkChain))"

text \<open>\<^verbatim>\<open>PruneBlockIndexCandidates\<close> erases from the beginning of the order; the tip must exist and a candidate
  must remain.\<close>

function prune_loop :: "heap \<Rightarrow> ptr \<Rightarrow> ptr list \<Rightarrow> ptr list" where
  "prune_loop H tip cs =
     (case order_first H cs of
        None \<Rightarrow> cs
      | Some c \<Rightarrow> if c \<in> set cs \<and> work_less H c tip then prune_loop H tip (removeAll c cs) else cs)"
  by pat_completeness auto
termination
  by (relation "measure (\<lambda>(_, _, cs). length cs)") (auto simp: length_removeAll_less)

declare prune_loop.simps [simp del]

definition PruneBlockIndexCandidates :: "block_tree \<Rightarrow> block_tree option" where
  "PruneBlockIndexCandidates T =
     (case Tip (chainActive T) of
        None \<Rightarrow> None
      | Some tip \<Rightarrow>
          let cs = prune_loop (bt_heap T) tip (setBlockIndexCandidates T)
          in if cs = [] then None else Some (T\<lparr>setBlockIndexCandidates := cs\<rparr>))"

text \<open>\<^verbatim>\<open>PreciousBlock\<close> up to the call of \<^verbatim>\<open>ActivateBestChain\<close>.\<close>

definition PreciousBlock_mark :: "ptr \<Rightarrow> block_tree \<Rightarrow> block_tree option" where
  "PreciousBlock_mark p T =
     Option.bind (Tip (chainActive T)) (\<lambda>tip.
       if CompareTo (nChainTrust (bt_heap T p)) (nChainTrust (bt_heap T tip)) < 0 then Some T
       else
         let trust = nChainTrust (bt_heap T tip);
             T = (if CompareTo trust (nLastPreciousChainwork T) > 0 then T\<lparr>nBlockReverseSequenceId := -1\<rparr> else T);
             T = erase_candidate p (T\<lparr>nLastPreciousChainwork := trust\<rparr>);
             T = set_entry p (\<lambda>b. b\<lparr>nSequenceId := nBlockReverseSequenceId T\<rparr>) T;
             T = (if nBlockReverseSequenceId T > -2147483648
                  then T\<lparr>nBlockReverseSequenceId := nBlockReverseSequenceId T - 1\<rparr> else T)
         in Option.bind (IsValid (bt_heap T p) BLOCK_VALID_TRANSACTIONS) (\<lambda>ok.
              if ok \<and> nChainTx (bt_heap T p) \<noteq> 0 then PruneBlockIndexCandidates (insert_candidate p T)
              else Some T))"

section \<open>Invalid blocks\<close>

definition InvalidChainFound :: "ptr \<Rightarrow> block_tree \<Rightarrow> block_tree option" where
  "InvalidChainFound p T = (if Tip (chainActive T) = None then None else Some (best_invalid p T))"

definition InvalidBlockFound :: "bool \<Rightarrow> ptr \<Rightarrow> block_tree \<Rightarrow> block_tree option" where
  "InvalidBlockFound fCorruptionPossible p T =
     (if \<not> fCorruptionPossible then
        InvalidChainFound p (erase_candidate p (mark_dirty p
          (set_entry p (\<lambda>b. b\<lparr>nStatus := nStatus b OR BLOCK_FAILED_VALID\<rparr>) T)))
      else Some T)"

definition clear_failed :: "CBlockIndex \<Rightarrow> CBlockIndex" where
  "clear_failed b = b\<lparr>nStatus := nStatus b AND NOT BLOCK_FAILED_MASK\<rparr>"

text \<open>\<^verbatim>\<open>ResetBlockFailureFlags\<close>: first every descendant of the block, then its ancestors.\<close>

definition reset_one :: "ptr \<Rightarrow> int \<Rightarrow> ptr \<Rightarrow> block_tree \<Rightarrow> block_tree option" where
  "reset_one pindex height p T =
     Option.bind (IsValid (bt_heap T p) BLOCK_VALID_TRANSACTIONS) (\<lambda>valid.
     if valid then Some T
     else Option.bind (GetAncestor (bt_heap T) p height) (\<lambda>a.
       if a \<noteq> Some pindex then Some T
       else
         let T = mark_dirty p (set_entry p clear_failed T) in
         Option.bind (IsValid (bt_heap T p) BLOCK_VALID_TRANSACTIONS) (\<lambda>ok.
         Option.bind (if ok \<and> nChainTx (bt_heap T p) \<noteq> 0 then
                        (case Tip (chainActive T) of
                           None \<Rightarrow> None
                         | Some tip \<Rightarrow> Some (if work_less (bt_heap T) tip p then insert_candidate p T else T))
                      else Some T) (\<lambda>T.
           Some (if pindexBestInvalid T = Some p then T\<lparr>pindexBestInvalid := None\<rparr> else T)))))"

fun reset_all :: "ptr \<Rightarrow> int \<Rightarrow> ptr list \<Rightarrow> block_tree \<Rightarrow> block_tree option" where
  "reset_all pindex height [] T = Some T"
| "reset_all pindex height (p # ps) T = Option.bind (reset_one pindex height p T) (reset_all pindex height ps)"

partial_function (option) reset_ancestors :: "ptr option \<Rightarrow> block_tree \<Rightarrow> block_tree option" where
  "reset_ancestors pindex T =
     (case pindex of
        None \<Rightarrow> Some T
      | Some p \<Rightarrow>
          let T = (if nStatus (bt_heap T p) AND BLOCK_FAILED_MASK \<noteq> 0
                   then mark_dirty p (set_entry p clear_failed T) else T)
          in reset_ancestors (pprev (bt_heap T p)) T)"

definition ResetBlockFailureFlags :: "ptr \<Rightarrow> block_tree \<Rightarrow> block_tree option" where
  "ResetBlockFailureFlags pindex T =
     Option.bind (reset_all pindex (nHeight (bt_heap T pindex)) (map snd (mapBlockIndex T)) T)
       (reset_ancestors (Some pindex))"

end
