(* ===== verification/MFC_Arith256Props.thy ===== *)
theory MFC_Arith256Props
  imports MFC_Arith256
begin

unbundle bit_operations_syntax

text \<open>
  The limb arithmetic computes modulo \<open>2 ^ 256\<close>: addition, subtraction, multiplication, comparison,
  bit length, shifts, division and the compact encoding, each against its meaning on natural numbers.
\<close>

section \<open>Words of the loops\<close>

abbreviation (input) B32 :: nat where "B32 \<equiv> 4294967296"

lemma unat_u32_lt [simp]: "unat (x :: u32) < B32"
  using unsigned_less [of x] by simp

lemma unat_u64_lt [simp]: "unat (x :: u64) < 18446744073709551616"
  using unsigned_less [of x] by simp

lemma unat_u32_le [simp]: "unat (x :: u32) \<le> 4294967295"
  using unat_u32_lt [of x] by linarith

lemma unat_ucast_32_64 [simp]: "unat (ucast (x :: u32) :: u64) = unat x"
proof -
  have "unat x < 2 ^ 64" by (rule less_trans [OF unat_u32_lt]) simp
  then show ?thesis by (simp add: unsigned_ucast_eq take_bit_nat_eq_self)
qed

lemma unat_low32: "unat (ucast (n AND 0xffffffff :: u64) :: u32) = unat n mod B32"
proof -
  have "n AND 0xffffffff = take_bit 32 n" by (simp add: take_bit_eq_mask mask_eq_decr_exp)
  then show ?thesis
    by (simp add: unsigned_ucast_eq unsigned_take_bit_eq take_bit_eq_mod unat_mod)
qed

lemma unat_high32: "unat (drop_bit 32 (n :: u64)) = unat n div B32"
  by (simp add: drop_bit_eq_div unat_div)

lemma high32_lt: "unat (drop_bit 32 (n :: u64)) < B32"
  unfolding unat_high32 using unat_u64_lt [of n] by (simp add: div_less_iff_less_mult)

lemma unat_add64:
  "unat (a :: u64) + unat b < 18446744073709551616 \<Longrightarrow> unat (a + b) = unat a + unat b"
  by (simp add: unat_word_ariths)

lemma unat_mul64:
  "unat (a :: u64) * unat b < 18446744073709551616 \<Longrightarrow> unat (a * b) = unat a * unat b"
  by (simp add: unat_word_ariths)

lemma mul_u32_bound: "unat (x :: u32) * unat (y :: u32) \<le> 4294967295 * 4294967295"
  by (intro mult_le_mono) simp_all

text \<open>The one arithmetic step all the carry loops share.\<close>

lemma carry_step:
  "u mod B32 + B32 * ((u div B32 + w) mod B32 ^ n) = (u + B32 * w) mod B32 ^ Suc n" for u w n :: nat
proof -
  have "(u + B32 * w) mod (B32 * B32 ^ n) = B32 * ((u + B32 * w) div B32 mod B32 ^ n) + (u + B32 * w) mod B32"
    by (rule mod_mult2_eq)
  also have "(u + B32 * w) div B32 = u div B32 + w" by simp
  also have "(u + B32 * w) mod B32 = u mod B32" by simp
  finally show ?thesis by (simp add: add.commute)
qed

lemma val_lt: "val xs < B32 ^ length xs"
proof (induction xs)
  case (Cons x xs)
  have "unat x + B32 * val xs < B32 + B32 * val xs" by simp
  also have "\<dots> = B32 * Suc (val xs)" by simp
  also have "\<dots> \<le> B32 * B32 ^ length xs" using Cons.IH by (intro mult_le_mono2) simp
  finally show ?case by simp
qed simp

lemma val_append: "val (xs @ ys) = val xs + B32 ^ length xs * val ys"
  by (induction xs) (auto simp: algebra_simps)

lemma val_replicate_0 [simp]: "val (replicate n 0) = 0"
  by (induction n) auto

lemma val_zero256 [simp]: "val zero256 = 0" "length zero256 = WIDTH"
  by (simp_all add: zero256_def)

lemma val_eq_0: "val xs = 0 \<longleftrightarrow> (\<forall>x \<in> set xs. x = 0)"
  by (induction xs) (auto simp: unat_eq_zero)

lemma val_inj: "length xs = length ys \<Longrightarrow> val xs = val ys \<Longrightarrow> xs = ys"
proof (induction xs ys rule: list_induct2)
  case (Cons x xs y ys)
  have "(unat x + B32 * val xs) mod B32 = (unat y + B32 * val ys) mod B32"
    "(unat x + B32 * val xs) div B32 = (unat y + B32 * val ys) div B32"
    using Cons.prems by simp_all
  then have "unat x = unat y" "val xs = val ys" by simp_all
  with Cons.IH show ?case by (simp add: word_unat_eq_iff)
qed simp

lemma val_from_u64 [simp]: "val (from_u64 b) = unat b" "length (from_u64 b) = WIDTH"
proof -
  have "unat (ucast b :: u32) = unat b mod B32"
    by (simp add: unsigned_ucast_eq take_bit_eq_mod)
  moreover have "unat (ucast (drop_bit 32 b) :: u32) = unat b div B32"
  proof -
    have "unat b div B32 < B32" using unat_u64_lt [of b] by (simp add: div_less_iff_less_mult)
    then show ?thesis
      by (simp add: unsigned_ucast_eq drop_bit_eq_div unat_div take_bit_nat_eq_self)
  qed
  ultimately show "val (from_u64 b) = unat b" by (simp add: from_u64_def)
  show "length (from_u64 b) = WIDTH" by (simp add: from_u64_def)
qed

section \<open>Addition, subtraction, multiplication\<close>

lemma val_add_loop:
  "length xs = length ys \<Longrightarrow> unat carry < B32 \<Longrightarrow>
     val (add_loop carry xs ys) = (unat carry + val xs + val ys) mod B32 ^ length xs"
proof (induction xs ys arbitrary: carry rule: list_induct2)
  case (Cons x xs y ys)
  define n :: u64 where "n = carry + ucast x + ucast y"
  have "unat carry + unat x + unat y < 18446744073709551616"
    using Cons.prems unat_u32_le [of x] unat_u32_le [of y] by linarith
  then have n: "unat n = unat carry + unat x + unat y"
    by (simp add: n_def unat_add64)
  have "add_loop carry (x # xs) (y # ys) = ucast (n AND 0xffffffff) # add_loop (drop_bit 32 n) xs ys"
    by (simp add: Let_def n_def)
  with Cons.IH [OF high32_lt [of n]] show ?case
    using carry_step [of "unat n" "val xs + val ys" "length xs"] n
    by (simp add: unat_low32 unat_high32 algebra_simps)
qed simp

lemma length_add_loop: "length xs = length ys \<Longrightarrow> length (add_loop c xs ys) = length xs"
  by (induction xs ys arbitrary: c rule: list_induct2) (auto simp: Let_def)

lemma length_incr256 [simp]: "length (incr256 xs) = length xs"
  by (induction xs rule: incr256.induct) auto

lemma val_incr256: "val (incr256 xs) = (val xs + 1) mod B32 ^ length xs"
proof (induction xs)
  case (Cons x xs)
  have u: "unat (x + 1) = (unat x + 1) mod B32" by (simp add: unat_word_ariths)
  show ?case
  proof (cases "x + 1 = 0")
    case True
    with u have "(unat x + 1) mod B32 = 0" by simp
    then have "\<not> unat x + 1 < B32" using mod_less [of "unat x + 1" B32] by linarith
    then have x: "unat x = 4294967295" using unat_u32_lt [of x] by linarith
    show ?thesis
    proof (cases xs)
      case Nil
      with True x show ?thesis by simp
    next
      case (Cons y ys)
      with True x Cons.IH carry_step [of "unat x + 1" "val xs" "length xs"] show ?thesis
        by simp
    qed
  next
    case False
    then have "unat (x + 1) \<noteq> 0" by (simp add: unat_eq_zero)
    with u have "unat x + 1 \<noteq> B32" by auto
    with unat_u32_lt [of x] have lt: "unat x + 1 < B32" by linarith
    have "val (x # xs) + 1 < B32 ^ length (x # xs)"
      using val_lt [of "(x + 1) # xs"] u lt by simp
    with False u lt show ?thesis by simp
  qed
qed simp

lemma val_not256: "val (not256 xs) + val xs + 1 = B32 ^ length xs"
proof (induction xs)
  case (Cons x xs)
  have "unat (NOT x) + unat x = 4294967295"
  proof -
    have "unat (- 1 - x) = unat (- 1 :: u32) - unat x" by (rule unat_sub) simp
    moreover have "unat (- 1 :: u32) = 4294967295"
      by (simp add: unsigned_minus_1_eq_mask mask_eq_exp_minus_1)
    moreover have "NOT x = - 1 - x" by (simp add: not_eq_complement)
    ultimately show ?thesis using unat_u32_le [of x] by (simp only:)
  qed
  with Cons.IH show ?case by (simp add: not256_def algebra_simps)
qed (simp add: not256_def)

lemma length_not256 [simp]: "length (not256 xs) = length xs"
  by (simp add: not256_def)

lemma val_neg256: "val (neg256 xs) = (B32 ^ length xs - val xs) mod B32 ^ length xs"
proof -
  have "val (not256 xs) + 1 = B32 ^ length xs - val xs" using val_not256 [of xs] by linarith
  then show ?thesis by (simp add: neg256_def val_incr256)
qed

lemma length_neg256 [simp]: "length (neg256 xs) = length xs"
  by (simp add: neg256_def)

lemma val_add: "length a = length b \<Longrightarrow> val (add256 a b) = (val a + val b) mod B32 ^ length a"
  by (simp add: add256_def val_add_loop)

lemma length_add256 [simp]: "length a = length b \<Longrightarrow> length (add256 a b) = length a"
  by (simp add: add256_def length_add_loop)

lemma length_sub256 [simp]: "length a = length b \<Longrightarrow> length (sub256 a b) = length a"
  by (simp add: sub256_def)

lemma val_sub:
  assumes "length a = length b"
  shows "val (sub256 a b) = (val a + (B32 ^ length a - val b)) mod B32 ^ length a"
  using assms by (simp add: sub256_def val_add val_neg256 mod_add_right_eq)

lemma val_sub_le:
  assumes "length a = length b" "val b \<le> val a"
  shows "val (sub256 a b) = val a - val b"
proof -
  have "val a + (B32 ^ length a - val b) = (val a - val b) + B32 ^ length a"
    using assms val_lt [of b] by simp
  moreover have "val a - val b < B32 ^ length a" using val_lt [of a] by linarith
  ultimately show ?thesis using val_sub [OF assms(1)] by simp
qed

lemma length_mul32_loop [simp]: "length (mul32_loop c b xs) = length xs"
  by (induction xs arbitrary: c) (auto simp: Let_def)

lemma val_mul32_loop:
  "unat carry < B32 \<Longrightarrow> val (mul32_loop carry b xs) = (unat carry + unat b * val xs) mod B32 ^ length xs"
proof (induction xs arbitrary: carry)
  case (Cons x xs)
  define n :: u64 where "n = carry + ucast b * ucast x"
  have m: "unat (ucast b * ucast x :: u64) = unat b * unat x"
    using mul_u32_bound [of b x] by (simp add: unat_mul64)
  have "unat carry + unat b * unat x < 18446744073709551616"
    using Cons.prems mul_u32_bound [of b x] by linarith
  then have n: "unat n = unat carry + unat b * unat x"
    using unat_add64 [of carry "ucast b * ucast x"] by (simp only: n_def m)
  have "mul32_loop carry b (x # xs) = ucast (n AND 0xffffffff) # mul32_loop (drop_bit 32 n) b xs"
    by (simp add: Let_def n_def)
  with Cons.IH [OF high32_lt [of n]] show ?case
    using carry_step [of "unat n" "unat b * val xs" "length xs"] n
    by (simp add: unat_low32 unat_high32 algebra_simps)
qed simp

lemma length_mul_row: "length p \<le> length b \<Longrightarrow> length (mul_row c aj b p) = length p"
  by (induction c aj b p rule: mul_row.induct) (auto simp: Let_def)

lemma val_mul_row:
  "length p \<le> length b \<Longrightarrow> unat carry < B32 \<Longrightarrow>
     val (mul_row carry aj b p) = (unat carry + val p + unat aj * val (take (length p) b)) mod B32 ^ length p"
proof (induction p arbitrary: carry b)
  case Nil
  then show ?case by (cases b) simp_all
next
  case (Cons x p)
  then obtain y b' where b: "b = y # b'" by (cases b) auto
  define n :: u64 where "n = carry + ucast x + ucast aj * ucast y"
  have m: "unat (ucast aj * ucast y :: u64) = unat aj * unat y"
    using mul_u32_bound [of aj y] by (simp add: unat_mul64)
  have le: "unat carry + unat x + unat aj * unat y < 18446744073709551616"
    using Cons.prems(2) mul_u32_bound [of aj y] unat_u32_le [of x] by linarith
  have cx: "unat (carry + ucast x) = unat carry + unat x"
    using unat_add64 [of carry "ucast x"] le by (simp only: unat_ucast_32_64)
  have n: "unat n = unat carry + unat x + unat aj * unat y"
    using unat_add64 [of "carry + ucast x" "ucast aj * ucast y"] le by (simp only: n_def cx m)
  have "val (mul_row (drop_bit 32 n) aj b' p) =
      (unat n div B32 + val p + unat aj * val (take (length p) b')) mod B32 ^ length p"
    using Cons.IH [OF _ high32_lt [of n]] Cons.prems b by (simp add: unat_high32)
  moreover have "mul_row carry aj b (x # p) = ucast (n AND 0xffffffff) # mul_row (drop_bit 32 n) aj b' p"
    by (simp add: Let_def n_def b)
  ultimately show ?case
    using carry_step [of "unat n" "val p + unat aj * val (take (length p) b')" "length p"] n b
    by (simp add: unat_low32 algebra_simps)
qed

lemma val_take_mod: "n \<le> length b \<Longrightarrow> val (take n b) = val b mod B32 ^ n"
proof -
  assume n: "n \<le> length b"
  have "val b = val (take n b) + B32 ^ n * val (drop n b)"
    using val_append [of "take n b" "drop n b"] n by simp
  moreover have "val (take n b) < B32 ^ n" using val_lt [of "take n b"] n by simp
  ultimately show ?thesis by simp
qed

lemma val_mul_row_full:
  assumes "length p \<le> length b"
  shows "val (mul_row 0 aj b p) = (val p + unat aj * val b) mod B32 ^ length p"
proof -
  have "(val p + unat aj * (val b mod B32 ^ length p)) mod B32 ^ length p =
      (val p + unat aj * val b) mod B32 ^ length p"
    by (metis mod_add_right_eq mod_mult_right_eq)
  then show ?thesis using val_mul_row [OF assms, of 0 aj] assms by (simp add: val_take_mod)
qed

lemma length_mul_loop: "length as = length p \<Longrightarrow> length p \<le> length b \<Longrightarrow> length (mul_loop as b p) = length p"
proof (induction as arbitrary: p)
  case (Cons a as)
  then obtain q qs where q: "mul_row 0 a b p = q # qs" "length p = Suc (length qs)"
    using length_mul_row [of p b 0 a] by (cases "mul_row 0 a b p") auto
  with Cons show ?case by simp
qed simp

lemma val_mul_loop:
  "length as = length p \<Longrightarrow> length p \<le> length b \<Longrightarrow>
     val (mul_loop as b p) = (val p + val as * val b) mod B32 ^ length p"
proof (induction as arbitrary: p)
  case Nil
  then show ?case using val_lt [of p] by simp
next
  case (Cons a as)
  then obtain q qs where q: "mul_row 0 a b p = q # qs" "length p = Suc (length qs)"
    using length_mul_row [of p b 0 a] by (cases "mul_row 0 a b p") auto
  have row: "unat q + B32 * val qs = (val p + unat a * val b) mod B32 ^ length p"
    using val_mul_row_full [OF Cons.prems(2), of a] q(1) by simp
  have "val (mul_loop (a # as) b p) = unat q + B32 * ((val qs + val as * val b) mod B32 ^ length qs)"
    using Cons q by simp
  also have "\<dots> = (unat q + B32 * (val qs + val as * val b)) mod B32 ^ length p"
    using carry_step [of "unat q" "val qs + val as * val b" "length qs"] q(2) by simp
  also have "\<dots> = (val p + unat a * val b + B32 * (val as * val b)) mod B32 ^ length p"
    using row by (metis (no_types, lifting) add.assoc distrib_left mod_add_left_eq)
  finally show ?case by (simp add: algebra_simps)
qed

lemma val_mul: "length a = WIDTH \<Longrightarrow> length b = WIDTH \<Longrightarrow> val (mul256 a b) = (val a * val b) mod B32 ^ WIDTH"
  using val_mul_loop [of a zero256 b] by (simp add: mul256_def)

section \<open>Comparison\<close>

lemma compare_hi_rev:
  "length a = length b \<Longrightarrow>
     compare_hi (rev a) (rev b) = (if val a < val b then -1 else if val a > val b then 1 else 0)"
proof (induction a arbitrary: b rule: rev_induct)
  case (snoc x a)
  then obtain b' y where b: "b = b' @ [y]" and l: "length a = length b'"
    by (cases b rule: rev_cases) auto
  let ?P = "B32 ^ length a"
  have va: "val (a @ [x]) = val a + ?P * unat x" and vb: "val b = val b' + ?P * unat y"
    using l b by (simp_all add: val_append)
  have lt: "val a < ?P" "val b' < ?P" using val_lt [of a] val_lt [of b'] l by simp_all
  have hi: "val u + ?P * unat i < val w + ?P * unat j" if "val u < ?P" "unat i < unat j"
    for u w and i j :: u32
  proof -
    have "val u + ?P * unat i < ?P * Suc (unat i)" using that by simp
    also have "\<dots> \<le> ?P * unat j" using that by (intro mult_le_mono2) simp
    finally show ?thesis by simp
  qed
  consider "x < y" | "y < x" | "x = y" by fastforce
  then show ?case
  proof cases
    case 1
    then have "unat x < unat y" by (simp add: word_less_nat_alt)
    from hi [OF lt(1) this, of b'] 1 b va vb show ?thesis by simp
  next
    case 2
    then have "unat y < unat x" by (simp add: word_less_nat_alt)
    from hi [OF lt(2) this, of a] 2 b va vb show ?thesis by simp
  next
    case 3
    then show ?thesis using snoc.IH [OF l] b va vb by simp
  qed
qed simp

lemma CompareTo_val:
  "length a = length b \<Longrightarrow> CompareTo a b = (if val a < val b then -1 else if val a > val b then 1 else 0)"
  by (simp add: CompareTo_def compare_hi_rev)

section \<open>Bits\<close>

lemma bit_val_pos:
  "r < 32 \<Longrightarrow> bit (val xs) (32 * m + r) \<longleftrightarrow> m < length xs \<and> bit (xs ! m) r"
proof (induction xs arbitrary: m)
  case (Cons x xs)
  show ?case
  proof (cases m)
    case 0
    have "(4294967296 :: nat) = 2 ^ r * 2 ^ (32 - r)" using Cons.prems by (simp flip: power_add)
    then have "unat x + B32 * val xs = unat x + 2 ^ r * (2 ^ (32 - r) * val xs)" by simp
    then have "(unat x + B32 * val xs) div 2 ^ r = 2 ^ (32 - r) * val xs + unat x div 2 ^ r"
      by (metis add.commute div_mult_self2 power_not_zero zero_neq_numeral)
    moreover have "even ((2 :: nat) ^ (32 - r) * val xs)" using Cons.prems by simp
    ultimately have "bit (val (x # xs)) r \<longleftrightarrow> odd (unat x div 2 ^ r)"
      by (simp add: bit_iff_odd)
    also have "\<dots> \<longleftrightarrow> bit x r" by (simp add: bit_iff_odd [symmetric] bit_unsigned_iff)
    finally show ?thesis using 0 by simp
  next
    case (Suc m')
    have "val (x # xs) div 2 ^ (32 * m + r) = val (x # xs) div 2 ^ 32 div 2 ^ (32 * m' + r)"
      by (simp only: Suc mult_Suc_right add.assoc power_add div_mult2_eq)
    also have "val (x # xs) div 2 ^ 32 = val xs" by simp
    finally have "bit (val (x # xs)) (32 * m + r) \<longleftrightarrow> bit (val xs) (32 * m' + r)"
      by (simp only: bit_iff_odd)
    with Cons.IH [OF Cons.prems, of m'] Suc show ?thesis by simp
  qed
qed simp

lemma bit_val: "bit (val xs) n \<longleftrightarrow> n div 32 < length xs \<and> bit (xs ! (n div 32)) (n mod 32)"
  using bit_val_pos [of "n mod 32" xs "n div 32"] by simp

lemma bit_u32_lt: "bit (w :: u32) n \<Longrightarrow> n < 32"
  using bit_imp_le_length [of w n] by auto

lemma bit_or_update:
  "j < length pn \<Longrightarrow> bit (pn[j := pn ! j OR x] ! m) r \<longleftrightarrow> bit (pn ! m) r \<or> (m = j \<and> bit x r)"
  by (cases "m = j") (auto simp: bit_or_iff)

lemma length_shl_step [simp]: "length (shl_step a k s i pn) = length pn"
  by (simp add: shl_step_def Let_def)

lemma length_shr_step [simp]: "length (shr_step a k s i pn) = length pn"
  by (simp add: shr_step_def Let_def)

lemma length_fold_step:
  "(\<And>i pn. length (f i pn) = length pn) \<Longrightarrow> length (fold f is pn) = length pn"
  by (induction "is" arbitrary: pn) auto

lemma length_shl256 [simp]: "length (shl256 a S) = WIDTH"
  by (simp add: shl256_def length_fold_step)

lemma length_shr256 [simp]: "length (shr256 a S) = WIDTH"
  by (simp add: shr256_def length_fold_step)

lemma bit_shl_fold:
  assumes "length pn = WIDTH" "m < WIDTH"
  shows "bit (fold (shl_step a k s) is pn ! m) r \<longleftrightarrow> bit (pn ! m) r \<or>
    (\<exists>i \<in> set is. (m = i + k \<and> bit (push_bit s (a ! i)) r)
       \<or> (m = i + k + 1 \<and> s \<noteq> 0 \<and> bit (drop_bit (32 - s) (a ! i)) r))"
  using assms(1)
proof (induction "is" arbitrary: pn)
  case (Cons i "is")
  have "bit (shl_step a k s i pn ! m) r \<longleftrightarrow> bit (pn ! m) r
      \<or> (m = i + k \<and> bit (push_bit s (a ! i)) r)
      \<or> (m = i + k + 1 \<and> s \<noteq> 0 \<and> bit (drop_bit (32 - s) (a ! i)) r)"
    using Cons.prems assms(2) by (auto simp: shl_step_def Let_def bit_or_update)
  with Cons.IH [of "shl_step a k s i pn"] Cons.prems show ?case by auto
qed simp

lemma bit_shr_fold:
  assumes "length pn = WIDTH" "m < WIDTH" "\<forall>i \<in> set is. i < WIDTH"
  shows "bit (fold (shr_step a k s) is pn ! m) r \<longleftrightarrow> bit (pn ! m) r \<or>
    (\<exists>i \<in> set is. (i \<ge> k \<and> m = i - k \<and> bit (drop_bit s (a ! i)) r)
       \<or> (i \<ge> k + 1 \<and> m = i - k - 1 \<and> s \<noteq> 0 \<and> bit (push_bit (32 - s) (a ! i)) r))"
  using assms(1,3)
proof (induction "is" arbitrary: pn)
  case (Cons i "is")
  have "i - k < WIDTH" "i - k - 1 < WIDTH" using Cons.prems(2) by auto
  then have "bit (shr_step a k s i pn ! m) r \<longleftrightarrow> bit (pn ! m) r
      \<or> (i \<ge> k \<and> m = i - k \<and> bit (drop_bit s (a ! i)) r)
      \<or> (i \<ge> k + 1 \<and> m = i - k - 1 \<and> s \<noteq> 0 \<and> bit (push_bit (32 - s) (a ! i)) r)"
    using Cons.prems(1) assms(2) by (auto simp: shr_step_def Let_def bit_or_update)
  with Cons.IH [of "shr_step a k s i pn"] Cons.prems show ?case by auto
qed simp

lemma bit_shl_limb:
  assumes "m < WIDTH" "r < 32" "s < 32"
  shows "bit (shl256 a (32 * k + s) ! m) r \<longleftrightarrow>
    (if s \<le> r then k \<le> m \<and> bit (a ! (m - k)) (r - s)
     else Suc k \<le> m \<and> bit (a ! (m - k - 1)) (32 + r - s))"
proof -
  have ks: "(32 * k + s) div 32 = k" "(32 * k + s) mod 32 = s" using assms(3) by simp_all
  have 1: "bit (push_bit s (a ! i)) r \<longleftrightarrow> s \<le> r \<and> bit (a ! i) (r - s)" for i
    using assms(2) by (simp add: bit_push_bit_iff)
  have 2: "s \<noteq> 0 \<and> bit (drop_bit (32 - s) (a ! i)) r \<longleftrightarrow> r < s \<and> bit (a ! i) (32 + r - s)" for i
    using assms bit_u32_lt [of "a ! i" "32 + r - s"] by (auto simp: bit_drop_bit_eq)
  have z: "\<not> bit (zero256 ! m) r" using assms(1) by (simp add: zero256_def nth_replicate)
  have "bit (shl256 a (32 * k + s) ! m) r \<longleftrightarrow>
      (\<exists>i < WIDTH. (m = i + k \<and> s \<le> r \<and> bit (a ! i) (r - s)) \<or> (m = i + k + 1 \<and> r < s \<and> bit (a ! i) (32 + r - s)))"
    unfolding shl256_def ks using bit_shl_fold [of zero256 m a k s "[0..<WIDTH]" r] assms(1) z 1 2
    by (auto simp: atLeast0LessThan)
  also have "\<dots> \<longleftrightarrow> (if s \<le> r then k \<le> m \<and> bit (a ! (m - k)) (r - s)
     else Suc k \<le> m \<and> bit (a ! (m - k - 1)) (32 + r - s))"
  proof (cases "s \<le> r")
    case True
    then show ?thesis using assms(1) by (auto intro: exI [of _ "m - k"])
  next
    case False
    then show ?thesis using assms(1) by (auto intro: exI [of _ "m - k - 1"])
  qed
  finally show ?thesis .
qed

lemma bit_shr_limb:
  assumes "m < WIDTH" "r < 32" "s < 32"
  shows "bit (shr256 a (32 * k + s) ! m) r \<longleftrightarrow>
    (if r + s < 32 then m + k < WIDTH \<and> bit (a ! (m + k)) (r + s)
     else m + k + 1 < WIDTH \<and> bit (a ! (m + k + 1)) (r + s - 32))"
proof -
  have ks: "(32 * k + s) div 32 = k" "(32 * k + s) mod 32 = s" using assms(3) by simp_all
  have 1: "bit (drop_bit s (a ! i)) r \<longleftrightarrow> r + s < 32 \<and> bit (a ! i) (r + s)" for i
    using bit_u32_lt [of "a ! i" "r + s"] by (auto simp: bit_drop_bit_eq add.commute)
  have 2: "s \<noteq> 0 \<and> bit (push_bit (32 - s) (a ! i)) r \<longleftrightarrow> 32 \<le> r + s \<and> bit (a ! i) (r + s - 32)" for i
  proof -
    have "r - (32 - s) = r + s - 32" using assms(3) by simp
    then show ?thesis using assms by (auto simp: bit_push_bit_iff)
  qed
  have z: "\<not> bit (zero256 ! m) r" using assms(1) by (simp add: zero256_def nth_replicate)
  have "bit (shr256 a (32 * k + s) ! m) r \<longleftrightarrow>
      (\<exists>i < WIDTH. (i \<ge> k \<and> m = i - k \<and> r + s < 32 \<and> bit (a ! i) (r + s))
        \<or> (i \<ge> k + 1 \<and> m = i - k - 1 \<and> 32 \<le> r + s \<and> bit (a ! i) (r + s - 32)))"
    unfolding shr256_def ks using bit_shr_fold [of zero256 m "[0..<WIDTH]" a k s r] assms(1) z 1 2
    by (auto simp: atLeast0LessThan)
  also have "\<dots> \<longleftrightarrow> (if r + s < 32 then m + k < WIDTH \<and> bit (a ! (m + k)) (r + s)
     else m + k + 1 < WIDTH \<and> bit (a ! (m + k + 1)) (r + s - 32))"
  proof (cases "r + s < 32")
    case True
    then show ?thesis by (auto intro: exI [of _ "m + k"])
  next
    case False
    then show ?thesis by (auto intro: exI [of _ "m + k + 1"])
  qed
  finally show ?thesis .
qed

lemma val_shl:
  assumes "length a = WIDTH"
  shows "val (shl256 a S) = (val a * 2 ^ S) mod 2 ^ 256"
proof -
  define k s where "k = S div 32" and "s = S mod 32"
  have S: "S = 32 * k + s" "s < 32" by (simp_all add: k_def s_def)
  have "val (shl256 a S) = take_bit 256 (push_bit S (val a))"
  proof (rule bit_eqI)
    fix n :: nat
    define m r where "m = n div 32" and "r = n mod 32"
    have n: "n = 32 * m + r" "r < 32" by (simp_all add: m_def r_def)
    have lt: "n < 256 \<longleftrightarrow> m < WIDTH" using n by linarith
    have L: "bit (val (shl256 a S)) n \<longleftrightarrow> m < WIDTH \<and> bit (shl256 a S ! m) r"
      using n by (simp add: bit_val_pos)
    have R: "bit (take_bit 256 (push_bit S (val a))) n \<longleftrightarrow> m < WIDTH \<and> S \<le> n \<and> bit (val a) (n - S)"
      using lt by (simp add: bit_take_bit_iff bit_push_bit_iff)
    show "bit (val (shl256 a S)) n \<longleftrightarrow> bit (take_bit 256 (push_bit S (val a))) n"
    proof (cases "s \<le> r")
      case True
      have "S \<le> n \<longleftrightarrow> k \<le> m" using S n True by linarith
      moreover have "bit (val a) (n - S) \<longleftrightarrow> m - k < WIDTH \<and> bit (a ! (m - k)) (r - s)" if "k \<le> m"
      proof -
        have "n - S = 32 * (m - k) + (r - s)" using that S n True by (simp add: diff_mult_distrib2)
        then show ?thesis using bit_val_pos [of "r - s" a "m - k"] n(2) assms by (simp only:)
      qed
      ultimately show ?thesis
        unfolding L R using True S n bit_shl_limb [of m r s a k] by auto
    next
      case False
      have "S \<le> n \<longleftrightarrow> Suc k \<le> m" using S n False by linarith
      moreover have "bit (val a) (n - S) \<longleftrightarrow> m - k - 1 < WIDTH \<and> bit (a ! (m - k - 1)) (32 + r - s)"
        if "Suc k \<le> m"
      proof -
        obtain j where "m = Suc k + j" using le_Suc_ex \<open>Suc k \<le> m\<close> by blast
        then have "n - S = 32 * (m - k - 1) + (32 + r - s)" using S n False by simp
        then show ?thesis using bit_val_pos [of "32 + r - s" a "m - k - 1"] False S assms
          by (simp only:)
      qed
      ultimately show ?thesis
        unfolding L R using False S n bit_shl_limb [of m r s a k] by auto
    qed
  qed
  then show ?thesis by (simp add: push_bit_eq_mult take_bit_eq_mod)
qed

lemma val_shr:
  assumes "length a = WIDTH"
  shows "val (shr256 a S) = val a div 2 ^ S"
proof -
  define k s where "k = S div 32" and "s = S mod 32"
  have S: "S = 32 * k + s" "s < 32" by (simp_all add: k_def s_def)
  have "val (shr256 a S) = drop_bit S (val a)"
  proof (rule bit_eqI)
    fix n :: nat
    define m r where "m = n div 32" and "r = n mod 32"
    have n: "n = 32 * m + r" "r < 32" by (simp_all add: m_def r_def)
    have L: "bit (val (shr256 a S)) n \<longleftrightarrow> m < WIDTH \<and> bit (shr256 a S ! m) r"
      using n by (simp add: bit_val_pos)
    show "bit (val (shr256 a S)) n \<longleftrightarrow> bit (drop_bit S (val a)) n"
    proof (cases "r + s < 32")
      case True
      have "S + n = 32 * (m + k) + (r + s)" using S n by simp
      with True have "bit (drop_bit S (val a)) n \<longleftrightarrow> m + k < WIDTH \<and> bit (a ! (m + k)) (r + s)"
        using bit_val_pos [OF True, of a "m + k"] assms by (simp only: bit_drop_bit_eq o_def)
      then show ?thesis unfolding L using True S n bit_shr_limb [of m r s a k] by auto
    next
      case False
      have "S + n = 32 * (m + k + 1) + (r + s - 32)" using S n False by simp
      moreover have "r + s - 32 < 32" using S n by simp
      ultimately have "bit (drop_bit S (val a)) n \<longleftrightarrow> m + k + 1 < WIDTH \<and> bit (a ! (m + k + 1)) (r + s - 32)"
        using assms by (simp only: bit_drop_bit_eq o_def bit_val_pos)
      then show ?thesis unfolding L using False S n bit_shr_limb [of m r s a k] by auto
    qed
  qed
  then show ?thesis by (simp add: drop_bit_eq_div)
qed

section \<open>Bit length\<close>

lemma bit_top_nat: "u < 2 ^ Suc n \<Longrightarrow> bit u n \<longleftrightarrow> 2 ^ n \<le> u" for u n :: nat
proof -
  assume u: "u < 2 ^ Suc n"
  show ?thesis
  proof (cases "2 ^ n \<le> u")
    case True
    with u have "u div 2 ^ n = 1" by (intro div_nat_eqI) simp_all
    with True show ?thesis by (simp add: bit_iff_odd)
  qed (simp add: bit_iff_odd)
qed

lemma top_bit_bounds:
  "x \<noteq> 0 \<Longrightarrow> unat x < 2 ^ Suc b \<Longrightarrow>
     0 < top_bit x b \<and> top_bit x b \<le> Suc b \<and> 2 ^ (top_bit x b - 1) \<le> unat x \<and> unat x < 2 ^ top_bit x b"
proof (induction b)
  case 0
  then have "0 < unat x" by (simp add: unat_gt_0)
  with 0 show ?case by simp
next
  case (Suc b)
  have iff: "bit x (Suc b) \<longleftrightarrow> 2 ^ Suc b \<le> unat x"
    using bit_top_nat [OF Suc.prems(2)] by (simp add: bit_unsigned_iff)
  show ?case
  proof (cases "bit x (Suc b)")
    case True
    with iff Suc.prems show ?thesis by simp
  next
    case False
    with iff Suc show ?thesis by (auto simp: not_le)
  qed
qed

lemma val_take_Suc: "p < length xs \<Longrightarrow> val (take (Suc p) xs) = val (take p xs) + B32 ^ p * unat (xs ! p)"
  by (simp add: take_Suc_conv_app_nth val_append)

lemma B32_pow: "B32 ^ p = 2 ^ (32 * p)"
  by (simp add: power_mult)

lemma bits_loop_bounds:
  "pos \<le> length xs \<Longrightarrow>
     val (take pos xs) < 2 ^ bits_loop xs pos \<and> bits_loop xs pos \<le> 32 * pos \<and>
     (bits_loop xs pos = 0 \<longrightarrow> val (take pos xs) = 0) \<and>
     (0 < bits_loop xs pos \<longrightarrow> 2 ^ (bits_loop xs pos - 1) \<le> val (take pos xs))"
proof (induction pos)
  case (Suc p)
  then have p: "p < length xs" by simp
  note v = val_take_Suc [OF p]
  show ?case
  proof (cases "xs ! p = 0")
    case True
    with Suc v p show ?thesis by auto
  next
    case False
    let ?t = "top_bit (xs ! p) 31" and ?u = "unat (xs ! p)"
    have t: "0 < ?t" "?t \<le> 32" "2 ^ (?t - 1) \<le> ?u" "?u < 2 ^ ?t"
      using top_bit_bounds [OF False, of 31] by auto
    have lo: "2 ^ (32 * p + ?t - 1) \<le> val (take (Suc p) xs)"
    proof -
      have "32 * p + ?t - 1 = 32 * p + (?t - 1)" using t(1) by simp
      then have "(2 :: nat) ^ (32 * p + ?t - 1) = B32 ^ p * 2 ^ (?t - 1)" by (simp add: power_add B32_pow)
      also have "\<dots> \<le> B32 ^ p * ?u" using t(3) by (intro mult_le_mono2)
      finally show ?thesis using v by linarith
    qed
    have hi: "val (take (Suc p) xs) < 2 ^ (32 * p + ?t)"
    proof -
      have "val (take p xs) < B32 ^ p" using val_lt [of "take p xs"] p by simp
      then have "val (take (Suc p) xs) < B32 ^ p * Suc ?u" using v by simp
      also have "\<dots> \<le> B32 ^ p * 2 ^ ?t" using t(4) by (intro mult_le_mono2) simp
      finally show ?thesis by (simp add: power_add B32_pow)
    qed
    from False lo hi t show ?thesis by simp
  qed
qed simp

lemma bits256_bounds:
  assumes "length xs = WIDTH"
  shows "val xs < 2 ^ bits256 xs" "bits256 xs \<le> 256" "bits256 xs = 0 \<longleftrightarrow> val xs = 0"
    "0 < val xs \<Longrightarrow> 2 ^ (bits256 xs - 1) \<le> val xs"
  using bits_loop_bounds [of WIDTH xs] assms by (auto simp: bits256_def)

section \<open>Division\<close>

lemma bit_set_val:
  assumes "t div 32 < length pn"
  shows "val (pn[t div 32 := pn ! (t div 32) OR push_bit (t mod 32) 1]) = val pn OR 2 ^ t"
proof (rule bit_eqI)
  fix n :: nat
  have "bit (push_bit (t mod 32) (1 :: u32)) (n mod 32) \<longleftrightarrow> n mod 32 = t mod 32"
    by (auto simp: bit_exp_iff possible_bit_word)
  moreover have "n div 32 = t div 32 \<and> n mod 32 = t mod 32 \<longleftrightarrow> n = t"
    by (metis mult_div_mod_eq)
  ultimately show "bit (val (pn[t div 32 := pn ! (t div 32) OR push_bit (t mod 32) 1])) n \<longleftrightarrow> bit (val pn OR 2 ^ t) n"
    using assms by (auto simp: bit_val bit_or_update bit_or_iff bit_exp_iff)
qed

lemma or_exp_add: "2 ^ Suc t dvd q \<Longrightarrow> q OR 2 ^ t = q + 2 ^ t" for q t :: nat
proof -
  assume "2 ^ Suc t dvd q"
  then obtain c where "q = 2 ^ t * (2 * c)" by (auto simp: mult.assoc)
  then have "\<not> bit q t" by (simp add: bit_iff_odd)
  then have "q AND 2 ^ t = 0" by (simp add: and_exp_eq_0_iff_not_bit)
  then show ?thesis by (rule disjunctive_add_eq_or [symmetric])
qed

lemma quot_unique: "r < b \<Longrightarrow> (q * b + r) div b = q" for q b r :: nat
  by simp

lemma div_loop_correct:
  assumes "length num = WIDTH" "length dv = WIDTH" "length pn = WIDTH"
    and "n \<le> 256" "val dv = b * 2 ^ (n - 1)" "n = 0 \<longrightarrow> val num < b"
    and "val num < b * 2 ^ n" "2 ^ n dvd val pn" "0 < b"
    and "a = val num + b * val pn"
  shows "val (div_loop n num dv pn) = a div b"
  using assms
proof (induction n arbitrary: num dv pn)
  case 0
  then have "a = val pn * b + val num" "val num < b" by (simp_all add: mult.commute)
  then show ?case by (simp add: div_mult_self1)
next
  case (Suc t)
  let ?pn = "pn[t div 32 := pn ! (t div 32) OR push_bit (t mod 32) 1]"
  have t: "t div 32 < WIDTH" using Suc.prems(4) by simp
  have dv: "val dv = b * 2 ^ t" using Suc.prems(5) by simp
  have half: "val (shr256 dv 1) = b * 2 ^ (t - 1)" if "0 < t"
    using that dv Suc.prems(2) by (cases t) (simp_all add: val_shr)
  have dvd: "2 ^ t dvd val pn" using Suc.prems(8) by (metis power_le_dvd le_SucI order_refl)
  show ?case
  proof (cases "val dv \<le> val num")
    case True
    have sub: "val (sub256 num dv) = val num - val dv"
      using Suc.prems True by (intro val_sub_le) simp_all
    have pn: "val ?pn = val pn + 2 ^ t"
      using bit_set_val [of t pn] t Suc.prems(3) or_exp_add [OF Suc.prems(8)] by simp
    have cmp: "\<not> CompareTo num dv < 0" using True Suc.prems by (simp add: CompareTo_val)
    have lt: "val (sub256 num dv) < b * 2 ^ t" using sub Suc.prems(7) dv True by simp
    have "val (div_loop t (sub256 num dv) (shr256 dv 1) ?pn) = a div b"
    proof (cases "t = 0")
      case True
      with lt have "val (sub256 num dv) < b" by simp
      then have "(val ?pn * b + val (sub256 num dv)) div b = val ?pn" by (rule quot_unique)
      moreover have "a = val ?pn * b + val (sub256 num dv)"
        unfolding pn using Suc.prems(10) sub \<open>val dv \<le> val num\<close> dv True by (simp add: algebra_simps)
      ultimately show ?thesis using True by simp
    next
      case False
      show ?thesis
      proof (rule Suc.IH)
        show "val (shr256 dv 1) = b * 2 ^ (t - 1)" using half False by simp
        show "2 ^ t dvd val ?pn" using dvd pn by simp
        show "a = val (sub256 num dv) + b * val ?pn"
          using Suc.prems(10) sub True dv pn by (simp add: algebra_simps)
      qed (use Suc.prems lt False in simp_all)
    qed
    with cmp show ?thesis by simp
  next
    case False
    have cmp: "CompareTo num dv < 0" using False Suc.prems by (simp add: CompareTo_val)
    have lt: "val num < b * 2 ^ t" using False dv by simp
    have "val (div_loop t num (shr256 dv 1) pn) = a div b"
    proof (cases "t = 0")
      case True
      with lt have "val num < b" by simp
      with Suc.prems(10) True show ?thesis by (simp add: div_mult_self1 mult.commute)
    next
      case nz: False
      show ?thesis
        using Suc.prems half nz dvd lt by (intro Suc.IH) simp_all
    qed
    with cmp show ?thesis by simp
  qed
qed

lemma length_div_loop: "length pn = WIDTH \<Longrightarrow> length (div_loop n num dv pn) = WIDTH"
  by (induction n arbitrary: num dv pn) (auto simp: Let_def)

lemma length_div256: "div256 a b = Some q \<Longrightarrow> length q = WIDTH"
  by (auto simp: div256_def Let_def length_div_loop split: if_splits simp del: div_loop.simps)

lemma val_div:
  assumes "length a = WIDTH" "length b = WIDTH" "val b \<noteq> 0"
  shows "\<exists>q. div256 a b = Some q \<and> val q = val a div val b"
proof -
  note A = bits256_bounds [OF assms(1)] and B = bits256_bounds [OF assms(2)]
  have db: "bits256 b \<noteq> 0" using B(3) assms(3) by simp
  show ?thesis
  proof (cases "bits256 b > bits256 a")
    case True
    have "val a < 2 ^ bits256 a" by (rule A(1))
    also have "\<dots> \<le> 2 ^ (bits256 b - 1)" using True by (intro power_increasing) simp_all
    also have "\<dots> \<le> val b" using B(4) assms(3) by simp
    finally show ?thesis using db True by (simp add: div256_def)
  next
    case False
    let ?s = "bits256 a - bits256 b"
    have sum: "bits256 b + ?s = bits256 a" using False by simp
    have lt: "val b * 2 ^ ?s < 2 ^ bits256 a"
    proof -
      have "val b * 2 ^ ?s < 2 ^ bits256 b * 2 ^ ?s" using B(1) by simp
      also have "\<dots> = 2 ^ bits256 a" using sum by (simp flip: power_add)
      finally show ?thesis .
    qed
    also have "(2 :: nat) ^ bits256 a \<le> 2 ^ 256" using A(2) by (intro power_increasing) simp_all
    finally have dv: "val (shl256 b ?s) = val b * 2 ^ ?s"
      using assms(2) by (simp add: val_shl)
    have num: "val a < val b * 2 ^ Suc ?s"
    proof -
      have "val a < 2 ^ (bits256 b - 1 + Suc ?s)" using A(1) sum db by simp
      also have "\<dots> = 2 ^ (bits256 b - 1) * 2 ^ Suc ?s" by (rule power_add)
      also have "\<dots> \<le> val b * 2 ^ Suc ?s" using B(4) assms(3) by (intro mult_le_mono1) simp
      finally show ?thesis .
    qed
    have "Suc ?s \<le> 256" using A(2) db by simp
    with dv num have "val (div_loop (Suc ?s) a (shl256 b ?s) zero256) = val a div val b"
      using assms by (intro div_loop_correct) simp_all
    then show ?thesis using db False by (simp add: div256_def Let_def del: div_loop.simps)
  qed
qed

section \<open>Compact targets\<close>

lemma unat_and_mask23: "unat (c AND 0x007fffff :: u32) = unat c mod 8388608"
proof -
  have "c AND 0x007fffff = take_bit 23 c" by (simp add: take_bit_eq_mask mask_eq_decr_exp)
  then show ?thesis by (simp add: take_bit_eq_mod unat_mod)
qed

lemma unat_drop_bit: "unat (drop_bit k (c :: u32)) = unat c div 2 ^ k"
proof -
  have "unat (drop_bit k c) = drop_bit k (unat c)"
    by (rule bit_eqI) (simp add: bit_unsigned_iff bit_drop_bit_eq)
  then show ?thesis by (simp only: drop_bit_eq_div)
qed

lemma bit23: "(c AND 0x00800000 = (0 :: u32)) \<longleftrightarrow> even (unat c div 8388608)"
proof -
  have "(c AND 0x00800000 = (0 :: u32)) \<longleftrightarrow> \<not> bit c 23"
    using and_exp_eq_0_iff_not_bit [of c 23] by simp
  also have "bit c 23 \<longleftrightarrow> bit (unat c) 23" by (simp add: bit_unsigned_iff)
  finally show ?thesis by (simp add: bit_iff_odd)
qed

text \<open>The number a compact encoding denotes.\<close>

definition compact_value :: "nat \<Rightarrow> nat" where
  "compact_value c = (let n = c div 16777216; w = c mod 8388608 in
     if n \<le> 3 then w div 256 ^ (3 - n) else w * 256 ^ (n - 3))"

lemma SetCompact_parts:
  assumes "SetCompact c = (r, fNegative, fOverflow)"
  shows "length r = WIDTH" and "val r = compact_value (unat c) mod 2 ^ 256"
    and "fNegative \<longrightarrow> odd (unat c div 8388608)"
    and "fOverflow \<longleftrightarrow> (let n = unat c div 16777216; w = (if n \<le> 3 then unat c mod 8388608 div 256 ^ (3 - n)
           else unat c mod 8388608) in w \<noteq> 0 \<and> (n > 34 \<or> (w > 0xff \<and> n > 33) \<or> (w > 0xffff \<and> n > 32)))"
proof -
  let ?n = "unat c div 16777216" and ?w = "unat c mod 8388608"
  have n: "unat (drop_bit 24 c) = ?n" by (simp add: unat_drop_bit)
  define nWord where "nWord = (if ?n \<le> 3 then drop_bit (8 * (3 - ?n)) (c AND 0x007fffff) else c AND 0x007fffff)"
  have w: "unat nWord = (if ?n \<le> 3 then ?w div 256 ^ (3 - ?n) else ?w)"
    unfolding nWord_def
    by (simp add: unat_drop_bit unat_and_mask23 power_mult del: drop_bit_and)
  have r: "r = (if ?n \<le> 3 then from_u64 (ucast nWord) else shl256 (from_u64 (ucast nWord)) (8 * (?n - 3)))"
    and neg: "fNegative \<longleftrightarrow> nWord \<noteq> 0 \<and> c AND 0x00800000 \<noteq> 0"
    and ov: "fOverflow \<longleftrightarrow> nWord \<noteq> 0 \<and> (?n > 34 \<or> (nWord > 0xff \<and> ?n > 33) \<or> (nWord > 0xffff \<and> ?n > 32))"
    using assms unfolding SetCompact_def Let_def n nWord_def [symmetric] by auto
  show "length r = WIDTH" by (simp add: r)
  show "val r = compact_value (unat c) mod 2 ^ 256"
  proof (cases "?n \<le> 3")
    case True
    have "?w div 256 ^ (3 - ?n) < 2 ^ 256"
      by (rule le_less_trans [OF div_le_dividend]) (simp add: less_trans [OF mod_less_divisor])
    with True r w show ?thesis by (simp add: compact_value_def Let_def)
  next
    case False
    have "(2 :: nat) ^ (8 * (?n - 3)) = 256 ^ (?n - 3)" by (simp add: power_mult)
    with False r w show ?thesis by (simp add: val_shl compact_value_def Let_def)
  qed
  show "fNegative \<longrightarrow> odd (unat c div 8388608)" using neg bit23 [of c] by simp
  have nz: "nWord \<noteq> 0 \<longleftrightarrow> unat nWord \<noteq> 0" by (simp add: unat_eq_zero)
  have gt: "nWord > 0xff \<longleftrightarrow> unat nWord > 0xff" "nWord > 0xffff \<longleftrightarrow> unat nWord > 0xffff"
    by (simp_all add: word_less_nat_alt)
  show "fOverflow \<longleftrightarrow> (let n = unat c div 16777216; w = (if n \<le> 3 then unat c mod 8388608 div 256 ^ (3 - n)
           else unat c mod 8388608) in w \<noteq> 0 \<and> (n > 34 \<or> (w > 0xff \<and> n > 33) \<or> (w > 0xffff \<and> n > 32)))"
    unfolding ov nz gt w Let_def by simp
qed

lemma compact_no_overflow:
  assumes "SetCompact c = (r, fNegative, False)"
  shows "val r = compact_value (unat c)"
proof -
  let ?n = "unat c div 16777216" and ?w = "unat c mod 8388608"
  note p = SetCompact_parts [OF assms]
  have "compact_value (unat c) < 2 ^ 256"
  proof (cases "?n \<le> 3")
    case True
    then have "compact_value (unat c) \<le> ?w" by (simp add: compact_value_def Let_def)
    also have "?w < 2 ^ 256" by (rule less_trans [OF mod_less_divisor]) simp_all
    finally show ?thesis .
  next
    case False
    with p(4) have no: "?w = 0 \<or> (?n \<le> 34 \<and> (?n \<le> 33 \<or> ?w \<le> 0xff) \<and> (?n \<le> 32 \<or> ?w \<le> 0xffff))"
      by (auto simp: Let_def not_less)
    have v: "compact_value (unat c) = ?w * 2 ^ (8 * (?n - 3))"
      using False by (simp add: compact_value_def Let_def power_mult)
    have bound: "?w * 2 ^ (8 * (?n - 3)) < 2 ^ 256" if "?w < 2 ^ j" "?n - 3 \<le> i" "8 * i + j \<le> 256" for i j
    proof -
      have "?w * 2 ^ (8 * (?n - 3)) < 2 ^ j * 2 ^ (8 * (?n - 3))" using that(1) by simp
      also have "\<dots> \<le> 2 ^ j * 2 ^ (8 * i)" using that(2) by (intro mult_le_mono2 power_increasing) simp_all
      also have "\<dots> = 2 ^ (8 * i + j)" by (simp add: power_add)
      also have "\<dots> \<le> 2 ^ 256" using that(3) by (intro power_increasing) simp_all
      finally show ?thesis .
    qed
    have w: "?w < 2 ^ 23" by simp
    from no consider "?w = 0" | "?n \<le> 32" | "?n \<le> 33" "?w \<le> 0xffff" | "?n \<le> 34" "?w \<le> 0xff" by linarith
    then show ?thesis
    proof cases
      case 1 then show ?thesis using v by simp
    next
      case 2 then show ?thesis unfolding v by (intro bound [of 23 29]) (use w in simp_all)
    next
      case 3 then show ?thesis unfolding v by (intro bound [of 16 30]) simp_all
    next
      case 4 then show ?thesis unfolding v by (intro bound [of 8 31]) simp_all
    qed
  qed
  with p(2) show ?thesis by simp
qed

text \<open>\<^verbatim>\<open>GetCompact\<close> in numbers: the assertions hold, and the result packs a 23-bit mantissa and the
  byte count.\<close>

lemma unat_GetLow64:
  assumes "length a = WIDTH"
  shows "unat (GetLow64 a) = val a mod 2 ^ 64"
proof -
  have "unat (GetLow64 a) = take_bit 64 (val a)"
  proof (rule bit_eqI)
    fix n :: nat
    consider "n < 32" | "32 \<le> n" "n < 64" | "64 \<le> n" by linarith
    then show "bit (unat (GetLow64 a)) n \<longleftrightarrow> bit (take_bit 64 (val a)) n"
    proof cases
      case 1
      then show ?thesis using assms
        by (simp add: GetLow64_def bit_val bit_simps)
    next
      case 2
      then have "n div 32 = 1" "n mod 32 = n - 32" by (simp_all add: div_nat_eqI mod_nat_eqI)
      then show ?thesis using 2 assms bit_u32_lt [of "a ! 0" n]
        by (auto simp: GetLow64_def bit_val bit_simps)
    next
      case 3
      then have "\<not> bit (GetLow64 a) n" using bit_imp_le_length [of "GetLow64 a" n] by auto
      then show ?thesis using 3 by (simp add: bit_simps)
    qed
  qed
  then show ?thesis by (simp only: take_bit_eq_mod)
qed

lemma unat_pack:
  assumes "unat (x :: u32) < 8388608" "n < 256"
  shows "unat (x OR of_nat (n * 16777216)) = unat x + n * 16777216"
proof -
  have p: "(of_nat (n * 16777216) :: u32) = push_bit 24 (of_nat n)" by (simp add: push_bit_eq_mult)
  have low: "k < 23" if "bit x k" for k
  proof (rule ccontr)
    assume "\<not> k < 23"
    then have "unat x < 2 ^ k" using assms(1) power_increasing [of 23 k "2 :: nat"] by simp
    then have "\<not> bit (unat x) k" by (simp add: bit_iff_odd)
    with that bit_u32_lt [OF that] show False by (simp add: bit_unsigned_iff)
  qed
  have "x AND push_bit 24 (of_nat n) = 0"
    by (rule bit_eqI) (auto simp: bit_and_iff bit_push_bit_iff dest: low)
  then have "x OR of_nat (n * 16777216) = x + of_nat (n * 16777216)"
    unfolding p by (simp add: disjunctive_add_eq_or)
  moreover have "unat (of_nat (n * 16777216) :: u32) = n * 16777216"
    using assms(2) by (simp add: unat_of_nat del: of_nat_mult)
  moreover have "unat x + n * 16777216 < 2 ^ 32" using assms by simp
  ultimately show ?thesis by (simp add: unat_word_ariths del: of_nat_mult)
qed

text \<open>The mantissa before the sign-bit adjustment, for a number of \<open>n\<close> bytes.\<close>

definition top_bytes :: "nat \<Rightarrow> nat \<Rightarrow> nat" where
  "top_bytes n v = (if n \<le> 3 then v * 256 ^ (3 - n) else v div 256 ^ (n - 3))"

lemma byte_count:
  assumes "length a = WIDTH" and "n = (bits256 a + 7) div 8"
  shows "val a < 256 ^ n" and "val a \<noteq> 0 \<Longrightarrow> 256 ^ n \<le> 256 * val a" and "n \<le> 32"
proof -
  note b = bits256_bounds [OF assms(1)]
  have p: "(256 :: nat) ^ n = 2 ^ (8 * n)" by (simp add: power_mult)
  have "bits256 a \<le> 8 * n" using assms(2) by linarith
  then show "val a < 256 ^ n" unfolding p
    using b(1) power_increasing [of "bits256 a" "8 * n" "2 :: nat"] by linarith
  show "n \<le> 32" using assms(2) b(2) by linarith
  assume "val a \<noteq> 0"
  then have "2 ^ (bits256 a - 1) \<le> val a" "0 < bits256 a" using b(3,4) by auto
  moreover have "8 * n \<le> 8 + (bits256 a - 1)" using assms(2) \<open>0 < bits256 a\<close> by linarith
  then have "(2 :: nat) ^ (8 * n) \<le> 2 ^ (8 + (bits256 a - 1))" by (intro power_increasing) simp_all
  then have "(2 :: nat) ^ (8 * n) \<le> 256 * 2 ^ (bits256 a - 1)" by (simp only: power_add) simp
  ultimately show "256 ^ n \<le> 256 * val a" unfolding p by linarith
qed

lemma top_bytes_lt: "v < 256 ^ n \<Longrightarrow> top_bytes n v < 16777216"
proof (cases "n \<le> 3")
  case True
  assume "v < 256 ^ n"
  then have "v * 256 ^ (3 - n) < 256 ^ n * 256 ^ (3 - n)" by simp
  also have "\<dots> = 256 ^ 3" using True by (simp flip: power_add)
  finally show ?thesis using True by (simp add: top_bytes_def)
next
  case False
  assume "v < 256 ^ n"
  also have "(256 :: nat) ^ n = 256 ^ 3 * 256 ^ (n - 3)" using False power_add [of "256 :: nat" 3 "n - 3"] by simp
  finally show ?thesis using False by (simp add: top_bytes_def less_mult_imp_div_less)
qed

lemma unat_ucast_64_32: "unat (x :: u64) < B32 \<Longrightarrow> unat (ucast x :: u32) = unat x"
  by (simp add: unsigned_ucast_eq take_bit_nat_eq_self)

lemma top_bytes_word:
  assumes "length a = WIDTH" and "n = (bits256 a + 7) div 8"
  shows "unat (if n \<le> 3 then ucast (push_bit (8 * (3 - n)) (GetLow64 a))
               else ucast (GetLow64 (shr256 a (8 * (n - 3)))) :: u32) = top_bytes n (val a)"
proof -
  note lt = top_bytes_lt [OF byte_count(1) [OF assms]]
  have p: "(256 :: nat) ^ k = 2 ^ (8 * k)" for k by (simp add: power_mult)
  show ?thesis
  proof (cases "n \<le> 3")
    case True
    have "unat (push_bit (8 * (3 - n)) (GetLow64 a)) = (val a mod 2 ^ 64 * 256 ^ (3 - n)) mod 2 ^ 64"
      unfolding unsigned_push_bit_eq p by (simp add: push_bit_eq_mult take_bit_eq_mod unat_GetLow64 [OF assms(1)])
    also have "\<dots> = (val a * 256 ^ (3 - n)) mod 2 ^ 64" by (rule mod_mult_left_eq)
    also have "\<dots> = top_bytes n (val a)" using True lt by (simp add: top_bytes_def)
    finally show ?thesis unfolding if_P [OF True] using unat_ucast_64_32 lt by simp
  next
    case False
    have "unat (GetLow64 (shr256 a (8 * (n - 3)))) = (val a div 2 ^ (8 * (n - 3))) mod 2 ^ 64"
      using assms(1) by (simp add: unat_GetLow64 val_shr)
    also have "\<dots> = top_bytes n (val a)" using False lt by (simp add: top_bytes_def p)
    finally show ?thesis unfolding if_not_P [OF False] using unat_ucast_64_32 lt by simp
  qed
qed

lemma high_bits_clear: "unat (x :: u32) < 8388608 \<Longrightarrow> x AND NOT 0x007fffff = 0"
proof -
  assume lt: "unat x < 8388608"
  have m: "x AND 0x007fffff = x" by (rule word_unat_eq_iff [THEN iffD2]) (use lt in \<open>simp add: unat_and_mask23\<close>)
  have "(x AND y) AND NOT y = 0" for y by (rule bit_eqI) (simp add: bit_and_iff bit_not_iff)
  from this [of "0x007fffff"] show ?thesis unfolding m .
qed

lemma GetCompact_number:
  assumes a: "length a = WIDTH" and n: "n = (bits256 a + 7) div 8"
    and M: "M = top_bytes n (val a)"
  shows "\<exists>c. GetCompact a False = Some c \<and>
    unat c = (if 8388608 \<le> M then M div 256 + (n + 1) * 16777216 else M + n * 16777216)"
proof -
  define x where "x = (if n \<le> 3 then ucast (push_bit (8 * (3 - n)) (GetLow64 a))
               else ucast (GetLow64 (shr256 a (8 * (n - 3)))) :: u32)"
  have x: "unat x = M" unfolding x_def M by (rule top_bytes_word [OF a n])
  have lt: "M < 16777216" unfolding M by (rule top_bytes_lt [OF byte_count(1) [OF a n]])
  have n32: "n \<le> 32" by (rule byte_count(3) [OF a n])
  have "even (M div 8388608) \<longleftrightarrow> M div 8388608 = 0" using lt less_mult_imp_div_less [of M 2 8388608]
    by (auto simp: less_2_cases_iff)
  then have carry: "x AND 0x00800000 \<noteq> 0 \<longleftrightarrow> 8388608 \<le> M"
    unfolding bit23 x by (auto simp: div_eq_0_iff)
  define y where "y = (if 8388608 \<le> M then drop_bit 8 x else x)"
  define k where "k = (if 8388608 \<le> M then n + 1 else n)"
  have y: "unat y = (if 8388608 \<le> M then M div 256 else M)" by (simp add: y_def unat_drop_bit x)
  have ylt: "unat y < 8388608" unfolding y using lt by (auto intro: less_mult_imp_div_less)
  have "k < 256" using n32 by (simp add: k_def)
  have "GetCompact a False = Some (y OR of_nat (k * 16777216) OR 0)"
    unfolding GetCompact_def Let_def n [symmetric] x_def [symmetric] carry y_def [symmetric] k_def [symmetric]
    using high_bits_clear [OF ylt] \<open>k < 256\<close> by simp
  moreover have "unat (y OR of_nat (k * 16777216) OR 0) = unat y + k * 16777216"
    using unat_pack [OF ylt \<open>k < 256\<close>] by simp
  ultimately show ?thesis by (auto simp: y k_def)
qed

lemma pack_fields:
  fixes w n :: nat
  assumes "w < 8388608"
  shows "(w + n * 16777216) div 16777216 = n" "(w + n * 16777216) mod 8388608 = w"
    "(w + n * 16777216) div 8388608 = 2 * n"
proof -
  show "(w + n * 16777216) div 16777216 = n" using assms by simp
  have e: "w + n * 16777216 = w + (2 * n) * 8388608" by simp
  show "(w + n * 16777216) mod 8388608 = w" "(w + n * 16777216) div 8388608 = 2 * n"
    unfolding e mod_mult_self1 div_mult_self3 [OF numeral_neq_zero] using assms by simp_all
qed

text \<open>The value an encoding of \<open>v\<close> in \<open>n\<close> bytes denotes: \<open>v\<close> with its low bytes cleared.\<close>

lemma compact_value_top:
  assumes v: "v < 256 ^ n" and M: "M = top_bytes n v" and n: "n \<le> 32"
    and c: "c = (if 8388608 \<le> M then M div 256 + (n + 1) * 16777216 else M + n * 16777216)"
    and K: "K = (if 8388608 \<le> M then 256 ^ (n - 2) else 256 ^ (n - 3))"
  shows "compact_value c = v div K * K"
proof -
  have lt: "M < 16777216" unfolding M by (rule top_bytes_lt [OF v])
  show ?thesis
  proof (cases "8388608 \<le> M")
    case True
    have w: "M div 256 < 8388608" using lt by (auto intro: less_mult_imp_div_less)
    have cv: "compact_value c = (if n + 1 \<le> 3 then M div 256 div 256 ^ (3 - (n + 1)) else M div 256 * 256 ^ (n - 2))"
      unfolding c if_P [OF True] compact_value_def Let_def pack_fields [OF w] by simp
    consider "n \<le> 2" | "n = 3" | "3 < n" by linarith
    then show ?thesis
    proof cases
      case 1
      then have "M = v * 256 ^ (2 - n) * 256" by (simp add: M top_bytes_def Suc_diff_le numeral_3_eq_3 numeral_2_eq_2)
      with 1 True cv K show ?thesis by (simp add: numeral_3_eq_3 numeral_2_eq_2)
    next
      case 2 then show ?thesis using True cv K by (simp add: M top_bytes_def)
    next
      case 3
      then have "n - 2 = Suc (n - 3)" by simp
      then have "M div 256 = v div 256 ^ (n - 2)" using 3 
        by (simp add: M top_bytes_def div_mult2_eq [symmetric] mult.commute)
      with 3 True cv K show ?thesis by simp
    qed
  next
    case False
    then have w: "M < 8388608" by simp
    have "compact_value c = (if n \<le> 3 then M div 256 ^ (3 - n) else M * 256 ^ (n - 3))"
      unfolding c if_not_P [OF False] compact_value_def Let_def pack_fields [OF w] by simp
    then show ?thesis using False K by (simp add: M top_bytes_def)
  qed
qed

text \<open>The cleared bytes are a small part of the number.\<close>

lemma top_bytes_precision:
  assumes v: "256 ^ n \<le> 256 * v" "v \<noteq> 0" and M: "M = top_bytes n v"
    and K: "K = (if 8388608 \<le> M then 256 ^ (n - 2) else 256 ^ (n - 3))"
  shows "(v mod K) * 32768 < v"
proof (cases "K = 1")
  case True
  with v(2) show ?thesis by simp
next
  case False
  have "K * 32768 \<le> v"
  proof (cases "8388608 \<le> M")
    case True
    with False K have "2 < n" by (cases "n - 2") auto
    then have k: "K = 256 * 256 ^ (n - 3)" using True K by (simp flip: power_Suc add: Suc_diff_Suc numeral_3_eq_3 numeral_2_eq_2)
    have "M * 256 ^ (n - 3) \<le> v" using \<open>2 < n\<close> by (simp add: M top_bytes_def)
    moreover have "8388608 * 256 ^ (n - 3) \<le> M * 256 ^ (n - 3)" using True by simp
    ultimately show ?thesis unfolding k by linarith
  next
    case nc: False
    with False K have "3 < n" by (cases "n - 3") auto
    then have "n = Suc (Suc (Suc (n - 3)))" by simp
    then have "256 ^ n = 256 * 256 * 256 * (256 :: nat) ^ (n - 3)"
      by (metis mult.assoc power_Suc)
    with v(1) nc K show ?thesis by simp
  qed
  moreover have "v mod K < K" using K by (intro mod_less_divisor) simp
  ultimately show ?thesis by linarith
qed

lemma GetCompact_SetCompact:
  assumes a: "length a = WIDTH"
  shows "\<exists>c r K. GetCompact a False = Some c \<and> SetCompact c = (r, False, False)
    \<and> val r = val a div K * K \<and> (val a \<noteq> 0 \<longrightarrow> (val a mod K) * 32768 < val a)"
proof -
  define n where "n = (bits256 a + 7) div 8"
  define M where "M = top_bytes n (val a)"
  define K :: nat where "K = (if 8388608 \<le> M then 256 ^ (n - 2) else 256 ^ (n - 3))"
  note bc = byte_count [OF a n_def]
  have lt: "M < 16777216" unfolding M_def by (rule top_bytes_lt [OF bc(1)])
  obtain c where c: "GetCompact a False = Some c"
    and u: "unat c = (if 8388608 \<le> M then M div 256 + (n + 1) * 16777216 else M + n * 16777216)"
    using GetCompact_number [OF a n_def M_def] by blast
  obtain r neg ov where s: "SetCompact c = (r, neg, ov)" by (metis prod_cases3)
  note parts = SetCompact_parts [OF s]
  define w k where "w = (if 8388608 \<le> M then M div 256 else M)" and "k = (if 8388608 \<le> M then n + 1 else n)"
  have w: "w < 8388608" using lt by (auto simp: w_def intro: less_mult_imp_div_less)
  have uk: "unat c = w + k * 16777216" by (simp add: u w_def k_def)
  have "\<not> neg" using parts(3) unfolding uk pack_fields [OF w] by simp
  moreover have "k \<le> 33" "k = 33 \<Longrightarrow> w < 65536"
    using bc(3) lt by (auto simp: k_def w_def intro: less_mult_imp_div_less)
  then have "\<not> ov" using parts(4) unfolding uk pack_fields [OF w] Let_def by (auto split: if_splits)
  ultimately have s': "SetCompact c = (r, False, False)" using s by simp
  have "val r = val a div K * K"
    unfolding compact_no_overflow [OF s'] by (rule compact_value_top [OF bc(1) M_def bc(3) u K_def])
  moreover have "val a \<noteq> 0 \<longrightarrow> (val a mod K) * 32768 < val a"
    using top_bytes_precision [OF bc(2) _ M_def K_def] by simp
  ultimately show ?thesis using c s' by blast
qed

section \<open>Comparison with a 64-bit number and conversion to bytes\<close>

lemma limbs2: "length a = WIDTH \<Longrightarrow> a = a ! 0 # a ! 1 # drop 2 a"
  by (cases a; cases "tl a") auto

lemma digits_unique:
  fixes x y r b :: nat
  assumes "x < B" "y < B" "b < B * B"
  shows "x + B * (y + B * r) = b \<longleftrightarrow> r = 0 \<and> y = b div B \<and> x = b mod B"
proof
  assume e: "x + B * (y + B * r) = b"
  have "B * B * r \<le> b" using e by (simp add: algebra_simps flip: e)
  then have "B * B * r < B * B * 1" using assms(3) by linarith
  then have "r = 0" by (simp only: mult_less_cancel1) simp
  with e assms(1) show "r = 0 \<and> y = b div B \<and> x = b mod B" by auto
next
  assume "r = 0 \<and> y = b div B \<and> x = b mod B"
  then show "x + B * (y + B * r) = b" by simp
qed

lemma EqualTo_val:
  assumes "length a = WIDTH"
  shows "EqualTo a b \<longleftrightarrow> val a = unat b"
proof -
  have u1: "ucast (a ! 1) = drop_bit 32 b \<longleftrightarrow> unat (a ! 1) = unat b div B32"
    by (metis unat_high32 unat_ucast_32_64 word_unat_eq_iff)
  have "unat (b AND 0xffffffff) = unat b mod B32"
  proof -
    have "b AND 0xffffffff = take_bit 32 b" by (simp add: take_bit_eq_mask mask_eq_decr_exp)
    then show ?thesis by (simp add: take_bit_eq_mod unat_mod)
  qed
  then have u0: "ucast (a ! 0) = b AND 0xffffffff \<longleftrightarrow> unat (a ! 0) = unat b mod B32"
    by (metis unat_ucast_32_64 word_unat_eq_iff)
  have "val a = unat (a ! 0) + B32 * (unat (a ! 1) + B32 * val (drop 2 a))"
    by (subst limbs2 [OF assms]) simp
  moreover have "unat b < B32 * B32" using unat_u64_lt [of b] by simp
  ultimately have "val a = unat b \<longleftrightarrow> val (drop 2 a) = 0 \<and> unat (a ! 1) = unat b div B32 \<and> unat (a ! 0) = unat b mod B32"
    using digits_unique [of "unat (a ! 0)" B32 "unat (a ! 1)" "unat b" "val (drop 2 a)"] by simp
  then show ?thesis unfolding EqualTo_def u0 u1 val_eq_0 by auto
qed

lemma drop_concat_chunks:
  assumes "\<And>x. length (f x) = 4" "x \<le> n"
  shows "drop (x * 4) (concat (map f [0..<n])) = concat (map f [x..<n])"
proof -
  have l: "length (concat (map f [0..<x])) = x * 4" by (induction x) (simp_all add: assms(1))
  have "[0..<n] = [0..<x] @ [x..<n]" using assms(2) by (metis le0 le_iff_add upt_add_eq_append)
  then show ?thesis using l by simp
qed

lemma UintToArith256_ArithToUint256:
  assumes "length a = WIDTH"
  shows "UintToArith256 (ArithToUint256 a) = a" and "length (ArithToUint256 a) = 32"
proof -
  let ?f = "\<lambda>x. WriteLE32 (unat (a ! x))"
  have "of_nat (ReadLE32 (drop (x * 4) (ArithToUint256 a))) = a ! x" if "x < WIDTH" for x
  proof -
    have "drop (x * 4) (ArithToUint256 a) = concat (map ?f [x..<WIDTH])"
      unfolding ArithToUint256_def using that by (intro drop_concat_chunks) simp_all
    also have "\<dots> = ?f x @ concat (map ?f [Suc x..<WIDTH])" using that by (simp add: upt_conv_Cons)
    finally have "ReadLE32 (drop (x * 4) (ArithToUint256 a)) = unat (a ! x)" 
      using unat_u32_lt [of "a ! x"] by (simp only: ReadLE_WriteLE(2))
    then show ?thesis by simp
  qed
  then show "UintToArith256 (ArithToUint256 a) = a"
    unfolding UintToArith256_def using assms by (intro nth_equalityI) simp_all
  show "length (ArithToUint256 a) = 32"
    by (simp add: ArithToUint256_def upt_rec)
qed

section \<open>The interface of 256-bit arithmetic\<close>

text \<open>What the chain's computations use of \<^verbatim>\<open>arith_uint256\<close>: numbers below a modulus with complement,
  addition, division and comparison.\<close>

locale uint_arith =
  fixes valid :: "'a \<Rightarrow> bool" and num :: "'a \<Rightarrow> nat" and modulus :: nat
    and bnot :: "'a \<Rightarrow> 'a" and add :: "'a \<Rightarrow> 'a \<Rightarrow> 'a" and one :: 'a
    and dv :: "'a \<Rightarrow> 'a \<Rightarrow> 'a option"
  assumes num_lt: "valid a \<Longrightarrow> num a < modulus"
    and valid_one: "valid one" and num_one: "num one = 1"
    and valid_bnot: "valid a \<Longrightarrow> valid (bnot a)"
    and num_bnot: "valid a \<Longrightarrow> num (bnot a) + num a + 1 = modulus"
    and valid_add: "valid a \<Longrightarrow> valid b \<Longrightarrow> valid (add a b)"
    and num_add: "valid a \<Longrightarrow> valid b \<Longrightarrow> num (add a b) = (num a + num b) mod modulus"
    and div_ok: "valid a \<Longrightarrow> valid b \<Longrightarrow> num b \<noteq> 0 \<Longrightarrow>
      \<exists>q. dv a b = Some q \<and> valid q \<and> num q = num a div num b"
begin

text \<open>\<open>2^256 / (t + 1)\<close> without representing \<open>2^256\<close>.\<close>

lemma complement_division:
  assumes t: "valid t" "num t \<noteq> 0" "num t + 1 < modulus"
  shows "\<exists>q. dv (bnot t) (add t one) = Some q \<and> valid (add q one)
    \<and> num (add q one) = modulus div (num t + 1)"
proof -
  have n1: "num (add t one) = num t + 1" using t by (simp add: num_add valid_one num_one)
  obtain q where q: "dv (bnot t) (add t one) = Some q" "valid q" "num q = num (bnot t) div (num t + 1)"
    using div_ok [OF valid_bnot [OF t(1)] valid_add [OF t(1) valid_one]] n1 by auto
  have m: "modulus = num (bnot t) + (num t + 1)" using num_bnot [OF t(1)] by simp
  have e: "modulus div (num t + 1) = num q + 1" unfolding q(3) by (subst m, subst div_add_self2) simp_all
  have "modulus div (num t + 1) \<le> modulus div 2" using t(2) by (intro div_le_mono2) simp_all
  moreover have "modulus div 2 < modulus" using t(3) by simp
  ultimately have "num q + 1 < modulus" unfolding e by linarith
  then have "num (add q one) = modulus div (num t + 1)"
    using q(2) e by (simp add: num_add valid_one num_one)
  with q valid_add [OF q(2) valid_one] show ?thesis by blast
qed

end

interpretation u256: uint_arith "\<lambda>a. length a = WIDTH" val "2 ^ 256" not256 add256 "from_u64 1" div256
proof
  fix a b :: limbs
  have p: "B32 ^ WIDTH = 2 ^ 256" by simp
  assume a: "length a = WIDTH"
  show "val a < 2 ^ 256" using val_lt [of a] by (simp add: a)
  show "length (not256 a) = WIDTH" using a by simp
  show "val (not256 a) + val a + 1 = 2 ^ 256" using val_not256 [of a] by (simp add: a)
  assume b: "length b = WIDTH"
  show "length (add256 a b) = WIDTH" using a b by simp
  show "val (add256 a b) = (val a + val b) mod 2 ^ 256" using val_add [of a b] a b p by simp
  assume "val b \<noteq> 0"
  then show "\<exists>q. div256 a b = Some q \<and> length q = WIDTH \<and> val q = val a div val b"
    using val_div [OF a b] length_div256 by blast
qed simp_all

section \<open>Properties\<close>

text \<open>C22: the limb-by-limb operations of \<^verbatim>\<open>arith_uint256\<close> compute on the numbers the limbs denote: sum,
  difference and product modulo \<open>2^256\<close>, the shifts as multiplication and division by a power of two, and
  the comparisons as the order and equality of numbers.\<close>

theorem arith256_refines_numbers:
  assumes "length a = WIDTH" "length b = WIDTH"
  shows "val (add256 a b) = (val a + val b) mod 2 ^ 256
    \<and> val (sub256 a b) = (val a + (2 ^ 256 - val b)) mod 2 ^ 256
    \<and> val (mul256 a b) = (val a * val b) mod 2 ^ 256
    \<and> val (shl256 a s) = (val a * 2 ^ s) mod 2 ^ 256
    \<and> val (shr256 a s) = val a div 2 ^ s
    \<and> CompareTo a b = (if val a < val b then -1 else if val b < val a then 1 else 0)
    \<and> (EqualTo a n \<longleftrightarrow> val a = unat n)"
proof -
  have p: "B32 ^ WIDTH = 2 ^ 256" by simp
  have "val (add256 a b) = (val a + val b) mod 2 ^ 256"
    "val (sub256 a b) = (val a + (2 ^ 256 - val b)) mod 2 ^ 256"
    "val (mul256 a b) = (val a * val b) mod 2 ^ 256"
    using val_add [of a b] val_sub [of a b] val_mul [of a b] assms p by simp_all
  moreover have "val (shl256 a s) = (val a * 2 ^ s) mod 2 ^ 256" "val (shr256 a s) = val a div 2 ^ s"
    using assms by (simp_all only: val_shl val_shr)
  moreover have "CompareTo a b = (if val a < val b then -1 else if val b < val a then 1 else 0)"
    using assms by (simp add: CompareTo_val)
  ultimately show ?thesis using EqualTo_val [OF assms(1)] by blast
qed

theorem arith256_refines_numbers_witness:
  "length (from_u64 7) = WIDTH \<and> val (sub256 (from_u64 5) (from_u64 7)) = 2 ^ 256 - 2"
  using arith256_refines_numbers [of "from_u64 5" "from_u64 7"] by simp

text \<open>C12: division never loops and never returns a wrong quotient: it throws exactly on a zero divisor and
  otherwise gives the integer quotient.\<close>

theorem div256_correct:
  assumes "length a = WIDTH" "length b = WIDTH"
  shows "if val b = 0 then div256 a b = None
         else \<exists>q. div256 a b = Some q \<and> length q = WIDTH \<and> val q = val a div val b"
proof (cases "val b = 0")
  case True
  then show ?thesis using bits256_bounds(3) [OF assms(2)] by (simp add: div256_def)
next
  case False
  then show ?thesis using val_div [OF assms False] length_div256 by auto
qed

theorem div256_correct_witness:
  "length (from_u64 100) = WIDTH \<and> (\<exists>q. div256 (from_u64 100) (from_u64 7) = Some q \<and> val q = 14)"
  using div256_correct [of "from_u64 100" "from_u64 7"] by auto

text \<open>C23: encoding a target as \<^verbatim>\<open>nBits\<close> never trips an assertion, never sets the sign or overflow
  condition, and decoding gives the target rounded down, with a loss below one part in 32768.\<close>

theorem compact_roundtrip:
  assumes "length a = WIDTH" "val a \<noteq> 0"
  shows "\<exists>c r. GetCompact a False = Some c \<and> SetCompact c = (r, False, False)
    \<and> val r \<le> val a \<and> (val a - val r) * 32768 < val a"
proof -
  obtain c r K where g: "GetCompact a False = Some c" "SetCompact c = (r, False, False)"
    and v: "val r = val a div K * K" and l: "(val a mod K) * 32768 < val a"
    using GetCompact_SetCompact [OF assms(1)] assms(2) by blast
  have "val a - val r = val a mod K" unfolding v by (simp add: minus_div_mult_eq_mod)
  then show ?thesis using g v l by (metis div_times_less_eq_dividend)
qed

theorem compact_roundtrip_witness:
  "length (from_u64 0x123456789) = WIDTH \<and> (\<exists>c. GetCompact (from_u64 0x123456789) False = Some c)"
  using compact_roundtrip [of "from_u64 0x123456789"] by auto

end
