(* ===== verification/MFC_ChainProps.thy ===== *)
theory MFC_ChainProps
  imports MFC_Chain MFC_Arith256Props "HOL-Library.Multiset"
begin

unbundle bit_operations_syntax

text \<open>
  The block index is a well-formed tree; in such a tree the skip list finds the same ancestor as walking
  parent by parent, the active chain is exactly the path from its tip to the genesis block, the fork
  point is the last common block, median time past never goes back, and block trust is
  \<open>2^256 / (target + 1)\<close>.
\<close>

section \<open>Well-formed block trees\<close>

text \<open>The entry reached after \<open>n\<close> steps to the parent.\<close>

fun up :: "heap \<Rightarrow> nat \<Rightarrow> ptr \<Rightarrow> ptr" where
  "up H 0 p = p"
| "up H (Suc n) p = up H n (the (pprev (H p)))"

definition hgt :: "heap \<Rightarrow> ptr \<Rightarrow> nat" where
  "hgt H p = nat (nHeight (H p))"

text \<open>Parents are entries of the index one lower, only height 0 has none, and a skip pointer points to
  the ancestor at the skip height.\<close>

definition wf_entry :: "heap \<Rightarrow> ptr set \<Rightarrow> ptr \<Rightarrow> bool" where
  "wf_entry H B p \<longleftrightarrow>
     0 \<le> nHeight (H p)
     \<and> (case pprev (H p) of
          None \<Rightarrow> nHeight (H p) = 0
        | Some q \<Rightarrow> q \<in> B \<and> nHeight (H p) = nHeight (H q) + 1)
     \<and> (case pskip (H p) of
          None \<Rightarrow> True
        | Some s \<Rightarrow> s = up H (nat (nHeight (H p) - GetSkipHeight (nHeight (H p)))) p)"

definition wf_index :: "heap \<Rightarrow> ptr set \<Rightarrow> bool" where
  "wf_index H B \<longleftrightarrow> (\<forall>p \<in> B. wf_entry H B p)"

lemma up_add: "up H (m + n) p = up H n (up H m p)"
  by (induction m arbitrary: p) auto

lemma nHeight_hgt: "wf_index H B \<Longrightarrow> p \<in> B \<Longrightarrow> nHeight (H p) = int (hgt H p)"
  by (auto simp: wf_index_def wf_entry_def hgt_def)

lemma wf_entryD: "wf_index H B \<Longrightarrow> p \<in> B \<Longrightarrow> wf_entry H B p"
  by (simp add: wf_index_def)

lemma wf_index_closed:
  assumes "wf_index H B'" "B \<subseteq> B'" "\<And>p q. p \<in> B \<Longrightarrow> pprev (H p) = Some q \<Longrightarrow> q \<in> B"
  shows "wf_index H B"
  unfolding wf_index_def
proof
  fix p assume p: "p \<in> B"
  with assms(1,2) have "wf_entry H B' p" by (auto simp: wf_index_def)
  then show "wf_entry H B p" using assms(3) [OF p] by (cases "pprev (H p)") (simp_all add: wf_entry_def)
qed

lemma wf_prev_cases:
  assumes "wf_index H B" "p \<in> B"
  obtains (genesis) "pprev (H p) = None" "hgt H p = 0"
    | (child) q where "pprev (H p) = Some q" "q \<in> B" "hgt H p = Suc (hgt H q)"
proof (cases "pprev (H p)")
  case None
  with wf_entryD [OF assms] show ?thesis by (intro genesis) (simp_all add: wf_entry_def hgt_def)
next
  case (Some q)
  with wf_entryD [OF assms] have q: "q \<in> B" "nHeight (H p) = nHeight (H q) + 1" by (simp_all add: wf_entry_def)
  have "hgt H p = Suc (hgt H q)"
    using q(2) nHeight_hgt [OF assms(1) q(1)] nHeight_hgt [OF assms] by linarith
  with Some q(1) show ?thesis by (rule child)
qed

lemma wf_parent:
  assumes "wf_index H B" "p \<in> B" "hgt H p = Suc n"
  obtains q where "pprev (H p) = Some q" "q \<in> B" "hgt H q = n"
  using wf_prev_cases [OF assms(1,2)] assms(3) by auto

lemma wf_genesis: "wf_index H B \<Longrightarrow> p \<in> B \<Longrightarrow> pprev (H p) = None \<longleftrightarrow> hgt H p = 0"
  by (erule wf_prev_cases) auto

lemma up_in:
  assumes "wf_index H B" "p \<in> B" "n \<le> hgt H p"
  shows "up H n p \<in> B" and "hgt H (up H n p) = hgt H p - n"
proof -
  have "up H n p \<in> B \<and> hgt H (up H n p) = hgt H p - n" using assms(2,3)
  proof (induction n arbitrary: p)
    case (Suc n)
    then obtain q where "pprev (H p) = Some q" "q \<in> B" "hgt H q = hgt H p - 1"
      using wf_parent [OF assms(1), of p "hgt H p - 1"] by (metis Suc_le_D diff_Suc_1)
    with Suc show ?case by simp
  qed simp
  then show "up H n p \<in> B" "hgt H (up H n p) = hgt H p - n" by auto
qed

section \<open>Ancestors\<close>

lemma ancestor_walk_up:
  assumes wf: "wf_index H B"
  shows "p \<in> B \<Longrightarrow> height \<le> hgt H p \<Longrightarrow>
    ancestor_walk H height p (int (hgt H p)) = Some (up H (hgt H p - height) p)"
proof (induction "hgt H p" arbitrary: p rule: less_induct)
  case less
  note step = ancestor_walk.simps [of H height p "int (hgt H p)"]
  show ?case
  proof (cases "hgt H p = height")
    case True
    then show ?thesis by (subst step) simp
  next
    case False
    with less.prems have gt: "height < hgt H p" by simp
    then obtain q where q: "pprev (H p) = Some q" "q \<in> B" "hgt H q = hgt H p - 1"
      using wf_parent [OF wf less.prems(1), of "hgt H p - 1"] by auto
    have bq: "height \<le> hgt H q" using gt q(3) by simp
    have prev: "ancestor_walk H height q (int (hgt H p) - 1) = Some (up H (hgt H p - height) p)"
    proof -
      have "int (hgt H p) - 1 = int (hgt H q)" using gt q(3) by simp
      moreover have "up H (hgt H q - height) q = up H (hgt H p - height) p"
      proof -
        have "hgt H p - height = Suc (hgt H q - height)" using gt q(3) by simp
        then show ?thesis using q(1) by simp
      qed
      ultimately show ?thesis using less.hyps [OF _ q(2) bq] gt q(3) by simp
    qed
    let ?hs = "GetSkipHeight (int (hgt H p))"
    have hs: "0 \<le> ?hs" "?hs < int (hgt H p)" using GetSkipHeight_bounds [of "int (hgt H p)"] gt by auto
    have skip: "ancestor_walk H height s ?hs = Some (up H (hgt H p - height) p)"
      if s: "pskip (H p) = Some s" and ge: "?hs \<ge> int height" for s
    proof -
      let ?k = "nat (int (hgt H p) - ?hs)"
      have e: "s = up H ?k p" using wf less.prems(1) s nHeight_hgt [OF wf less.prems(1)]
        by (auto simp: wf_index_def wf_entry_def)
      have k: "?k \<le> hgt H p" using hs by linarith
      have b: "s \<in> B" "hgt H s = hgt H p - ?k" unfolding e using up_in [OF wf less.prems(1) k] by auto
      then have hgt: "int (hgt H s) = ?hs" using hs by linarith
      then have lt: "hgt H s < hgt H p" "height \<le> hgt H s" using hs ge by linarith+
      have "up H (hgt H s - height) s = up H (?k + (hgt H s - height)) p" by (simp add: up_add e)
      also have "?k + (hgt H s - height) = hgt H p - height" using b(2) k lt by linarith
      finally show ?thesis using less.hyps [OF lt(1) b(1) lt(2)] hgt by simp
    qed
    show ?thesis
      by (subst step) (use gt q(1) prev skip in \<open>auto simp: Let_def\<close>)
  qed
qed

lemma GetAncestor_up:
  assumes "wf_index H B" "p \<in> B"
  shows "GetAncestor H p height =
    Some (if height < 0 \<or> height > nHeight (H p) then None else Some (up H (nat (nHeight (H p) - height)) p))"
proof (cases "height < 0 \<or> height > nHeight (H p)")
  case True
  then show ?thesis by (auto simp: GetAncestor_def)
next
  case False
  have h: "nHeight (H p) = int (hgt H p)" by (rule nHeight_hgt [OF assms])
  have "nat height \<le> hgt H p" using False h by linarith
  from ancestor_walk_up [OF assms this] have
    "ancestor_walk H (nat height) p (nHeight (H p)) = Some (up H (hgt H p - nat height) p)" by (simp add: h)
  moreover have "nat (nHeight (H p) - height) = hgt H p - nat height" using False h by linarith
  ultimately show ?thesis using False by (auto simp: GetAncestor_def)
qed

section \<open>The active chain\<close>

text \<open>The path from the genesis block to \<open>p\<close>, by height.\<close>

fun path :: "heap \<Rightarrow> nat \<Rightarrow> ptr \<Rightarrow> ptr list" where
  "path H 0 p = [p]"
| "path H (Suc n) p = path H n (the (pprev (H p))) @ [p]"

definition chain_to :: "heap \<Rightarrow> ptr \<Rightarrow> CChain" where
  "chain_to H p = map Some (path H (hgt H p) p)"

lemma length_path [simp]: "length (path H n p) = Suc n"
  by (induction n arbitrary: p) auto

lemma nth_path: "k \<le> n \<Longrightarrow> path H n p ! k = up H (n - k) p"
proof (induction n arbitrary: p)
  case (Suc n)
  show ?case
  proof (cases "k = Suc n")
    case False
    with Suc have "k \<le> n" by simp
    with Suc.IH [OF this] show ?thesis by (simp add: nth_append Suc_diff_le)
  qed (simp add: nth_append)
qed simp

lemma length_chain_to [simp]: "length (chain_to H p) = Suc (hgt H p)"
  by (simp add: chain_to_def)

lemma nth_chain_to: "k \<le> hgt H p \<Longrightarrow> chain_to H p ! k = Some (up H (hgt H p - k) p)"
  by (simp add: chain_to_def nth_path)

text \<open>A vector agrees up to height \<open>h\<close> with the paths of the entries it holds.\<close>

definition consistent :: "heap \<Rightarrow> ptr set \<Rightarrow> CChain \<Rightarrow> nat \<Rightarrow> bool" where
  "consistent H B v h \<longleftrightarrow>
     (\<forall>k \<le> h. \<forall>q. v ! k = Some q \<longrightarrow> q \<in> B \<and> hgt H q = k \<and> (\<forall>j \<le> k. v ! j = Some (up H (k - j) q)))"

lemma consistent_take:
  assumes "consistent H B v h" "h < length v" "v ! h = Some p"
  shows "take (Suc h) v = chain_to H p"
proof -
  have c: "hgt H p = h" "\<forall>j \<le> h. v ! j = Some (up H (h - j) p)" using assms by (auto simp: consistent_def)
  show ?thesis using c assms(2) by (intro nth_equalityI) (auto simp: nth_chain_to less_Suc_eq_le)
qed

lemma consistent_update:
  assumes "consistent H B v (Suc n)"
  shows "consistent H B (v[Suc n := x]) n"
  unfolding consistent_def
proof (intro allI impI)
  fix k q
  assume k: "k \<le> n" and "v[Suc n := x] ! k = Some q"
  then have "v ! k = Some q" by simp
  with assms k have c: "q \<in> B" "hgt H q = k" "\<And>j. j \<le> k \<Longrightarrow> v ! j = Some (up H (k - j) q)"
    unfolding consistent_def by (blast intro: le_SucI)+
  show "q \<in> B \<and> hgt H q = k \<and> (\<forall>j \<le> k. v[Suc n := x] ! j = Some (up H (k - j) q))"
  proof (intro conjI allI impI)
    fix j assume "j \<le> k"
    with k have "v[Suc n := x] ! j = v ! j" by simp
    with c(3) [OF \<open>j \<le> k\<close>] show "v[Suc n := x] ! j = Some (up H (k - j) q)" by simp
  qed (fact c)+
qed

lemma SetTip_loop_path:
  assumes wf: "wf_index H B"
  shows "p \<in> B \<Longrightarrow> hgt H p < length v \<Longrightarrow> consistent H B v (hgt H p) \<Longrightarrow>
    SetTip_loop H (Some p) v = Some (chain_to H p @ drop (Suc (hgt H p)) v)"
proof (induction "hgt H p" arbitrary: p v)
  case 0
  then have h: "nHeight (H p) = 0" "hgt H p = 0" using nHeight_hgt [OF wf] by auto
  have prev: "pprev (H p) = None" using wf_genesis [OF wf 0(2)] h by simp
  have c: "chain_to H p = [Some p]" by (simp add: chain_to_def h)
  have "v = v ! 0 # drop 1 v" using 0(3) by (cases v) auto
  then have "v[0 := Some p] = Some p # drop 1 v" by (metis list_update_code(2))
  moreover have "v ! 0 = Some p \<Longrightarrow> v[0 := Some p] = v" by (metis list_update_id)
  then have "SetTip_loop H (Some p) v = Some (v[0 := Some p])"
    using 0(3) h prev
    by (cases "v ! 0 = Some p") (auto simp: SetTip_loop.simps [of H "Some p"] SetTip_loop.simps [of H None])
  ultimately show ?case using c h by simp
next
  case (Suc n)
  then obtain q where q: "pprev (H p) = Some q" "q \<in> B" "hgt H q = n" using wf_parent [OF wf, of p n] by metis
  have h: "nHeight (H p) = int (Suc n)" "hgt H p = Suc n" using nHeight_hgt [OF wf Suc.prems(1)] Suc.hyps(2) by auto
  have cp: "chain_to H p = chain_to H q @ [Some p]" using q h by (simp add: chain_to_def)
  show ?case
  proof (cases "v ! Suc n = Some p")
    case True
    then have "SetTip_loop H (Some p) v = Some v"
      using Suc.prems(2) h by (simp add: SetTip_loop.simps [of H "Some p"] Let_def nat_add_distrib)
    moreover have "v = chain_to H p @ drop (Suc (hgt H p)) v"
      using consistent_take [of H B v "Suc n" p] True Suc.prems h by (metis append_take_drop_id)
    ultimately show ?thesis by simp
  next
    case False
    let ?v = "v[Suc n := Some p]"
    have "SetTip_loop H (Some p) v = SetTip_loop H (Some q) ?v"
      using Suc.prems(2) h q(1) False by (simp add: SetTip_loop.simps [of H "Some p"] Let_def nat_add_distrib)
    also have "\<dots> = Some (chain_to H q @ drop (Suc (hgt H q)) ?v)"
    proof (rule Suc.hyps(1))
      show "consistent H B ?v (hgt H q)" unfolding q(3)
        by (rule consistent_update) (use Suc.prems(3) h(2) in simp)
    qed (use q Suc.prems h in simp_all)
    also have "drop (Suc (hgt H q)) ?v = Some p # drop (Suc (Suc n)) v"
      using Suc.prems(2) h q(3) by (simp add: Cons_nth_drop_Suc [symmetric])
    finally show ?thesis using cp h by simp
  qed
qed

definition is_chain :: "heap \<Rightarrow> ptr set \<Rightarrow> CChain \<Rightarrow> bool" where
  "is_chain H B v \<longleftrightarrow> v = [] \<or> (\<exists>t \<in> B. v = chain_to H t)"

lemma is_chain_nth:
  assumes "wf_index H B" "is_chain H B v" "k < length v"
  obtains q where "v ! k = Some q" "q \<in> B" "hgt H q = k" "\<And>j. j \<le> k \<Longrightarrow> v ! j = Some (up H (k - j) q)"
proof -
  from assms obtain t where t: "t \<in> B" "v = chain_to H t" "k \<le> hgt H t" by (auto simp: is_chain_def less_Suc_eq_le)
  let ?q = "up H (hgt H t - k) t"
  have "v ! j = Some (up H (k - j) ?q)" if "j \<le> k" for j
    using t that by (simp add: nth_chain_to flip: up_add)
  moreover have "?q \<in> B" "hgt H ?q = k" using up_in [OF assms(1) t(1), of "hgt H t - k"] t(3) by auto
  moreover have "v ! k = Some ?q" unfolding t(2) using t(3) by (rule nth_chain_to)
  ultimately show ?thesis by (intro that [of ?q])
qed

lemma consistent_resize:
  assumes "wf_index H B" "is_chain H B v"
  shows "consistent H B (resize (Suc h) v) h"
  unfolding consistent_def
proof (intro allI impI)
  fix k q
  assume k: "k \<le> h" and e: "resize (Suc h) v ! k = Some q"
  have n: "resize (Suc h) v ! j = (if j < length v then v ! j else None)" if "j \<le> h" for j
    using that by (auto simp: resize_def nth_append)
  with e k have l: "k < length v" "v ! k = Some q" by (auto split: if_splits)
  obtain q' where q': "v ! k = Some q'" "q' \<in> B" "hgt H q' = k" "\<And>j. j \<le> k \<Longrightarrow> v ! j = Some (up H (k - j) q')"
    by (rule is_chain_nth [OF assms l(1)]) auto
  then have "q' = q" using l(2) by simp
  with q' n k l(1) show "q \<in> B \<and> hgt H q = k \<and> (\<forall>j \<le> k. resize (Suc h) v ! j = Some (up H (k - j) q))"
    by auto
qed

lemma SetTip_path:
  assumes "wf_index H B" "is_chain H B v" "p \<in> B"
  shows "SetTip H (Some p) v = Some (chain_to H p)"
proof -
  have h: "nHeight (H p) = int (hgt H p)" by (rule nHeight_hgt [OF assms(1,3)])
  have "nat (nHeight (H p) + 1) = Suc (hgt H p)" using h by simp
  moreover have "length (resize (Suc (hgt H p)) v) = Suc (hgt H p)" by (simp add: resize_def)
  ultimately show ?thesis
    using SetTip_loop_path [OF assms(1,3) _ consistent_resize [OF assms(1,2)]] h by (simp add: SetTip_def)
qed

lemma Contains_iff:
  assumes "wf_index H B" "p \<in> B"
  shows "Contains H v p \<longleftrightarrow> hgt H p < length v \<and> v ! hgt H p = Some p"
  using nHeight_hgt [OF assms] by (auto simp: Contains_def chain_at_def)

section \<open>The fork point\<close>

text \<open>\<open>q\<close> is the first entry of the path of \<open>p\<close> towards the genesis block that the chain contains.\<close>

definition last_common :: "heap \<Rightarrow> CChain \<Rightarrow> ptr \<Rightarrow> ptr option \<Rightarrow> bool" where
  "last_common H v p r \<longleftrightarrow>
     (case r of
        None \<Rightarrow> \<forall>k \<le> hgt H p. \<not> Contains H v (up H k p)
      | Some q \<Rightarrow> \<exists>k \<le> hgt H p. q = up H k p \<and> Contains H v q \<and> (\<forall>j < k. \<not> Contains H v (up H j p)))"

lemma last_common_step:
  assumes "\<not> Contains H v p" "pprev (H p) = Some q" "hgt H p = Suc (hgt H q)" "last_common H v q r"
  shows "last_common H v p r"
proof (cases r)
  case None
  have "\<not> Contains H v (up H k p)" if "k \<le> hgt H p" for k
    using assms None that by (cases k) (auto simp: last_common_def)
  with None show ?thesis by (simp add: last_common_def)
next
  case (Some a)
  with assms(4) obtain k where k: "k \<le> hgt H q" "a = up H k q" "Contains H v a" "\<forall>j < k. \<not> Contains H v (up H j q)"
    by (auto simp: last_common_def)
  have "\<not> Contains H v (up H j p)" if "j < Suc k" for j using assms k that by (cases j) auto
  with k assms(2,3) have "Suc k \<le> hgt H p \<and> a = up H (Suc k) p \<and> Contains H v a \<and> (\<forall>j < Suc k. \<not> Contains H v (up H j p))"
    by simp
  then have "\<exists>k \<le> hgt H p. a = up H k p \<and> Contains H v a \<and> (\<forall>j < k. \<not> Contains H v (up H j p))" by (rule exI)
  then show ?thesis by (simp only: last_common_def Some option.case)
qed

lemma last_common_up:
  assumes wf: "wf_index H B"
  shows "p \<in> B \<Longrightarrow> n \<le> hgt H p \<Longrightarrow> (\<forall>j < n. \<not> Contains H v (up H j p)) \<Longrightarrow> last_common H v (up H n p) r
    \<Longrightarrow> last_common H v p r"
proof (induction n arbitrary: p)
  case (Suc n)
  obtain q where q: "pprev (H p) = Some q" "q \<in> B" "hgt H q = hgt H p - 1"
    using wf_parent [OF wf Suc.prems(1), of "hgt H p - 1"] Suc.prems(2) by auto
  have "last_common H v q r"
  proof (rule Suc.IH [OF q(2)])
    show "\<forall>j < n. \<not> Contains H v (up H j q)" using Suc.prems(3) q(1) by (auto dest: spec [of _ "Suc _"])
  qed (use Suc.prems q in auto)
  moreover have "\<not> Contains H v p" using Suc.prems(3) by (auto dest: spec [of _ 0])
  moreover have "hgt H p = Suc (hgt H q)" using q(3) Suc.prems(2) by linarith
  ultimately show ?case using last_common_step q(1) by blast
qed simp

lemma find_fork_loop_correct:
  assumes wf: "wf_index H B"
  shows "p \<in> B \<Longrightarrow> \<exists>r. find_fork_loop H v (Some p) = Some r \<and> last_common H v p r"
proof (induction "hgt H p" arbitrary: p rule: less_induct)
  case less
  show ?case
  proof (cases "Contains H v p")
    case True
    then show ?thesis by (auto simp: find_fork_loop.simps [of H v "Some p"] last_common_def)
  next
    case nc: False
    show ?thesis using wf less.prems
    proof (cases rule: wf_prev_cases)
      case genesis
      with nc show ?thesis
        by (auto simp: find_fork_loop.simps [of H v "Some p"] find_fork_loop.simps [of H v None] last_common_def)
    next
      case (child q)
      then obtain r where "find_fork_loop H v (Some q) = Some r" "last_common H v q r" using less.hyps by auto
      with child nc last_common_step show ?thesis by (auto simp: find_fork_loop.simps [of H v "Some p"])
    qed
  qed
qed

lemma FindFork_last_common:
  assumes wf: "wf_index H B" and "p \<in> B"
  shows "\<exists>r. FindFork H v (Some p) = Some r \<and> last_common H v p r"
proof (cases "nHeight (H p) > Height v")
  case False
  then show ?thesis using find_fork_loop_correct [OF assms] by (simp add: FindFork_def)
next
  case True
  have h: "nHeight (H p) = int (hgt H p)" by (rule nHeight_hgt [OF assms])
  have above: "\<not> Contains H v (up H j p)" if "j \<le> hgt H p" "length v \<le> hgt H p - j" for j
    using that up_in [OF wf assms(2), of j] Contains_iff [OF wf] by simp
  show ?thesis
  proof (cases "v = []")
    case e: True
    then have "last_common H v p None" using above by (simp add: last_common_def)
    moreover have "FindFork H v (Some p) = Some None"
      using True e by (simp add: FindFork_def Height_def GetAncestor_def find_fork_loop.simps [of H "[]" None])
    ultimately show ?thesis by blast
  next
    case ne: False
    define n where "n = hgt H p - (length v - 1)"
    have n: "n \<le> hgt H p" "nat (nHeight (H p) - Height v) = n" "\<And>j. j < n \<Longrightarrow> length v \<le> hgt H p - j"
      using True ne h by (cases v; auto simp: n_def Height_def)+
    have "0 \<le> Height v" using ne by (cases v) (auto simp: Height_def)
    then have "GetAncestor H p (Height v) = Some (Some (up H n p))"
      using GetAncestor_up [OF assms, of "Height v"] True n(2) by simp
    moreover obtain r where "find_fork_loop H v (Some (up H n p)) = Some r" "last_common H v (up H n p) r"
      using find_fork_loop_correct [OF wf up_in(1) [OF wf assms(2) n(1)]] by blast
    moreover have "\<forall>j < n. \<not> Contains H v (up H j p)" using above n by auto
    ultimately show ?thesis using True last_common_up [OF wf assms(2) n(1)] by (auto simp: FindFork_def)
  qed
qed

section \<open>Median time past\<close>

lemma length_filter_sort: "length (filter P (sort xs)) = length (filter P xs)" for xs :: "'a :: linorder list"
  by (metis mset_filter mset_sort size_mset)

lemma sorted_nth_ge:
  fixes xs :: "'a :: linorder list"
  assumes "sorted xs" "k < length xs"
  shows "m \<le> xs ! k \<longleftrightarrow> length (filter (\<lambda>x. x < m) xs) \<le> k"
proof
  assume m: "m \<le> xs ! k"
  have "filter (\<lambda>x. x < m) (drop k xs) = []"
  proof (rule filter_False, rule ballI)
    fix x assume "x \<in> set (drop k xs)"
    then obtain i where "i < length xs - k" "x = xs ! (k + i)" by (auto simp: in_set_conv_nth)
    then have "xs ! k \<le> x" using assms(1) by (auto intro: sorted_nth_mono)
    with m show "\<not> x < m" by auto
  qed
  then have "filter (\<lambda>x. x < m) xs = filter (\<lambda>x. x < m) (take k xs)"
    by (metis append_Nil2 append_take_drop_id filter_append)
  then show "length (filter (\<lambda>x. x < m) xs) \<le> k"
    using length_filter_le [of "\<lambda>x. x < m" "take k xs"] assms(2) by simp
next
  assume l: "length (filter (\<lambda>x. x < m) xs) \<le> k"
  show "m \<le> xs ! k"
  proof (rule ccontr)
    assume "\<not> m \<le> xs ! k"
    then have lt: "xs ! k < m" by simp
    have "filter (\<lambda>x. x < m) (take (Suc k) xs) = take (Suc k) xs"
    proof (rule filter_True, rule ballI)
      fix x assume "x \<in> set (take (Suc k) xs)"
      then obtain i where "i \<le> k" "x = xs ! i" by (auto simp: in_set_conv_nth less_Suc_eq_le)
      then have "x \<le> xs ! k" using assms by (auto intro: sorted_nth_mono)
      with lt show "x < m" by simp
    qed
    then have "length (filter (\<lambda>x. x < m) xs) \<ge> Suc k"
      using assms(2) by (subst append_take_drop_id [of "Suc k" xs, symmetric], subst filter_append) simp
    with l show False by simp
  qed
qed

lemma sort_nth_ge:
  fixes xs :: "'a :: linorder list"
  assumes "k < length xs"
  shows "m \<le> sort xs ! k \<longleftrightarrow> length (filter (\<lambda>x. x < m) xs) \<le> k"
  using sorted_nth_ge [of "sort xs" k m] assms by (simp add: length_filter_sort)

lemma times_back_take: "times_back H i p = take i (times_back H (i + k) p)"
  by (induction i arbitrary: p; case_tac p; simp; cases k; simp)

lemma length_times_back: "length (times_back H i p) \<le> i"
  by (induction H i p rule: times_back.induct) auto

definition median :: "int list \<Rightarrow> int" where
  "median ts = sort ts ! (length ts div 2)"

lemma median_step:
  assumes "ts \<noteq> []" "length ts \<le> Suc n" "median ts < t"
  shows "median ts \<le> median (t # take n ts)"
proof -
  let ?m = "median ts"
  have "length ts div 2 < length ts" using assms(1) by (cases ts) auto
  then have "length (filter (\<lambda>x. x < ?m) ts) \<le> length ts div 2"
    using sort_nth_ge [of "length ts div 2" ts ?m] by (simp add: median_def)
  moreover have "length (filter (\<lambda>x. x < ?m) (take n ts)) \<le> length (filter (\<lambda>x. x < ?m) ts)"
    by (subst (2) append_take_drop_id [of n ts, symmetric], subst filter_append) simp
  moreover have "length ts div 2 \<le> length (t # take n ts) div 2" using assms(2) by (intro div_le_mono) simp
  ultimately have "length (filter (\<lambda>x. x < ?m) (t # take n ts)) \<le> length (t # take n ts) div 2"
    using assms(3) by auto
  then show ?thesis unfolding median_def [of "t # take n ts"]
    using sort_nth_ge [of "length (t # take n ts) div 2" "t # take n ts" ?m] by simp
qed

lemma GetMedianTimePast_median: "GetMedianTimePast H p = median (times_back H nMedianTimeSpan (Some p))"
proof -
  have "sort (rev ts) = sort ts" for ts :: "int list" by (metis mset_rev properties_for_sort sorted_sort mset_sort)
  then show ?thesis by (simp add: GetMedianTimePast_def median_def Let_def)
qed

lemma times_back_Suc: "times_back H (Suc n) (Some p) = GetBlockTime (H p) # times_back H n (pprev (H p))"
  by simp

lemma median_time_step:
  assumes "pprev (H p) = Some q" "GetMedianTimePast H q < GetBlockTime (H p)"
  shows "GetMedianTimePast H q \<le> GetMedianTimePast H p"
proof -
  let ?ts = "times_back H nMedianTimeSpan (Some q)"
  have eq: "times_back H nMedianTimeSpan (Some p) = GetBlockTime (H p) # take 10 ?ts"
    using times_back_take [of H 10 "Some q" 1] times_back_Suc [of H 10 p] assms(1)
    by (simp del: times_back.simps)
  have ne: "?ts \<noteq> []" using times_back_Suc [of H 10 q] by (simp del: times_back.simps)
  show ?thesis unfolding GetMedianTimePast_median eq
    using ne length_times_back [of H nMedianTimeSpan "Some q"] assms(2)
    by (intro median_step) (simp_all add: GetMedianTimePast_median)
qed

section \<open>Searching by time\<close>

lemma lower_bound_partition:
  assumes "\<And>i j. i \<le> j \<Longrightarrow> j < length v \<Longrightarrow> before (v ! j) \<Longrightarrow> before (v ! i)"
    and "first + len \<le> length v" and "\<forall>i < first. before (v ! i)"
    and "\<forall>i. first + len \<le> i \<and> i < length v \<longrightarrow> \<not> before (v ! i)"
  shows "lower_bound before v first len \<le> length v
    \<and> (\<forall>i < lower_bound before v first len. before (v ! i))
    \<and> (\<forall>i. lower_bound before v first len \<le> i \<and> i < length v \<longrightarrow> \<not> before (v ! i))"
  using assms
proof (induction before v first len rule: lower_bound.induct)
  case (1 before v first len)
  let ?h = "len div 2"
  note step = lower_bound.simps [of before v first len]
  show ?case
  proof (cases "len > 0")
    case False
    then have "lower_bound before v first len = first" by (subst step) simp
    with "1.prems" False show ?thesis by simp
  next
    case len: True
    have mono: "i \<le> j \<Longrightarrow> j < length v \<Longrightarrow> before (v ! j) \<Longrightarrow> before (v ! i)" for i j by (rule "1.prems"(1))
    have mid: "first + ?h < length v" using len "1.prems"(2) by simp
    show ?thesis
    proof (cases "before (v ! (first + ?h))")
      case True
      then have "\<forall>i < first + ?h + 1. before (v ! i)" using mono mid by (auto simp: less_Suc_eq_le)
      with "1.IH"(1) [OF len refl True mono] "1.prems" len True show ?thesis by (simp add: step Let_def)
    next
      case False
      then have "\<forall>i. first + ?h \<le> i \<and> i < length v \<longrightarrow> \<not> before (v ! i)" using mono by blast
      with "1.IH"(2) [OF len refl False mono] "1.prems" len False mid show ?thesis by (simp add: step Let_def)
    qed
  qed
qed

definition wf_time :: "heap \<Rightarrow> ptr set \<Rightarrow> bool" where
  "wf_time H B \<longleftrightarrow> (\<forall>p \<in> B. \<forall>q. pprev (H p) = Some q \<longrightarrow> GetBlockTimeMax (H q) \<le> GetBlockTimeMax (H p))"

lemma time_max_up:
  assumes "wf_index H B" "wf_time H B"
  shows "p \<in> B \<Longrightarrow> n \<le> hgt H p \<Longrightarrow> GetBlockTimeMax (H (up H n p)) \<le> GetBlockTimeMax (H p)"
proof (induction n arbitrary: p)
  case (Suc n)
  then obtain q where q: "pprev (H p) = Some q" "q \<in> B" "hgt H q = hgt H p - 1"
    using wf_parent [OF assms(1), of p "hgt H p - 1"] by auto
  have "GetBlockTimeMax (H (up H n q)) \<le> GetBlockTimeMax (H q)" using Suc.prems q by (intro Suc.IH) auto
  also have "\<dots> \<le> GetBlockTimeMax (H p)" using assms(2) Suc.prems(1) q(1) by (auto simp: wf_time_def)
  finally show ?case using q(1) by simp
qed simp

lemma chain_time_mono:
  assumes "wf_index H B" "wf_time H B" "is_chain H B v" "i \<le> j" "j < length v"
  shows "GetBlockTimeMax (H (the (v ! i))) \<le> GetBlockTimeMax (H (the (v ! j)))"
proof -
  obtain q where q: "v ! j = Some q" "q \<in> B" "hgt H q = j" "\<And>k. k \<le> j \<Longrightarrow> v ! k = Some (up H (j - k) q)"
    by (rule is_chain_nth [OF assms(1,3,5)]) auto
  then show ?thesis using time_max_up [OF assms(1,2) q(2), of "j - i"] assms(4) by simp
qed

section \<open>Trust\<close>

lemma target_lt:
  assumes "SetCompact c = (t, neg, False)"
  shows "val t + 1 < 2 ^ 256"
proof -
  note p = SetCompact_parts [OF assms]
  have lt: "val t < 2 ^ 256" using val_lt [of t] p(1) by simp
  have "val t \<noteq> 2 ^ 256 - 1"
  proof
    assume e: "val t = 2 ^ 256 - 1"
    let ?n = "unat c div 16777216" and ?w = "unat c mod 8388608"
    show False
    proof (cases "?n \<le> 3")
      case True
      then have "val t \<le> ?w" using compact_no_overflow [OF assms] by (simp add: compact_value_def Let_def)
      also have "?w < 8388608" by simp
      finally show False using e by simp
    next
      case False
      then have "val t = ?w * 256 ^ (?n - 3)" using compact_no_overflow [OF assms] by (simp add: compact_value_def Let_def)
      moreover have "even ((256 :: nat) ^ (?n - 3))" using False by simp
      ultimately have "even (val t)" by simp
      then show False unfolding e by simp
    qed
  qed
  with lt show ?thesis by linarith
qed

lemma GetBlockTrust_value:
  assumes "SetCompact (nBits b) = (t, neg, ov)"
  shows "\<exists>w. GetBlockTrust b = Some w \<and> length w = WIDTH \<and>
    val w = (if neg \<or> ov \<or> val t = 0 then 0 else if IsProofOfStake b then 2 ^ 256 div (val t + 1) else 1)"
proof -
  note p = SetCompact_parts [OF assms]
  have z: "EqualTo t 0 \<longleftrightarrow> val t = 0" using EqualTo_val [OF p(1), of 0] by simp
  show ?thesis
  proof (cases "neg \<or> ov \<or> val t = 0")
    case True
    then show ?thesis using assms z by (auto simp: GetBlockTrust_def)
  next
    case False
    then have "val t + 1 < 2 ^ 256" using target_lt assms by auto
    then obtain q where "div256 (not256 t) (add256 t (from_u64 1)) = Some q" "length (add256 q (from_u64 1)) = WIDTH"
      "val (add256 q (from_u64 1)) = 2 ^ 256 div (val t + 1)"
      using u256.complement_division [OF p(1)] False by blast
    then show ?thesis using False assms z by (auto simp: GetBlockTrust_def)
  qed
qed

section \<open>A sample index\<close>

text \<open>A single chain with full skip pointers; the pointer of a block is its height.\<close>

definition line :: heap where
  "line p = CBlockIndex_SetNull\<lparr>phashBlock := Some (replicate 32 (of_nat p)), pprev := (if p = 0 then None else Some (p - 1)),
     pskip := (if p = 0 then None else Some (nat (GetSkipHeight (int p)))), nHeight := int p,
     nTime := of_nat (1000 + p), nTimeMax := of_nat (1000 + p), nBits := 0x1d00ffff, nFlags := 1,
     nStatus := 11, nChainTx := 1, nChainTrust := from_u64 (of_nat p)\<rparr>"

lemma line_simps [simp]:
  "pprev (line p) = (if p = 0 then None else Some (p - 1))" "nHeight (line p) = int p" "hgt line p = p"
  "pskip (line p) = (if p = 0 then None else Some (nat (GetSkipHeight (int p))))"
  by (simp_all add: line_def hgt_def)

lemma time_line:
  "p < 1000 \<Longrightarrow> GetBlockTime (line p) = 1000 + int p" "p < 1000 \<Longrightarrow> GetBlockTimeMax (line p) = 1000 + int p"
proof -
  assume "p < 1000"
  then have "unat (of_nat (1000 + p) :: u32) = 1000 + p" unfolding unat_of_nat by simp
  then show "GetBlockTime (line p) = 1000 + int p" "GetBlockTimeMax (line p) = 1000 + int p"
    by (simp_all add: GetBlockTime_def GetBlockTimeMax_def line_def)
qed

lemma times_back_numeral:
  "times_back H (numeral k) (Some p) = GetBlockTime (H p) # times_back H (pred_numeral k) (pprev (H p))"
  "times_back H (numeral k) None = []"
  by (simp_all add: numeral_eq_Suc)

lemma up_line: "k \<le> p \<Longrightarrow> up line k p = p - k"
  by (induction k arbitrary: p) auto

lemma wf_line: "wf_index line UNIV"
proof -
  have "wf_entry line UNIV p" for p
  proof (cases "p = 0")
    case True
    then show ?thesis by (simp add: wf_entry_def)
  next
    case False
    then have "0 \<le> GetSkipHeight (int p)" "GetSkipHeight (int p) < int p" using GetSkipHeight_bounds [of "int p"] by auto
    then have "nat (GetSkipHeight (int p)) = up line (nat (int p - GetSkipHeight (int p))) p"
      by (subst up_line) linarith+
    then show ?thesis using False by (simp add: wf_entry_def of_nat_diff)
  qed
  then show ?thesis by (simp add: wf_index_def)
qed

section \<open>Properties\<close>

text \<open>C8: in a well-formed block index the skip-list search never fails its assertion and returns
  exactly the block reached by walking from parent to parent, or nothing when the height is out of range.\<close>

theorem GetAncestor_correct:
  assumes "wf_index H B" and "p \<in> B"
  shows "GetAncestor H p height =
    Some (if height < 0 \<or> height > nHeight (H p) then None else Some (up H (nat (nHeight (H p) - height)) p))"
  by (rule GetAncestor_up [OF assms])

theorem GetAncestor_correct_witness:
  "GetAncestor line 100 7 = Some (Some 7)"
  using GetAncestor_correct [OF wf_line, of 100 7] by (simp add: up_line)

text \<open>C25: setting the tip ends, whatever chain was active before, with the chain that holds the new tip
  at the top and exactly the ancestors of it below.\<close>

theorem SetTip_correct:
  assumes "wf_index H B" and "is_chain H B v" and "p \<in> B"
  shows "\<exists>v'. SetTip H (Some p) v = Some v' \<and> is_chain H B v' \<and> Tip v' = Some p \<and> Height v' = nHeight (H p)
    \<and> (\<forall>q \<in> B. Contains H v' q \<longleftrightarrow> (\<exists>k \<le> hgt H p. q = up H k p))"
proof (intro exI conjI ballI)
  show "SetTip H (Some p) v = Some (chain_to H p)" by (rule SetTip_path [OF assms])
  show "is_chain H B (chain_to H p)" using assms(3) by (auto simp: is_chain_def)
  show "Tip (chain_to H p) = Some p" using nth_chain_to [of "hgt H p" H p] by (simp add: Tip_def)
  show "Height (chain_to H p) = nHeight (H p)" using nHeight_hgt [OF assms(1,3)] by (simp add: Height_def)
  fix q assume q: "q \<in> B"
  show "Contains H (chain_to H p) q \<longleftrightarrow> (\<exists>k \<le> hgt H p. q = up H k p)"
  proof
    assume "Contains H (chain_to H p) q"
    then have "hgt H q \<le> hgt H p" "q = up H (hgt H p - hgt H q) p"
      using Contains_iff [OF assms(1) q] by (auto simp: nth_chain_to)
    then show "\<exists>k \<le> hgt H p. q = up H k p" by (metis diff_le_self)
  next
    assume "\<exists>k \<le> hgt H p. q = up H k p"
    then obtain k where k: "k \<le> hgt H p" "q = up H k p" by blast
    then have "hgt H q = hgt H p - k" using up_in [OF assms(1,3)] by simp
    then show "Contains H (chain_to H p) q" using k Contains_iff [OF assms(1) q] by (simp add: nth_chain_to)
  qed
qed

theorem SetTip_correct_witness:
  "\<exists>v'. SetTip line (Some 5) (chain_to line 9) = Some v' \<and> Tip v' = Some 5 \<and> Height v' = 5"
proof -
  have "is_chain line UNIV (chain_to line 9)" by (auto simp: is_chain_def)
  from SetTip_correct [OF wf_line this UNIV_I, of 5] show ?thesis by auto
qed

text \<open>C26: the fork point always exists as a result, and it is the last block that the given branch has in
  common with the active chain; it is absent only when they have no block in common.\<close>

theorem FindFork_correct:
  assumes "wf_index H B" and "p \<in> B"
  shows "\<exists>r. FindFork H v (Some p) = Some r \<and>
    (case r of
       None \<Rightarrow> \<forall>k \<le> hgt H p. \<not> Contains H v (up H k p)
     | Some q \<Rightarrow> \<exists>k \<le> hgt H p. q = up H k p \<and> Contains H v q \<and> (\<forall>j < k. \<not> Contains H v (up H j p)))"
  using FindFork_last_common [OF assms] by (simp only: last_common_def)

theorem FindFork_correct_witness:
  "\<exists>r. FindFork line (chain_to line 3) (Some 8) = Some r"
  using FindFork_correct [OF wf_line UNIV_I] by blast

text \<open>Median time past never goes back along a chain whose blocks are later than the median of their
  predecessors, the condition that \<^verbatim>\<open>ContextualCheckBlockHeader\<close> enforces.\<close>

theorem median_time_monotone:
  assumes "pprev (H p) = Some q" and "GetBlockTime (H p) > GetMedianTimePast H q"
  shows "GetMedianTimePast H p \<ge> GetMedianTimePast H q"
  by (rule median_time_step [OF assms])

theorem median_time_monotone_witness:
  "GetMedianTimePast line 3 \<ge> GetMedianTimePast line 2"
proof (rule median_time_monotone)
  show "GetBlockTime (line 3) > GetMedianTimePast line 2"
    by (simp add: GetMedianTimePast_def times_back_numeral time_line)
qed simp

text \<open>C27: the trust of a block is always defined; a proof-of-stake block with a valid non-zero target
  counts \<open>2^256 / (target + 1)\<close>, a proof-of-work block one, and a block with an invalid target nothing.\<close>

theorem GetBlockTrust_correct:
  "\<exists>w. GetBlockTrust b = Some w \<and> length w = WIDTH \<and>
    val w = (let (t, neg, ov) = SetCompact (nBits b) in
      if neg \<or> ov \<or> val t = 0 then 0 else if IsProofOfStake b then 2 ^ 256 div (val t + 1) else 1)"
  using GetBlockTrust_value by (cases "SetCompact (nBits b)") fastforce

text \<open>In an index whose \<^verbatim>\<open>nTimeMax\<close> never decreases along a chain, the binary search by time finds the
  earliest block of the active chain at or after the time, and nothing exactly when there is none.\<close>

theorem FindEarliestAtLeast_correct:
  assumes "wf_index H B" and "wf_time H B" and "is_chain H B v"
  shows "case FindEarliestAtLeast H v time of
      None \<Rightarrow> \<forall>i < length v. GetBlockTimeMax (H (the (v ! i))) < time
    | Some q \<Rightarrow> \<exists>i < length v. v ! i = Some q \<and> GetBlockTimeMax (H q) \<ge> time
        \<and> (\<forall>j < i. GetBlockTimeMax (H (the (v ! j))) < time)"
proof -
  define before where "before = (\<lambda>e. GetBlockTimeMax (H (the e)) < time)"
  define r where "r = lower_bound before v 0 (length v)"
  have "before (v ! j) \<Longrightarrow> before (v ! i)" if "i \<le> j" "j < length v" for i j
    using chain_time_mono [OF assms that] by (auto simp: before_def)
  then have "r \<le> length v \<and> (\<forall>i < r. before (v ! i)) \<and> (\<forall>i. r \<le> i \<and> i < length v \<longrightarrow> \<not> before (v ! i))"
    unfolding r_def by (rule lower_bound_partition) auto
  then have r: "r \<le> length v" "\<forall>i < r. before (v ! i)" "\<forall>i. r \<le> i \<and> i < length v \<longrightarrow> \<not> before (v ! i)"
    by blast+
  have f: "FindEarliestAtLeast H v time = (if r = length v then None else v ! r)"
    unfolding FindEarliestAtLeast_def r_def before_def Let_def ..
  show ?thesis
  proof (cases "r = length v")
    case True
    then show ?thesis using r(2) f by (simp add: before_def)
  next
    case False
    with r(1) have lt: "r < length v" by simp
    then obtain q where "v ! r = Some q" using is_chain_nth [OF assms(1,3)] by metis
    moreover have "\<not> before (v ! r)" using r(3) lt by simp
    ultimately show ?thesis using lt False r(2) f unfolding before_def by auto
  qed
qed

theorem FindEarliestAtLeast_correct_witness:
  "case FindEarliestAtLeast line (chain_to line 4) 1002 of
      None \<Rightarrow> \<forall>i < length (chain_to line 4). GetBlockTimeMax (line (the (chain_to line 4 ! i))) < 1002
    | Some q \<Rightarrow> \<exists>i < length (chain_to line 4). chain_to line 4 ! i = Some q \<and> GetBlockTimeMax (line q) \<ge> 1002
        \<and> (\<forall>j < i. GetBlockTimeMax (line (the (chain_to line 4 ! j))) < 1002)"
proof (rule FindEarliestAtLeast_correct)
  let ?B = "{..4 :: nat}"
  show "wf_index line ?B"
    by (rule wf_index_closed [OF wf_line]) (auto split: if_splits)
  show "wf_time line ?B" by (auto simp: wf_time_def time_line split: if_splits)
  show "is_chain line ?B (chain_to line 4)" by (auto simp: is_chain_def)
qed

end
