(* ===== verification/MFC_BlockIndexProps.thy ===== *)
theory MFC_BlockIndexProps
  imports MFC_BlockIndex MFC_ChainProps
begin

unbundle bit_operations_syntax

text \<open>
  Adding a header keeps the block index well-formed, and the choice of the best chain always ends with
  the best usable candidate.
\<close>

section \<open>Extending the index\<close>

definition blocks :: "block_tree \<Rightarrow> ptr set" where
  "blocks T = snd ` set (mapBlockIndex T)"

text \<open>The trust of a chain is the trust of the parent's chain plus that of the block.\<close>

definition wf_trust :: "heap \<Rightarrow> ptr set \<Rightarrow> bool" where
  "wf_trust H B \<longleftrightarrow> (\<forall>p \<in> B. \<exists>w. GetBlockTrust (H p) = Some w \<and> length (nChainTrust (H p)) = WIDTH \<and>
     nChainTrust (H p) = add256 (case pprev (H p) of Some q \<Rightarrow> nChainTrust (H q) | None \<Rightarrow> from_u64 0) w)"

text \<open>Every entry on top of another has a skip pointer, and its maximal time is the larger one of the maximal time of
  its parent and its own time.\<close>

definition wf_links :: "heap \<Rightarrow> ptr set \<Rightarrow> bool" where
  "wf_links H B \<longleftrightarrow> (\<forall>p \<in> B. (pprev (H p) \<noteq> None \<longrightarrow> pskip (H p) \<noteq> None) \<and>
     nTimeMax (H p) = (case pprev (H p) of Some q \<Rightarrow> max (nTimeMax (H q)) (nTime (H p)) | None \<Rightarrow> nTime (H p)))"

text \<open>The index maps different hashes to entries that carry them.\<close>

definition wf_hashes :: "block_tree \<Rightarrow> bool" where
  "wf_hashes T \<longleftrightarrow> distinct (map fst (mapBlockIndex T)) \<and> (\<forall>(h, p) \<in> set (mapBlockIndex T). phashBlock (bt_heap T p) = Some h)"

definition tree_inv :: "block_tree \<Rightarrow> bool" where
  "tree_inv T \<longleftrightarrow> wf_index (bt_heap T) (blocks T) \<and> wf_links (bt_heap T) (blocks T) \<and> wf_trust (bt_heap T) (blocks T) \<and> wf_hashes T"

lemma map_of_blocks: "map_of (mapBlockIndex T) h = Some p \<Longrightarrow> p \<in> blocks T"
  by (auto simp: blocks_def dest: map_of_SomeD intro: rev_image_eqI)

lemma up_cong:
  assumes "wf_index H B" "\<And>q. q \<in> B \<Longrightarrow> H' q = H q"
  shows "p \<in> B \<Longrightarrow> n \<le> hgt H p \<Longrightarrow> up H' n p = up H n p"
proof (induction n arbitrary: p)
  case (Suc n)
  then obtain q where q: "pprev (H p) = Some q" "q \<in> B" "hgt H q = hgt H p - 1"
    using wf_parent [OF assms(1), of p "hgt H p - 1"] by auto
  then show ?case using Suc assms(2) [OF Suc.prems(1)] by simp
qed simp

lemma skip_steps:
  assumes "wf_index H B" "p \<in> B"
  shows "nat (nHeight (H p) - GetSkipHeight (nHeight (H p))) \<le> hgt H p"
proof (cases "nHeight (H p) > 0")
  case True
  then show ?thesis using GetSkipHeight_bounds [OF True] unfolding hgt_def by linarith
next
  case False
  then have "nHeight (H p) = 0" using wf_entryD [OF assms] by (simp add: wf_entry_def)
  then show ?thesis by (simp add: GetSkipHeight_def)
qed

lemma wf_entry_cong:
  assumes "wf_index H B" "\<And>q. q \<in> B \<Longrightarrow> H' q = H q" "B \<subseteq> B'" "p \<in> B"
  shows "wf_entry H' B' p"
proof -
  have s: "up H' (nat (nHeight (H p) - GetSkipHeight (nHeight (H p)))) p
      = up H (nat (nHeight (H p) - GetSkipHeight (nHeight (H p)))) p"
    using assms(1,2,4) skip_steps [OF assms(1,4)] by (rule up_cong)
  have p: "H' p = H p" by (rule assms(2) [OF assms(4)])
  from wf_entryD [OF assms(1,4)] show ?thesis
    using assms(2,3) unfolding wf_entry_def p s by (cases "pprev (H p)") auto
qed

text \<open>An entry on top of an existing one, with the right skip pointer.\<close>

definition extends :: "heap \<Rightarrow> ptr set \<Rightarrow> CBlockIndex \<Rightarrow> bool" where
  "extends H B b \<longleftrightarrow>
     (case pprev b of
        None \<Rightarrow> nHeight b = 0 \<and> pskip b = None
      | Some q \<Rightarrow> q \<in> B \<and> nHeight b = nHeight (H q) + 1
          \<and> pskip b = Some (up H (nat (nHeight (H q) - GetSkipHeight (nHeight b))) q))"

lemma wf_index_extend:
  assumes wf: "wf_index H B" and "p \<notin> B" and e: "extends H B b"
  shows "wf_index (H(p := b)) (insert p B)"
  unfolding wf_index_def
proof
  let ?H = "H(p := b)"
  have same: "?H q = H q" if "q \<in> B" for q using that assms(2) by auto
  fix x assume x: "x \<in> insert p B"
  show "wf_entry ?H (insert p B) x"
  proof (cases "x \<in> B")
    case True
    then show ?thesis by (intro wf_entry_cong [OF wf same]) auto
  next
    case False
    with x have x: "x = p" by simp
    show ?thesis
    proof (cases "pprev b")
      case None
      then show ?thesis using e x by (simp add: wf_entry_def extends_def)
    next
      case (Some q)
      with e have q: "q \<in> B" "nHeight b = nHeight (H q) + 1"
        "pskip b = Some (up H (nat (nHeight (H q) - GetSkipHeight (nHeight b))) q)" by (simp_all add: extends_def)
      have h: "nHeight (H q) = int (hgt H q)" by (rule nHeight_hgt [OF wf q(1)])
      have g: "0 \<le> GetSkipHeight (nHeight b)" "GetSkipHeight (nHeight b) \<le> nHeight (H q)"
        using GetSkipHeight_bounds [of "nHeight b"] q(2) h by auto
      let ?k = "nat (nHeight (H q) - GetSkipHeight (nHeight b))"
      have "nat (nHeight b - GetSkipHeight (nHeight b)) = Suc ?k" using g q(2) by linarith
      moreover have "up ?H ?k q = up H ?k q" using wf same q(1)
        by (rule up_cong) (use g h in \<open>simp_all add: nat_le_iff\<close>)
      ultimately have "up ?H (nat (nHeight b - GetSkipHeight (nHeight b))) p = up H ?k q" using Some by simp
      moreover have "?H q = H q" by (rule same [OF q(1)])
      ultimately show ?thesis using x Some q h by (simp add: wf_entry_def)
    qed
  qed
qed

lemma wf_links_extend:
  assumes "wf_links H B" "p \<notin> B" "\<And>q. q \<in> B \<Longrightarrow> pprev (H q) \<noteq> Some p" "pprev b \<noteq> Some p" "extends H B b"
    and "nTimeMax b = (case pprev b of Some q \<Rightarrow> max (nTimeMax (H q)) (nTime b) | None \<Rightarrow> nTime b)"
  shows "wf_links (H(p := b)) (insert p B)"
  unfolding wf_links_def
proof
  fix x assume x: "x \<in> insert p B"
  show "(pprev ((H(p := b)) x) \<noteq> None \<longrightarrow> pskip ((H(p := b)) x) \<noteq> None) \<and> nTimeMax ((H(p := b)) x) =
    (case pprev ((H(p := b)) x) of Some q \<Rightarrow> max (nTimeMax ((H(p := b)) q)) (nTime ((H(p := b)) x)) | None \<Rightarrow> nTime ((H(p := b)) x))"
  proof (cases "x = p")
    case True
    then show ?thesis using assms(4-6) by (cases "pprev b") (auto simp: extends_def)
  next
    case False
    with x assms(1,3) show ?thesis by (cases "pprev (H x)") (auto simp: wf_links_def)
  qed
qed

lemma wf_trust_extend:
  assumes "wf_trust H B" "p \<notin> B" "\<And>q. q \<in> B \<Longrightarrow> pprev (H q) \<noteq> Some p" "pprev b \<noteq> Some p"
    and "GetBlockTrust b = Some w" "length (nChainTrust b) = WIDTH"
    and "nChainTrust b = add256 (case pprev b of Some q \<Rightarrow> nChainTrust (H q) | None \<Rightarrow> from_u64 0) w"
  shows "wf_trust (H(p := b)) (insert p B)"
  unfolding wf_trust_def
proof
  fix x assume x: "x \<in> insert p B"
  show "\<exists>w. GetBlockTrust ((H(p := b)) x) = Some w \<and> length (nChainTrust ((H(p := b)) x)) = WIDTH \<and>
    nChainTrust ((H(p := b)) x) = add256 (case pprev ((H(p := b)) x) of
      Some q \<Rightarrow> nChainTrust ((H(p := b)) q) | None \<Rightarrow> from_u64 0) w"
  proof (cases "x = p")
    case True
    then show ?thesis using assms(4-7) by (cases "pprev b") auto
  next
    case False
    with x assms(1,3) show ?thesis by (cases "pprev (H x)") (auto simp: wf_trust_def)
  qed
qed

section \<open>Adding a header\<close>

lemma link_entry_extends:
  assumes "wf_index (bt_heap T0) (blocks T0)" "p \<notin> blocks T0"
    and T: "bt_heap T = (bt_heap T0)(p := b)" "mapBlockIndex T = (hash, p) # mapBlockIndex T0"
    and b: "pprev b = None" "nHeight b = 0" "pskip b = None" and "hashPrev \<noteq> hash"
  shows "\<exists>T' b'. link_entry T p hashPrev = Some T' \<and> T' = T\<lparr>bt_heap := (bt_heap T0)(p := b')\<rparr>
    \<and> extends (bt_heap T0) (blocks T0) b' \<and> pprev b' = map_of (mapBlockIndex T0) hashPrev
    \<and> b' = b\<lparr>pprev := pprev b', nHeight := nHeight b', pskip := pskip b'\<rparr>"
proof (cases "map_of (mapBlockIndex T0) hashPrev")
  case None
  then show ?thesis using assms
    by (intro exI [of _ T] exI [of _ b] conjI) (simp_all add: link_entry_def extends_def)
next
  case (Some q)
  let ?H = "bt_heap T0" and ?B = "blocks T0"
  have q: "q \<in> ?B" using Some by (rule map_of_blocks)
  have qp: "q \<noteq> p" using q assms(2) by auto
  let ?b = "b\<lparr>pprev := Some q, nHeight := nHeight (?H q) + 1\<rparr>"
  let ?H1 = "?H(p := ?b)"
  have same: "?H1 x = ?H x" if "x \<in> ?B" for x using that assms(2) by auto
  have wf1: "wf_index ?H1 ?B" unfolding wf_index_def
    by (rule ballI, rule wf_entry_cong [OF assms(1) same]) auto
  let ?h = "GetSkipHeight (nHeight (?H q) + 1)"
  have h: "nHeight (?H q) = int (hgt ?H q)" by (rule nHeight_hgt [OF assms(1) q])
  have g: "0 \<le> ?h" "?h \<le> nHeight (?H q)" using GetSkipHeight_bounds [of "nHeight (?H q) + 1"] h by auto
  have u: "up ?H1 (nat (nHeight (?H q) - ?h)) q = up ?H (nat (nHeight (?H q) - ?h)) q"
    using assms(1) same q by (rule up_cong) (use g h in \<open>simp_all add: nat_le_iff\<close>)
  have "GetAncestor ?H1 q ?h = Some (Some (up ?H (nat (nHeight (?H q) - ?h)) q))"
    using GetAncestor_up [OF wf1 q, of ?h] g qp u by simp
  then have "BuildSkip ?H1 p = Some (?H(p := ?b\<lparr>pskip := Some (up ?H (nat (nHeight (?H q) - ?h)) q)\<rparr>))"
    by (simp add: BuildSkip_def)
  moreover have "set_entry p (\<lambda>b. b\<lparr>pprev := Some q, nHeight := nHeight (bt_heap T q) + 1\<rparr>) T = T\<lparr>bt_heap := ?H1\<rparr>"
    using T(1) qp by (simp add: set_entry_def)
  ultimately have "link_entry T p hashPrev = Some (T\<lparr>bt_heap := ?H(p := ?b\<lparr>pskip := Some (up ?H (nat (nHeight (?H q) - ?h)) q)\<rparr>)\<rparr>)"
    using T(2) Some assms(8) by (simp add: link_entry_def Let_def)
  moreover have "extends ?H ?B (?b\<lparr>pskip := Some (up ?H (nat (nHeight (?H q) - ?h)) q)\<rparr>)"
    using q by (simp add: extends_def)
  ultimately show ?thesis using Some
    by (intro exI [of _ "T\<lparr>bt_heap := ?H(p := ?b\<lparr>pskip := Some (up ?H (nat (nHeight (?H q) - ?h)) q)\<rparr>)\<rparr>"]
        exI [of _ "?b\<lparr>pskip := Some (up ?H (nat (nHeight (?H q) - ?h)) q)\<rparr>"]) simp
qed

lemma GetBlockTrust_cong:
  assumes "nBits a = nBits b" "nFlags a = nFlags b"
  shows "GetBlockTrust a = GetBlockTrust b"
  unfolding GetBlockTrust_def IsProofOfStake_def assms ..

lemma GetBlockTrust_Some: "\<exists>w. GetBlockTrust b = Some w \<and> length w = WIDTH"
  using GetBlockTrust_value [of b] by (cases "SetCompact (nBits b)") fastforce

lemma RaiseValidity_TREE: "nStatus b = 0 \<Longrightarrow> RaiseValidity BLOCK_VALID_TREE b = Some (True, b\<lparr>nStatus := BLOCK_VALID_TREE\<rparr>)"
  by (simp add: RaiseValidity_def)

text \<open>What the weighing step leaves in the entry.\<close>

definition weighed :: "heap \<Rightarrow> bool \<Rightarrow> CBlockIndex \<Rightarrow> CBlockIndex \<Rightarrow> bool" where
  "weighed H f b b' \<longleftrightarrow> (\<exists>w. GetBlockTrust b' = Some w \<and> length w = WIDTH \<and>
     b' = b\<lparr>nTimeMax := (case pprev b of Some q \<Rightarrow> max (nTimeMax (H q)) (nTime b) | None \<Rightarrow> nTime b),
       nFlags := (if f then nFlags b OR BLOCK_PROOF_OF_STAKE else nFlags b),
       nChainTrust := add256 (case pprev b of Some q \<Rightarrow> nChainTrust (H q) | None \<Rightarrow> from_u64 0) w,
       nStatus := BLOCK_VALID_TREE\<rparr>)"

lemma weigh_entry_weighed:
  assumes "bt_heap T = H(p := b)" "pprev b \<noteq> Some p" "nStatus b = 0"
  shows "\<exists>b'. weigh_entry T p f = Some (T\<lparr>bt_heap := H(p := b')\<rparr>) \<and> weighed H f b b'"
proof -
  define b1 where "b1 = b\<lparr>nTimeMax := case pprev b of Some q \<Rightarrow> max (nTimeMax (H q)) (nTime b) | None \<Rightarrow> nTime b\<rparr>"
  define b2 where "b2 = (if f then SetProofOfStake b1 else b1)"
  obtain w where w: "GetBlockTrust b2 = Some w" "length w = WIDTH" using GetBlockTrust_Some by blast
  define b3 where "b3 = b2\<lparr>nChainTrust := add256 (case pprev b of Some q \<Rightarrow> nChainTrust (H q) | None \<Rightarrow> from_u64 0) w\<rparr>"
  have p2: "pprev b2 = pprev b" "nStatus b2 = 0"
    using assms(3) by (simp_all add: b1_def b2_def SetProofOfStake_def)
  then have r: "RaiseValidity BLOCK_VALID_TREE b3 = Some (True, b3\<lparr>nStatus := BLOCK_VALID_TREE\<rparr>)"
    by (intro RaiseValidity_TREE) (simp add: b3_def)
  have s1: "set_entry p (\<lambda>b'. b'\<lparr>nTimeMax := (case pprev b' of
      Some q \<Rightarrow> max (nTimeMax (bt_heap T q)) (nTime b') | None \<Rightarrow> nTime b')\<rparr>) T = T\<lparr>bt_heap := H(p := b1)\<rparr>"
    unfolding set_entry_def assms(1) b1_def using assms(2) by (cases "pprev b") auto
  have s2: "(if f then set_entry p SetProofOfStake (T\<lparr>bt_heap := H(p := b1)\<rparr>) else T\<lparr>bt_heap := H(p := b1)\<rparr>)
      = T\<lparr>bt_heap := H(p := b2)\<rparr>" by (simp add: set_entry_def b2_def)
  have s3: "b2\<lparr>nChainTrust := add256 (case pprev b2 of
      None \<Rightarrow> from_u64 0 | Some q \<Rightarrow> nChainTrust (bt_heap T q)) w\<rparr> = b3"
    unfolding assms(1) b3_def p2(1) using assms(2) by (cases "pprev b") auto
  have "weigh_entry T p f = Some (T\<lparr>bt_heap := H(p := b3\<lparr>nStatus := BLOCK_VALID_TREE\<rparr>)\<rparr>)"
    unfolding weigh_entry_def Let_def s1 s2 using w(1) r by (simp add: set_entry_def s3)
  moreover have "weighed H f b (b3\<lparr>nStatus := BLOCK_VALID_TREE\<rparr>)"
  proof -
    have "GetBlockTrust (b3\<lparr>nStatus := BLOCK_VALID_TREE\<rparr>) = Some w"
      using w(1) by (subst GetBlockTrust_cong [of _ b2]) (simp_all add: b3_def)
    then show ?thesis unfolding weighed_def using w(2)
      by (intro exI [of _ w]) (simp add: b3_def b2_def b1_def SetProofOfStake_def)
  qed
  ultimately show ?thesis by blast
qed

text \<open>The entry that a header with a given hash should get in an index: below the entry of its parent hash if there is
  one, with the fields of the header, and with the height, the skip pointer, the maximal time and the trust that
  follow from the parent.\<close>

definition entry_for :: "block_tree \<Rightarrow> uint256 \<Rightarrow> CBlockHeader \<Rightarrow> bool \<Rightarrow> CBlockIndex \<Rightarrow> bool" where
  "entry_for T hash block f b \<longleftrightarrow>
     (let H = bt_heap T; parent = map_of (mapBlockIndex T) (hashPrevBlock block) in
      phashBlock b = Some hash \<and> pprev b = parent \<and> nStatus b = BLOCK_VALID_TREE \<and> IsProofOfStake b = f
      \<and> nVersion b = hdr_nVersion block \<and> hashMerkleRoot b = hdr_hashMerkleRoot block \<and> nTime b = hdr_nTime block
      \<and> nBits b = hdr_nBits block \<and> nNonce b = hdr_nNonce block \<and> nVersionMTP b = hdr_nVersionMTP block
      \<and> mtpHashValue b = hdr_mtpHashValue block
      \<and> nHeight b = (case parent of None \<Rightarrow> 0 | Some q \<Rightarrow> nHeight (H q) + 1)
      \<and> pskip b = map_option (\<lambda>q. up H (nat (nHeight (H q) - GetSkipHeight (nHeight (H q) + 1))) q) parent
      \<and> nTimeMax b = (case parent of None \<Rightarrow> hdr_nTime block | Some q \<Rightarrow> max (nTimeMax (H q)) (hdr_nTime block))
      \<and> (\<exists>w. GetBlockTrust b = Some w \<and> length w = WIDTH
           \<and> nChainTrust b = add256 (case parent of Some q \<Rightarrow> nChainTrust (H q) | None \<Rightarrow> from_u64 0) w))"

lemma entry_for_built:
  assumes "extends (bt_heap T) (blocks T) b0" "pprev b0 = map_of (mapBlockIndex T) (hashPrevBlock block)"
    and "b0 = ((CBlockIndex_of_header block)\<lparr>nSequenceId := 0, phashBlock := Some hash\<rparr>)\<lparr>pprev := pprev b0, nHeight := nHeight b0, pskip := pskip b0\<rparr>"
    and "weighed (bt_heap T) f b0 b"
  shows "entry_for T hash block f b"
proof -
  have h: "phashBlock b0 = Some hash" "nFlags b0 = 0" "nVersion b0 = hdr_nVersion block" "hashMerkleRoot b0 = hdr_hashMerkleRoot block"
    "nTime b0 = hdr_nTime block" "nBits b0 = hdr_nBits block" "nNonce b0 = hdr_nNonce block" "nVersionMTP b0 = hdr_nVersionMTP block"
    "mtpHashValue b0 = hdr_mtpHashValue block"
    by (subst assms(3), simp add: CBlockIndex_of_header_def CBlockIndex_SetNull_def)+
  obtain w where w: "GetBlockTrust b = Some w" "length w = WIDTH"
    and b: "b = b0\<lparr>nTimeMax := (case pprev b0 of Some q \<Rightarrow> max (nTimeMax (bt_heap T q)) (nTime b0) | None \<Rightarrow> nTime b0),
       nFlags := (if f then nFlags b0 OR BLOCK_PROOF_OF_STAKE else nFlags b0),
       nChainTrust := add256 (case pprev b0 of Some q \<Rightarrow> nChainTrust (bt_heap T q) | None \<Rightarrow> from_u64 0) w,
       nStatus := BLOCK_VALID_TREE\<rparr>" using assms(4) by (auto simp: weighed_def)
  have s: "IsProofOfStake b = f" by (simp add: b IsProofOfStake_def h)
  show ?thesis using assms(1) w s unfolding entry_for_def Let_def assms(2) [symmetric]
    by (cases "pprev b0") (simp_all add: b h extends_def)
qed

definition best_of :: "heap \<Rightarrow> ptr option \<Rightarrow> ptr \<Rightarrow> ptr option" where
  "best_of H best p = (case best of Some q \<Rightarrow> if CompareTo (nChainTrust (H q)) (nChainTrust (H p)) < 0 then Some p else Some q | None \<Rightarrow> Some p)"

lemma AddToBlockIndex_new:
  assumes inv: "tree_inv T" and new: "map_of (mapBlockIndex T) hash = None" and fresh: "fresh \<notin> blocks T"
    and "hashPrevBlock block \<noteq> hash"
  shows "\<exists>T' b. AddToBlockIndex hash fresh block f T = Some (fresh, T')
    \<and> bt_heap T' = (bt_heap T)(fresh := b) \<and> mapBlockIndex T' = (hash, fresh) # mapBlockIndex T
    \<and> entry_for T hash block f b \<and> extends (bt_heap T) (blocks T) b \<and> chainActive T' = chainActive T
    \<and> pindexBestHeader T' = best_of (bt_heap T') (pindexBestHeader T) fresh"
proof -
  define b1 where "b1 = (CBlockIndex_of_header block)\<lparr>nSequenceId := 0, phashBlock := Some hash\<rparr>"
  have b1: "pprev b1 = None" "nHeight b1 = 0" "pskip b1 = None" "nStatus b1 = 0"
    by (simp_all add: b1_def CBlockIndex_of_header_def CBlockIndex_SetNull_def)
  define T1 where "T1 = T\<lparr>bt_heap := (bt_heap T)(fresh := b1), mapBlockIndex := (hash, fresh) # mapBlockIndex T\<rparr>"
  have wf: "wf_index (bt_heap T) (blocks T)" using inv by (simp add: tree_inv_def)
  obtain T2 b2 where l: "link_entry T1 fresh (hashPrevBlock block) = Some T2"
    "T2 = T1\<lparr>bt_heap := (bt_heap T)(fresh := b2)\<rparr>" "extends (bt_heap T) (blocks T) b2"
    "pprev b2 = map_of (mapBlockIndex T) (hashPrevBlock block)" "b2 = b1\<lparr>pprev := pprev b2, nHeight := nHeight b2, pskip := pskip b2\<rparr>"
    using link_entry_extends [OF wf fresh _ _ b1(1-3) assms(4), of T1] by (auto simp: T1_def)
  have "nStatus b2 = 0" by (subst l(5)) (simp add: b1)
  moreover have "pprev b2 \<noteq> Some fresh" using l(3) fresh by (auto simp: extends_def split: option.splits)
  ultimately obtain b3 where w: "weigh_entry T2 fresh f = Some (T2\<lparr>bt_heap := (bt_heap T)(fresh := b3)\<rparr>)" "weighed (bt_heap T) f b2 b3"
    using weigh_entry_weighed [of T2 "bt_heap T" fresh b2 f] l(2) by auto
  define T3 where "T3 = T2\<lparr>bt_heap := (bt_heap T)(fresh := b3)\<rparr>"
  have start: "T\<lparr>bt_heap := (bt_heap T)(fresh := b1)\<rparr>\<lparr>mapBlockIndex := (hash, fresh) # mapBlockIndex T\<rparr> = T1"
    by (simp add: T1_def)
  have f3: "bt_heap T3 = (bt_heap T)(fresh := b3)" "mapBlockIndex T3 = (hash, fresh) # mapBlockIndex T" "chainActive T3 = chainActive T"
    "pindexBestHeader T3 = pindexBestHeader T"
    by (simp_all add: T3_def l(2) T1_def)
  have "\<exists>T'. AddToBlockIndex hash fresh block f T = Some (fresh, T') \<and> bt_heap T' = bt_heap T3
      \<and> mapBlockIndex T' = mapBlockIndex T3 \<and> chainActive T' = chainActive T3
      \<and> pindexBestHeader T' = best_of (bt_heap T3) (pindexBestHeader T3) fresh"
    unfolding AddToBlockIndex_def best_of_def using new l(1) w(1) start
    by (simp add: Let_def set_entry_def b1_def [symmetric] T3_def [symmetric] mark_dirty_def split: option.split)
  moreover have "entry_for T hash block f b3" by (rule entry_for_built [OF l(3,4) _ w(2)]) (use l(5) in \<open>simp add: b1_def\<close>)
  moreover have "extends (bt_heap T) (blocks T) b3" using l(3) w(2) by (auto simp: weighed_def extends_def split: option.splits)
  ultimately show ?thesis using f3 by auto
qed

lemma AddToBlockIndex_inv:
  assumes "tree_inv T" "fresh \<notin> blocks T" "hashPrevBlock block \<noteq> hash"
  shows "\<exists>p T'. AddToBlockIndex hash fresh block f T = Some (p, T') \<and> tree_inv T' \<and> p \<in> blocks T'
    \<and> blocks T \<subseteq> blocks T' \<and> (\<forall>q \<in> blocks T. bt_heap T' q = bt_heap T q)
    \<and> (case map_of (mapBlockIndex T) hash of
         Some q \<Rightarrow> p = q \<and> T' = T
       | None \<Rightarrow> p = fresh \<and> mapBlockIndex T' = (hash, fresh) # mapBlockIndex T \<and> entry_for T hash block f (bt_heap T' fresh)
           \<and> pindexBestHeader T' = best_of (bt_heap T') (pindexBestHeader T) fresh)"
proof (cases "map_of (mapBlockIndex T) hash")
  case (Some p)
  then show ?thesis using assms(1) map_of_blocks [OF Some] by (simp add: AddToBlockIndex_def)
next
  case None
  obtain T' b where r: "AddToBlockIndex hash fresh block f T = Some (fresh, T')"
    and h: "bt_heap T' = (bt_heap T)(fresh := b)" and m: "mapBlockIndex T' = (hash, fresh) # mapBlockIndex T"
    and e: "entry_for T hash block f b" and ext: "extends (bt_heap T) (blocks T) b"
    and best: "pindexBestHeader T' = best_of (bt_heap T') (pindexBestHeader T) fresh"
    using AddToBlockIndex_new [OF assms(1) None assms(2,3), of f] by blast
  let ?H = "bt_heap T" and ?B = "blocks T"
  have B: "blocks T' = insert fresh ?B" by (simp add: blocks_def m)
  have wf: "wf_index ?H ?B" "wf_links ?H ?B" "wf_trust ?H ?B" "wf_hashes T" using assms(1) by (simp_all add: tree_inv_def)
  have par: "pprev (?H q) \<noteq> Some fresh" if "q \<in> ?B" for q
    using wf_entryD [OF wf(1) that] assms(2) by (auto simp: wf_entry_def split: option.splits)
  have pin: "q \<in> ?B" if "pprev b = Some q" for q using ext that by (simp add: extends_def)
  have eb: "nTimeMax b = (case pprev b of Some q \<Rightarrow> max (nTimeMax (?H q)) (nTime b) | None \<Rightarrow> nTime b)" "phashBlock b = Some hash"
    using e by (auto simp: entry_for_def Let_def split: option.split)
  obtain tr where tr: "GetBlockTrust b = Some tr" "length tr = WIDTH"
    "nChainTrust b = add256 (case pprev b of Some q \<Rightarrow> nChainTrust (?H q) | None \<Rightarrow> from_u64 0) tr"
    using e by (auto simp: entry_for_def Let_def)
  have len: "length (nChainTrust b) = WIDTH"
    using tr pin wf(3) by (cases "pprev b") (auto simp: wf_trust_def)
  have "wf_links (bt_heap T') (blocks T')" unfolding h B
    using wf(2) assms(2) par pin ext eb(1) by (intro wf_links_extend) auto
  moreover have "wf_trust (bt_heap T') (blocks T')" unfolding h B
    using wf(3) assms(2) par pin tr len by (intro wf_trust_extend) auto
  moreover have "wf_index (bt_heap T') (blocks T')" unfolding h B
    by (rule wf_index_extend [OF wf(1) assms(2) ext])
  moreover have "wf_hashes T'"
    using wf(4) None assms(2) eb(2) by (auto simp: wf_hashes_def m h map_of_eq_None_iff blocks_def rev_image_eqI)
  ultimately have "tree_inv T'" by (simp add: tree_inv_def)
  then show ?thesis using r assms(2) B h m e None best by auto
qed

section \<open>The order of candidates\<close>

definition trusts_ok :: "heap \<Rightarrow> ptr set \<Rightarrow> bool" where
  "trusts_ok H B \<longleftrightarrow> (\<forall>p \<in> B. length (nChainTrust (H p)) = WIDTH)"

lemma work_less_iff:
  assumes "trusts_ok H B" "a \<in> B" "b \<in> B"
  shows "work_less H a b \<longleftrightarrow> val (nChainTrust (H a)) < val (nChainTrust (H b))
    \<or> val (nChainTrust (H a)) = val (nChainTrust (H b)) \<and>
      (nSequenceId (H a) > nSequenceId (H b) \<or> nSequenceId (H a) = nSequenceId (H b) \<and> a > b)"
proof -
  have "length (nChainTrust (H a)) = length (nChainTrust (H b))" using assms by (simp add: trusts_ok_def)
  from CompareTo_val [OF this] show ?thesis by (auto simp: work_less_def)
qed

lemma order_last_in: "order_last H cs = Some m \<Longrightarrow> m \<in> set cs"
  by (induction cs arbitrary: m) (auto split: option.splits if_splits)

lemma order_last_None: "order_last H cs = None \<longleftrightarrow> cs = []"
  by (cases cs) (auto split: option.splits)

lemma order_last_max:
  assumes "trusts_ok H B"
  shows "set cs \<subseteq> B \<Longrightarrow> order_last H cs = Some m \<Longrightarrow> c \<in> set cs \<Longrightarrow> \<not> work_less H m c"
proof (induction cs arbitrary: m c)
  case (Cons p cs)
  note iff = work_less_iff [OF assms]
  show ?case
  proof (cases "order_last H cs")
    case None
    then have "cs = []" by (simp add: order_last_None)
    with Cons.prems show ?thesis by (auto simp: iff)
  next
    case (Some q)
    then have q: "q \<in> set cs" by (rule order_last_in)
    have IH: "\<not> work_less H q x" if "x \<in> set cs" for x using Cons Some that by auto
    have B: "p \<in> B" "q \<in> B" "c \<in> B" using Cons.prems q by auto
    from Cons.prems(2) Some have m: "m = (if work_less H q p then p else q)" by simp
    show ?thesis
    proof (cases "c = p")
      case True
      then show ?thesis unfolding m using B by (auto simp: iff)
    next
      case False
      then have "\<not> work_less H q c" using IH Cons.prems(3) by simp
      then show ?thesis unfolding m using B by (auto simp: iff)
    qed
  qed
qed simp

section \<open>Paths of candidates\<close>

text \<open>Step \<open>k\<close> of the path of \<open>p\<close> is still above the active chain.\<close>

definition off_chain :: "heap \<Rightarrow> CChain \<Rightarrow> ptr \<Rightarrow> nat \<Rightarrow> bool" where
  "off_chain H chain p k \<longleftrightarrow> k \<le> hgt H p \<and> (\<forall>j \<le> k. \<not> Contains H chain (up H j p))"

definition unusable :: "CBlockIndex \<Rightarrow> bool" where
  "unusable b \<longleftrightarrow> nStatus b AND BLOCK_FAILED_MASK \<noteq> 0 \<or> nStatus b AND BLOCK_HAVE_DATA = 0"

definition usable :: "block_tree \<Rightarrow> ptr \<Rightarrow> bool" where
  "usable T p \<longleftrightarrow> (\<forall>k. off_chain (bt_heap T) (chainActive T) p k \<longrightarrow> \<not> unusable (bt_heap T (up (bt_heap T) k p)))"

definition linked :: "heap \<Rightarrow> CChain \<Rightarrow> ptr \<Rightarrow> bool" where
  "linked H chain p \<longleftrightarrow> (\<forall>k. off_chain H chain p k \<longrightarrow> nChainTx (H (up H k p)) \<noteq> 0 \<or> nHeight (H (up H k p)) = 0)"

definition candidates_inv :: "block_tree \<Rightarrow> ptr set \<Rightarrow> bool" where
  "candidates_inv T B \<longleftrightarrow> wf_index (bt_heap T) B \<and> trusts_ok (bt_heap T) B \<and> set (setBlockIndexCandidates T) \<subseteq> B
     \<and> (\<forall>c \<in> set (setBlockIndexCandidates T). linked (bt_heap T) (chainActive T) c)"

lemma off_chain_0: "off_chain H chain p 0 \<longleftrightarrow> \<not> Contains H chain p"
  by (simp add: off_chain_def)

lemma off_chain_Suc:
  assumes "pprev (H p) = Some q" "hgt H p = Suc (hgt H q)"
  shows "off_chain H chain p (Suc k) \<longleftrightarrow> \<not> Contains H chain p \<and> off_chain H chain q k"
proof -
  have "(\<forall>j \<le> Suc k. \<not> Contains H chain (up H j p)) \<longleftrightarrow> \<not> Contains H chain p \<and> (\<forall>j \<le> k. \<not> Contains H chain (up H j q))"
  proof (intro iffI conjI allI impI)
    fix j assume a: "\<forall>j \<le> Suc k. \<not> Contains H chain (up H j p)" "j \<le> k"
    show "\<not> Contains H chain (up H j q)" using spec [OF a(1), of "Suc j"] a(2) assms(1) by simp
  next
    fix j assume a: "\<not> Contains H chain p \<and> (\<forall>j \<le> k. \<not> Contains H chain (up H j q))" "j \<le> Suc k"
    show "\<not> Contains H chain (up H j p)" using a assms(1) by (cases j) auto
  qed (auto dest: spec [of _ 0])
  then show ?thesis using assms(2) by (auto simp: off_chain_def)
qed

lemma check_path_correct:
  assumes wf: "wf_index H B"
  shows "p \<in> B \<Longrightarrow> linked H chain p \<Longrightarrow>
    (check_path H chain (Some p) = Some PathOk \<and> (\<forall>k. off_chain H chain p k \<longrightarrow> \<not> unusable (H (up H k p))))
    \<or> (\<exists>k. check_path H chain (Some p) = Some (PathBad (up H k p)) \<and> off_chain H chain p k \<and> unusable (H (up H k p)))"
proof (induction "hgt H p" arbitrary: p rule: less_induct)
  case less
  note step = check_path.simps [of H chain "Some p"]
  show ?case
  proof (cases "Contains H chain p")
    case True
    then have "\<not> off_chain H chain p k" for k by (auto simp: off_chain_def dest: spec [of _ 0])
    with True show ?thesis by (simp add: step)
  next
    case nc: False
    then have o0: "off_chain H chain p 0" by (simp add: off_chain_0)
    then have tx: "nChainTx (H p) \<noteq> 0 \<or> nHeight (H p) = 0" using less.prems(2) unfolding linked_def by (metis up.simps(1))
    show ?thesis
    proof (cases "unusable (H p)")
      case True
      then have "check_path H chain (Some p) = Some (PathBad (up H 0 p))"
        using nc tx by (auto simp: step unusable_def)
      with True o0 show ?thesis by (metis up.simps(1))
    next
      case nb: False
      have s: "check_path H chain (Some p) = check_path H chain (pprev (H p))"
        using nc tx nb by (auto simp: step unusable_def)
      show ?thesis using wf less.prems(1)
      proof (cases rule: wf_prev_cases)
        case genesis
        then have "\<not> unusable (H (up H k p))" if "off_chain H chain p k" for k
          using that nb by (simp add: off_chain_def)
        then show ?thesis using s genesis by (simp add: check_path.simps [of H chain None])
      next
        case (child q)
        note oS = off_chain_Suc [OF child(1,3), of chain]
        have l: "linked H chain q"
          unfolding linked_def
        proof (intro allI impI)
          fix k assume "off_chain H chain q k"
          then have "off_chain H chain p (Suc k)" using oS nc by simp
          then show "nChainTx (H (up H k q)) \<noteq> 0 \<or> nHeight (H (up H k q)) = 0"
            using less.prems(2) child(1) unfolding linked_def by (metis option.sel up.simps(2))
        qed
        have lt: "hgt H q < hgt H p" using child(3) by simp
        from less.hyps [OF lt child(2) l] show ?thesis
        proof (elim disjE exE conjE)
          assume ok: "check_path H chain (Some q) = Some PathOk" "\<forall>k. off_chain H chain q k \<longrightarrow> \<not> unusable (H (up H k q))"
          have "\<not> unusable (H (up H k p))" if "off_chain H chain p k" for k
            using that nb ok(2) oS child(1) by (cases k) auto
          then show ?thesis using ok(1) s child(1) by simp
        next
          fix k assume "check_path H chain (Some q) = Some (PathBad (up H k q))" "off_chain H chain q k" "unusable (H (up H k q))"
          then have "check_path H chain (Some p) = Some (PathBad (up H (Suc k) p)) \<and> off_chain H chain p (Suc k)
              \<and> unusable (H (up H (Suc k) p))" using s child(1) oS nc by simp
          then show ?thesis by blast
        qed
      qed
    qed
  qed
qed

section \<open>Rejecting a candidate\<close>

text \<open>Two trees that differ only in status flags have the same paths, order and active chain.\<close>

definition same_shape :: "heap \<Rightarrow> heap \<Rightarrow> bool" where
  "same_shape H H' \<longleftrightarrow> (\<forall>p. \<exists>s. H' p = (H p)\<lparr>nStatus := s\<rparr>)"

lemma same_shape_fields:
  assumes "same_shape H H'"
  shows "pprev (H' p) = pprev (H p)" "nHeight (H' p) = nHeight (H p)" "pskip (H' p) = pskip (H p)"
    "nChainTrust (H' p) = nChainTrust (H p)" "nSequenceId (H' p) = nSequenceId (H p)" "nChainTx (H' p) = nChainTx (H p)"
  using assms by (auto simp: same_shape_def dest!: spec [of _ p])

lemma same_shape_refl: "same_shape H H"
  unfolding same_shape_def
proof
  show "\<exists>s. H p = (H p)\<lparr>nStatus := s\<rparr>" for p by (rule exI [of _ "nStatus (H p)"]) simp
qed

lemma same_shape_trans:
  assumes "same_shape H H'" "same_shape H' H''"
  shows "same_shape H H''"
  unfolding same_shape_def
proof
  fix p
  obtain s s' where "H' p = (H p)\<lparr>nStatus := s\<rparr>" "H'' p = (H' p)\<lparr>nStatus := s'\<rparr>"
    using assms unfolding same_shape_def by blast
  then have "H'' p = (H p)\<lparr>nStatus := s'\<rparr>" by simp
  then show "\<exists>s. H'' p = (H p)\<lparr>nStatus := s\<rparr>" by blast
qed

lemma same_shape_up: "same_shape H H' \<Longrightarrow> up H' n p = up H n p"
  by (induction n arbitrary: p) (simp_all add: same_shape_fields)

lemma same_shape_facts:
  assumes "same_shape H H'"
  shows "hgt H' p = hgt H p" "Contains H' chain p \<longleftrightarrow> Contains H chain p"
    "off_chain H' chain p k \<longleftrightarrow> off_chain H chain p k" "linked H' chain p \<longleftrightarrow> linked H chain p"
    "wf_index H' B \<longleftrightarrow> wf_index H B" "trusts_ok H' B \<longleftrightarrow> trusts_ok H B" "work_less H' p q \<longleftrightarrow> work_less H p q"
proof -
  note f = same_shape_fields [OF assms] and u = same_shape_up [OF assms]
  show h: "hgt H' p = hgt H p" for p by (simp add: hgt_def f)
  show c: "Contains H' chain p \<longleftrightarrow> Contains H chain p" for p by (simp add: Contains_def f)
  show o1: "off_chain H' chain p k \<longleftrightarrow> off_chain H chain p k" for p k by (simp add: off_chain_def h c u)
  show "linked H' chain p \<longleftrightarrow> linked H chain p" by (simp add: linked_def o1 f u)
  show "wf_index H' B \<longleftrightarrow> wf_index H B" unfolding wf_index_def wf_entry_def f u ..
  show "trusts_ok H' B \<longleftrightarrow> trusts_ok H B" by (simp add: trusts_ok_def f)
  show "work_less H' p q \<longleftrightarrow> work_less H p q" by (simp add: work_less_def f)
qed

text \<open>After the branch above step \<open>k\<close> of the path of \<open>p\<close> is dropped, the entries above it are no candidates,
  and at most they have a new failure flag.\<close>

definition dropped :: "block_tree \<Rightarrow> block_tree \<Rightarrow> ptr \<Rightarrow> nat \<Rightarrow> bool" where
  "dropped T T' p k \<longleftrightarrow> same_shape (bt_heap T) (bt_heap T') \<and> chainActive T' = chainActive T
     \<and> setBlockIndexCandidates T' = filter (\<lambda>c. \<forall>j < k. c \<noteq> up (bt_heap T) j p) (setBlockIndexCandidates T)
     \<and> (\<forall>q. (\<forall>j < k. q \<noteq> up (bt_heap T) j p) \<longrightarrow> bt_heap T' q = bt_heap T q)"

lemma dropped_0: "chainActive T' = chainActive T \<Longrightarrow> bt_heap T' = bt_heap T \<Longrightarrow>
    setBlockIndexCandidates T' = setBlockIndexCandidates T \<Longrightarrow> dropped T T' p 0"
  by (simp add: dropped_def same_shape_refl)

lemma dropped_Suc:
  assumes "pprev (bt_heap T p) = Some q" "same_shape (bt_heap T) (bt_heap T1)" "chainActive T1 = chainActive T"
    and "setBlockIndexCandidates T1 = removeAll p (setBlockIndexCandidates T)"
    and "\<And>x. x \<noteq> p \<Longrightarrow> bt_heap T1 x = bt_heap T x" and d: "dropped T1 T' q k"
  shows "dropped T T' p (Suc k)"
proof -
  note u = same_shape_up [OF assms(2)]
  have all: "(\<forall>j < Suc k. c \<noteq> up (bt_heap T) j p) \<longleftrightarrow> c \<noteq> p \<and> (\<forall>j < k. c \<noteq> up (bt_heap T) j q)" for c
  proof (intro iffI conjI allI impI)
    fix j assume a: "\<forall>j < Suc k. c \<noteq> up (bt_heap T) j p" "j < k"
    show "c \<noteq> up (bt_heap T) j q" using spec [OF a(1), of "Suc j"] a(2) assms(1) by simp
  next
    fix j assume a: "c \<noteq> p \<and> (\<forall>j < k. c \<noteq> up (bt_heap T) j q)" "j < Suc k"
    show "c \<noteq> up (bt_heap T) j p" using a assms(1) by (cases j) auto
  qed (auto dest: spec [of _ 0])
  have "removeAll p xs = filter (\<lambda>c. c \<noteq> p) xs" for xs :: "ptr list" by (simp add: removeAll_filter_not_eq) metis
  then show ?thesis using d assms(2-5) same_shape_trans [OF assms(2)] u
    unfolding dropped_def all by (auto simp: filter_filter intro!: filter_cong)
qed

lemma up_neq:
  assumes "wf_index H B" "p \<in> B" "k \<le> hgt H p" "j < k"
  shows "up H j p \<noteq> up H k p"
  using up_in(2) [OF assms(1,2), of j] up_in(2) [OF assms(1,2), of k] assms(3,4) by auto

lemma drop_branch_dropped:
  "wf_index (bt_heap T) B \<Longrightarrow> p \<in> B \<Longrightarrow> k \<le> hgt (bt_heap T) p \<Longrightarrow>
    \<exists>T'. drop_branch f (up (bt_heap T) k p) p T = Some T' \<and> dropped T T' p k"
proof (induction k arbitrary: p T)
  case 0
  have "dropped T T p 0" by (rule dropped_0) simp_all
  then show ?case by (simp add: drop_branch.simps)
next
  case (Suc k)
  let ?H = "bt_heap T"
  obtain q where q: "pprev (?H p) = Some q" "q \<in> B" "hgt ?H q = hgt ?H p - 1"
    using wf_parent [OF Suc.prems(1,2), of "hgt ?H p - 1"] Suc.prems(3) by auto
  have ne: "up ?H (Suc k) p \<noteq> p" using up_neq [OF Suc.prems, of 0] by simp
  define T1 where "T1 = erase_candidate p (if f
      then set_entry p (\<lambda>b. b\<lparr>nStatus := nStatus b OR BLOCK_FAILED_CHILD\<rparr>) T
      else T\<lparr>mapBlocksUnlinked := mapBlocksUnlinked T
        @ (case pprev (bt_heap T p) of Some q \<Rightarrow> [(q, p)] | None \<Rightarrow> [])\<rparr>)"
  have T1: "same_shape ?H (bt_heap T1)" "chainActive T1 = chainActive T" "\<And>x. x \<noteq> p \<Longrightarrow> bt_heap T1 x = ?H x"
    "setBlockIndexCandidates T1 = removeAll p (setBlockIndexCandidates T)"
    using same_shape_refl [of ?H]
    by (auto simp: T1_def erase_candidate_def set_entry_def same_shape_def)
  have "drop_branch f (up ?H (Suc k) p) p T = drop_branch f (up ?H k q) q T1"
    using ne q(1) same_shape_fields(1) [OF T1(1), of p]
    by (subst drop_branch.simps) (simp add: T1_def [symmetric] Let_def)
  moreover have "up ?H k q = up (bt_heap T1) k q" by (simp add: same_shape_up [OF T1(1)])
  moreover obtain T' where "drop_branch f (up (bt_heap T1) k q) q T1 = Some T'" "dropped T1 T' q k"
  proof -
    have "wf_index (bt_heap T1) B" "k \<le> hgt (bt_heap T1) q"
      using Suc.prems q(3) unfolding same_shape_facts [OF T1(1)] by linarith+
    then show ?thesis using Suc.IH [OF _ q(2)] that by blast
  qed
  moreover have "dropped T T' p (Suc k)" using q(1) T1 \<open>dropped T1 T' q k\<close> by (intro dropped_Suc [of T p q T1]) auto
  ultimately show ?case by auto
qed

lemma off_chain_join:
  assumes wf: "wf_index H B" and p: "p \<in> B" "off_chain H chain p k" and c: "c \<in> B" "off_chain H chain c i"
    and e: "up H i c = up H j p" "j \<le> k"
  shows "off_chain H chain c (i + (k - j)) \<and> up H (i + (k - j)) c = up H k p"
proof -
  have u: "up H (i + m) c = up H (j + m) p" for m using e(1) by (simp add: up_add)
  have "hgt H c - i = hgt H p - j" "i \<le> hgt H c" "k \<le> hgt H p"
    using up_in(2) [OF wf p(1), of j] up_in(2) [OF wf c(1), of i] e p(2) c(2) by (auto simp: off_chain_def)
  then have "i + (k - j) \<le> hgt H c" using e(2) by linarith
  moreover have "\<not> Contains H chain (up H m c)" if m: "m \<le> i + (k - j)" for m
  proof (cases "m \<le> i")
    case True
    then show ?thesis using c(2) by (simp add: off_chain_def)
  next
    case False
    then have "up H m c = up H (j + (m - i)) p" using u [of "m - i"] by simp
    moreover have "j + (m - i) \<le> k" using m e(2) False by linarith
    ultimately show ?thesis using p(2) by (simp add: off_chain_def)
  qed
  moreover have "up H (i + (k - j)) c = up H k p" using u [of "k - j"] e(2) by simp
  ultimately show ?thesis by (simp add: off_chain_def)
qed

lemma usable_dropped:
  assumes wf: "wf_index (bt_heap T) B" and p: "p \<in> B" "off_chain (bt_heap T) (chainActive T) p k"
    and bad: "unusable (bt_heap T (up (bt_heap T) k p))" and d: "dropped T T' p k" and c: "c \<in> B"
  shows "usable T' c \<longleftrightarrow> usable T c"
proof -
  let ?H = "bt_heap T" and ?H' = "bt_heap T'" and ?A = "chainActive T"
  have ss: "same_shape ?H ?H'" and A: "chainActive T' = ?A" using d by (simp_all add: dropped_def)
  note f = same_shape_facts [OF ss] same_shape_up [OF ss]
  have k: "k \<le> hgt ?H p" using p(2) by (simp add: off_chain_def)
  have bad': "unusable (?H' (up ?H k p))"
    using bad d up_neq [OF wf p(1) k] unfolding dropped_def by metis
  have hit: "\<exists>i'. off_chain ?H ?A c i' \<and> unusable (?H (up ?H i' c)) \<and> unusable (?H' (up ?H i' c))"
    if i: "off_chain ?H ?A c i" and ne: "?H' (up ?H i c) \<noteq> ?H (up ?H i c)" for i
  proof -
    obtain j where j: "j < k" "up ?H i c = up ?H j p" using ne d unfolding dropped_def by blast
    show ?thesis using off_chain_join [OF wf p c i j(2)] j(1) bad bad' by (metis less_imp_le)
  qed
  have "usable T c \<Longrightarrow> usable T' c"
    using hit unfolding usable_def A f by metis
  moreover have "usable T' c \<Longrightarrow> usable T c"
    using hit unfolding usable_def A f by metis
  ultimately show ?thesis by blast
qed

lemma best_invalid_simps [simp]:
  "bt_heap (best_invalid p T) = bt_heap T" "chainActive (best_invalid p T) = chainActive T"
  "setBlockIndexCandidates (best_invalid p T) = setBlockIndexCandidates T"
  by (simp_all add: best_invalid_def split: option.split)

lemma erase_candidate_simps [simp]:
  "bt_heap (erase_candidate p T) = bt_heap T" "chainActive (erase_candidate p T) = chainActive T"
  "set (setBlockIndexCandidates (erase_candidate p T)) = set (setBlockIndexCandidates T) - {p}"
  by (simp_all add: erase_candidate_def)

lemma usable_cong:
  "bt_heap T' = bt_heap T \<Longrightarrow> chainActive T' = chainActive T \<Longrightarrow> usable T' c \<longleftrightarrow> usable T c"
  by (simp add: usable_def)

lemma dropped_cong:
  "bt_heap T1 = bt_heap T \<Longrightarrow> chainActive T1 = chainActive T \<Longrightarrow>
    setBlockIndexCandidates T1 = setBlockIndexCandidates T \<Longrightarrow> dropped T1 T' p k \<Longrightarrow> dropped T T' p k"
  by (simp add: dropped_def)

text \<open>A rejected candidate goes with everything on its path down to the unusable block, and nothing else
  changes for the others.\<close>

lemma reject_candidate_correct:
  assumes inv: "candidates_inv T B" and p: "p \<in> set (setBlockIndexCandidates T)"
    and k: "off_chain (bt_heap T) (chainActive T) p k" and bad: "unusable (bt_heap T (up (bt_heap T) k p))"
  shows "\<exists>T'. reject_candidate p (up (bt_heap T) k p) T = Some T' \<and> candidates_inv T' B
    \<and> set (setBlockIndexCandidates T') = {c \<in> set (setBlockIndexCandidates T). \<forall>j \<le> k. c \<noteq> up (bt_heap T) j p}
    \<and> (\<forall>c \<in> B. usable T' c \<longleftrightarrow> usable T c) \<and> same_shape (bt_heap T) (bt_heap T')"
proof -
  let ?H = "bt_heap T" and ?x = "up (bt_heap T) k p"
  have wf: "wf_index ?H B" "p \<in> B" "k \<le> hgt ?H p" using inv p k by (auto simp: candidates_inv_def off_chain_def)
  define f where "f \<longleftrightarrow> nStatus (?H ?x) AND BLOCK_FAILED_MASK \<noteq> 0"
  define T1 where "T1 = (if f then best_invalid p T else T)"
  have T1: "bt_heap T1 = ?H" "chainActive T1 = chainActive T" "setBlockIndexCandidates T1 = setBlockIndexCandidates T"
    by (simp_all add: T1_def)
  obtain T2 where T2: "drop_branch f ?x p T1 = Some T2" "dropped T1 T2 p k"
    using drop_branch_dropped [of T1 B p k f] wf T1 by auto
  have d: "dropped T T2 p k" using T1 T2(2) by (rule dropped_cong)
  have ss: "same_shape ?H (bt_heap T2)" "chainActive T2 = chainActive T" using d by (simp_all add: dropped_def)
  define T3 where "T3 = erase_candidate ?x T2"
  have cands: "set (setBlockIndexCandidates T3) = {c \<in> set (setBlockIndexCandidates T). \<forall>j \<le> k. c \<noteq> up ?H j p}"
    using d by (auto simp: T3_def dropped_def le_less)
  have "reject_candidate p ?x T = Some T3"
    using T2(1) by (simp add: reject_candidate_def f_def [symmetric] T1_def [symmetric] Let_def T3_def)
  moreover have "candidates_inv T3 B" using inv cands same_shape_facts [OF ss(1)]
    by (auto simp: candidates_inv_def T3_def ss(2))
  moreover have "\<forall>c \<in> B. usable T3 c \<longleftrightarrow> usable T c"
    using usable_dropped [OF wf(1,2) k bad d] usable_cong [of T3 T2] by (simp add: T3_def)
  moreover have "same_shape ?H (bt_heap T3)" using ss(1) by (simp add: T3_def)
  ultimately show ?thesis using cands by blast
qed

definition best_candidate :: "block_tree \<Rightarrow> ptr option \<Rightarrow> bool" where
  "best_candidate T r \<longleftrightarrow>
     (case r of
        None \<Rightarrow> \<forall>c \<in> set (setBlockIndexCandidates T). \<not> usable T c
      | Some p \<Rightarrow> p \<in> set (setBlockIndexCandidates T) \<and> usable T p
          \<and> (\<forall>c \<in> set (setBlockIndexCandidates T). usable T c \<longrightarrow> \<not> work_less (bt_heap T) p c))"

lemma best_candidate_mono:
  assumes "set (setBlockIndexCandidates T') \<subseteq> set (setBlockIndexCandidates T)"
    and "\<And>c. c \<in> set (setBlockIndexCandidates T) \<Longrightarrow> usable T' c \<longleftrightarrow> usable T c"
    and "\<And>c. c \<in> set (setBlockIndexCandidates T) \<Longrightarrow> c \<notin> set (setBlockIndexCandidates T') \<Longrightarrow> \<not> usable T c"
    and "same_shape (bt_heap T) (bt_heap T')" and "best_candidate T' r"
  shows "best_candidate T r"
proof (cases r)
  case None
  then show ?thesis using assms by (auto simp: best_candidate_def)
next
  case (Some p)
  then have best: "p \<in> set (setBlockIndexCandidates T')" "usable T' p"
    "\<And>c. c \<in> set (setBlockIndexCandidates T') \<Longrightarrow> usable T' c \<Longrightarrow> \<not> work_less (bt_heap T) p c"
    using assms(5) same_shape_facts(7) [OF assms(4)] by (auto simp: best_candidate_def)
  have "\<not> work_less (bt_heap T) p c" if "c \<in> set (setBlockIndexCandidates T)" "usable T c" for c
    using best(3) [of c] assms(2,3) that by blast
  then show ?thesis using Some best(1,2) assms(1,2) by (auto simp: best_candidate_def)
qed

lemma FindMostWorkChain_best:
  "candidates_inv T B \<Longrightarrow> \<exists>r T'. FindMostWorkChain T = Some (r, T') \<and> best_candidate T r"
proof (induction "card (set (setBlockIndexCandidates T))" arbitrary: T rule: less_induct)
  case less
  let ?H = "bt_heap T" and ?C = "set (setBlockIndexCandidates T)"
  note step = FindMostWorkChain.simps [of T]
  have inv: "wf_index ?H B" "trusts_ok ?H B" "?C \<subseteq> B" "\<And>c. c \<in> ?C \<Longrightarrow> linked ?H (chainActive T) c"
    using less.prems by (simp_all add: candidates_inv_def)
  show ?case
  proof (cases "order_last ?H (setBlockIndexCandidates T)")
    case None
    then show ?thesis by (simp add: step best_candidate_def order_last_None)
  next
    case (Some p)
    then have p: "p \<in> ?C" "p \<in> B" using order_last_in inv(3) by auto
    have max: "\<not> work_less ?H p c" if "c \<in> ?C" for c using order_last_max [OF inv(2,3) Some that] .
    from check_path_correct [OF inv(1) p(2) inv(4) [OF p(1)]] show ?thesis
    proof (elim disjE exE conjE)
      assume "check_path ?H (chainActive T) (Some p) = Some PathOk"
        "\<forall>k. off_chain ?H (chainActive T) p k \<longrightarrow> \<not> unusable (?H (up ?H k p))"
      then show ?thesis using Some p max by (simp add: step best_candidate_def usable_def)
    next
      fix k assume k: "check_path ?H (chainActive T) (Some p) = Some (PathBad (up ?H k p))"
        "off_chain ?H (chainActive T) p k" "unusable (?H (up ?H k p))"
      obtain T' where T': "reject_candidate p (up ?H k p) T = Some T'" "candidates_inv T' B"
        "set (setBlockIndexCandidates T') = {c \<in> ?C. \<forall>j \<le> k. c \<noteq> up ?H j p}"
        "\<forall>c \<in> B. usable T' c \<longleftrightarrow> usable T c" "same_shape ?H (bt_heap T')"
        using reject_candidate_correct [OF less.prems p(1) k(2,3)] by blast
      have "p \<notin> set (setBlockIndexCandidates T')" using T'(3) by (auto dest: spec [of _ 0])
      then have "card (set (setBlockIndexCandidates T')) < card ?C"
        using p(1) T'(3) by (intro psubset_card_mono) auto
      from less.hyps [OF this T'(2)] obtain r T'' where r: "FindMostWorkChain T' = Some (r, T'')" "best_candidate T' r" by blast
      have "\<not> usable T c" if c: "c \<in> ?C" "c \<notin> set (setBlockIndexCandidates T')" for c
      proof -
        obtain j where j: "j \<le> k" "c = up ?H j p" using c T'(3) by auto
        have o0: "off_chain ?H (chainActive T) c 0" using k(2) j by (auto simp: off_chain_def)
        have "off_chain ?H (chainActive T) c (0 + (k - j)) \<and> up ?H (0 + (k - j)) c = up ?H k p"
          using inv(3) c(1) j by (intro off_chain_join [OF inv(1) p(2) k(2) _ o0]) auto
        then show ?thesis using k(3) unfolding usable_def by auto
      qed
      then have "best_candidate T r" using T' inv(3) r(2) by (intro best_candidate_mono [of T' T r]) auto
      moreover have "FindMostWorkChain T = Some (r, T'')" using Some k(1) T'(1) r(1) by (simp add: step)
      ultimately show ?thesis by blast
    qed
  qed
qed

section \<open>Pruning\<close>

lemma order_first_in: "order_first H cs = Some m \<Longrightarrow> m \<in> set cs"
  by (induction cs arbitrary: m) (auto split: option.splits if_splits)

lemma order_first_None: "order_first H cs = None \<longleftrightarrow> cs = []"
  by (cases cs) (auto split: option.splits)

lemma order_first_min:
  assumes "trusts_ok H B"
  shows "set cs \<subseteq> B \<Longrightarrow> order_first H cs = Some m \<Longrightarrow> c \<in> set cs \<Longrightarrow> \<not> work_less H c m"
proof (induction cs arbitrary: m c)
  case (Cons p cs)
  note iff = work_less_iff [OF assms]
  show ?case
  proof (cases "order_first H cs")
    case None
    then show ?thesis using Cons.prems by (auto simp: order_first_None iff)
  next
    case (Some q)
    then have q: "q \<in> B" "m = (if work_less H p q then p else q)" using Cons.prems order_first_in by fastforce+
    have "\<not> work_less H c q" if "c \<in> set cs" using Cons.IH [of q c] Some Cons.prems(1) that by simp
    then show ?thesis using Cons.prems q by (auto simp: iff split: if_splits)
  qed
qed simp

lemma prune_loop_filter:
  assumes "trusts_ok H B" "tip \<in> B" "set cs \<subseteq> B"
  shows "prune_loop H tip cs = filter (\<lambda>c. \<not> work_less H c tip) cs"
  using assms(3)
proof (induction "length cs" arbitrary: cs rule: less_induct)
  case less
  note iff = work_less_iff [OF assms(1)]
  show ?case
  proof (cases "order_first H cs")
    case None
    then show ?thesis by (simp add: order_first_None prune_loop.simps)
  next
    case (Some c)
    then have c: "c \<in> set cs" "c \<in> B" using order_first_in less.prems by auto
    have min: "\<not> work_less H d c" if "d \<in> set cs" for d using order_first_min [OF assms(1) less.prems Some that] .
    show ?thesis
    proof (cases "work_less H c tip")
      case True
      have "length (removeAll c cs) < length cs" using c(1) by (rule length_removeAll_less)
      from less.hyps [OF this] have "prune_loop H tip (removeAll c cs) = filter (\<lambda>d. \<not> work_less H d tip) (removeAll c cs)"
        using less.prems by auto
      moreover have "filter (\<lambda>d. \<not> work_less H d tip) (removeAll c cs) = filter (\<lambda>d. \<not> work_less H d tip) cs"
        using True by (auto simp: removeAll_filter_not_eq intro: filter_cong)
      ultimately show ?thesis using Some True c(1) by (subst prune_loop.simps) simp
    next
      case False
      have "\<not> work_less H d tip" if "d \<in> set cs" for d
      proof -
        have "d \<in> B" using that less.prems by auto
        then show ?thesis using min [OF that] False iff [OF c(2) assms(2)] iff [OF \<open>d \<in> B\<close> assms(2)] iff [OF \<open>d \<in> B\<close> c(2)]
          by auto
      qed
      then show ?thesis using Some False by (subst prune_loop.simps) (simp add: filter_id_conv)
    qed
  qed
qed

section \<open>Properties\<close>

definition empty_tree :: block_tree where
  "empty_tree = \<lparr>bt_heap = \<lambda>_. CBlockIndex_SetNull, mapBlockIndex = [], chainActive = [], pindexBestHeader = None,
     pindexBestInvalid = None, setBlockIndexCandidates = [], mapBlocksUnlinked = [], nBlockSequenceId = 1,
     nBlockReverseSequenceId = -1, nLastPreciousChainwork = from_u64 0, setDirtyBlockIndex = [], mapDirtyAuxPow = []\<rparr>"

text \<open>Blocks 0 to 4 in a line with block 2 as the tip, and block 4 marked as failed.\<close>

definition line_tree :: block_tree where
  "line_tree = empty_tree\<lparr>bt_heap := line(4 := (line 4)\<lparr>nStatus := 43\<rparr>), chainActive := [Some 0, Some 1, Some 2],
     setBlockIndexCandidates := [2, 4, 3]\<rparr>"

lemma line_tree_same_shape: "same_shape line (bt_heap line_tree)"
proof -
  have "line p = (line p)\<lparr>nStatus := 11\<rparr>" for p by (simp add: line_def)
  then show ?thesis unfolding same_shape_def by (auto simp: line_tree_def)
qed

lemma line_tree_facts: "wf_index (bt_heap line_tree) UNIV" "trusts_ok (bt_heap line_tree) UNIV"
  unfolding same_shape_facts [OF line_tree_same_shape] by (rule wf_line) (simp add: trusts_ok_def line_def)

lemma line_tree_linked: "linked (bt_heap line_tree) (chainActive line_tree) p"
  by (simp add: linked_def line_tree_def line_def)

text \<open>C9: Adding a header to the block index always succeeds when the index is well formed, the new entry is allocated at a
  fresh address and the header does not name itself as its parent. A known hash changes nothing. A new hash is mapped
  to the new entry, which has the fields of the header, hangs below the entry of the hash of its parent if there is
  one, and has the height, the skip pointer to the ancestor at the skip height, the maximal time and the chain trust that
  follow from that entry; the best header becomes the new entry exactly when it has more trust. The well-formedness of
  the whole index is kept (parents one lower, skip pointers to the right ancestors and present, exact maximal times,
  accumulated trust, hashes) and every existing entry is unchanged.\<close>

theorem AddToBlockIndex_preserves:
  "tree_inv T \<Longrightarrow> fresh \<notin> blocks T \<Longrightarrow> hashPrevBlock block \<noteq> hash \<Longrightarrow>
    \<exists>p T'. AddToBlockIndex hash fresh block f T = Some (p, T') \<and> tree_inv T' \<and> p \<in> blocks T'
      \<and> blocks T \<subseteq> blocks T' \<and> (\<forall>q \<in> blocks T. bt_heap T' q = bt_heap T q)
      \<and> (case map_of (mapBlockIndex T) hash of
           Some q \<Rightarrow> p = q \<and> T' = T
         | None \<Rightarrow> p = fresh \<and> mapBlockIndex T' = (hash, fresh) # mapBlockIndex T \<and> entry_for T hash block f (bt_heap T' fresh)
             \<and> pindexBestHeader T' = best_of (bt_heap T') (pindexBestHeader T) fresh)"
  by (rule AddToBlockIndex_inv)

lemma empty_tree_inv: "tree_inv empty_tree" "0 \<notin> blocks empty_tree"
  by (simp_all add: tree_inv_def blocks_def empty_tree_def wf_index_def wf_links_def wf_trust_def wf_hashes_def)

theorem AddToBlockIndex_preserves_witness:
  "\<exists>T1 T2. AddToBlockIndex (replicate 32 7) 0 CBlockHeader_SetNull False empty_tree = Some (0, T1) \<and> tree_inv T1
     \<and> AddToBlockIndex (replicate 32 8) 1 (CBlockHeader_SetNull\<lparr>hashPrevBlock := replicate 32 7\<rparr>) True T1 = Some (1, T2)
     \<and> pprev (bt_heap T2 1) = Some 0 \<and> nHeight (bt_heap T2 1) = 1"
proof -
  have "hashPrevBlock CBlockHeader_SetNull \<noteq> replicate 32 7"
    by (simp add: CBlockHeader_SetNull_def SetBlockVersion_def uint256_null_def)
  from AddToBlockIndex_preserves [OF empty_tree_inv this, of False] obtain T1 where
    T1: "AddToBlockIndex (replicate 32 7) 0 CBlockHeader_SetNull False empty_tree = Some (0, T1)" "tree_inv T1"
      "mapBlockIndex T1 = [(replicate 32 7, 0)]" "nHeight (bt_heap T1 0) = 0"
    by (auto simp: empty_tree_def entry_for_def)
  have "1 \<notin> blocks T1" by (simp add: blocks_def T1(3))
  from AddToBlockIndex_preserves [OF T1(2) this, of "CBlockHeader_SetNull\<lparr>hashPrevBlock := replicate 32 7\<rparr>" "replicate 32 8" True]
  show ?thesis using T1 by (auto simp: replicate_eq_replicate entry_for_def Let_def)
qed

text \<open>C29: The search for the best chain ends, without a failed assertion, whenever every candidate has its
  transactions linked down to the active chain. It returns a candidate whose path to the active chain has
  no failed block and no block without data, and no such candidate has more trust (or the same trust and
  an earlier arrival); it returns nothing only when no candidate is usable.\<close>

theorem FindMostWorkChain_finds:
  "candidates_inv T B \<Longrightarrow> \<exists>r T'. FindMostWorkChain T = Some (r, T') \<and> best_candidate T r"
  by (rule FindMostWorkChain_best)

theorem FindMostWorkChain_finds_witness:
  "candidates_inv line_tree UNIV \<and> (\<exists>r T'. FindMostWorkChain line_tree = Some (r, T') \<and> best_candidate line_tree r)"
proof -
  have "candidates_inv line_tree UNIV"
    using line_tree_facts line_tree_linked by (simp add: candidates_inv_def)
  with FindMostWorkChain_finds show ?thesis by blast
qed

text \<open>Pruning keeps, in their order, exactly the candidates that are not worse than the tip, although it only
  looks at the smallest candidate in each round; it aborts exactly when no candidate would be left.\<close>

theorem PruneBlockIndexCandidates_filter:
  assumes "trusts_ok (bt_heap T) B" "set (setBlockIndexCandidates T) \<subseteq> B" "tip \<in> B" "Tip (chainActive T) = Some tip"
  shows "PruneBlockIndexCandidates T =
    (let cs = filter (\<lambda>c. \<not> work_less (bt_heap T) c tip) (setBlockIndexCandidates T)
     in if cs = [] then None else Some (T\<lparr>setBlockIndexCandidates := cs\<rparr>))"
  by (simp add: PruneBlockIndexCandidates_def assms(4) prune_loop_filter [OF assms(1,3,2)])

theorem PruneBlockIndexCandidates_filter_witness:
  "PruneBlockIndexCandidates (line_tree\<lparr>setBlockIndexCandidates := [0, 3, 1, 2]\<rparr>) =
     Some (line_tree\<lparr>setBlockIndexCandidates := [3, 2]\<rparr>)"
proof -
  let ?T = "line_tree\<lparr>setBlockIndexCandidates := [0, 3, 1, 2]\<rparr>"
  have "Tip (chainActive ?T) = Some 2" by (simp add: line_tree_def Tip_def)
  from PruneBlockIndexCandidates_filter [of ?T UNIV, OF _ _ _ this] line_tree_facts(2)
  have "PruneBlockIndexCandidates ?T =
      (let cs = filter (\<lambda>c. \<not> work_less (bt_heap line_tree) c 2) [0, 3, 1, 2]
       in if cs = [] then None else Some (?T\<lparr>setBlockIndexCandidates := cs\<rparr>))" by simp
  also have "filter (\<lambda>c. \<not> work_less (bt_heap line_tree) c 2) [0, 3, 1, 2] = [3, 2]"
    unfolding work_less_iff [OF line_tree_facts(2) UNIV_I UNIV_I]
    by (simp add: line_tree_def line_def)
  finally show ?thesis by simp
qed

end
