(* ===== verification/MFC_Pow.thy ===== *)
theory MFC_Pow
  imports MFC_BlockIndexProps
begin

unbundle bit_operations_syntax

text \<open>
  Difficulty (\<^verbatim>\<open>src/src/pow.cpp\<close>): the last block of a kind, the target of the next block and the check
  of a hash against a target. \<^verbatim>\<open>CBigNum\<close> of \<^verbatim>\<open>src/src/bignum.h\<close>, an unbounded signed number, is \<open>int\<close>.
  The consensus parameters that are used are the fields of a record.
\<close>

record Params =
  powLimit :: uint256
  bnInitialHashTarget :: uint256
  nStakeTargetSpacing :: int
  nTargetSpacingMax :: int
  nTargetTimespan :: int

text \<open>The outer \<open>None\<close> is a walk that does not end.\<close>

partial_function (option) GetLastBlockIndex :: "heap \<Rightarrow> ptr option \<Rightarrow> bool \<Rightarrow> ptr option option" where
  "GetLastBlockIndex H pindex fProofOfStake =
     (case pindex of
        None \<Rightarrow> Some None
      | Some p \<Rightarrow>
          (case pprev (H p) of
             None \<Rightarrow> Some (Some p)
           | Some q \<Rightarrow>
               if IsProofOfStake (H p) \<noteq> fProofOfStake then GetLastBlockIndex H (Some q) fProofOfStake
               else Some (Some p)))"

section \<open>Compact form of big numbers\<close>

fun num_bytes :: "nat \<Rightarrow> nat" where
  "num_bytes v = (if v = 0 then 0 else Suc (num_bytes (v div 256)))"

declare num_bytes.simps [simp del]

definition bn_SetCompact :: "u32 \<Rightarrow> int" where
  "bn_SetCompact nCompact =
     (let nSize = unat (drop_bit 24 nCompact);
          fNegative = (nCompact AND 0x00800000 \<noteq> 0);
          nWord = unat (nCompact AND 0x007fffff);
          v = (if nSize \<le> 3 then nWord div 2 ^ (8 * (3 - nSize)) else nWord * 2 ^ (8 * (nSize - 3)))
      in if fNegative then - int v else int v)"

definition bn_GetCompact :: "int \<Rightarrow> u32" where
  "bn_GetCompact bn =
     (let v = nat \<bar>bn\<bar>;
          nSize = num_bytes v;
          nCompact = (if nSize \<le> 3 then of_nat (v * 2 ^ (8 * (3 - nSize))) else of_nat (v div 2 ^ (8 * (nSize - 3))) :: u32);
          (nCompact, nSize) = (if nCompact AND 0x00800000 \<noteq> 0 then (drop_bit 8 nCompact, nSize + 1) else (nCompact, nSize));
          nCompact = nCompact OR push_bit 24 (of_nat nSize)
      in nCompact OR (if bn < 0 then 0x00800000 else 0))"

definition bn_uint256 :: "uint256 \<Rightarrow> int" where
  "bn_uint256 x = int (le_value x)"

section \<open>The next target\<close>

text \<open>The target spacing of the next block: the parameters are the height of the last block and of the
  last block of the kind.\<close>

definition target_spacing :: "Params \<Rightarrow> bool \<Rightarrow> int \<Rightarrow> int \<Rightarrow> int" where
  "target_spacing params fProofOfStake nHeightLast nHeightPrev =
     (let nSpacingRatio =
            (if nHeightLast \<le> 365 then max 10 (cdiv (wrap64 (nStakeTargetSpacing params * nHeightLast)) 365)
             else max 10 (nStakeTargetSpacing params))
      in if fProofOfStake then nStakeTargetSpacing params
         else min (nTargetSpacingMax params) (wrap64 (nSpacingRatio * (1 + nHeightLast - nHeightPrev))))"

text \<open>The exponential move of a target towards the spacing; \<open>None\<close> is a division by zero.\<close>

definition retarget :: "Params \<Rightarrow> int \<Rightarrow> int \<Rightarrow> int \<Rightarrow> int \<Rightarrow> int option" where
  "retarget params bnOld nTargetSpacing n nActualSpacing =
     (if nTargetSpacing = 0 then None
      else
        let nInterval = cdiv (nTargetTimespan params) nTargetSpacing;
            d = wrap64 ((nInterval + 1) * nTargetSpacing);
            bnNew = bnOld * wrap64 ((nInterval - n) * nTargetSpacing + (n + 1) * nActualSpacing)
        in if d = 0 then None
           else Some (if cdiv bnNew d > bn_uint256 (powLimit params) then bn_uint256 (powLimit params) else cdiv bnNew d))"

definition GetNextTargetRequired :: "heap \<Rightarrow> ptr option \<Rightarrow> bool \<Rightarrow> Params \<Rightarrow> u32 option" where
  "GetNextTargetRequired H pindexLast fProofOfStake params =
     (case pindexLast of
        None \<Rightarrow> GetCompact (UintToArith256 (powLimit params)) False
      | Some l \<Rightarrow>
          Option.bind (Option.bind (GetLastBlockIndex H (Some l) fProofOfStake) id) (\<lambda>prev.
          case pprev (H prev) of
            None \<Rightarrow> GetCompact (UintToArith256 (bnInitialHashTarget params)) False
          | Some q \<Rightarrow>
              Option.bind (Option.bind (GetLastBlockIndex H (Some q) fProofOfStake) id) (\<lambda>prevprev.
              case pprev (H prevprev) of
                None \<Rightarrow> GetCompact (UintToArith256 (bnInitialHashTarget params)) False
              | Some _ \<Rightarrow>
                  let nActualSpacing = GetBlockTime (H prev) - GetBlockTime (H prevprev);
                      n = (if fProofOfStake then 1 else if nHeight (H l) < 365 then 1 else 3)
                  in map_option bn_GetCompact
                       (retarget params (bn_SetCompact (nBits (H prev)))
                          (target_spacing params fProofOfStake (nHeight (H l)) (nHeight (H prev))) n nActualSpacing))))"

section \<open>Checking a hash\<close>

definition CheckProofOfWork :: "uint256 \<Rightarrow> u32 \<Rightarrow> Params \<Rightarrow> bool" where
  "CheckProofOfWork hash bits params =
     (let (bnTarget, fNegative, fOverflow) = SetCompact bits in
      if fNegative \<or> EqualTo bnTarget 0 \<or> fOverflow \<or> CompareTo bnTarget (UintToArith256 (powLimit params)) > 0 then False
      else if CompareTo (UintToArith256 hash) bnTarget > 0 then False
      else True)"

end
