(* ===== verification/MFC_PowProps.thy ===== *)
theory MFC_PowProps
  imports MFC_Pow
begin

unbundle bit_operations_syntax

text \<open>
  The target of the next block is always one that \<^verbatim>\<open>CheckProofOfWork\<close> can accept: the compact form that
  \<^verbatim>\<open>CBigNum\<close> writes is read back by \<^verbatim>\<open>arith_uint256\<close> without sign or overflow, as a positive target within
  the limit. And the check of a hash is the comparison of numbers it stands for.
\<close>

section \<open>The last block of a kind\<close>

lemma GetLastBlockIndex_up:
  assumes wf: "wf_index H B"
  shows "p \<in> B \<Longrightarrow> \<exists>k \<le> hgt H p. GetLastBlockIndex H (Some p) f = Some (Some (up H k p))
    \<and> (IsProofOfStake (H (up H k p)) = f \<or> hgt H (up H k p) = 0)
    \<and> (\<forall>j < k. IsProofOfStake (H (up H j p)) \<noteq> f)"
proof (induction "hgt H p" arbitrary: p)
  case 0
  then have "pprev (H p) = None" using wf_genesis [OF wf 0(2)] by simp
  with 0 show ?case by (intro exI [of _ 0]) (simp add: GetLastBlockIndex.simps)
next
  case (Suc n)
  then obtain q where q: "pprev (H p) = Some q" "q \<in> B" "hgt H q = n"
    using wf_parent [OF wf Suc.prems] by metis
  show ?case
  proof (cases "IsProofOfStake (H p) = f")
    case True
    with q(1) show ?thesis by (intro exI [of _ 0]) (simp add: GetLastBlockIndex.simps)
  next
    case False
    obtain k where k: "k \<le> hgt H q" "GetLastBlockIndex H (Some q) f = Some (Some (up H k q))"
      "IsProofOfStake (H (up H k q)) = f \<or> hgt H (up H k q) = 0" "\<forall>j < k. IsProofOfStake (H (up H j q)) \<noteq> f"
      using Suc.hyps(1) [OF q(3) [symmetric] q(2)] by blast
    have "IsProofOfStake (H (up H j p)) \<noteq> f" if "j < Suc k" for j
      using that False k(4) q(1) by (cases j) simp_all
    moreover have "GetLastBlockIndex H (Some p) f = Some (Some (up H (Suc k) p))"
      using False q(1) k(2) by (subst GetLastBlockIndex.simps) simp
    ultimately show ?thesis using k q Suc.hyps(2) by (intro exI [of _ "Suc k"]) simp
  qed
qed

section \<open>Compact forms\<close>

lemma num_bytes_bounds: "v < 256 ^ num_bytes v" "v \<noteq> 0 \<Longrightarrow> 256 ^ num_bytes v \<le> 256 * v"
proof -
  have "v < 256 ^ num_bytes v \<and> (v \<noteq> 0 \<longrightarrow> 256 ^ num_bytes v \<le> 256 * v)"
  proof (induction v rule: num_bytes.induct)
    case (1 v)
    show ?case
    proof (cases "v = 0")
      case False
      from 1 [OF False] have lt: "v div 256 < 256 ^ num_bytes (v div 256)" by blast
      have le: "256 ^ num_bytes (v div 256) \<le> v"
      proof (cases "v div 256 = 0")
        case True
        then show ?thesis using False by (simp add: num_bytes.simps)
      next
        case False
        with 1 \<open>v \<noteq> 0\<close> have "256 ^ num_bytes (v div 256) \<le> 256 * (v div 256)" by blast
        then show ?thesis by linarith
      qed
      have "num_bytes v = Suc (num_bytes (v div 256))" using False by (subst num_bytes.simps) simp
      then show ?thesis using lt le div_less_iff_less_mult [of 256 v "256 ^ num_bytes (v div 256)"] by simp
    qed (simp add: num_bytes.simps)
  qed
  then show "v < 256 ^ num_bytes v" "v \<noteq> 0 \<Longrightarrow> 256 ^ num_bytes v \<le> 256 * v" by auto
qed

lemma power256_unique:
  fixes v :: nat
  assumes "v < 256 ^ m" "256 ^ n \<le> 256 * v" "v < 256 ^ n" "256 ^ m \<le> 256 * v"
  shows "m = n"
proof -
  have "(256 :: nat) ^ m < 256 ^ Suc n" "(256 :: nat) ^ n < 256 ^ Suc m" unfolding power_Suc using assms by linarith+
  then show ?thesis by (simp add: power_strict_increasing_iff del: power_Suc)
qed

lemma num_bytes_bits:
  assumes "length a = WIDTH"
  shows "num_bytes (val a) = (bits256 a + 7) div 8"
proof (cases "val a = 0")
  case True
  then have "bits256 a = 0" using bits256_bounds(3) [OF assms] by simp
  with True show ?thesis by (simp add: num_bytes.simps)
next
  case False
  show ?thesis
    by (rule power256_unique [of "val a"])
       (use byte_count [OF assms refl] num_bytes_bounds [of "val a"] False in auto)
qed

text \<open>The two implementations of the compact encoding agree.\<close>

lemma bn_GetCompact_agrees:
  assumes a: "length a = WIDTH"
  shows "GetCompact a False = Some (bn_GetCompact (int (val a)))"
proof -
  define n where "n = (bits256 a + 7) div 8"
  define M where "M = top_bytes n (val a)"
  note bc = byte_count [OF a n_def]
  have lt: "M < 16777216" unfolding M_def by (rule top_bytes_lt [OF bc(1)])
  obtain c where c: "GetCompact a False = Some c"
    and u: "unat c = (if 8388608 \<le> M then M div 256 + (n + 1) * 16777216 else M + n * 16777216)"
    using GetCompact_number [OF a n_def M_def] by blast
  define x :: u32 where "x = of_nat M"
  have x: "unat x = M" using lt by (simp add: x_def unat_of_nat)
  have "even (M div 8388608) \<longleftrightarrow> M div 8388608 = 0" using lt less_mult_imp_div_less [of M 2 8388608]
    by (auto simp: less_2_cases_iff)
  then have carry: "x AND 0x00800000 \<noteq> 0 \<longleftrightarrow> 8388608 \<le> M"
    unfolding bit23 x by (auto simp: div_eq_0_iff)
  define y where "y = (if 8388608 \<le> M then drop_bit 8 x else x)"
  define k where "k = (if 8388608 \<le> M then n + 1 else n)"
  have y: "unat y = (if 8388608 \<le> M then M div 256 else M)" by (simp add: y_def unat_drop_bit x)
  have ylt: "unat y < 8388608" unfolding y using lt by (auto intro: less_mult_imp_div_less)
  have kl: "k < 256" using bc(3) by (simp add: k_def)
  have sx: "(if n \<le> 3 then of_nat (val a * 2 ^ (8 * (3 - n))) else of_nat (val a div 2 ^ (8 * (n - 3))) :: u32) = x"
    by (simp add: x_def M_def top_bytes_def power_mult)
  have nb: "nat \<bar>int (val a)\<bar> = val a" "num_bytes (val a) = n" using num_bytes_bits [OF a] by (simp_all add: n_def)
  have "bn_GetCompact (int (val a)) = y OR push_bit 24 (of_nat k) OR 0"
    unfolding bn_GetCompact_def Let_def nb sx carry y_def k_def by (auto split: if_split)
  moreover have "push_bit 24 (of_nat k :: u32) = of_nat (k * 16777216)" by (simp add: push_bit_eq_mult)
  ultimately have "unat (bn_GetCompact (int (val a))) = unat y + k * 16777216"
    using unat_pack [OF ylt kl] by simp
  then have "unat (bn_GetCompact (int (val a))) = unat c" using u y by (simp add: k_def)
  then show ?thesis using c by (simp add: word_unat_eq_iff)
qed

lemma bn_SetCompact_value:
  assumes "even (unat c div 8388608)"
  shows "bn_SetCompact c = int (compact_value (unat c))"
proof -
  have "c AND 0x00800000 = 0" using bit23 [of c] assms by simp
  then show ?thesis
    by (simp add: bn_SetCompact_def Let_def compact_value_def unat_drop_bit unat_and_mask23 power_mult)
qed

lemma val_UintToArith256:
  assumes "length x = 32"
  shows "val (UintToArith256 x) = le_value x" "length (UintToArith256 x) = WIDTH"
proof -
  have "val (map (\<lambda>i. of_nat (ReadLE32 (drop (i * 4) x)) :: u32) [0..<n]) = le_value (take (n * 4) x)" if "n \<le> 8" for n
    using that
  proof (induction n)
    case (Suc n)
    have "take (Suc n * 4) x = take (n * 4) x @ take 4 (drop (n * 4) x)"
      using take_add [of "n * 4" 4 x] by (simp add: add.commute)
    moreover have "length (take (n * 4) x) = n * 4" using Suc.prems assms by simp
    moreover have "(256 :: nat) ^ (n * 4) = B32 ^ n" by (simp add: power_mult [symmetric] mult.commute [of n] power_mult)
    moreover have "unat (of_nat (ReadLE32 (drop (n * 4) x)) :: u32) = le_value (take 4 (drop (n * 4) x))"
      using le_value_lt [of "take 4 (drop (n * 4) x)"] Suc.prems assms by (simp add: ReadLE32_def unat_of_nat)
    ultimately show ?case using Suc by (simp add: val_append le_value_append)
  qed simp
  from this [of 8] show "val (UintToArith256 x) = le_value x" using assms by (simp add: UintToArith256_def)
  show "length (UintToArith256 x) = WIDTH" by (simp add: UintToArith256_def)
qed

lemma CheckProofOfWork_number:
  assumes "length hash = 32" "length (powLimit params) = 32" "SetCompact bits = (r, neg, ov)"
  shows "CheckProofOfWork hash bits params \<longleftrightarrow>
    \<not> neg \<and> \<not> ov \<and> 0 < val r \<and> val r \<le> le_value (powLimit params) \<and> le_value hash \<le> val r"
proof -
  have r: "length r = WIDTH" by (rule SetCompact_parts(1) [OF assms(3)])
  have "EqualTo r 0 \<longleftrightarrow> val r = 0" using EqualTo_val [OF r, of 0] by simp
  moreover have "CompareTo r (UintToArith256 (powLimit params)) > 0 \<longleftrightarrow> val r > le_value (powLimit params)"
    "CompareTo (UintToArith256 hash) r > 0 \<longleftrightarrow> le_value hash > val r"
    using r by (simp_all add: CompareTo_val val_UintToArith256 assms(1,2))
  ultimately show ?thesis by (auto simp: CheckProofOfWork_def assms(3))
qed

section \<open>The next target\<close>

definition params_ok :: "Params \<Rightarrow> bool" where
  "params_ok params \<longleftrightarrow> length (powLimit params) = 32 \<and> length (bnInitialHashTarget params) = 32
     \<and> 0 < le_value (bnInitialHashTarget params) \<and> le_value (bnInitialHashTarget params) \<le> le_value (powLimit params)
     \<and> 0 < nStakeTargetSpacing params \<and> 0 < nTargetSpacingMax params
     \<and> nStakeTargetSpacing params < 2147483648 \<and> nTargetTimespan params < 1099511627776
     \<and> 4 * nStakeTargetSpacing params \<le> nTargetTimespan params \<and> 4 * nTargetSpacingMax params \<le> nTargetTimespan params"

lemma target_spacing_bounds:
  assumes ok: "params_ok params" and h: "0 \<le> hp" "hp \<le> hl" "hl < 2147483648"
  shows "0 < target_spacing params f hl hp" "4 * target_spacing params f hl hp \<le> nTargetTimespan params"
proof -
  let ?S = "nStakeTargetSpacing params"
  define ratio where "ratio = (if hl \<le> 365 then max 10 (cdiv (wrap64 (?S * hl)) 365) else max 10 ?S)"
  have S: "0 < ?S" "?S < 2147483648" using ok by (simp_all add: params_ok_def)
  have m: "?S * hl \<le> 2147483648 * 2147483648" using S h by (intro mult_mono) simp_all
  have m0: "0 \<le> ?S * hl" using S h by simp
  have r: "10 \<le> ratio \<and> ratio \<le> max 10 ?S"
  proof (cases "hl \<le> 365")
    case True
    have "cdiv (wrap64 (?S * hl)) 365 = ?S * hl div 365" using m m0 by (simp add: cdiv_nonneg)
    moreover have "?S * hl div 365 \<le> ?S * 365 div 365" using True S by (intro zdiv_mono1 mult_left_mono) simp_all
    ultimately show ?thesis using True by (simp add: ratio_def)
  qed (simp add: ratio_def)
  then have "ratio \<le> 2147483648" using S by linarith
  then have "0 < ratio * (1 + hl - hp)" "ratio * (1 + hl - hp) \<le> 2147483648 * 2147483648"
    using r h by (simp, intro mult_mono) simp_all
  then have "0 < wrap64 (ratio * (1 + hl - hp))" by simp
  then show "0 < target_spacing params f hl hp" "4 * target_spacing params f hl hp \<le> nTargetTimespan params"
    using ok by (auto simp: target_spacing_def ratio_def [symmetric] Let_def params_ok_def)
qed

text \<open>The move of the target keeps it positive; \<open>A\<close> is the time between the last two blocks of the kind.\<close>

definition stays_positive :: "Params \<Rightarrow> int \<Rightarrow> int \<Rightarrow> int \<Rightarrow> int \<Rightarrow> bool" where
  "stays_positive params old S n A \<longleftrightarrow>
     (nTargetTimespan params div S + 1) * S \<le> old * ((nTargetTimespan params div S - n) * S + (n + 1) * A)"

lemma cdiv_pos_iff: "0 < d \<Longrightarrow> 0 < cdiv x d \<longleftrightarrow> d \<le> x"
proof (cases "0 \<le> x")
  case True
  then show "0 < d \<Longrightarrow> ?thesis" by (simp add: cdiv_nonneg pos_imp_zdiv_pos_iff)
next
  case False
  then have "cdiv x d \<le> 0" if "0 < d" using that by (simp add: cdiv_def sgn_if pos_imp_zdiv_nonneg_iff)
  then show "0 < d \<Longrightarrow> ?thesis" using False by force
qed

lemma retarget_exact:
  assumes S: "0 < S" "4 * S \<le> nTargetTimespan params" "nTargetTimespan params < 1099511627776"
    and n: "n = 1 \<or> n = 3" and A: "\<bar>A\<bar> < 4294967296" and lim: "0 < le_value (powLimit params)"
  shows "\<exists>v. retarget params old S n A = Some v \<and> v \<le> int (le_value (powLimit params)) \<and> (0 < v \<longleftrightarrow> stays_positive params old S n A)"
proof -
  let ?T = "nTargetTimespan params" and ?I = "nTargetTimespan params div S"
  define m where "m = (?I - n) * S + (n + 1) * A"
  define d where "d = (?I + 1) * S"
  have I: "cdiv ?T S = ?I" using S by (simp add: cdiv_nonneg)
  have IS: "?I * S \<le> ?T" using div_mult_mod_eq [of ?T S] pos_mod_sign [OF S(1), of ?T] by linarith
  have I4: "4 \<le> ?I" using S zdiv_mono1 [of "4 * S" ?T S] by simp
  have d: "0 < d" "d < 9223372036854775808" using I4 IS S by (simp add: d_def, simp add: d_def algebra_simps)
  have "- (4 * 4294967296) \<le> (n + 1) * A" "(n + 1) * A \<le> 4 * 4294967296" using n A by auto
  moreover have "0 \<le> (?I - n) * S" "(?I - n) * S \<le> ?I * S" using n I4 S(1) by auto
  ultimately have m: "- 9223372036854775808 \<le> m" "m < 9223372036854775808" using IS S unfolding m_def by linarith+
  define v where "v = (if cdiv (old * m) d > bn_uint256 (powLimit params) then bn_uint256 (powLimit params) else cdiv (old * m) d)"
  have w: "wrap64 d = d" "wrap64 m = m" using d m by (intro wrap64_id; linarith)+
  have "retarget params old S n A = Some v"
    unfolding retarget_def I Let_def d_def [symmetric] m_def [symmetric] w v_def using S(1) d(1) by simp
  moreover have "0 < v \<longleftrightarrow> 0 < cdiv (old * m) d" using lim by (simp add: v_def bn_uint256_def)
  then have "0 < v \<longleftrightarrow> d \<le> old * m" using cdiv_pos_iff [OF d(1), of "old * m"] by simp
  moreover have "v \<le> int (le_value (powLimit params))" by (simp add: v_def bn_uint256_def)
  ultimately show ?thesis by (auto simp: stays_positive_def d_def m_def)
qed

text \<open>Times that do not run backwards and a target above the length of the window are enough.\<close>

lemma stays_positive_forward:
  assumes "0 < S" "4 * S \<le> nTargetTimespan params" "n = 1 \<or> n = 3" "0 \<le> A" "nTargetTimespan params < old"
  shows "stays_positive params old S n A"
proof -
  let ?T = "nTargetTimespan params" and ?I = "nTargetTimespan params div S"
  have I4: "4 \<le> ?I" using assms zdiv_mono1 [of "4 * S" ?T S] by simp
  have "?I \<le> ?T div 1" using assms(1,2) by (intro zdiv_mono2) simp_all
  then have "(?I + 1) * S \<le> old * S" using assms(1,5) by (intro mult_right_mono) simp_all
  also have "S \<le> (?I - n) * S" using assms(1,3) I4 by (auto simp: mult_le_cancel_right1)
  then have "old * S \<le> old * ((?I - n) * S + (n + 1) * A)"
    using assms by (intro mult_left_mono) (auto simp: add_increasing2)
  finally show ?thesis by (simp add: stays_positive_def)
qed

text \<open>A positive number within the limit is encoded so that the decoded target is positive and within the
  limit, and never above the number.\<close>

definition good_bits :: "Params \<Rightarrow> u32 \<Rightarrow> bool" where
  "good_bits params bits \<longleftrightarrow> (\<exists>r. SetCompact bits = (r, False, False) \<and> 0 < val r \<and> val r \<le> le_value (powLimit params))"

lemma GetCompact_good:
  assumes "length a = WIDTH" "0 < val a" "val a \<le> le_value (powLimit params)"
  shows "\<exists>c. GetCompact a False = Some c \<and> good_bits params c"
proof -
  obtain c r K where g: "GetCompact a False = Some c" "SetCompact c = (r, False, False)"
    and v: "val r = val a div K * K" and l: "(val a mod K) * 32768 < val a"
    using GetCompact_SetCompact [OF assms(1)] assms(2) by auto
  have s: "val r + val a mod K = val a" unfolding v by simp
  then have "0 < val r" using l by (cases "val r") auto
  moreover have "val r \<le> le_value (powLimit params)" using s assms(3) by linarith
  ultimately show ?thesis using g by (auto simp: good_bits_def)
qed

lemma val_surj:
  assumes "v < 2 ^ 256"
  shows "\<exists>a. length a = WIDTH \<and> val a = v"
proof -
  let ?x = "le_bytes 32 v"
  have "le_value ?x = v" using assms by (simp add: le_value_le_bytes power_mult [symmetric, of 2 8 32])
  then show ?thesis using val_UintToArith256 [of ?x] by (intro exI [of _ "UintToArith256 ?x"]) simp
qed

lemma bn_GetCompact_good:
  assumes "0 < v" "v \<le> le_value (powLimit params)" "length (powLimit params) = 32"
  shows "good_bits params (bn_GetCompact (int v))"
proof -
  have "v < 2 ^ 256"
    using assms(2) le_value_lt [of "powLimit params"] by (simp add: assms(3) power_mult [symmetric, of 2 8 32])
  then obtain a where "length a = WIDTH" "val a = v" using val_surj by blast
  then show ?thesis using GetCompact_good [of a params] bn_GetCompact_agrees [of a] assms by auto
qed

lemma good_bits_positive:
  assumes "v \<le> int (le_value (powLimit params))" "length (powLimit params) = 32"
  shows "good_bits params (bn_GetCompact v) \<longleftrightarrow> 0 < v"
proof -
  have neg: "\<not> good_bits params c" if c: "c AND 0x00800000 \<noteq> 0" for c
  proof
    assume "good_bits params c"
    then obtain r where r: "SetCompact c = (r, False, False)" "0 < val r" by (auto simp: good_bits_def)
    let ?n = "unat (drop_bit 24 c)" and ?w = "c AND 0x007fffff"
    have "(if ?n \<le> 3 then drop_bit (8 * (3 - ?n)) ?w else ?w) = 0" using r(1) c by (auto simp: SetCompact_def Let_def split: if_splits)
    then have "r = (if ?n \<le> 3 then from_u64 0 else shl256 (from_u64 0) (8 * (?n - 3)))" using r(1) by (auto simp: SetCompact_def Let_def split: if_splits)
    moreover have "val (shl256 (from_u64 0) k) = 0" for k by (simp add: val_shl)
    ultimately show False using r(2) by (auto split: if_splits)
  qed
  consider "0 < v" | "v = 0" | "v < 0" by linarith
  then show ?thesis
  proof cases
    case 1
    then obtain k where "v = int k" "0 < k" by (metis zero_less_imp_eq_int)
    then show ?thesis using bn_GetCompact_good [of k params] assms by simp
  next
    case 2
    have "bn_GetCompact 0 = 0" by (simp add: bn_GetCompact_def num_bytes.simps)
    moreover have "val (fst (SetCompact 0)) = 0" by (simp add: SetCompact_def)
    ultimately show ?thesis using 2 by (auto simp: good_bits_def)
  next
    case 3
    have "\<exists>x. bn_GetCompact v = x OR 0x00800000" using 3 by (auto simp: bn_GetCompact_def Let_def split_beta)
    moreover have "(x OR 0x00800000) AND 0x00800000 \<noteq> (0 :: u32)" for x by (simp add: bit.conj_disj_distrib2)
    ultimately show ?thesis using 3 neg by fastforce
  qed
qed

section \<open>Properties\<close>

text \<open>C10: For a well-formed index and sane parameters the next target is always computed: no null dereference, no division by
  zero and no 64-bit overflow changes the result. For the first two blocks of a kind the compact value is always one
  that the proof-of-work check accepts as a target (positive, not negative, no overflow, at most the limit). Later it is one
  exactly when the last target times the weighted spacing is at least the number it is divided by, which can fail when the
  times of the last two blocks of the kind run far backwards or the last target is tiny; it is when times do not run
  backwards and the last target is above the length of the window.\<close>

theorem next_target_valid:
  assumes ok: "params_ok params" and wf: "wf_index H B" and l: "l \<in> B" and hl: "nHeight (H l) < 2147483648"
  shows "\<exists>p bits. GetLastBlockIndex H (Some l) f = Some (Some p) \<and> GetNextTargetRequired H (Some l) f params = Some bits
    \<and> (good_bits params bits \<longleftrightarrow>
        (\<forall>q r. pprev (H p) = Some q \<and> GetLastBlockIndex H (Some q) f = Some (Some r) \<and> pprev (H r) \<noteq> None \<longrightarrow>
           stays_positive params (bn_SetCompact (nBits (H p))) (target_spacing params f (nHeight (H l)) (nHeight (H p)))
             (if f \<or> nHeight (H l) < 365 then 1 else 3) (GetBlockTime (H p) - GetBlockTime (H r))))
    \<and> (nTargetTimespan params < bn_SetCompact (nBits (H p))
        \<and> (\<forall>q r. pprev (H p) = Some q \<and> GetLastBlockIndex H (Some q) f = Some (Some r) \<longrightarrow> GetBlockTime (H r) \<le> GetBlockTime (H p))
        \<longrightarrow> good_bits params bits)"
proof -
  have lens: "length (powLimit params) = 32" "length (bnInitialHashTarget params) = 32"
    and init: "0 < le_value (bnInitialHashTarget params)" "le_value (bnInitialHashTarget params) \<le> le_value (powLimit params)"
    and T: "nTargetTimespan params < 1099511627776" using ok by (simp_all add: params_ok_def)
  obtain c where first: "GetCompact (UintToArith256 (bnInitialHashTarget params)) False = Some c" "good_bits params c"
    using GetCompact_good [of "UintToArith256 (bnInitialHashTarget params)" params] init by (auto simp: val_UintToArith256 lens)
  obtain k where k: "k \<le> hgt H l" "GetLastBlockIndex H (Some l) f = Some (Some (up H k l))"
    using GetLastBlockIndex_up [OF wf l, of f] by blast
  define p where "p = up H k l"
  have prev: "GetLastBlockIndex H (Some l) f = Some (Some p)" using k by (simp add: p_def)
  have p: "p \<in> B" "hgt H p \<le> hgt H l" using up_in [OF wf l k(1)] by (simp_all add: p_def)
  note start = GetNextTargetRequired_def [of H "Some l" f params]
  show ?thesis
  proof (cases "pprev (H p)")
    case None
    then show ?thesis using first prev by (simp add: start)
  next
    case (Some q)
    have "q \<in> B" using Some wf_prev_cases [OF wf p(1)] by auto
    then obtain j where "GetLastBlockIndex H (Some q) f = Some (Some (up H j q))"
      using GetLastBlockIndex_up [OF wf, of q f] by blast
    then obtain r where r: "GetLastBlockIndex H (Some q) f = Some (Some r)" by blast
    show ?thesis
    proof (cases "pprev (H r)")
      case None
      then show ?thesis using first Some prev r by (simp add: start)
    next
      case more: (Some _)
      define S where "S = target_spacing params f (nHeight (H l)) (nHeight (H p))"
      define n :: int where "n = (if f \<or> nHeight (H l) < 365 then 1 else 3)"
      define A where "A = GetBlockTime (H p) - GetBlockTime (H r)"
      have S: "0 < S" "4 * S \<le> nTargetTimespan params" unfolding S_def
        using target_spacing_bounds [OF ok, of "nHeight (H p)" "nHeight (H l)" f] hl p nHeight_hgt [OF wf p(1)] nHeight_hgt [OF wf l]
        by simp_all
      have t: "0 \<le> GetBlockTime (H x)" "GetBlockTime (H x) < 4294967296" for x
        using unsigned_less [of "nTime (H x)", where 'a = int] by (simp_all add: GetBlockTime_def)
      have A: "\<bar>A\<bar> < 4294967296" using t [of p] t [of r] unfolding A_def by linarith
      have n: "n = 1 \<or> n = 3" by (simp add: n_def)
      obtain v where v: "retarget params (bn_SetCompact (nBits (H p))) S n A = Some v" "v \<le> int (le_value (powLimit params))"
          "0 < v \<longleftrightarrow> stays_positive params (bn_SetCompact (nBits (H p))) S n A"
        using retarget_exact [OF S T n A] init by force
      have "GetNextTargetRequired H (Some l) f params = Some (bn_GetCompact v)"
        using Some more v(1) by (auto simp: start prev r A_def S_def n_def)
      moreover have "good_bits params (bn_GetCompact v) \<longleftrightarrow> stays_positive params (bn_SetCompact (nBits (H p))) S n A"
        using good_bits_positive [OF v(2) lens(1)] v(3) by simp
      ultimately show ?thesis using prev Some r more stays_positive_forward [OF S n, of A "bn_SetCompact (nBits (H p))"]
        by (simp add: S_def n_def A_def)
    qed
  qed
qed

definition sample_params :: Params where
  "sample_params = \<lparr>powLimit = 0xff # replicate 27 0xff @ replicate 4 0, bnInitialHashTarget = 0xff # replicate 27 0xff @ replicate 4 0,
     nStakeTargetSpacing = 600, nTargetSpacingMax = 7200, nTargetTimespan = 604800\<rparr>"

theorem next_target_valid_witness:
  "\<exists>bits. GetNextTargetRequired line (Some 5) True sample_params = Some bits \<and> good_bits sample_params bits"
proof -
  have ok: "params_ok sample_params" by (simp add: params_ok_def sample_params_def)
  have g: "GetLastBlockIndex line (Some p) True = Some (Some p)" for p
    by (subst GetLastBlockIndex.simps) (simp add: line_def IsProofOfStake_def)
  have "nTargetTimespan sample_params < bn_SetCompact (nBits (line 5))"
    by (simp add: line_def sample_params_def bn_SetCompact_value compact_value_def)
  then show ?thesis using next_target_valid [OF ok wf_line UNIV_I, of 5 True] by (auto simp: g time_line)
qed

text \<open>C31: A hash passes the proof-of-work check exactly when the encoded target is positive, neither negative nor
  too large, at most the limit, and the hash as a number is at most the target.\<close>

theorem CheckProofOfWork_iff:
  assumes "length hash = 32" "length (powLimit params) = 32" "SetCompact bits = (r, neg, ov)"
  shows "CheckProofOfWork hash bits params \<longleftrightarrow>
    \<not> neg \<and> \<not> ov \<and> 0 < val r \<and> val r \<le> le_value (powLimit params) \<and> le_value hash \<le> val r"
  using assms by (rule CheckProofOfWork_number)

theorem CheckProofOfWork_iff_witness:
  "\<not> CheckProofOfWork (replicate 32 0) 0 sample_params"
  using CheckProofOfWork_iff [of "replicate 32 0" sample_params 0 "fst (SetCompact 0)" "fst (snd (SetCompact 0))" "snd (snd (SetCompact 0))"]
  by (simp add: sample_params_def SetCompact_def)

end
