(* ===== verification/MFC_Standard.thy ===== *)
theory MFC_Standard
  imports MFC_NameScript
begin

unbundle bit_operations_syntax

text \<open>
  Standard output scripts (\<^verbatim>\<open>src/src/script/standard.cpp\<close>, \<^verbatim>\<open>standard.h\<close>) and the public key container of
  \<^verbatim>\<open>src/src/pubkey.h\<close>: template matching, the addresses a script pays to, with or without a name
  prefix, and the scripts for an address, a key, a set of keys or a witness program. The hash functions
  are arguments. The exception of the name decoder passes through as \<open>Inl\<close>.
\<close>

section \<open>Public keys\<close>

text \<open>A key is the list of its \<^verbatim>\<open>size()\<close> meaningful bytes, empty when it is invalid.\<close>

type_synonym CPubKey = bytes

definition GetLen :: "byte \<Rightarrow> nat" where
  "GetLen chHeader =
     (if chHeader = 2 \<or> chHeader = 3 then 33
      else if chHeader = 4 \<or> chHeader = 6 \<or> chHeader = 7 then 65 else 0)"

definition CPubKey_Set :: "bytes \<Rightarrow> CPubKey" where
  "CPubKey_Set v =
     (let len = (if v = [] then 0 else GetLen (hd v)) in if len \<noteq> 0 \<and> len = length v then v else [])"

definition CPubKey_IsValid :: "CPubKey \<Rightarrow> bool" where
  "CPubKey_IsValid k \<longleftrightarrow> length k > 0"

definition IsCompressed :: "CPubKey \<Rightarrow> bool" where
  "IsCompressed k \<longleftrightarrow> length k = 33"

definition GetID :: "(bytes \<Rightarrow> bytes) \<Rightarrow> CPubKey \<Rightarrow> bytes" where
  "GetID Hash160 k = Hash160 k"

section \<open>Templates\<close>

datatype txnouttype =
    TX_NONSTANDARD | TX_PUBKEY | TX_PUBKEYHASH | TX_SCRIPTHASH | TX_MULTISIG | TX_NULL_DATA
  | TX_WITNESS_V0_SCRIPTHASH | TX_WITNESS_V0_KEYHASH
  | TX_NAME_PUBKEYHASH | TX_NAME_SCRIPTHASH | TX_NAME_WITNESS_V0_SCRIPTHASH | TX_NAME_WITNESS_V0_KEYHASH

definition GetTxnOutputType :: "txnouttype \<Rightarrow> string" where
  "GetTxnOutputType t =
     (case t of
        TX_NONSTANDARD \<Rightarrow> ''nonstandard'' | TX_PUBKEY \<Rightarrow> ''pubkey'' | TX_PUBKEYHASH \<Rightarrow> ''pubkeyhash''
      | TX_SCRIPTHASH \<Rightarrow> ''scripthash'' | TX_MULTISIG \<Rightarrow> ''multisig'' | TX_NULL_DATA \<Rightarrow> ''nulldata''
      | TX_WITNESS_V0_KEYHASH \<Rightarrow> ''witness_v0_keyhash'' | TX_WITNESS_V0_SCRIPTHASH \<Rightarrow> ''witness_v0_scripthash''
      | TX_NAME_PUBKEYHASH \<Rightarrow> ''name_pubkeyhash'' | TX_NAME_SCRIPTHASH \<Rightarrow> ''name_scripthash''
      | TX_NAME_WITNESS_V0_KEYHASH \<Rightarrow> ''name_witness_v0_keyhash''
      | TX_NAME_WITNESS_V0_SCRIPTHASH \<Rightarrow> ''name_witness_v0_scripthash'')"

abbreviation (input) OP_SMALLINTEGER :: opcodetype where "OP_SMALLINTEGER \<equiv> 0xfa"
abbreviation (input) OP_PUBKEYS :: opcodetype where "OP_PUBKEYS \<equiv> 0xfb"
abbreviation (input) OP_PUBKEYHASH :: opcodetype where "OP_PUBKEYHASH \<equiv> 0xfd"
abbreviation (input) OP_PUBKEY :: opcodetype where "OP_PUBKEY \<equiv> 0xfe"

definition mTemplates :: "(txnouttype \<times> script) list" where
  "mTemplates =
     [(TX_PUBKEY, [of_nat OP_PUBKEY, of_nat OP_CHECKSIG]),
      (TX_PUBKEYHASH, [of_nat OP_DUP, of_nat OP_HASH160, of_nat OP_PUBKEYHASH, of_nat OP_EQUALVERIFY, of_nat OP_CHECKSIG]),
      (TX_MULTISIG, [of_nat OP_SMALLINTEGER, of_nat OP_PUBKEYS, of_nat OP_SMALLINTEGER, of_nat OP_CHECKMULTISIG])]"

text \<open>The run of keys that \<^verbatim>\<open>OP_PUBKEYS\<close> matches: the instruction after them, what is left and the keys.\<close>

function pubkeys_loop :: "bytes \<Rightarrow> opcodetype \<Rightarrow> bytes \<Rightarrow> bytes list \<Rightarrow> bytes \<times> opcodetype \<times> bytes \<times> bytes list" where
  "pubkeys_loop r1 opcode1 vch1 vSolutions =
     (if 33 \<le> length vch1 \<and> length vch1 \<le> 65 then
        (case GetOp2 r1 of (ok, k, opcode, vch) \<Rightarrow>
           if ok then pubkeys_loop (drop k r1) opcode vch (vSolutions @ [vch1])
           else (drop k r1, opcode, vch, vSolutions @ [vch1]))
      else (r1, opcode1, vch1, vSolutions))"
  by pat_completeness auto
termination
  by (relation "measure (\<lambda>(r1, _, _, _). length r1)") (auto simp: GetOp2_shrinks)

declare pubkeys_loop.simps [simp del]

lemma length_pubkeys_loop: "pubkeys_loop r1 o1 v1 sols = (r', o', v', sols') \<Longrightarrow> length r' \<le> length r1"
proof (induction r1 o1 v1 sols arbitrary: r' o' v' sols' rule: pubkeys_loop.induct)
  case (1 r1 o1 v1 sols)
  obtain ok k opc v where g: "GetOp2 r1 = (ok, k, opc, v)" by (cases "GetOp2 r1") auto
  show ?case
  proof (cases "33 \<le> length v1 \<and> length v1 \<le> 65 \<and> ok")
    case True
    with g 1(2) have "pubkeys_loop (drop k r1) opc v (sols @ [v1]) = (r', o', v', sols')"
      by (simp add: pubkeys_loop.simps [of r1])
    from 1(1) [OF _ g [symmetric] refl refl _ this] True show ?thesis by auto
  next
    case False
    with g 1(2) show ?thesis by (auto simp: pubkeys_loop.simps [of r1] split: if_splits)
  qed
qed

lemma pubkeys_shrinks:
  assumes "(True, k, opc, v) = GetOp2 r" "(r', o', v', sols') = pubkeys_loop (drop k r) o1 v1 sols"
  shows "length r' < length r"
  using GetOp2_shrinks [OF assms(1)] length_pubkeys_loop [OF assms(2) [symmetric]] by simp

text \<open>One template against a script: the solutions, if it matches.\<close>

definition match_one :: "opcodetype \<Rightarrow> bytes \<Rightarrow> opcodetype \<Rightarrow> bytes \<Rightarrow> bytes list \<Rightarrow> bytes list option" where
  "match_one opcode1 vch1 opcode2 vch2 vSolutions =
     (if opcode2 = OP_PUBKEY then
        (if length vch1 < 33 \<or> length vch1 > 65 then None else Some (vSolutions @ [vch1]))
      else if opcode2 = OP_PUBKEYHASH then
        (if length vch1 \<noteq> 20 then None else Some (vSolutions @ [vch1]))
      else if opcode2 = OP_SMALLINTEGER then
        map_option (\<lambda>n. vSolutions @ [[of_nat n]]) (DecodeOP_N opcode1)
      else if opcode1 \<noteq> opcode2 \<or> vch1 \<noteq> vch2 then None else Some vSolutions)"

function match_template :: "bytes \<Rightarrow> bytes \<Rightarrow> bytes list \<Rightarrow> bytes list option" where
  "match_template r1 r2 vSolutions =
     (if r1 = [] \<and> r2 = [] then Some vSolutions
      else case GetOp2 r1 of (ok1, k1, opcode1, vch1) \<Rightarrow>
        if \<not> ok1 then None
        else case GetOp2 r2 of (ok2, k2, opcode2, vch2) \<Rightarrow>
          if \<not> ok2 then None
          else if opcode2 = OP_PUBKEYS then
            (case pubkeys_loop (drop k1 r1) opcode1 vch1 vSolutions of (r1', opcode1', vch1', sols) \<Rightarrow>
             case GetOp2 (drop k2 r2) of (ok3, k3, opcode3, vch3) \<Rightarrow>
               if \<not> ok3 then None
               else case match_one opcode1' vch1' opcode3 vch3 sols of
                 None \<Rightarrow> None
               | Some sols \<Rightarrow> match_template r1' (drop k3 (drop k2 r2)) sols)
          else case match_one opcode1 vch1 opcode2 vch2 vSolutions of
            None \<Rightarrow> None
          | Some sols \<Rightarrow> match_template (drop k1 r1) (drop k2 r2) sols)"
  by pat_completeness auto
termination
  by (relation "measure (\<lambda>(r1, _, _). length r1)") (auto simp: GetOp2_shrinks dest: pubkeys_shrinks)

declare match_template.simps [simp del]

fun scan_templates :: "(txnouttype \<times> script) list \<Rightarrow> script \<Rightarrow> bool \<times> txnouttype \<times> bytes list" where
  "scan_templates [] s = (False, TX_NONSTANDARD, [])"
| "scan_templates ((t, tplate) # ts) s =
     (case match_template s tplate [] of
        None \<Rightarrow> scan_templates ts s
      | Some sols \<Rightarrow>
          if t = TX_MULTISIG then
            (let m = unat (hd (hd sols)); n = unat (hd (last sols)) in
             if m < 1 \<or> n < 1 \<or> m > n \<or> length sols - 2 \<noteq> n then (False, t, sols) else (True, t, sols))
          else (True, t, sols))"

text \<open>The type that the caller passes in stays when a witness program of another version or length is
  met. The tests with transaction version 0 do not look behind a name prefix.\<close>

definition SolverInner :: "script \<Rightarrow> txnouttype \<Rightarrow> bool \<times> txnouttype \<times> bytes list" where
  "SolverInner s typeRet =
     (if IsPayToScriptHashInner s then (True, TX_SCRIPTHASH, [take 20 (drop 2 s)])
      else case IsWitnessProgramInner s of
        Some (version, prog) \<Rightarrow>
          if version = 0 \<and> length prog = 20 then (True, TX_WITNESS_V0_KEYHASH, [prog])
          else if version = 0 \<and> length prog = 32 then (True, TX_WITNESS_V0_SCRIPTHASH, [prog])
          else (False, typeRet, [])
      | None \<Rightarrow>
          if length s \<ge> 1 \<and> unat (s ! 0) = OP_RETURN \<and> IsPushOnly (drop 1 s) then (True, TX_NULL_DATA, [])
          else scan_templates mTemplates s)"

definition name_type :: "txnouttype \<Rightarrow> txnouttype option" where
  "name_type t =
     (case t of
        TX_PUBKEYHASH \<Rightarrow> Some TX_NAME_PUBKEYHASH | TX_SCRIPTHASH \<Rightarrow> Some TX_NAME_SCRIPTHASH
      | TX_WITNESS_V0_KEYHASH \<Rightarrow> Some TX_NAME_WITNESS_V0_KEYHASH
      | TX_WITNESS_V0_SCRIPTHASH \<Rightarrow> Some TX_NAME_WITNESS_V0_SCRIPTHASH | _ \<Rightarrow> None)"

definition Solver :: "script \<Rightarrow> txnouttype \<Rightarrow> cpp_exn + bool \<times> txnouttype \<times> bytes list" where
  "Solver s typeRet =
     (case SolverInner s typeRet of (ret, t, sols) \<Rightarrow>
        if ret then Inr (ret, t, sols)
        else bind_sum (RemoveNameScriptPrefix s) (\<lambda>rest.
          case rest of
            None \<Rightarrow> Inr (False, t, sols)
          | Some scriptWithoutName \<Rightarrow>
              (case SolverInner scriptWithoutName t of (ret, t, sols) \<Rightarrow>
                 if ret then (case name_type t of Some t \<Rightarrow> Inr (True, t, sols) | None \<Rightarrow> Inr (False, TX_NONSTANDARD, sols))
                 else Inr (False, t, sols))))"

section \<open>Destinations\<close>

datatype CTxDestination = CNoDestination | CKeyID bytes | CScriptID bytes

definition ExtractDestination :: "(bytes \<Rightarrow> bytes) \<Rightarrow> script \<Rightarrow> cpp_exn + CTxDestination option" where
  "ExtractDestination Hash160 s =
     bind_sum (Solver s TX_NONSTANDARD) (\<lambda>(ok, whichType, vSolutions).
       if \<not> ok then Inr None
       else if whichType = TX_PUBKEY then
         (let pubKey = CPubKey_Set (hd vSolutions) in
          Inr (if \<not> CPubKey_IsValid pubKey then None else Some (CKeyID (GetID Hash160 pubKey))))
       else if whichType = TX_PUBKEYHASH \<or> whichType = TX_NAME_PUBKEYHASH then Inr (Some (CKeyID (hd vSolutions)))
       else if whichType = TX_SCRIPTHASH \<or> whichType = TX_NAME_SCRIPTHASH then Inr (Some (CScriptID (hd vSolutions)))
       else Inr None)"

text \<open>The out parameters on every path; the number of required signatures may be left unset.\<close>

definition ExtractDestinations ::
    "(bytes \<Rightarrow> bytes) \<Rightarrow> script \<Rightarrow> cpp_exn + bool \<times> txnouttype \<times> CTxDestination list \<times> nat option" where
  "ExtractDestinations Hash160 s =
     bind_sum (Solver s TX_NONSTANDARD) (\<lambda>(ok, typeRet, vSolutions).
       if \<not> ok \<or> typeRet = TX_NULL_DATA then Inr (False, typeRet, [], None)
       else if typeRet = TX_MULTISIG then
         (let addressRet = map (\<lambda>k. CKeyID (GetID Hash160 k))
                (filter CPubKey_IsValid (map CPubKey_Set (butlast (tl vSolutions))))
          in Inr (addressRet \<noteq> [], typeRet, addressRet, Some (unat (hd (hd vSolutions)))))
       else bind_sum (ExtractDestination Hash160 s) (\<lambda>address.
         case address of
           None \<Rightarrow> Inr (False, typeRet, [], Some 1)
         | Some a \<Rightarrow> Inr (True, typeRet, [a], Some 1)))"

definition GetScriptForDestination :: "CTxDestination \<Rightarrow> script" where
  "GetScriptForDestination dest =
     (case dest of
        CNoDestination \<Rightarrow> []
      | CKeyID keyID \<Rightarrow> [of_nat OP_DUP, of_nat OP_HASH160] @ push_data keyID @ [of_nat OP_EQUALVERIFY, of_nat OP_CHECKSIG]
      | CScriptID scriptID \<Rightarrow> [of_nat OP_HASH160] @ push_data scriptID @ [of_nat OP_EQUAL])"

definition GetScriptForRawPubKey :: "CPubKey \<Rightarrow> script" where
  "GetScriptForRawPubKey pubKey = push_data pubKey @ [of_nat OP_CHECKSIG]"

text \<open>\<open>None\<close> is the failed assertion of \<^verbatim>\<open>EncodeOP_N\<close> on more than 16 keys.\<close>

definition GetScriptForMultisig :: "nat \<Rightarrow> CPubKey list \<Rightarrow> script option" where
  "GetScriptForMultisig nRequired keys =
     Option.bind (EncodeOP_N nRequired) (\<lambda>m. Option.bind (EncodeOP_N (length keys)) (\<lambda>n.
       Some ([of_nat m] @ concat (map push_data keys) @ [of_nat n, of_nat OP_CHECKMULTISIG])))"

definition GetScriptForWitness :: "(bytes \<Rightarrow> bytes) \<Rightarrow> (bytes \<Rightarrow> bytes) \<Rightarrow> script \<Rightarrow> cpp_exn + script" where
  "GetScriptForWitness Hash160 Sha256 redeemscript =
     bind_sum (Solver redeemscript TX_NONSTANDARD) (\<lambda>(ok, typ, vSolutions).
       if ok \<and> typ = TX_PUBKEY then Inr ([of_nat OP_0] @ push_data (Hash160 (hd vSolutions)))
       else if ok \<and> (typ = TX_PUBKEYHASH \<or> typ = TX_NAME_PUBKEYHASH) then Inr ([of_nat OP_0] @ push_data (hd vSolutions))
       else Inr ([of_nat OP_0] @ push_data (Sha256 redeemscript)))"

definition GenerateScriptForRandPay :: "(bytes \<Rightarrow> bytes) \<Rightarrow> script \<Rightarrow> cpp_exn + script" where
  "GenerateScriptForRandPay Hash160 s =
     bind_sum (ExtractDestination Hash160 s) (\<lambda>address.
       case address of Some a \<Rightarrow> Inr (GetScriptForDestination a) | None \<Rightarrow> Inr [of_nat OP_RETURN])"

section \<open>Matching the templates\<close>

lemma match_Nil [simp]: "match_template [] [] sols = Some sols"
  by (simp add: match_template.simps)

lemma match_step:
  assumes "GetOp2 r1 = (True, k1, opcode1, vch1)" "GetOp2 r2 = (True, k2, opcode2, vch2)" "opcode2 \<noteq> OP_PUBKEYS"
  shows "match_template r1 r2 sols =
    (case match_one opcode1 vch1 opcode2 vch2 sols of
       None \<Rightarrow> None | Some sols \<Rightarrow> match_template (drop k1 r1) (drop k2 r2) sols)"
proof -
  have "r1 \<noteq> []" using assms(1) by auto
  then show ?thesis using assms by (simp add: match_template.simps [of r1])
qed

lemma match_opcode [simp]:
  assumes "OP_PUSHDATA4 < unat c1" "OP_PUSHDATA4 < unat c2" "unat c2 \<noteq> OP_PUBKEYS"
  shows "match_template (c1 # r1) (c2 # r2) sols =
    (case match_one (unat c1) [] (unat c2) [] sols of None \<Rightarrow> None | Some sols \<Rightarrow> match_template r1 r2 sols)"
  using match_step [of "c1 # r1" 1 "unat c1" "[]" "c2 # r2" 1 "unat c2" "[]" sols] assms by (simp split: option.split)

lemma match_push [simp]:
  assumes "length b < 4294967296" "OP_PUSHDATA4 < unat c2" "unat c2 \<noteq> OP_PUBKEYS"
  shows "match_template (push_data b @ r1) (c2 # r2) sols =
    (case match_one (push_opc b) b (unat c2) [] sols of None \<Rightarrow> None | Some sols \<Rightarrow> match_template r1 r2 sols)"
  using match_step [of "push_data b @ r1" "length (push_data b)" "push_opc b" b "c2 # r2" 1 "unat c2" "[]" sols] assms
  by (simp split: option.split)

lemma match_pubkeys_drop:
  "match_template (of_nat OP_DROP # r) (of_nat OP_PUBKEYS # of_nat OP_SMALLINTEGER # r2) sols = None"
  by (subst match_template.simps) (simp add: pubkeys_loop.simps match_one_def DecodeOP_N_def)

lemma SolverInner_p2pkh:
  assumes "length h = 20"
  shows "SolverInner (GetScriptForDestination (CKeyID h)) t = (True, TX_PUBKEYHASH, [h])"
proof -
  let ?s = "GetScriptForDestination (CKeyID h)"
  have s: "?s = 0x76 # 0xa9 # push_data h @ [0x88, 0xac]" by (simp add: GetScriptForDestination_def)
  have "length ?s = 25" using assms by (simp add: s push_data_def)
  then have "\<not> IsPayToScriptHashInner ?s" "IsWitnessProgramInner ?s = None" "unat (?s ! 0) \<noteq> OP_RETURN"
    by (simp_all add: IsPayToScriptHashInner_def IsWitnessProgramInner_def s)
  moreover have "scan_templates mTemplates ?s = (True, TX_PUBKEYHASH, [h])"
    using assms by (simp add: s mTemplates_def match_one_def)
  ultimately show ?thesis by (simp add: SolverInner_def)
qed

lemma SolverInner_p2sh:
  assumes "length h = 20"
  shows "SolverInner (GetScriptForDestination (CScriptID h)) t = (True, TX_SCRIPTHASH, [h])"
proof -
  have s: "GetScriptForDestination (CScriptID h) = 0xa9 # 0x14 # h @ [0x87]"
    using assms by (simp add: GetScriptForDestination_def push_data_def)
  then show ?thesis using assms by (simp add: SolverInner_def IsPayToScriptHashInner_def nth_append)
qed

text \<open>A name script is no standard script itself: it starts with a small number and a drop.\<close>

lemma SolverInner_name:
  assumes "op = OP_NAME_NEW \<or> op = OP_NAME_UPDATE \<or> op = OP_NAME_DELETE" "s = of_int (op + 80) # of_nat OP_DROP # r"
  shows "fst (SolverInner s t) = False"
proof -
  have b: "unat (s ! 0) = nat op + 80" using assms unat_op_byte [of op] by auto
  have "\<not> IsPayToScriptHashInner s" "unat (s ! 0) \<noteq> OP_RETURN"
    using b assms(1) by (auto simp: IsPayToScriptHashInner_def)
  moreover have "case IsWitnessProgramInner s of None \<Rightarrow> True | Some (v, _) \<Rightarrow> v \<noteq> 0"
    using b assms(1) by (auto simp: IsWitnessProgramInner_def DecodeOP_N_def)
  moreover have "\<not> fst (scan_templates mTemplates s)"
  proof -
    have u: "unat (of_int (op + 80) :: byte) = nat op + 80" using assms(1) unat_op_byte [of op] by auto
    have "match_template s [of_nat OP_PUBKEY, of_nat OP_CHECKSIG] [] = None"
      "match_template s [of_nat OP_DUP, of_nat OP_HASH160, of_nat OP_PUBKEYHASH, of_nat OP_EQUALVERIFY, of_nat OP_CHECKSIG] [] = None"
      using u assms by (auto simp: match_one_def)
    moreover have "match_template s [of_nat OP_SMALLINTEGER, of_nat OP_PUBKEYS, of_nat OP_SMALLINTEGER, of_nat OP_CHECKMULTISIG] [] = None"
      using u assms match_pubkeys_drop [of r] by (auto simp: match_one_def DecodeOP_N_def)
    ultimately show ?thesis by (simp add: mTemplates_def)
  qed
  ultimately show ?thesis by (auto simp: SolverInner_def split: option.split)
qed

lemma Remove_before_destination:
  assumes cr: "createNameScript [] name v nRentalDays op err = (True, p, err')"
    and op: "op = OP_NAME_NEW \<or> op = OP_NAME_UPDATE" and v: "v \<noteq> []"
    and d: "d = CKeyID h \<or> d = CScriptID h"
  shows "RemoveNameScriptPrefix (p @ GetScriptForDestination d) = Inr (Some (GetScriptForDestination d))"
proof -
  obtain opc where "GetOp2 (GetScriptForDestination d) = (True, 1, opc, [])" "opc \<noteq> OP_DROP" "opc \<noteq> OP_2DROP"
    using d by (auto simp: GetScriptForDestination_def)
  from decode_created [OF cr op v this] show ?thesis by (simp add: RemoveNameScriptPrefix_def)
qed

lemma Solver_named:
  assumes "op = OP_NAME_NEW \<or> op = OP_NAME_UPDATE \<or> op = OP_NAME_DELETE" "s = of_int (op + 80) # of_nat OP_DROP # r"
    and "RemoveNameScriptPrefix s = Inr (Some s')" "\<And>t. SolverInner s' t = (True, t', sols)" "name_type t' = Some n"
  shows "Solver s t = Inr (True, n, sols)"
proof -
  obtain b t1 sols1 where i: "SolverInner s t = (b, t1, sols1)" by (metis prod_cases3)
  with SolverInner_name [OF assms(1,2), of t] have "\<not> b" by simp
  with i assms(3-5) show ?thesis by (simp add: Solver_def)
qed

lemma ExtractDestination_plain:
  assumes "d = CKeyID h \<or> d = CScriptID h" and "length h = 20"
  shows "ExtractDestination Hash160 (GetScriptForDestination d) = Inr (Some d)"
  using assms(1) by (elim disjE) (simp_all add: ExtractDestination_def Solver_def SolverInner_p2pkh SolverInner_p2sh assms(2))

section \<open>Properties\<close>



end
