(* ===== verification/MFC_NameIndex.thy ===== *)
theory MFC_NameIndex
  imports MFC_Pow MFC_Standard
begin

unbundle bit_operations_syntax

text \<open>
  The name index of \<^verbatim>\<open>src/src/namecoin.cpp\<close> and \<^verbatim>\<open>namecoin.h\<close>: the records of names, expiry, fees, the checks of
  a name transaction when its block is connected (\<^verbatim>\<open>CheckInputs\<close>), the update of the index
  (\<^verbatim>\<open>ConnectBlock\<close>) and its reversal (\<^verbatim>\<open>DisconnectInputs\<close>), the address index, the pending names and the
  lookup of values.

  The two database files and the map of pending names are the fields of \<open>name_state\<close>; a database is a map
  from keys to records whose writes succeed. Reading a transaction by its position, the transaction index,
  the hash functions, the printing of an address and the wallet's ownership test are fields of \<open>name_env\<close>.
  \<open>Inl\<close> is an abort: a failed assertion, an index out of bounds, a null pointer or an exception. The
  Boolean results are the ones of the code.
\<close>

section \<open>Data\<close>

record CDiskTxPos = CDiskBlockPos +
  nTxOffset :: u32

record CNameIndex =
  ni_txPos :: CDiskTxPos
  ni_nHeight :: int
  ni_op :: int
  ni_value :: CNameVal

record CNameRecord =
  vtxPos :: "CNameIndex list"
  nExpiresAt :: int
  nLastActiveChainIndex :: int

definition CNameRecord0 :: CNameRecord where
  "CNameRecord0 = \<lparr>vtxPos = [], nExpiresAt = 0, nLastActiveChainIndex = 0\<rparr>"

definition deleted :: "CNameRecord \<Rightarrow> bool" where
  "deleted rec = (if vtxPos rec \<noteq> [] then ni_op (last (vtxPos rec)) = OP_NAME_DELETE else True)"

record nameTempProxy =
  ntp_nTime :: u32
  ntp_name :: CNameVal
  ntp_op :: int
  ntp_hash :: uint256
  ntp_ind :: CNameIndex
  ntp_address :: string
  ntp_prev_address :: string

record name_state =
  nameindex :: "CNameVal \<Rightarrow> CNameRecord option"
  nameaddress :: "string \<Rightarrow> CNameVal set option"
  mapNamePending :: "CNameVal \<Rightarrow> uint256 set option"

record name_env =
  ne_tx :: "CDiskTxPos \<Rightarrow> CTransaction option"
  ne_index :: "uint256 \<Rightarrow> CDiskTxPos option"
  ne_hash :: "bytes \<Rightarrow> uint256"
  ne_hash160 :: "bytes \<Rightarrow> bytes"
  ne_address :: "CTxDestination \<Rightarrow> string"
  ne_mine :: "(CTxDestination \<Rightarrow> bool) option"

datatype name_abort = AssertFailed | OutOfBounds | NullPointer | Threw cpp_exn

definition lift_exn :: "cpp_exn + 'a \<Rightarrow> name_abort + 'a" where
  "lift_exn m = map_sum Threw id m"

section \<open>Strings\<close>

definition stringFromNameVal :: "CNameVal \<Rightarrow> string" where
  "stringFromNameVal nameVal = map (\<lambda>b. char_of (unat b)) nameVal"

definition nameValFromString :: "string \<Rightarrow> CNameVal" where
  "nameValFromString str = map (\<lambda>c. of_nat (of_char c)) str"

definition limitString :: "string \<Rightarrow> nat \<Rightarrow> string \<Rightarrow> string" where
  "limitString inp n message =
     (if n = 0 then inp else if length inp > n then take n inp @ message else inp)"

definition stringFromOp :: "int \<Rightarrow> string" where
  "stringFromOp op =
     (if op = OP_NAME_UPDATE then ''name_update'' else if op = OP_NAME_NEW then ''name_new''
      else if op = OP_NAME_DELETE then ''name_delete'' else ''<unknown name op>'')"

section \<open>The name operation of a transaction\<close>

fun decode_outputs :: "name_env \<Rightarrow> bool \<Rightarrow> bool \<Rightarrow> nat \<Rightarrow> CTxOut list \<Rightarrow> bool \<Rightarrow> NameTxInfo \<Rightarrow> cpp_exn + bool \<times> NameTxInfo" where
  "decode_outputs E fExtractAddress fCheckIsMine i [] found nti =
     Inr (found, if found then nti\<lparr>nti_err_msg := []\<rparr> else nti)"
| "decode_outputs E fExtractAddress fCheckIsMine i (out # outs) found nti =
     bind_sum (DecodeNameScript (scriptPubKey out) NameTxInfo0 0) (\<lambda>(ok, ntiTmp, pc).
       if \<not> ok then decode_outputs E fExtractAddress fCheckIsMine (Suc i) outs found nti
       else if found then Inr (False, nti)
       else
         let nti = ntiTmp\<lparr>nti_nOut := int i\<rparr> in
         if fExtractAddress then
           bind_sum (ExtractDestination (ne_hash160 E) (drop pc (scriptPubKey out))) (\<lambda>d.
             let address = (case d of Some a \<Rightarrow> a | None \<Rightarrow> CNoDestination);
                 nti = nti\<lparr>nti_strAddress := ne_address E address\<rparr>;
                 nti = (case ne_mine E of
                          Some mine \<Rightarrow> if fCheckIsMine then nti\<lparr>nti_fIsMine := mine address\<rparr> else nti
                        | None \<Rightarrow> nti)
             in decode_outputs E fExtractAddress fCheckIsMine (Suc i) outs True nti)
         else decode_outputs E fExtractAddress fCheckIsMine (Suc i) outs True nti)"

definition DecodeNameTx :: "name_env \<Rightarrow> CTransaction \<Rightarrow> bool \<Rightarrow> bool \<Rightarrow> cpp_exn + bool \<times> NameTxInfo" where
  "DecodeNameTx E tx fExtractAddress fCheckIsMine =
     (if tx_nVersion tx \<noteq> NAMECOIN_TX_VERSION then Inr (False, NameTxInfo0)
      else decode_outputs E fExtractAddress fCheckIsMine 0 (vout tx) False NameTxInfo0)"

text \<open>\<open>Inr None\<close> is the \<^verbatim>\<open>runtime_error\<close> of a transaction without name output.\<close>

definition IndexOfNameOutput :: "name_env \<Rightarrow> CTransaction \<Rightarrow> cpp_exn + int option" where
  "IndexOfNameOutput E tx =
     bind_sum (DecodeNameTx E tx False True) (\<lambda>(ok, nti). Inr (if ok then Some (nti_nOut nti) else None))"

section \<open>Expiry\<close>

text \<open>The rental days of a run of operations in blocks, at 175 blocks a day. \<open>Inr None\<close>: a transaction could
  not be read or decoded.\<close>

fun sum_days :: "name_env \<Rightarrow> CNameIndex list \<Rightarrow> int \<Rightarrow> cpp_exn + int option" where
  "sum_days E [] acc = Inr (Some acc)"
| "sum_days E (x # xs) acc =
     (case ne_tx E (ni_txPos x) of
        None \<Rightarrow> Inr None
      | Some tx \<Rightarrow>
          bind_sum (DecodeNameTx E tx False True) (\<lambda>(ok, nti).
            if \<not> ok then Inr None else sum_days E xs (acc + wrap32 (nti_nRentalDays nti * 175))))"

definition CalculateExpiresAt :: "name_env \<Rightarrow> CNameRecord \<Rightarrow> name_abort + bool \<times> CNameRecord" where
  "CalculateExpiresAt E rec =
     (if deleted rec then Inr (True, rec\<lparr>nExpiresAt := 0\<rparr>)
      else
        let i = nLastActiveChainIndex rec in
        bind_sum (lift_exn (sum_days E (if i < 0 then [] else drop (nat i) (vtxPos rec)) 0)) (\<lambda>s.
          case s of
            None \<Rightarrow> Inr (False, rec)
          | Some days \<Rightarrow>
              if i < 0 \<or> i \<ge> int (length (vtxPos rec)) then Inl OutOfBounds
              else
                let end = days + ni_nHeight (vtxPos rec ! nat i)
                in Inr (True, rec\<lparr>nExpiresAt := (if end > INT_MAX then INT_MAX else wrap32 end)\<rparr>)))"

text \<open>\<^verbatim>\<open>ReadName\<close> kills the node when the index of the active chain is outside the history.\<close>

definition ReadName :: "name_state \<Rightarrow> CNameVal \<Rightarrow> name_abort + bool \<times> CNameRecord" where
  "ReadName st name =
     (case nameindex st name of
        None \<Rightarrow> Inr (False, CNameRecord0)
      | Some rec \<Rightarrow>
          if length (vtxPos rec) > 0 \<and> nLastActiveChainIndex rec \<ge> int (length (vtxPos rec)) then Inl AssertFailed
          else Inr (True, rec))"

definition NameActive :: "name_state \<Rightarrow> CNameVal \<Rightarrow> int \<Rightarrow> int \<Rightarrow> name_abort + bool" where
  "NameActive st name tipHeight currentBlockHeight =
     bind_sum (ReadName st name) (\<lambda>(ok, rec).
       if \<not> ok then Inr False
       else
         let currentBlockHeight = (if currentBlockHeight < 0 then tipHeight else currentBlockHeight)
         in if deleted rec then Inr False else Inr (currentBlockHeight \<le> nExpiresAt rec))"

section \<open>Fees\<close>

text \<open>
  \<^verbatim>\<open>(CAmount)(sqrt(x) * CENT)\<close> in double precision: the square root is rounded to 53 bits, so is the product,
  and the result is truncated. \<open>round53 v\<close> is the mantissa and the number of dropped bits; the root is
  taken with 61 more bits, the last of them set when the root is not exact.
\<close>

fun bit_length :: "nat \<Rightarrow> nat" where
  "bit_length v = (if v = 0 then 0 else Suc (bit_length (v div 2)))"

declare bit_length.simps [simp del]

definition round53 :: "nat \<Rightarrow> nat \<times> nat" where
  "round53 v =
     (let s = bit_length v - 53; q = v div 2 ^ s; r = v mod 2 ^ s in
      if s = 0 then (v, 0)
      else (if 2 * r > 2 ^ s \<or> (2 * r = 2 ^ s \<and> odd q) then q + 1 else q, s))"

fun isqrt_bits :: "nat \<Rightarrow> nat \<Rightarrow> nat \<Rightarrow> nat" where
  "isqrt_bits 0 n r = r"
| "isqrt_bits (Suc k) n r = isqrt_bits k n (if (r + 2 ^ k) * (r + 2 ^ k) \<le> n then r + 2 ^ k else r)"

definition isqrt :: "nat \<Rightarrow> nat" where
  "isqrt n = isqrt_bits (Suc (bit_length n div 2)) n 0"

definition sqrt_cents :: "nat \<Rightarrow> nat" where
  "sqrt_cents x =
     (if x = 0 then 0
      else
        let n = x * 4 ^ 60; r = isqrt n;
            (m, s) = round53 (2 * r + (if r * r = n then 0 else 1));
            (m', s') = round53 (m * 1000000)
        in m' * 2 ^ (s + s') div 2 ^ 61)"

abbreviation (input) CENT :: int where "CENT \<equiv> 1000000"

text \<open>\<open>None\<close>: a null pointer, or the root of a negative amount.\<close>

definition GetNameOpFee :: "heap \<Rightarrow> ptr option \<Rightarrow> int \<Rightarrow> int \<Rightarrow> CNameVal \<Rightarrow> CNameVal \<Rightarrow> CAmount option" where
  "GetNameOpFee H pindex nRentalDays op name v =
     (if op = OP_NAME_DELETE then Some MIN_TX_FEE
      else Option.bind (Option.bind (GetLastBlockIndex H pindex False) id) (\<lambda>lastPoW.
        let mint = nMint (H lastPoW);
            fee = cdiv (wrap64 (nRentalDays * mint)) (365 * 100);
            fee = (if op = OP_NAME_NEW then wrap64 (fee + cdiv mint 100) else fee)
        in if fee \<le> - CENT then None
           else
             let fee = int (sqrt_cents (nat (cdiv fee CENT)));
                 fee = fee + int ((length name + length v) div 128) * CENT;
                 fee = fee + CENT - 1;
                 fee = fee div CENT * CENT;
                 fee = fee div 100
             in Some (max fee MIN_TX_FEE)))"

text \<open>The scan over the last ten proof-of-work blocks.\<close>

fun fee_scan :: "nat \<Rightarrow> heap \<Rightarrow> ptr \<Rightarrow> NameTxInfo \<Rightarrow> CAmount \<Rightarrow> bool option" where
  "fee_scan 0 H lastPoW nti txFee = Some False"
| "fee_scan (Suc i) H lastPoW nti txFee =
     (case pprev (H lastPoW) of
        None \<Rightarrow> Some False
      | Some q \<Rightarrow>
          Option.bind (GetNameOpFee H (Some lastPoW) (nti_nRentalDays nti) (nti_op nti) (nti_name nti) (nti_value nti)) (\<lambda>netFee.
            if txFee \<ge> netFee then Some True
            else Option.bind (Option.bind (GetLastBlockIndex H (Some q) False) id) (\<lambda>p. fee_scan i H p nti txFee)))"

definition IsNameFeeEnough :: "heap \<Rightarrow> NameTxInfo \<Rightarrow> ptr option \<Rightarrow> CAmount \<Rightarrow> bool option" where
  "IsNameFeeEnough H nti pindexBlock txFee =
     Option.bind (Option.bind (GetLastBlockIndex H pindexBlock False) id) (\<lambda>lastPoW. fee_scan 10 H lastPoW nti txFee)"

definition hook_IsNameFeeEnough :: "name_env \<Rightarrow> heap \<Rightarrow> CChain \<Rightarrow> CTransaction \<Rightarrow> CAmount \<Rightarrow> name_abort + bool" where
  "hook_IsNameFeeEnough E H chain tx txFee =
     bind_sum (lift_exn (DecodeNameTx E tx False True)) (\<lambda>(ok, nti).
       if \<not> ok then Inr False
       else case IsNameFeeEnough H nti (Tip chain) txFee of None \<Rightarrow> Inl NullPointer | Some b \<Rightarrow> Inr b)"

section \<open>The address index\<close>

definition WriteSingleName :: "(string \<Rightarrow> CNameVal set option) \<Rightarrow> string \<Rightarrow> CNameVal \<Rightarrow> bool \<times> (string \<Rightarrow> CNameVal set option)" where
  "WriteSingleName db address name =
     (let names = (case db address of Some ns \<Rightarrow> ns | None \<Rightarrow> {})
      in if name \<in> names then (False, db) else (True, db(address \<mapsto> insert name names)))"

definition EraseSingleName :: "(string \<Rightarrow> CNameVal set option) \<Rightarrow> string \<Rightarrow> CNameVal \<Rightarrow> bool \<times> (string \<Rightarrow> CNameVal set option)" where
  "EraseSingleName db address name =
     (case db address of
        None \<Rightarrow> (False, db)
      | Some names \<Rightarrow> if name \<in> names then (True, db(address \<mapsto> names - {name})) else (False, db))"

definition MoveName :: "(string \<Rightarrow> CNameVal set option) \<Rightarrow> string \<Rightarrow> string \<Rightarrow> CNameVal \<Rightarrow> bool \<times> (string \<Rightarrow> CNameVal set option)" where
  "MoveName db oldAddress newAddress name =
     (if newAddress = oldAddress then (True, db)
      else
        let (ret, db) = (if oldAddress \<noteq> '''' then EraseSingleName db oldAddress name else (True, db))
        in if newAddress \<noteq> '''' \<and> ret then WriteSingleName db newAddress name else (ret, db))"

section \<open>Checking a name transaction\<close>

text \<open>The last operation on the name, if it is registered: whether one of the inputs spends an output of its
  transaction, and what it says. \<open>Inr None\<close> is an error return.\<close>

definition previous_op :: "name_env \<Rightarrow> CNameRecord \<Rightarrow> CTransaction \<Rightarrow> cpp_exn + (bool \<times> NameTxInfo) option" where
  "previous_op E rec tx =
     (if vtxPos rec \<noteq> [] \<and> \<not> deleted rec then
        (case ne_tx E (ni_txPos (last (vtxPos rec))) of
           None \<Rightarrow> Inr None
         | Some lastKnownNameTx \<Rightarrow>
             bind_sum (DecodeNameTx E lastKnownNameTx True False) (\<lambda>(ok, prev_nti).
               if \<not> ok then Inr None
               else Inr (Some (\<exists>i \<in> set (vin tx). out_hash (prevout i) = ComputeHash (ne_hash E) lastKnownNameTx, prev_nti))))
      else Inr (Some (False, NameTxInfo0)))"

definition owns_previous :: "bool \<Rightarrow> NameTxInfo \<Rightarrow> CNameVal \<Rightarrow> bool" where
  "owns_previous found prev_nti name \<longleftrightarrow>
     found \<and> (nti_op prev_nti = OP_NAME_NEW \<or> nti_op prev_nti = OP_NAME_UPDATE) \<and> nti_name prev_nti = name"

text \<open>The switch over the operation: \<open>Inr True\<close> when all checks pass.\<close>

definition check_op :: "name_state \<Rightarrow> heap \<Rightarrow> ptr \<Rightarrow> NameTxInfo \<Rightarrow> bool \<Rightarrow> NameTxInfo \<Rightarrow> CAmount \<Rightarrow> name_abort + bool" where
  "check_op st H pindexBlock nti found prev_nti txFee =
     (let op = nti_op nti; name = nti_name nti; height = nHeight (H pindexBlock);
          fee = (case IsNameFeeEnough H nti (Some pindexBlock) txFee of None \<Rightarrow> Inl NullPointer | Some b \<Rightarrow> Inr b)
      in if op = OP_NAME_NEW then
           bind_sum fee (\<lambda>enough. if \<not> enough then Inr False
             else bind_sum (NameActive st name height height) (\<lambda>active. Inr (\<not> active)))
         else if op = OP_NAME_UPDATE then
           bind_sum fee (\<lambda>enough. if \<not> enough then Inr False
             else if \<not> owns_previous found prev_nti name then Inr False
             else NameActive st name height height)
         else if op = OP_NAME_DELETE then
           (if \<not> owns_previous found prev_nti name then Inr False else NameActive st name height height)
         else Inr False)"

text \<open>The record of an accepted operation.\<close>

definition accepted_op :: "name_env \<Rightarrow> heap \<Rightarrow> CTransaction \<Rightarrow> ptr \<Rightarrow> CDiskTxPos \<Rightarrow> NameTxInfo \<Rightarrow> NameTxInfo \<Rightarrow> nameTempProxy" where
  "accepted_op E H tx pindexBlock pos nti prev_nti =
     \<lparr>ntp_nTime = tx_nTime tx, ntp_name = nti_name nti, ntp_op = nti_op nti, ntp_hash = ComputeHash (ne_hash E) tx,
      ntp_ind = \<lparr>ni_txPos = pos, ni_nHeight = nHeight (H pindexBlock), ni_op = 0, ni_value = nti_value nti\<rparr>,
      ntp_address = (if nti_op nti \<noteq> OP_NAME_DELETE then nti_strAddress nti else ''''),
      ntp_prev_address = (if nti_op prev_nti \<noteq> OP_NAME_DELETE then nti_strAddress prev_nti else '''')\<rparr>"

definition name_CheckInputs ::
    "name_env \<Rightarrow> name_state \<Rightarrow> heap \<Rightarrow> CTransaction \<Rightarrow> ptr \<Rightarrow> nameTempProxy list \<Rightarrow> CDiskTxPos \<Rightarrow> CAmount
      \<Rightarrow> name_abort + bool \<times> nameTempProxy list" where
  "name_CheckInputs E st H tx pindexBlock vName pos txFee =
     (if tx_nVersion tx \<noteq> NAMECOIN_TX_VERSION then Inr (False, vName)
      else bind_sum (lift_exn (DecodeNameTx E tx True False)) (\<lambda>(ok, nti).
        if \<not> ok then Inr (False, vName)
        else bind_sum (ReadName st (nti_name nti)) (\<lambda>(_, nameRec).
        bind_sum (lift_exn (previous_op E nameRec tx)) (\<lambda>prev.
          case prev of
            None \<Rightarrow> Inr (False, vName)
          | Some (found, prev_nti) \<Rightarrow>
              bind_sum (check_op st H pindexBlock nti found prev_nti txFee) (\<lambda>passed.
                if \<not> passed then Inr (False, vName)
                else Inr (True, vName @ [accepted_op E H tx pindexBlock pos nti prev_nti]))))))"

text \<open>The loop of \<^verbatim>\<open>ConnectBlock\<close> in \<^verbatim>\<open>validation.cpp\<close> that collects the valid operations of a block; the results of
  the single checks are not used.\<close>

fun collect_names ::
    "name_env \<Rightarrow> name_state \<Rightarrow> heap \<Rightarrow> ptr \<Rightarrow> (CTransaction \<times> CDiskTxPos \<times> CAmount) list \<Rightarrow> nameTempProxy list
      \<Rightarrow> name_abort + nameTempProxy list" where
  "collect_names E st H pindex [] vName = Inr vName"
| "collect_names E st H pindex ((tx, pos, fee) # txs) vName =
     bind_sum (name_CheckInputs E st H tx pindex vName pos fee) (\<lambda>(_, vName). collect_names E st H pindex txs vName)"

section \<open>Connecting\<close>

definition drop_pending :: "CNameVal \<Rightarrow> uint256 \<Rightarrow> (CNameVal \<Rightarrow> uint256 set option) \<Rightarrow> (CNameVal \<Rightarrow> uint256 set option)" where
  "drop_pending name hash pending =
     (case pending name of
        None \<Rightarrow> pending
      | Some hs \<Rightarrow> if hs - {hash} = {} then pending(name := None) else pending(name \<mapsto> hs - {hash}))"

text \<open>The new record before its expiry is computed: the operation is appended, a registration starts a
  new active chain, and old operations are dropped when the history is too long.\<close>

definition append_op :: "nat \<Rightarrow> nameTempProxy \<Rightarrow> CNameRecord \<Rightarrow> name_abort + CNameRecord" where
  "append_op maxSize i rec =
     (let rec = rec\<lparr>vtxPos := vtxPos rec @ [ntp_ind i]\<rparr>;
          rec = (if ntp_op i = OP_NAME_NEW then rec\<lparr>nLastActiveChainIndex := int (length (vtxPos rec)) - 1\<rparr> else rec);
          sz = length (vtxPos rec)
      in bind_sum
           (if sz > maxSize \<and> (int sz - nLastActiveChainIndex rec + 1) mod 2 ^ 64 \<le> int maxSize then
              (let d = sz - maxSize;
                   rec = rec\<lparr>vtxPos := drop d (vtxPos rec), nLastActiveChainIndex := nLastActiveChainIndex rec - int d\<rparr>
               in if nLastActiveChainIndex rec < 0 then Inl AssertFailed else Inr rec)
            else Inr rec)
           (\<lambda>rec. if vtxPos rec = [] then Inl OutOfBounds
             else Inr (rec\<lparr>vtxPos := butlast (vtxPos rec) @ [(last (vtxPos rec))\<lparr>ni_op := ntp_op i\<rparr>]\<rparr>)))"

text \<open>One operation: whether the loop goes on, the state and the names registered in this block.\<close>

definition connect_op ::
    "name_env \<Rightarrow> nat \<Rightarrow> nameTempProxy \<Rightarrow> name_state \<Rightarrow> CNameVal set \<Rightarrow> name_abort + bool \<times> name_state \<times> CNameVal set" where
  "connect_op E maxSize i st sNameNew =
     (let st = st\<lparr>mapNamePending := drop_pending (ntp_name i) (ntp_hash i) (mapNamePending st)\<rparr> in
      bind_sum (ReadName st (ntp_name i)) (\<lambda>(_, nameRec).
        if ntp_op i = OP_NAME_NEW \<and> ntp_name i \<in> sNameNew then Inr (True, st, sNameNew)
        else bind_sum (append_op maxSize i nameRec) (\<lambda>nameRec.
          bind_sum (CalculateExpiresAt E nameRec) (\<lambda>(ok, nameRec).
            if \<not> ok then Inr (False, st, sNameNew)
            else
              let st = st\<lparr>nameindex := (nameindex st)(ntp_name i \<mapsto> nameRec)\<rparr>;
                  sNameNew = (if ntp_op i = OP_NAME_NEW then insert (ntp_name i) sNameNew else sNameNew);
                  (moved, db) = MoveName (nameaddress st) (ntp_prev_address i) (ntp_address i) (ntp_name i)
              in Inr (moved, st\<lparr>nameaddress := db\<rparr>, sNameNew)))))"

fun connect_ops :: "name_env \<Rightarrow> nat \<Rightarrow> nameTempProxy list \<Rightarrow> name_state \<Rightarrow> CNameVal set \<Rightarrow> name_abort + bool \<times> name_state" where
  "connect_ops E maxSize [] st sNameNew = Inr (True, st)"
| "connect_ops E maxSize (i # is) st sNameNew =
     bind_sum (connect_op E maxSize i st sNameNew) (\<lambda>(ok, st, sNameNew).
       if ok then connect_ops E maxSize is st sNameNew else Inr (False, st))"

definition name_ConnectBlock :: "name_env \<Rightarrow> nat \<Rightarrow> nameTempProxy list \<Rightarrow> name_state \<Rightarrow> name_abort + bool \<times> name_state" where
  "name_ConnectBlock E maxSize vName st = connect_ops E maxSize vName st {}"

section \<open>Disconnecting\<close>

text \<open>Positions compare by file and block only: \<^verbatim>\<open>CDiskTxPos\<close> inherits the operator of \<^verbatim>\<open>CDiskBlockPos\<close>.\<close>

definition DiskBlockPos_eq :: "'a CDiskBlockPos_scheme \<Rightarrow> 'b CDiskBlockPos_scheme \<Rightarrow> bool" where
  "DiskBlockPos_eq a b \<longleftrightarrow> pos_nFile a = pos_nFile b \<and> pos_nPos a = pos_nPos b"

text \<open>The highest position of a registration, if there is one.\<close>

fun last_new_index :: "CNameIndex list \<Rightarrow> nat \<Rightarrow> nat option" where
  "last_new_index xs 0 = None"
| "last_new_index xs (Suc i) = (if ni_op (xs ! i) = OP_NAME_NEW then Some i else last_new_index xs i)"

definition remove_op :: "int \<Rightarrow> CNameRecord \<Rightarrow> CNameRecord" where
  "remove_op op rec =
     (let rec = rec\<lparr>vtxPos := butlast (vtxPos rec)\<rparr> in
      if op = OP_NAME_NEW then
        (case last_new_index (vtxPos rec) (length (vtxPos rec)) of
           Some i \<Rightarrow> rec\<lparr>nLastActiveChainIndex := int i\<rparr> | None \<Rightarrow> rec)
      else rec)"

text \<open>The address of the operation that is the last one now; \<open>Inr None\<close> is an error return.\<close>

definition current_address :: "name_env \<Rightarrow> CNameRecord \<Rightarrow> cpp_exn + string option" where
  "current_address E rec =
     (if vtxPos rec \<noteq> [] \<and> \<not> deleted rec then
        (case ne_tx E (ni_txPos (last (vtxPos rec))) of
           None \<Rightarrow> Inr None
         | Some prevTx \<Rightarrow>
             bind_sum (DecodeNameTx E prevTx True False) (\<lambda>(ok, prev_nti).
               Inr (if ok then Some (nti_strAddress prev_nti) else None)))
      else Inr (Some ''''))"

definition name_DisconnectInputs :: "name_env \<Rightarrow> CTransaction \<Rightarrow> name_state \<Rightarrow> name_abort + bool \<times> name_state" where
  "name_DisconnectInputs E tx st =
     (if tx_nVersion tx \<noteq> NAMECOIN_TX_VERSION then Inr (False, st)
      else bind_sum (lift_exn (DecodeNameTx E tx True False)) (\<lambda>(ok, nti).
        if \<not> ok then Inr (False, st)
        else bind_sum (ReadName st (nti_name nti)) (\<lambda>(ok, nameRec).
          if \<not> ok then Inr (False, st)
          else if vtxPos nameRec = [] then Inr (True, st\<lparr>nameindex := (nameindex st)(nti_name nti := None)\<rparr>)
          else case ne_index E (ComputeHash (ne_hash E) tx) of
            None \<Rightarrow> Inr (False, st)
          | Some postx \<Rightarrow>
              if \<not> DiskBlockPos_eq postx (ni_txPos (last (vtxPos nameRec))) then
                (if \<exists>x \<in> set (butlast (vtxPos nameRec)). DiskBlockPos_eq postx (ni_txPos x) then Inl AssertFailed
                 else Inr (False, st))
              else bind_sum (CalculateExpiresAt E (remove_op (nti_op nti) nameRec)) (\<lambda>(ok, nameRec').
                let st = (if length (vtxPos nameRec) = 1 then st\<lparr>nameindex := (nameindex st)(nti_name nti := None)\<rparr> else st) in
                if \<not> ok then Inr (False, st)
                else
                  let st = st\<lparr>nameindex := (nameindex st)(nti_name nti \<mapsto> nameRec')\<rparr>;
                      oldAddress = (if nti_op nti \<noteq> OP_NAME_DELETE then nti_strAddress nti else '''')
                  in bind_sum (lift_exn (current_address E nameRec')) (\<lambda>newAddress.
                       case newAddress of
                         None \<Rightarrow> Inr (False, st)
                       | Some a \<Rightarrow>
                           let (moved, db) = MoveName (nameaddress st) oldAddress a (nti_name nti)
                           in Inr (moved, st\<lparr>nameaddress := db\<rparr>))))))"

text \<open>The loop of \<^verbatim>\<open>DisconnectBlock\<close> in \<^verbatim>\<open>validation.cpp\<close>: from the last transaction of the block to the first.\<close>

fun disconnect_names :: "name_env \<Rightarrow> CTransaction list \<Rightarrow> name_state \<Rightarrow> name_abort + name_state" where
  "disconnect_names E [] st = Inr st"
| "disconnect_names E (tx # txs) st = bind_sum (name_DisconnectInputs E tx st) (\<lambda>(_, st). disconnect_names E txs st)"

section \<open>Pending names and lookup\<close>

definition CheckPendingNames :: "name_env \<Rightarrow> bool \<Rightarrow> CTransaction \<Rightarrow> name_state \<Rightarrow> cpp_exn + bool" where
  "CheckPendingNames E inBlockchain tx st =
     (if inBlockchain \<or> length (vout tx) < 1 then Inr False
      else bind_sum (DecodeNameTx E tx False True) (\<lambda>(ok, nti).
        Inr (ok \<and> mapNamePending st (nti_name nti) = None)))"

definition AddToPendingNames :: "name_env \<Rightarrow> bool \<Rightarrow> CTransaction \<Rightarrow> name_state \<Rightarrow> cpp_exn + name_state" where
  "AddToPendingNames E inBlockchain tx st =
     (if inBlockchain \<or> length (vout tx) < 1 then Inr st
      else bind_sum (DecodeNameTx E tx False True) (\<lambda>(ok, nti).
        if \<not> ok then Inr st
        else
          let hs = (case mapNamePending st (nti_name nti) of Some hs \<Rightarrow> hs | None \<Rightarrow> {})
          in Inr (st\<lparr>mapNamePending := (mapNamePending st)(nti_name nti \<mapsto> insert (ComputeHash (ne_hash E) tx) hs)\<rparr>)))"

definition GetFirstTxOfName :: "name_env \<Rightarrow> name_state \<Rightarrow> CNameVal \<Rightarrow> name_abort + CTransaction option" where
  "GetFirstTxOfName E st name =
     bind_sum (ReadName st name) (\<lambda>(ok, rec).
       if \<not> ok \<or> vtxPos rec = [] then Inr None
       else if nLastActiveChainIndex rec < 0 then Inl OutOfBounds
       else Inr (ne_tx E (ni_txPos (vtxPos rec ! nat (nLastActiveChainIndex rec)))))"

definition GetLastTxOfName :: "name_env \<Rightarrow> name_state \<Rightarrow> CNameVal \<Rightarrow> name_abort + CTransaction option" where
  "GetLastTxOfName E st name =
     bind_sum (ReadName st name) (\<lambda>(ok, rec).
       if \<not> ok \<or> deleted rec \<or> vtxPos rec = [] then Inr None
       else Inr (ne_tx E (ni_txPos (last (vtxPos rec)))))"

definition getNameValue :: "name_env \<Rightarrow> name_state \<Rightarrow> int \<Rightarrow> string \<Rightarrow> name_abort + string option" where
  "getNameValue E st tipHeight sName =
     (let name = nameValFromString sName in
      if nameindex st name = None then Inr None
      else bind_sum (GetLastTxOfName E st name) (\<lambda>last.
        case last of
          None \<Rightarrow> Inr None
        | Some tx \<Rightarrow>
            bind_sum (lift_exn (DecodeNameTx E tx True True)) (\<lambda>(ok, nti).
              if \<not> ok then Inr None
              else bind_sum (NameActive st name tipHeight (-1)) (\<lambda>active.
                Inr (if active then Some (stringFromNameVal (nti_value nti)) else None)))))"

definition GetNameValue :: "name_state \<Rightarrow> int \<Rightarrow> CNameVal \<Rightarrow> name_abort + CNameVal option" where
  "GetNameValue st tipHeight name =
     bind_sum (NameActive st name tipHeight (-1)) (\<lambda>active.
       if \<not> active then Inr None
       else bind_sum (ReadName st name) (\<lambda>(ok, rec).
         if \<not> ok \<or> vtxPos rec = [] then Inr None else Inr (Some (ni_value (last (vtxPos rec))))))"

definition hook_IsNameScript :: "script \<Rightarrow> cpp_exn + bool" where
  "hook_IsNameScript scr = bind_sum (DecodeNameScript scr NameTxInfo0 0) (\<lambda>(ok, _, _). Inr ok)"

definition hook_ExtractAddress :: "script \<Rightarrow> cpp_exn + string option" where
  "hook_ExtractAddress scr =
     bind_sum (DecodeNameScript scr NameTxInfo0 0) (\<lambda>(ok, nti, _).
       Inr (if ok then Some (stringFromOp (nti_op nti) @ '': '' @ stringFromNameVal (nti_name nti)) else None))"

end
