(* ===== verification/MFC_Undo.thy ===== *)
theory MFC_Undo
  imports MFC_Prelude
begin

text \<open>
  The contract of everything that is undone when a block is disconnected: single operations that can be
  applied and reverted, up to an equivalence of states that differ only in ways no reader can see. A
  whole block is reverted by reverting its operations from the last to the first.
\<close>

fun run_ops :: "('op \<Rightarrow> 's \<Rightarrow> 's option) \<Rightarrow> 'op list \<Rightarrow> 's \<Rightarrow> 's option" where
  "run_ops f [] s = Some s"
| "run_ops f (x # xs) s = Option.bind (f x s) (run_ops f xs)"

lemma run_ops_append: "run_ops f (xs @ ys) s = Option.bind (run_ops f xs s) (run_ops f ys)"
  by (induction xs arbitrary: s) (auto split: bind_splits)

text \<open>Every operation of a run is admissible in the state it meets.\<close>

fun ok_run :: "('op \<Rightarrow> 's \<Rightarrow> bool) \<Rightarrow> ('op \<Rightarrow> 's \<Rightarrow> 's option) \<Rightarrow> 'op list \<Rightarrow> 's \<Rightarrow> bool" where
  "ok_run ok f [] s = True"
| "ok_run ok f (x # xs) s = (ok x s \<and> (\<forall>s'. f x s = Some s' \<longrightarrow> ok_run ok f xs s'))"

locale undo_log =
  fixes inv :: "'s \<Rightarrow> bool" and ok :: "'op \<Rightarrow> 's \<Rightarrow> bool" and eqv :: "'s \<Rightarrow> 's \<Rightarrow> bool"
    and apply_op :: "'op \<Rightarrow> 's \<Rightarrow> 's option" and revert_op :: "'op \<Rightarrow> 's \<Rightarrow> 's option"
  assumes eqv_refl: "eqv s s"
    and eqv_sym: "eqv s t \<Longrightarrow> eqv t s"
    and eqv_trans: "eqv s t \<Longrightarrow> eqv t u \<Longrightarrow> eqv s u"
    and revert_eqv: "eqv s t \<Longrightarrow> revert_op x s = Some s' \<Longrightarrow> \<exists>t'. revert_op x t = Some t' \<and> eqv s' t'"
    and undo: "inv s \<Longrightarrow> ok x s \<Longrightarrow> apply_op x s = Some s' \<Longrightarrow> inv s' \<and> (\<exists>t. revert_op x s' = Some t \<and> eqv t s)"
begin

lemma undo_run:
  "inv s \<Longrightarrow> ok_run ok apply_op xs s \<Longrightarrow> run_ops apply_op xs s = Some s' \<Longrightarrow>
    \<exists>t. run_ops revert_op (rev xs) s' = Some t \<and> eqv t s"
proof (induction xs arbitrary: s)
  case Nil
  then show ?case by (simp add: eqv_refl)
next
  case (Cons x xs)
  obtain s1 where s1: "apply_op x s = Some s1" "run_ops apply_op xs s1 = Some s'"
    using Cons.prems(3) by (auto split: bind_splits)
  obtain u where u: "inv s1" "revert_op x s1 = Some u" "eqv u s"
    using undo [OF Cons.prems(1) _ s1(1)] Cons.prems(2) by auto
  obtain t1 where t1: "run_ops revert_op (rev xs) s' = Some t1" "eqv t1 s1"
    using Cons.IH [OF u(1) _ s1(2)] Cons.prems(2) s1(1) by auto
  obtain t where t: "revert_op x t1 = Some t" "eqv u t" using revert_eqv [OF eqv_sym [OF t1(2)] u(2)] by blast
  have "eqv t s" by (rule eqv_trans [OF eqv_sym [OF t(2)] u(3)])
  then show ?case using t(1) t1(1) by (simp add: run_ops_append)
qed

end

end
