(* ===== verification/MFC_NameProps.thy ===== *)
theory MFC_NameProps
  imports MFC_NameIndex MFC_Undo
begin

text \<open>
  Properties of the name index: the invariant of the records and that connecting a block keeps it, what an
  accepted operation proves about its sender, that disconnecting a block undoes connecting it, and
  two inputs on which the code does not do what it means to.
\<close>

section \<open>Reading a transaction with and without its address\<close>

definition same_info :: "NameTxInfo \<Rightarrow> NameTxInfo \<Rightarrow> bool" where
  "same_info a b \<longleftrightarrow> nti_name a = nti_name b \<and> nti_value a = nti_value b \<and> nti_op a = nti_op b
     \<and> nti_nRentalDays a = nti_nRentalDays b \<and> nti_nOut a = nti_nOut b"

lemma decode_outputs_plain:
  "decode_outputs E True m i outs found a = Inr (ok, a') \<Longrightarrow> same_info a b \<Longrightarrow>
    \<exists>b'. decode_outputs E False m' i outs found b = Inr (ok, b') \<and> same_info a' b'"
proof (induction outs arbitrary: i found a b)
  case Nil
  then show ?case by (auto simp: same_info_def)
next
  case (Cons out outs)
  obtain good tmp pc where d: "DecodeNameScript (scriptPubKey out) NameTxInfo0 0 = Inr (good, tmp, pc)"
    using Cons.prems(1) by auto
  show ?case
  proof (cases "good \<and> \<not> found")
    case False
    then show ?thesis using Cons.prems d Cons.IH [of "Suc i" found a b] by auto
  next
    case True
    have s: "same_info (tmp\<lparr>nti_nOut := int i, nti_strAddress := x\<rparr>) (tmp\<lparr>nti_nOut := int i\<rparr>)"
      "same_info (tmp\<lparr>nti_nOut := int i, nti_strAddress := x, nti_fIsMine := y\<rparr>) (tmp\<lparr>nti_nOut := int i\<rparr>)" for x y
      by (simp_all add: same_info_def)
    from True Cons.prems d obtain ad where
      "decode_outputs E True m (Suc i) outs True ad = Inr (ok, a')" "same_info ad (tmp\<lparr>nti_nOut := int i\<rparr>)"
      using s by (auto simp: Let_def split: option.splits if_splits)
    from Cons.IH [OF this] show ?thesis using True d by simp
  qed
qed

lemma DecodeNameTx_plain:
  assumes "DecodeNameTx E tx True m = Inr (ok, nti)"
  shows "\<exists>nti'. DecodeNameTx E tx False m' = Inr (ok, nti') \<and> same_info nti nti'"
proof -
  have "same_info NameTxInfo0 NameTxInfo0" by (simp add: same_info_def)
  then show ?thesis using assms decode_outputs_plain [of E m 0 "vout tx" False NameTxInfo0 ok nti NameTxInfo0 m']
    by (auto simp: DecodeNameTx_def split: if_splits)
qed

text \<open>What is decoded is one of the three operations.\<close>

definition is_name_op :: "int \<Rightarrow> bool" where
  "is_name_op op \<longleftrightarrow> op = OP_NAME_NEW \<or> op = OP_NAME_UPDATE \<or> op = OP_NAME_DELETE"

lemma decode_value_part_op:
  "decode_value_part s ret pc = (True, ret', pc') \<Longrightarrow> nti_op ret' = nti_op ret"
  by (auto simp: decode_value_part_def checkNameValues_def Let_def split: prod.splits if_splits)

lemma DecodeNameScript_op:
  assumes "DecodeNameScript s ret pc = Inr (True, nti, pc')"
  shows "is_name_op (nti_op nti)"
  using assms
  by (auto simp: DecodeNameScript_def decode_days_part_def Let_def is_name_op_def dest!: decode_value_part_op
      split: prod.splits if_splits option.splits)

lemma decode_outputs_op:
  "decode_outputs E x m i outs found a = Inr (True, nti) \<Longrightarrow> found \<longrightarrow> is_name_op (nti_op a) \<Longrightarrow> is_name_op (nti_op nti)"
proof (induction outs arbitrary: i found a)
  case (Cons out outs)
  obtain good tmp pc where d: "DecodeNameScript (scriptPubKey out) NameTxInfo0 0 = Inr (good, tmp, pc)"
    using Cons.prems(1) by auto
  consider "\<not> good" | "good" "found" | "good" "\<not> found" by blast
  then show ?case
  proof cases
    case 1
    then show ?thesis using Cons.prems d Cons.IH [of "Suc i" found a] by simp
  next
    case 2
    then show ?thesis using Cons.prems d by simp
  next
    case 3
    with d have "is_name_op (nti_op tmp)" using DecodeNameScript_op by auto
    moreover from 3 Cons.prems d obtain ad where
      "decode_outputs E x m (Suc i) outs True ad = Inr (True, nti)" "nti_op ad = nti_op tmp"
      by (auto simp: Let_def split: option.splits if_splits)
    ultimately show ?thesis using Cons.IH [of "Suc i" True ad] by simp
  qed
qed (auto split: if_splits)

lemma DecodeNameTx_op: "DecodeNameTx E tx x m = Inr (True, nti) \<Longrightarrow> is_name_op (nti_op nti)"
  by (auto simp: DecodeNameTx_def dest!: decode_outputs_op split: if_splits)

section \<open>The invariant of records\<close>

text \<open>Every operation of the history can be read back, the index of the active chain points to its last
  registration, and the expiry is the one computed from the history. A record without history is the
  default record.\<close>

definition entry_ok :: "name_env \<Rightarrow> CNameIndex \<Rightarrow> bool" where
  "entry_ok E x \<longleftrightarrow> (\<exists>tx nti. ne_tx E (ni_txPos x) = Some tx \<and> DecodeNameTx E tx True False = Inr (True, nti)
     \<and> nti_op nti = ni_op x)"

definition chain_start :: "CNameIndex list \<Rightarrow> int \<Rightarrow> bool" where
  "chain_start xs i \<longleftrightarrow> 0 \<le> i \<and> nat i < length xs \<and> ni_op (xs ! nat i) = OP_NAME_NEW
     \<and> (\<forall>j < length xs. nat i < j \<longrightarrow> ni_op (xs ! j) \<noteq> OP_NAME_NEW)"

definition rec_ok :: "name_env \<Rightarrow> CNameRecord \<Rightarrow> bool" where
  "rec_ok E rec \<longleftrightarrow> (\<forall>x \<in> set (vtxPos rec). entry_ok E x)
     \<and> (if vtxPos rec = [] then nLastActiveChainIndex rec = 0 else chain_start (vtxPos rec) (nLastActiveChainIndex rec))
     \<and> CalculateExpiresAt E rec = Inr (True, rec)"

definition index_ok :: "name_env \<Rightarrow> name_state \<Rightarrow> bool" where
  "index_ok E st \<longleftrightarrow> (\<forall>name rec. nameindex st name = Some rec \<longrightarrow> rec_ok E rec)"

lemma rec_ok_0 [simp]: "rec_ok E CNameRecord0"
  by (simp add: rec_ok_def CNameRecord0_def CalculateExpiresAt_def deleted_def)

lemma ReadName_ok:
  assumes "index_ok E st"
  shows "\<exists>ok rec. ReadName st name = Inr (ok, rec) \<and> rec_ok E rec
    \<and> nameindex st name = (if ok then Some rec else None) \<and> (\<not> ok \<longrightarrow> rec = CNameRecord0)"
proof (cases "nameindex st name")
  case None
  then show ?thesis by (intro exI [of _ False]) (auto simp: ReadName_def)
next
  case (Some rec)
  then have r: "rec_ok E rec" using assms by (simp add: index_ok_def)
  then have "vtxPos rec \<noteq> [] \<Longrightarrow> nLastActiveChainIndex rec < int (length (vtxPos rec))"
    by (auto simp: rec_ok_def chain_start_def)
  with Some r show ?thesis by (auto simp: ReadName_def)
qed

lemma sum_days_total:
  "\<forall>x \<in> set xs. entry_ok E x \<Longrightarrow> \<exists>s. sum_days E xs acc = Inr (Some s)"
proof (induction xs arbitrary: acc)
  case (Cons x xs)
  obtain tx nti where t: "ne_tx E (ni_txPos x) = Some tx" "DecodeNameTx E tx True False = Inr (True, nti)"
    using Cons.prems by (auto simp: entry_ok_def)
  obtain nti' where "DecodeNameTx E tx False True = Inr (True, nti')" using DecodeNameTx_plain [OF t(2)] by blast
  with t(1) Cons show ?case by simp
qed simp

lemma deleted_expires [simp]: "deleted (rec\<lparr>nExpiresAt := e\<rparr>) = deleted rec"
  by (simp add: deleted_def)

lemma CalculateExpiresAt_expires [simp]:
  "CalculateExpiresAt E (rec\<lparr>nExpiresAt := e\<rparr>) =
    (case CalculateExpiresAt E rec of
       Inl a \<Rightarrow> Inl a | Inr (ok, r) \<Rightarrow> Inr (ok, if ok then r else r\<lparr>nExpiresAt := e\<rparr>))"
  by (auto simp: CalculateExpiresAt_def Let_def lift_exn_def bind_sum_def split: sum.splits option.splits)

text \<open>A history with a valid start of its active chain always has an expiry, and the record with that expiry
  is a fixed point.\<close>

lemma CalculateExpiresAt_total:
  assumes "\<forall>x \<in> set (vtxPos rec). entry_ok E x" "vtxPos rec = [] \<or> chain_start (vtxPos rec) (nLastActiveChainIndex rec)"
  shows "\<exists>e. CalculateExpiresAt E rec = Inr (True, rec\<lparr>nExpiresAt := e\<rparr>)
    \<and> CalculateExpiresAt E (rec\<lparr>nExpiresAt := e\<rparr>) = Inr (True, rec\<lparr>nExpiresAt := e\<rparr>)"
proof (cases "deleted rec")
  case True
  then show ?thesis by (intro exI [of _ 0]) (simp add: CalculateExpiresAt_def)
next
  case False
  then have start: "chain_start (vtxPos rec) (nLastActiveChainIndex rec)" using assms(2) by (auto simp: deleted_def)
  let ?i = "nLastActiveChainIndex rec"
  have "\<forall>x \<in> set (drop (nat ?i) (vtxPos rec)). entry_ok E x" using assms(1) by (meson in_set_dropD)
  then obtain s where s: "sum_days E (drop (nat ?i) (vtxPos rec)) 0 = Inr (Some s)" using sum_days_total by blast
  have i: "\<not> ?i < 0" "\<not> int (length (vtxPos rec)) \<le> ?i" using start by (auto simp: chain_start_def)
  have "\<exists>e. CalculateExpiresAt E rec = Inr (True, rec\<lparr>nExpiresAt := e\<rparr>)"
    using False s i by (auto simp: CalculateExpiresAt_def lift_exn_def Let_def)
  then show ?thesis by auto
qed

section \<open>Appending an operation\<close>

lemma chain_start_append:
  assumes "if op = OP_NAME_NEW then i = int (length xs) else xs \<noteq> [] \<and> chain_start xs i" "ni_op x = op"
  shows "chain_start (xs @ [x]) i"
  using assms by (auto simp: chain_start_def nth_append split: if_splits)

lemma chain_start_drop:
  assumes "chain_start xs i" "d \<le> nat i"
  shows "chain_start (drop d xs) (i - int d)"
proof -
  have n: "nat (i - int d) = nat i - d" using assms by (simp add: nat_diff_distrib)
  then show ?thesis using assms by (auto simp: chain_start_def)
qed

definition new_entry :: "nameTempProxy \<Rightarrow> CNameIndex" where
  "new_entry i = (ntp_ind i)\<lparr>ni_op := ntp_op i\<rparr>"

definition new_start :: "nameTempProxy \<Rightarrow> CNameRecord \<Rightarrow> int" where
  "new_start i rec = (if ntp_op i = OP_NAME_NEW then int (length (vtxPos rec)) else nLastActiveChainIndex rec)"

definition appended :: "nat \<Rightarrow> nameTempProxy \<Rightarrow> CNameRecord \<Rightarrow> CNameRecord" where
  "appended d i rec = rec\<lparr>vtxPos := drop d (vtxPos rec @ [new_entry i]), nLastActiveChainIndex := new_start i rec - int d\<rparr>"

lemma append_op_appended:
  assumes ok: "rec_ok E rec" and old: "ntp_op i \<noteq> OP_NAME_NEW \<Longrightarrow> vtxPos rec \<noteq> []"
    and sz: "length (vtxPos rec) < 9223372036854775808"
  shows "\<exists>d. append_op maxSize i rec = Inr (appended d i rec) \<and> d \<le> nat (new_start i rec)
    \<and> (length (vtxPos rec) < maxSize \<longrightarrow> d = 0)"
proof -
  let ?n = "length (vtxPos rec)" and ?s = "new_start i rec"
  define r1 where "r1 = rec\<lparr>vtxPos := vtxPos rec @ [ntp_ind i], nLastActiveChainIndex := ?s\<rparr>"
  have r1: "(let rec = rec\<lparr>vtxPos := vtxPos rec @ [ntp_ind i]\<rparr> in
      if ntp_op i = OP_NAME_NEW then rec\<lparr>nLastActiveChainIndex := int (length (vtxPos rec)) - 1\<rparr> else rec) = r1"
    by (simp add: r1_def new_start_def)
  have s: "0 \<le> ?s" "?s \<le> int ?n" using ok old by (auto simp: new_start_def rec_ok_def chain_start_def)
  have len: "length (vtxPos r1) = Suc ?n" "nLastActiveChainIndex r1 = ?s" by (simp_all add: r1_def)
  have m: "(int (Suc ?n) - ?s + 1) mod 2 ^ 64 = int (Suc ?n) - ?s + 1" using s sz by simp
  have fin: "butlast (drop d (vtxPos r1)) @ [(last (drop d (vtxPos r1)))\<lparr>ni_op := ntp_op i\<rparr>] = drop d (vtxPos rec @ [new_entry i])"
    if "d \<le> ?n" for d
    using that by (simp add: r1_def new_entry_def last_drop butlast_drop butlast_append)
  have st: "append_op maxSize i rec = bind_sum
      (if Suc ?n > maxSize \<and> int (Suc ?n) - ?s + 1 \<le> int maxSize then
         (let d = Suc ?n - maxSize;
              rec = r1\<lparr>vtxPos := drop d (vtxPos r1), nLastActiveChainIndex := ?s - int d\<rparr>
          in if nLastActiveChainIndex rec < 0 then Inl AssertFailed else Inr rec)
       else Inr r1)
      (\<lambda>rec. if vtxPos rec = [] then Inl OutOfBounds
        else Inr (rec\<lparr>vtxPos := butlast (vtxPos rec) @ [(last (vtxPos rec))\<lparr>ni_op := ntp_op i\<rparr>]\<rparr>))"
    unfolding append_op_def Let_def [of "rec\<lparr>vtxPos := vtxPos rec @ [ntp_ind i]\<rparr>"]
    using r1 m by (simp add: len Let_def)
  show ?thesis
  proof (cases "Suc ?n > maxSize \<and> int (Suc ?n) - ?s + 1 \<le> int maxSize")
    case True
    let ?d = "Suc ?n - maxSize"
    have d: "?d \<le> nat ?s" "?d \<le> ?n" using True s by linarith+
    then have "append_op maxSize i rec = Inr (appended ?d i rec)"
      unfolding st if_P [OF True] using s fin [OF d(2)] by (simp add: Let_def appended_def r1_def)
    then show ?thesis using d True by auto
  next
    case False
    have "append_op maxSize i rec = Inr (appended 0 i rec)"
      unfolding st if_not_P [OF False] using fin [of 0] by (simp add: appended_def r1_def)
    then show ?thesis by auto
  qed
qed

lemma appended_ok:
  assumes ok: "rec_ok E rec" and old: "ntp_op i \<noteq> OP_NAME_NEW \<Longrightarrow> vtxPos rec \<noteq> []"
    and new: "entry_ok E (new_entry i)" and d: "d \<le> nat (new_start i rec)"
  shows "\<forall>x \<in> set (vtxPos (appended d i rec)). entry_ok E x" "vtxPos (appended d i rec) \<noteq> []"
    "chain_start (vtxPos (appended d i rec)) (nLastActiveChainIndex (appended d i rec))"
proof -
  have "chain_start (vtxPos rec @ [new_entry i]) (new_start i rec)"
    using ok old by (intro chain_start_append [of "ntp_op i"]) (auto simp: new_start_def rec_ok_def new_entry_def)
  from chain_start_drop [OF this d]
  show c: "chain_start (vtxPos (appended d i rec)) (nLastActiveChainIndex (appended d i rec))" by (simp add: appended_def)
  then show "vtxPos (appended d i rec) \<noteq> []" by (auto simp: chain_start_def)
  show "\<forall>x \<in> set (vtxPos (appended d i rec)). entry_ok E x"
    using ok new by (auto simp: appended_def rec_ok_def dest: in_set_dropD)
qed

text \<open>Appending and computing the expiry always succeed and give a well-formed record.\<close>

lemma connect_record:
  assumes ok: "rec_ok E rec" and old: "ntp_op i \<noteq> OP_NAME_NEW \<Longrightarrow> vtxPos rec \<noteq> []"
    and new: "entry_ok E (new_entry i)" and sz: "length (vtxPos rec) < 9223372036854775808"
  obtains d e where "append_op maxSize i rec = Inr (appended d i rec)"
    "CalculateExpiresAt E (appended d i rec) = Inr (True, (appended d i rec)\<lparr>nExpiresAt := e\<rparr>)"
    "rec_ok E ((appended d i rec)\<lparr>nExpiresAt := e\<rparr>)" "vtxPos (appended d i rec) \<noteq> []"
    "length (vtxPos (appended d i rec)) \<le> Suc (length (vtxPos rec))" "length (vtxPos rec) < maxSize \<longrightarrow> d = 0"
proof -
  obtain d where d: "append_op maxSize i rec = Inr (appended d i rec)" "d \<le> nat (new_start i rec)"
    "length (vtxPos rec) < maxSize \<longrightarrow> d = 0"
    using append_op_appended [OF ok old sz] by blast
  note a = appended_ok [OF ok old new d(2)]
  obtain e where e: "CalculateExpiresAt E (appended d i rec) = Inr (True, (appended d i rec)\<lparr>nExpiresAt := e\<rparr>)"
    "CalculateExpiresAt E ((appended d i rec)\<lparr>nExpiresAt := e\<rparr>) = Inr (True, (appended d i rec)\<lparr>nExpiresAt := e\<rparr>)"
    using CalculateExpiresAt_total [OF a(1)] a(3) by blast
  have "rec_ok E ((appended d i rec)\<lparr>nExpiresAt := e\<rparr>)" using a e(2) by (simp add: rec_ok_def del: CalculateExpiresAt_expires)
  moreover have "length (vtxPos (appended d i rec)) \<le> Suc (length (vtxPos rec))" by (simp add: appended_def)
  ultimately show ?thesis using that d e(1) a(2) by blast
qed

section \<open>Connecting keeps the invariant\<close>

definition known :: "name_state \<Rightarrow> CNameVal \<Rightarrow> bool" where
  "known st name \<longleftrightarrow> (\<exists>rec. nameindex st name = Some rec \<and> vtxPos rec \<noteq> [])"

definition hist_small :: "name_state \<Rightarrow> nat \<Rightarrow> bool" where
  "hist_small st k \<longleftrightarrow> k \<le> 9223372036854775808 \<and> (\<forall>name rec. nameindex st name = Some rec \<longrightarrow> length (vtxPos rec) + k \<le> 9223372036854775808)"

definition op_ok :: "name_env \<Rightarrow> name_state \<Rightarrow> nameTempProxy \<Rightarrow> bool" where
  "op_ok E st i \<longleftrightarrow> entry_ok E (new_entry i) \<and> (ntp_op i \<noteq> OP_NAME_NEW \<longrightarrow> known st (ntp_name i))"

text \<open>Where an operation is written: the record and the address index after it.\<close>

lemma connect_op_writes:
  assumes inv: "index_ok E st" "\<forall>rec. nameindex st (ntp_name i) = Some rec \<longrightarrow> length (vtxPos rec) + Suc k \<le> 9223372036854775808"
    and k: "Suc k \<le> 9223372036854775808" and i: "op_ok E st i"
    and new: "\<not> (ntp_op i = OP_NAME_NEW \<and> ntp_name i \<in> sNew)"
  obtains ok rec d e where "ReadName st (ntp_name i) = Inr (ok, rec)" "rec_ok E rec"
    "connect_op E maxSize i st sNew = Inr (fst (MoveName (nameaddress st) (ntp_prev_address i) (ntp_address i) (ntp_name i)),
       st\<lparr>mapNamePending := drop_pending (ntp_name i) (ntp_hash i) (mapNamePending st),
          nameindex := (nameindex st)(ntp_name i \<mapsto> (appended d i rec)\<lparr>nExpiresAt := e\<rparr>),
          nameaddress := snd (MoveName (nameaddress st) (ntp_prev_address i) (ntp_address i) (ntp_name i))\<rparr>,
       if ntp_op i = OP_NAME_NEW then insert (ntp_name i) sNew else sNew)"
    "rec_ok E ((appended d i rec)\<lparr>nExpiresAt := e\<rparr>)" "vtxPos (appended d i rec) \<noteq> []"
    "length (vtxPos (appended d i rec)) \<le> Suc (length (vtxPos rec))" "length (vtxPos rec) < maxSize \<longrightarrow> d = 0"
    "ntp_op i \<noteq> OP_NAME_NEW \<Longrightarrow> vtxPos rec \<noteq> []" "length (vtxPos rec) + Suc k \<le> 9223372036854775808"
proof -
  obtain ok rec where r: "ReadName st (ntp_name i) = Inr (ok, rec)" "rec_ok E rec"
    "nameindex st (ntp_name i) = (if ok then Some rec else None)" "\<not> ok \<longrightarrow> rec = CNameRecord0"
    using ReadName_ok [OF inv(1)] by blast
  have old: "vtxPos rec \<noteq> []" if "ntp_op i \<noteq> OP_NAME_NEW"
    using i r(3) that by (auto simp: op_ok_def known_def split: if_splits)
  have small: "length (vtxPos rec) + Suc k \<le> 9223372036854775808"
    using inv(2) r(3,4) k by (cases ok) (auto simp: CNameRecord0_def)
  then have sz: "length (vtxPos rec) < 9223372036854775808" by simp
  have en: "entry_ok E (new_entry i)" using i by (simp add: op_ok_def)
  obtain d e where c: "append_op maxSize i rec = Inr (appended d i rec)"
    "CalculateExpiresAt E (appended d i rec) = Inr (True, (appended d i rec)\<lparr>nExpiresAt := e\<rparr>)"
    "rec_ok E ((appended d i rec)\<lparr>nExpiresAt := e\<rparr>)" "vtxPos (appended d i rec) \<noteq> []"
    "length (vtxPos (appended d i rec)) \<le> Suc (length (vtxPos rec))" "length (vtxPos rec) < maxSize \<longrightarrow> d = 0"
    using connect_record [OF r(2) old en sz] by blast
  have rp: "ReadName (st\<lparr>mapNamePending := m\<rparr>) n = ReadName st n" for m n by (simp add: ReadName_def)
  have "connect_op E maxSize i st sNew = Inr (fst (MoveName (nameaddress st) (ntp_prev_address i) (ntp_address i) (ntp_name i)),
       st\<lparr>mapNamePending := drop_pending (ntp_name i) (ntp_hash i) (mapNamePending st),
          nameindex := (nameindex st)(ntp_name i \<mapsto> (appended d i rec)\<lparr>nExpiresAt := e\<rparr>),
          nameaddress := snd (MoveName (nameaddress st) (ntp_prev_address i) (ntp_address i) (ntp_name i))\<rparr>,
       if ntp_op i = OP_NAME_NEW then insert (ntp_name i) sNew else sNew)"
    using r(1) c(1,2) new
    by (auto simp: connect_op_def rp Let_def split: prod.split)
  from that [OF r(1,2) this c(3-6) old small] show ?thesis .
qed

lemma connect_op_inv:
  assumes inv: "index_ok E st" "hist_small st (Suc k)" and i: "op_ok E st i"
  shows "\<exists>b st' s'. connect_op E maxSize i st sNew = Inr (b, st', s') \<and> index_ok E st' \<and> hist_small st' k
    \<and> (\<forall>n. known st n \<longrightarrow> known st' n)"
proof (cases "ntp_op i = OP_NAME_NEW \<and> ntp_name i \<in> sNew")
  case True
  obtain ok rec where r: "ReadName st (ntp_name i) = Inr (ok, rec)" using ReadName_ok [OF inv(1)] by blast
  let ?st = "st\<lparr>mapNamePending := drop_pending (ntp_name i) (ntp_hash i) (mapNamePending st)\<rparr>"
  have "ReadName ?st (ntp_name i) = Inr (ok, rec)" using r by (simp add: ReadName_def)
  then have "connect_op E maxSize i st sNew = Inr (True, ?st, sNew)" using True by (simp add: connect_op_def)
  moreover have "index_ok E ?st" "hist_small ?st k" "\<forall>n. known st n \<longrightarrow> known ?st n"
    using inv by (auto simp: index_ok_def known_def hist_small_def intro: le_trans [of _ "9223372036854775807 :: nat"])
  ultimately show ?thesis by blast
next
  case False
  have small: "\<forall>rec. nameindex st (ntp_name i) = Some rec \<longrightarrow> length (vtxPos rec) + Suc k \<le> 9223372036854775808"
    "Suc k \<le> 9223372036854775808" using inv(2) by (simp_all add: hist_small_def)
  obtain ok rec d e where
    c: "connect_op E maxSize i st sNew = Inr (fst (MoveName (nameaddress st) (ntp_prev_address i) (ntp_address i) (ntp_name i)),
       st\<lparr>mapNamePending := drop_pending (ntp_name i) (ntp_hash i) (mapNamePending st),
          nameindex := (nameindex st)(ntp_name i \<mapsto> (appended d i rec)\<lparr>nExpiresAt := e\<rparr>),
          nameaddress := snd (MoveName (nameaddress st) (ntp_prev_address i) (ntp_address i) (ntp_name i))\<rparr>,
       if ntp_op i = OP_NAME_NEW then insert (ntp_name i) sNew else sNew)"
    and r: "rec_ok E ((appended d i rec)\<lparr>nExpiresAt := e\<rparr>)" "vtxPos (appended d i rec) \<noteq> []"
    and l: "length (vtxPos (appended d i rec)) \<le> Suc (length (vtxPos rec))"
      "length (vtxPos rec) + Suc k \<le> 9223372036854775808"
    by (rule connect_op_writes [OF inv(1) small(1,2) i False]) blast
  define st' where "st' = st\<lparr>mapNamePending := drop_pending (ntp_name i) (ntp_hash i) (mapNamePending st),
      nameindex := (nameindex st)(ntp_name i \<mapsto> (appended d i rec)\<lparr>nExpiresAt := e\<rparr>),
      nameaddress := snd (MoveName (nameaddress st) (ntp_prev_address i) (ntp_address i) (ntp_name i))\<rparr>"
  have x: "nameindex st' = (nameindex st)(ntp_name i \<mapsto> (appended d i rec)\<lparr>nExpiresAt := e\<rparr>)" by (simp add: st'_def)
  have "index_ok E st'" "\<forall>n. known st n \<longrightarrow> known st' n" using r inv(1) by (auto simp: index_ok_def known_def x)
  moreover have "hist_small st' k" using l inv(2)
    by (auto simp: hist_small_def x intro: le_trans [of _ "9223372036854775807 :: nat"])
  ultimately show ?thesis using c unfolding st'_def by blast
qed

lemma connect_ops_inv:
  "index_ok E st \<Longrightarrow> hist_small st (length vName) \<Longrightarrow> \<forall>i \<in> set vName. op_ok E st i \<Longrightarrow>
    \<exists>b st'. connect_ops E maxSize vName st sNew = Inr (b, st') \<and> index_ok E st'"
proof (induction vName arbitrary: st sNew)
  case (Cons i vName)
  obtain b st' s' where c: "connect_op E maxSize i st sNew = Inr (b, st', s')" "index_ok E st'" "hist_small st' (length vName)"
    "\<forall>n. known st n \<longrightarrow> known st' n"
    using connect_op_inv [OF Cons.prems(1), of "length vName" i maxSize sNew] Cons.prems(2,3) by auto
  have "\<forall>i \<in> set vName. op_ok E st' i" using Cons.prems(3) c(4) by (auto simp: op_ok_def)
  then show ?case using Cons.IH [OF c(2,3), of s'] c(1,2) by auto
qed auto

section \<open>Accepted operations\<close>

lemma lift_exn_Inr [simp]: "lift_exn m = Inr x \<longleftrightarrow> m = Inr x"
  by (cases m) (auto simp: lift_exn_def)

lemma CheckInputs_accepts:
  assumes "name_CheckInputs E st H tx p vName pos fee = Inr (b, vName')"
  shows "if b then \<exists>nti ok rec found prev_nti. vName' = vName @ [accepted_op E H tx p pos nti prev_nti]
        \<and> tx_nVersion tx = NAMECOIN_TX_VERSION \<and> DecodeNameTx E tx True False = Inr (True, nti)
        \<and> ReadName st (nti_name nti) = Inr (ok, rec)
        \<and> previous_op E rec tx = Inr (Some (found, prev_nti)) \<and> check_op st H p nti found prev_nti fee = Inr True
    else vName' = vName"
  using assms unfolding name_CheckInputs_def
  by (auto split: if_splits option.splits)

text \<open>An update or deletion is only accepted for a name with a history, and it spends an output of the
  transaction of the last operation.\<close>

lemma previous_op_found:
  assumes "previous_op E rec tx = Inr (Some (True, prev))"
  shows "vtxPos rec \<noteq> []" "\<not> deleted rec"
    "\<exists>last. ne_tx E (ni_txPos (List.last (vtxPos rec))) = Some last \<and> (\<exists>i \<in> set (vin tx). out_hash (prevout i) = ComputeHash (ne_hash E) last)
      \<and> DecodeNameTx E last True False = Inr (True, prev)"
  using assms by (auto simp: previous_op_def split: if_splits option.splits)

lemma check_op_found:
  "check_op st H p nti found prev fee = Inr True \<Longrightarrow> nti_op nti \<noteq> OP_NAME_NEW \<Longrightarrow> found"
  by (auto simp: check_op_def Let_def owns_previous_def split: if_splits)

lemma ReadName_vtxPos:
  "ReadName st name = Inr (ok, rec) \<Longrightarrow> vtxPos rec \<noteq> [] \<Longrightarrow> nameindex st name = Some rec"
  by (auto simp: ReadName_def CNameRecord0_def split: option.splits if_splits)

lemma accepted_op_simps [simp]:
  "ntp_name (accepted_op E H tx p pos nti prev) = nti_name nti" "ntp_op (accepted_op E H tx p pos nti prev) = nti_op nti"
  by (simp_all add: accepted_op_def)

lemma accepted_op_ok:
  assumes "name_CheckInputs E st H tx p vName pos fee = Inr (True, vName @ [i])" "ne_tx E pos = Some tx"
  shows "op_ok E st i"
proof -
  obtain nti ok rec found prev where a: "i = accepted_op E H tx p pos nti prev" "DecodeNameTx E tx True False = Inr (True, nti)"
    "ReadName st (nti_name nti) = Inr (ok, rec)" "previous_op E rec tx = Inr (Some (found, prev))"
    "check_op st H p nti found prev fee = Inr True"
    using CheckInputs_accepts [OF assms(1)] by auto
  have "entry_ok E (new_entry i)" using a(1,2) assms(2) by (simp add: entry_ok_def new_entry_def accepted_op_def)
  moreover have "known st (nti_name nti)" if "nti_op nti \<noteq> OP_NAME_NEW"
    using check_op_found [OF a(5) that] a(4) previous_op_found(1) ReadName_vtxPos [OF a(3)] by (auto simp: known_def)
  ultimately show ?thesis using a(1) by (simp add: op_ok_def)
qed

lemma collect_names_ok:
  "collect_names E st H p txs vName = Inr vName' \<Longrightarrow> \<forall>(tx, pos, fee) \<in> set txs. ne_tx E pos = Some tx \<Longrightarrow>
    \<forall>i \<in> set vName. op_ok E st i \<Longrightarrow>
    (\<forall>i \<in> set vName'. op_ok E st i) \<and> length vName' \<le> length vName + length txs"
proof (induction txs arbitrary: vName)
  case (Cons t txs)
  obtain tx pos fee where t: "t = (tx, pos, fee)" by (metis prod_cases3)
  obtain b v1 where c: "name_CheckInputs E st H tx p vName pos fee = Inr (b, v1)" "collect_names E st H p txs v1 = Inr vName'"
    using Cons.prems(1) by (auto simp: t)
  have v1: "(\<forall>i \<in> set v1. op_ok E st i) \<and> length v1 \<le> Suc (length vName)"
  proof (cases b)
    case True
    then obtain i where i: "v1 = vName @ [i]" using CheckInputs_accepts [OF c(1)] by auto
    with c(1) True have "op_ok E st i" using Cons.prems(2) t by (intro accepted_op_ok [of E st H tx p vName pos fee]) auto
    then show ?thesis using i Cons.prems(3) by auto
  next
    case False
    then show ?thesis using CheckInputs_accepts [OF c(1)] Cons.prems(3) by simp
  qed
  then show ?case using Cons.IH [OF c(2)] Cons.prems(2) by auto
qed simp

section \<open>Disconnecting undoes connecting\<close>

lemma last_new_index_start:
  assumes "chain_start xs i"
  shows "last_new_index xs (length xs) = Some (nat i)"
proof -
  have "nat i < n \<Longrightarrow> n \<le> length xs \<Longrightarrow> last_new_index xs n = Some (nat i)" for n
  proof (induction n)
    case (Suc n)
    then show ?case using assms by (cases "n = nat i") (auto simp: chain_start_def)
  qed simp
  then show ?thesis using assms by (simp add: chain_start_def)
qed

lemma remove_appended:
  assumes "rec_ok E rec" "ntp_op i \<noteq> OP_NAME_NEW \<Longrightarrow> vtxPos rec \<noteq> []"
  shows "remove_op (ntp_op i) ((appended 0 i rec)\<lparr>nExpiresAt := e\<rparr>) = rec\<lparr>nExpiresAt := e\<rparr>"
  using assms last_new_index_start [of "vtxPos rec" "nLastActiveChainIndex rec"]
  by (cases "vtxPos rec = []") (auto simp: remove_op_def appended_def new_start_def rec_ok_def chain_start_def)

text \<open>The states no reader can tell apart: a record without history is like none, an address without names
  is like none.\<close>

definition hist :: "name_state \<Rightarrow> CNameVal \<Rightarrow> CNameRecord option" where
  "hist st n = (case nameindex st n of Some r \<Rightarrow> if vtxPos r = [] then None else Some r | None \<Rightarrow> None)"

definition names_at :: "(string \<Rightarrow> CNameVal set option) \<Rightarrow> string \<Rightarrow> CNameVal set" where
  "names_at db a = (case db a of Some ns \<Rightarrow> ns | None \<Rightarrow> {})"

definition name_eqv :: "name_state \<Rightarrow> name_state \<Rightarrow> bool" where
  "name_eqv s t \<longleftrightarrow> hist s = hist t \<and> names_at (nameaddress s) = names_at (nameaddress t)"

lemma names_at_upd: "names_at (db(a \<mapsto> ns)) = (names_at db)(a := ns)"
  by (rule ext) (simp add: names_at_def)

lemma WriteSingleName_at:
  "WriteSingleName db a n =
    (if n \<in> names_at db a then (False, db) else (True, db(a \<mapsto> insert n (names_at db a))))"
  by (simp add: WriteSingleName_def names_at_def)

lemma EraseSingleName_at:
  "EraseSingleName db a n =
    (if n \<in> names_at db a then (True, db(a \<mapsto> names_at db a - {n})) else (False, db))"
  by (cases "db a") (simp_all add: EraseSingleName_def names_at_def)

lemma names_at_upd1: "names_at (db(a \<mapsto> ns)) b = (if b = a then ns else names_at db b)"
  by (simp add: names_at_upd)

lemma MoveName_at:
  "fst (MoveName db old new n) \<longleftrightarrow>
     new = old \<or> ((old \<noteq> [] \<longrightarrow> n \<in> names_at db old) \<and> (new \<noteq> [] \<longrightarrow> n \<notin> names_at db new))"
  "names_at (snd (MoveName db old new n)) a =
     (if new = old \<or> old \<noteq> [] \<and> n \<notin> names_at db old then names_at db a
      else if a = old \<and> old \<noteq> [] then names_at db a - {n}
      else if a = new \<and> new \<noteq> [] then insert n (names_at db a) else names_at db a)"
proof -
  consider "new = old" | "new \<noteq> old" "old = []" | "new \<noteq> old" "old \<noteq> []" "n \<notin> names_at db old"
    | "new \<noteq> old" "old \<noteq> []" "n \<in> names_at db old" by blast
  then have "(fst (MoveName db old new n) \<longleftrightarrow>
     new = old \<or> ((old \<noteq> [] \<longrightarrow> n \<in> names_at db old) \<and> (new \<noteq> [] \<longrightarrow> n \<notin> names_at db new))) \<and>
   names_at (snd (MoveName db old new n)) a =
     (if new = old \<or> old \<noteq> [] \<and> n \<notin> names_at db old then names_at db a
      else if a = old \<and> old \<noteq> [] then names_at db a - {n}
      else if a = new \<and> new \<noteq> [] then insert n (names_at db a) else names_at db a)"
    by cases (simp_all add: MoveName_def WriteSingleName_at EraseSingleName_at names_at_upd1 insert_absorb)
  then show "fst (MoveName db old new n) \<longleftrightarrow>
     new = old \<or> ((old \<noteq> [] \<longrightarrow> n \<in> names_at db old) \<and> (new \<noteq> [] \<longrightarrow> n \<notin> names_at db new))"
    and "names_at (snd (MoveName db old new n)) a =
     (if new = old \<or> old \<noteq> [] \<and> n \<notin> names_at db old then names_at db a
      else if a = old \<and> old \<noteq> [] then names_at db a - {n}
      else if a = new \<and> new \<noteq> [] then insert n (names_at db a) else names_at db a)" by blast+
qed

lemma MoveName_cong:
  assumes "names_at db = names_at db'"
  shows "fst (MoveName db old new n) = fst (MoveName db' old new n)
    \<and> names_at (snd (MoveName db old new n)) = names_at (snd (MoveName db' old new n))"
  unfolding fun_eq_iff MoveName_at assms by blast

text \<open>Moving a name back.\<close>

lemma MoveName_undo:
  assumes "fst (MoveName db old new n)"
  shows "names_at (snd (MoveName (snd (MoveName db old new n)) new old n)) = names_at db"
  using assms unfolding fun_eq_iff MoveName_at by auto

lemma hist_upd: "nameindex t = (nameindex s)(n := x) \<Longrightarrow> hist t = (hist s)(n := (case x of Some r \<Rightarrow> if vtxPos r = [] then None else Some r | None \<Rightarrow> None))"
  by (auto simp: hist_def)

lemma name_eqv_upd:
  assumes "name_eqv s t" "nameindex s' = (nameindex s)(n := x)" "nameindex t' = (nameindex t)(n := x)"
    "names_at (nameaddress s') = names_at (nameaddress t')"
  shows "name_eqv s' t'"
  using assms hist_upd [OF assms(2)] hist_upd [OF assms(3)] by (simp add: name_eqv_def)

definition connect_step :: "name_env \<Rightarrow> nat \<Rightarrow> CTransaction \<times> nameTempProxy \<Rightarrow> name_state \<Rightarrow> name_state option" where
  "connect_step E maxSize x st =
     (case connect_op E maxSize (snd x) st {} of Inr (ok, st', _) \<Rightarrow> if ok then Some st' else None | Inl _ \<Rightarrow> None)"

definition disconnect_step :: "name_env \<Rightarrow> CTransaction \<times> nameTempProxy \<Rightarrow> name_state \<Rightarrow> name_state option" where
  "disconnect_step E x st = (case name_DisconnectInputs E (fst x) st of Inr (_, st') \<Rightarrow> Some st' | Inl _ \<Rightarrow> None)"

text \<open>An operation of a block whose transactions are on disk and in the transaction index, on a name whose
  history is not full and whose current address is the one the operation was checked with.\<close>

definition step_ok :: "name_env \<Rightarrow> nat \<Rightarrow> CTransaction \<times> nameTempProxy \<Rightarrow> name_state \<Rightarrow> bool" where
  "step_ok E maxSize x st \<longleftrightarrow> (case x of (tx, i) \<Rightarrow>
     tx_nVersion tx = NAMECOIN_TX_VERSION \<and> op_ok E st i \<and> maxSize \<le> 9223372036854775808
     \<and> (\<exists>nti. DecodeNameTx E tx True False = Inr (True, nti) \<and> ntp_name i = nti_name nti \<and> ntp_op i = nti_op nti
          \<and> ntp_address i = (if nti_op nti \<noteq> OP_NAME_DELETE then nti_strAddress nti else ''''))
     \<and> (\<exists>postx. ne_index E (ComputeHash (ne_hash E) tx) = Some postx \<and> DiskBlockPos_eq postx (ni_txPos (ntp_ind i)))
     \<and> (\<forall>ok rec. ReadName st (ntp_name i) = Inr (ok, rec) \<longrightarrow>
          current_address E rec = Inr (Some (ntp_prev_address i)) \<and> length (vtxPos rec) < maxSize))"

lemma DisconnectInputs_last:
  assumes tx: "tx_nVersion tx = NAMECOIN_TX_VERSION" "DecodeNameTx E tx True False = Inr (True, nti)"
    and rd: "ReadName st (nti_name nti) = Inr (True, rec)" "vtxPos rec \<noteq> []"
    and pos: "ne_index E (ComputeHash (ne_hash E) tx) = Some postx" "DiskBlockPos_eq postx (ni_txPos (last (vtxPos rec)))"
    and calc: "CalculateExpiresAt E (remove_op (nti_op nti) rec) = Inr (True, rec')"
    and addr: "current_address E rec' = Inr (Some a)"
    and mv: "mv = MoveName (nameaddress st) (if nti_op nti \<noteq> OP_NAME_DELETE then nti_strAddress nti else '''') a (nti_name nti)"
  shows "\<exists>st'. name_DisconnectInputs E tx st = Inr (fst mv, st') \<and> nameindex st' = (nameindex st)(nti_name nti \<mapsto> rec')
    \<and> nameaddress st' = snd mv"
  using assms by (auto simp: name_DisconnectInputs_def lift_exn_def Let_def split: prod.split)

lemma connect_disconnect:
  assumes inv: "index_ok E st" and ok: "step_ok E maxSize x st" and ap: "connect_step E maxSize x st = Some st1"
  shows "index_ok E st1 \<and> (\<exists>t. disconnect_step E x st1 = Some t \<and> name_eqv t st)"
proof -
  obtain tx i where x: "x = (tx, i)" by fastforce
  obtain nti postx where t: "tx_nVersion tx = NAMECOIN_TX_VERSION" "DecodeNameTx E tx True False = Inr (True, nti)"
      "ntp_name i = nti_name nti" "ntp_op i = nti_op nti" "op_ok E st i" "maxSize \<le> 9223372036854775808"
      "ntp_address i = (if nti_op nti \<noteq> OP_NAME_DELETE then nti_strAddress nti else '''')"
      "ne_index E (ComputeHash (ne_hash E) tx) = Some postx" "DiskBlockPos_eq postx (ni_txPos (ntp_ind i))"
    and r: "\<And>ok rec. ReadName st (ntp_name i) = Inr (ok, rec) \<Longrightarrow>
          current_address E rec = Inr (Some (ntp_prev_address i)) \<and> length (vtxPos rec) < maxSize"
    using ok by (auto simp: step_ok_def x)
  have small: "\<forall>rec. nameindex st (ntp_name i) = Some rec \<longrightarrow> length (vtxPos rec) + Suc 0 \<le> 9223372036854775808"
  proof safe
    fix rec assume "nameindex st (ntp_name i) = Some rec"
    then have "ReadName st (ntp_name i) = Inr (True, rec)" using ReadName_ok [OF inv, of "ntp_name i"] by (auto split: if_splits)
    from r [OF this] t(6) show "length (vtxPos rec) + Suc 0 \<le> 9223372036854775808" by simp
  qed
  let ?mv = "MoveName (nameaddress st) (ntp_prev_address i) (ntp_address i) (ntp_name i)"
  obtain ok' rec d e where c: "ReadName st (ntp_name i) = Inr (ok', rec)" "rec_ok E rec"
    "connect_op E maxSize i st {} = Inr (fst ?mv,
       st\<lparr>mapNamePending := drop_pending (ntp_name i) (ntp_hash i) (mapNamePending st),
          nameindex := (nameindex st)(ntp_name i \<mapsto> (appended d i rec)\<lparr>nExpiresAt := e\<rparr>), nameaddress := snd ?mv\<rparr>,
       if ntp_op i = OP_NAME_NEW then insert (ntp_name i) {} else {})"
    "rec_ok E ((appended d i rec)\<lparr>nExpiresAt := e\<rparr>)" "vtxPos (appended d i rec) \<noteq> []"
    "length (vtxPos rec) < maxSize \<longrightarrow> d = 0" "ntp_op i \<noteq> OP_NAME_NEW \<Longrightarrow> vtxPos rec \<noteq> []"
    by (rule connect_op_writes [OF inv small _ t(5), of "{}" maxSize]) simp_all
  have d: "d = 0" using r [OF c(1)] c(6) by blast
  define rec1 where "rec1 = (appended 0 i rec)\<lparr>nExpiresAt := e\<rparr>"
  have st1: "fst ?mv" "nameindex st1 = (nameindex st)(nti_name nti \<mapsto> rec1)" "nameaddress st1 = snd ?mv"
    using ap c(3) by (auto simp: connect_step_def x d rec1_def t(3) split: if_splits)
  have inv1: "index_ok E st1" using inv c(4) d by (auto simp: index_ok_def st1(2) rec1_def)
  have r1: "vtxPos rec1 = vtxPos rec @ [new_entry i]" "ni_txPos (new_entry i) = ni_txPos (ntp_ind i)"
    by (simp_all add: rec1_def appended_def new_entry_def)
  have rd: "ReadName st1 (nti_name nti) = Inr (True, rec1)"
    using ReadName_ok [OF inv1, of "nti_name nti"] st1(2) by (auto split: if_splits)
  have calc: "CalculateExpiresAt E (remove_op (nti_op nti) rec1) = Inr (True, rec)"
    using remove_appended [OF c(2,7), of i e] c(2) t(4) by (simp add: rec1_def rec_ok_def)
  obtain st2 where st2: "name_DisconnectInputs E tx st1 = Inr (fst (MoveName (snd ?mv) (ntp_address i) (ntp_prev_address i) (nti_name nti)), st2)"
    "nameindex st2 = (nameindex st1)(nti_name nti \<mapsto> rec)"
    "nameaddress st2 = snd (MoveName (snd ?mv) (ntp_address i) (ntp_prev_address i) (nti_name nti))"
    using DisconnectInputs_last [OF t(1,2) rd _ t(8) _ calc conjunct1 [OF r [OF c(1)]] refl] r1 t(7,9) st1(3) by auto
  have "hist st2 = hist st"
    using c(1,2) st1(2) st2(2) by (auto simp: hist_def fun_eq_iff t(3) ReadName_def CNameRecord0_def split: option.splits if_splits)
  moreover have "names_at (nameaddress st2) = names_at (nameaddress st)"
    unfolding st2(3) using MoveName_undo [OF st1(1)] by (simp add: t(3))
  ultimately show ?thesis using inv1 st2(1) by (simp add: disconnect_step_def x name_eqv_def)
qed

lemma name_eqv_refl: "name_eqv s s"
  by (simp add: name_eqv_def)

lemma DisconnectInputs_no_history:
  assumes "tx_nVersion tx = NAMECOIN_TX_VERSION" "DecodeNameTx E tx True False = Inr (True, nti)" "hist s (nti_name nti) = None"
  shows "\<exists>b s'. name_DisconnectInputs E tx s = Inr (b, s') \<and> name_eqv s' s"
proof (cases "nameindex s (nti_name nti)")
  case None
  then show ?thesis using assms by (simp add: name_DisconnectInputs_def lift_exn_def ReadName_def name_eqv_refl exI [of _ False])
next
  case (Some rec)
  then have "vtxPos rec = []" using assms(3) by (auto simp: hist_def split: if_splits)
  with Some have "name_DisconnectInputs E tx s = Inr (True, s\<lparr>nameindex := (nameindex s)(nti_name nti := None)\<rparr>)"
    using assms(1,2) by (simp add: name_DisconnectInputs_def lift_exn_def ReadName_def)
  moreover have "name_eqv (s\<lparr>nameindex := (nameindex s)(nti_name nti := None)\<rparr>) s"
    using assms(3) by (auto simp: name_eqv_def fun_eq_iff hist_def)
  ultimately show ?thesis by blast
qed

lemma DisconnectInputs_history:
  assumes eqv: "name_eqv s t" and tx: "tx_nVersion tx = NAMECOIN_TX_VERSION" "DecodeNameTx E tx True False = Inr (True, nti)"
    and rec: "nameindex s (nti_name nti) = Some rec" "nameindex t (nti_name nti) = Some rec" "vtxPos rec \<noteq> []"
    and s: "name_DisconnectInputs E tx s = Inr (b, s')"
  shows "\<exists>b' t'. name_DisconnectInputs E tx t = Inr (b', t') \<and> name_eqv s' t'"
proof -
  let ?n = "nti_name nti" and ?old = "if nti_op nti \<noteq> OP_NAME_DELETE then nti_strAddress nti else ''''"
  have rd: "ReadName t ?n = ReadName s ?n" using rec by (simp add: ReadName_def)
  obtain g where g: "ReadName s ?n = Inr (g, rec)" "g"
    using s tx rec by (auto simp: name_DisconnectInputs_def lift_exn_def ReadName_def split: if_splits)
  note D = name_DisconnectInputs_def [of E tx] lift_exn_def
  have ad: "names_at (nameaddress s) = names_at (nameaddress t)" using eqv by (simp add: name_eqv_def)
  show ?thesis
  proof (cases "ne_index E (ComputeHash (ne_hash E) tx)")
    case None
    with s tx rec g have "s' = s" "name_DisconnectInputs E tx t = Inr (False, t)" by (simp_all add: D rd)
    then show ?thesis using eqv by blast
  next
    case (Some postx)
    show ?thesis
    proof (cases "DiskBlockPos_eq postx (ni_txPos (last (vtxPos rec)))")
      case False
      with Some s tx rec g have "s' = s" "name_DisconnectInputs E tx t = Inr (False, t)"
        by (auto simp: D rd split: if_splits)
      then show ?thesis using eqv by blast
    next
      case True
      note at = Some True tx rec g
      obtain ok rec' where c: "CalculateExpiresAt E (remove_op (nti_op nti) rec) = Inr (ok, rec')"
        using s at by (cases "CalculateExpiresAt E (remove_op (nti_op nti) rec)") (auto simp: D)
      show ?thesis
      proof (cases ok)
        case False
        then show ?thesis using s at c eqv
          by (auto simp: D rd Let_def intro!: name_eqv_upd [OF eqv, of _ ?n None] ad split: if_splits)
      next
        case True
        obtain a where a: "current_address E rec' = Inr a" using s at c True
          by (cases "current_address E rec'") (auto simp: D Let_def)
        show ?thesis
        proof (cases a)
          case None
          then show ?thesis using s at c True a
            by (auto simp: D rd Let_def intro!: name_eqv_upd [OF eqv, of _ ?n "Some rec'"] ad split: if_splits)
        next
          case (Some a')
          let ?m = "\<lambda>db. MoveName db ?old a' ?n"
          have "\<exists>s1. name_DisconnectInputs E tx s = Inr (fst (?m (nameaddress s)), s1)
              \<and> nameindex s1 = (nameindex s)(?n \<mapsto> rec') \<and> nameaddress s1 = snd (?m (nameaddress s))"
            using at(2) by (intro DisconnectInputs_last [OF tx _ _ at(1)]) (use c True a Some g rec in auto)
          moreover have "\<exists>t1. name_DisconnectInputs E tx t = Inr (fst (?m (nameaddress t)), t1)
              \<and> nameindex t1 = (nameindex t)(?n \<mapsto> rec') \<and> nameaddress t1 = snd (?m (nameaddress t))"
            using at(2) by (intro DisconnectInputs_last [OF tx _ _ at(1)]) (use c True a Some g rec rd in auto)
          moreover have "names_at (snd (?m (nameaddress s))) = names_at (snd (?m (nameaddress t)))"
            using MoveName_cong [OF ad] by blast
          ultimately show ?thesis using s name_eqv_upd [OF eqv, of s' ?n "Some rec'"] by auto
        qed
      qed
    qed
  qed
qed

lemma disconnect_step_eqv:
  assumes eqv: "name_eqv s t" and s: "disconnect_step E x s = Some s'"
  shows "\<exists>t'. disconnect_step E x t = Some t' \<and> name_eqv s' t'"
proof -
  let ?tx = "fst x"
  obtain b where d: "name_DisconnectInputs E ?tx s = Inr (b, s')"
    using s by (auto simp: disconnect_step_def split: sum.splits prod.splits)
  have sym: "hist s = hist t" using eqv by (simp add: name_eqv_def)
  have "\<exists>b' t'. name_DisconnectInputs E ?tx t = Inr (b', t') \<and> name_eqv s' t'"
  proof (cases "tx_nVersion ?tx = NAMECOIN_TX_VERSION \<and> (\<exists>nti. DecodeNameTx E ?tx True False = Inr (True, nti))")
    case False
    then have "s' = s \<and> name_DisconnectInputs E ?tx t = Inr (False, t)" using d
      by (cases "DecodeNameTx E ?tx True False"; cases "tx_nVersion ?tx = NAMECOIN_TX_VERSION")
        (auto simp: name_DisconnectInputs_def lift_exn_def)
    then show ?thesis using eqv by blast
  next
    case True
    then obtain nti where tx: "tx_nVersion ?tx = NAMECOIN_TX_VERSION" "DecodeNameTx E ?tx True False = Inr (True, nti)" by blast
    show ?thesis
    proof (cases "hist s (nti_name nti)")
      case None
      then show ?thesis using DisconnectInputs_no_history [OF tx, of s] DisconnectInputs_no_history [OF tx, of t] d eqv sym
        by (auto simp: name_eqv_def)
    next
      case (Some rec)
      then have "nameindex s (nti_name nti) = Some rec" "nameindex t (nti_name nti) = Some rec" "vtxPos rec \<noteq> []"
        using sym by (auto simp: hist_def fun_eq_iff split: option.splits if_splits dest!: spec [of _ "nti_name nti"])
      then show ?thesis by (rule DisconnectInputs_history [OF eqv tx _ _ _ d])
    qed
  qed
  then show ?thesis by (auto simp: disconnect_step_def)
qed

interpretation names: undo_log "index_ok E" "step_ok E maxSize" name_eqv "connect_step E maxSize" "disconnect_step E" for E maxSize
  by unfold_locales (auto simp: name_eqv_def intro: disconnect_step_eqv [unfolded name_eqv_def] connect_disconnect [unfolded name_eqv_def]
      dest: connect_disconnect)

end
