(* ===== verification/MFC_NameBlocks.thy ===== *)
theory MFC_NameBlocks
  imports MFC_NameProps
begin

text \<open>
  Name operations of whole blocks: connecting the accepted operations of a block keeps the index well
  formed, disconnecting the block afterwards restores it, an accepted operation has the right to its
  name, and the inputs on which the code does not do what it means to.
\<close>

section \<open>Connecting and disconnecting\<close>

lemma connect_op_frame:
  "connect_op E maxSize i st sNew = Inr (b, st', s') \<Longrightarrow> n \<noteq> ntp_name i \<Longrightarrow> nameindex st' n = nameindex st n"
  by (auto simp: connect_op_def Let_def split_beta split: if_splits)

lemma connect_op_new:
  assumes "connect_op E maxSize i st sNew = Inr (b, st', s')" "ntp_name i \<notin> sNew"
  shows "s' \<subseteq> insert (ntp_name i) sNew" "\<exists>s''. connect_op E maxSize i st {} = Inr (b, st', s'')"
proof -
  let ?st = "st\<lparr>mapNamePending := drop_pending (ntp_name i) (ntp_hash i) (mapNamePending st)\<rparr>"
  obtain g rec rec1 ok rec2 where "ReadName ?st (ntp_name i) = Inr (g, rec)" "append_op maxSize i rec = Inr rec1"
    "CalculateExpiresAt E rec1 = Inr (ok, rec2)"
    using assms by (auto simp: connect_op_def Let_def split: if_splits)
  with assms show "s' \<subseteq> insert (ntp_name i) sNew" "\<exists>s''. connect_op E maxSize i st {} = Inr (b, st', s'')"
    by (cases ok; auto simp: connect_op_def Let_def split_beta split: if_splits)+
qed

lemma distinct_names_neq:
  "distinct (map (ntp_name \<circ> snd) (x # xs)) \<Longrightarrow> y \<in> set xs \<Longrightarrow> ntp_name (snd y) \<noteq> ntp_name (snd x)"
  by (simp add: image_iff) metis

lemma connect_ops_run:
  "connect_ops E maxSize (map snd xs) st sNew = Inr (True, st') \<Longrightarrow> distinct (map (ntp_name \<circ> snd) xs) \<Longrightarrow>
    (\<forall>x \<in> set xs. ntp_name (snd x) \<notin> sNew) \<Longrightarrow> run_ops (connect_step E maxSize) xs st = Some st'"
proof (induction xs arbitrary: st sNew)
  case (Cons x xs)
  obtain st1 s1 where c: "connect_op E maxSize (snd x) st sNew = Inr (True, st1, s1)"
    "connect_ops E maxSize (map snd xs) st1 s1 = Inr (True, st')"
    using Cons.prems(1) by (auto split: if_splits)
  have n: "ntp_name (snd x) \<notin> sNew" using Cons.prems(3) by simp
  have "\<forall>x \<in> set xs. ntp_name (snd x) \<notin> s1" 
    using connect_op_new(1) [OF c(1) n] distinct_names_neq [OF Cons.prems(2)] Cons.prems(3) by auto
  moreover have "connect_step E maxSize x st = Some st1"
    using connect_op_new(2) [OF c(1) n] by (auto simp: connect_step_def)
  ultimately show ?case using Cons.IH [OF c(2)] Cons.prems(2) by simp
qed simp

lemma step_ok_cong:
  assumes "nameindex st (ntp_name (snd x)) = nameindex st' (ntp_name (snd x))"
  shows "step_ok E maxSize x st = step_ok E maxSize x st'"
proof -
  have "ReadName st (ntp_name (snd x)) = ReadName st' (ntp_name (snd x))" using assms by (simp add: ReadName_def)
  moreover have "op_ok E st (snd x) = op_ok E st' (snd x)" using assms by (simp add: op_ok_def known_def)
  ultimately show ?thesis by (simp add: step_ok_def split_beta)
qed

lemma steps_ok_run:
  "\<forall>x \<in> set xs. step_ok E maxSize x st \<Longrightarrow> distinct (map (ntp_name \<circ> snd) xs) \<Longrightarrow>
    ok_run (step_ok E maxSize) (connect_step E maxSize) xs st"
proof (induction xs arbitrary: st)
  case (Cons x xs)
  have "ok_run (step_ok E maxSize) (connect_step E maxSize) xs st1" if s: "connect_step E maxSize x st = Some st1" for st1
  proof (rule Cons.IH)
    obtain s' where "connect_op E maxSize (snd x) st {} = Inr (True, st1, s')"
      using s by (auto simp: connect_step_def split: sum.splits prod.splits if_splits)
    then have "nameindex st1 n = nameindex st n" if "n \<noteq> ntp_name (snd x)" for n using connect_op_frame that by blast
    then show "\<forall>y \<in> set xs. step_ok E maxSize y st1"
      using Cons.prems(1) distinct_names_neq [OF Cons.prems(2)] step_ok_cong [of st1 _ st E maxSize] by simp
  qed (use Cons.prems in simp)
  then show ?case using Cons.prems by simp
qed simp

lemma disconnect_names_run:
  "run_ops (disconnect_step E) xs st = Some t \<Longrightarrow> disconnect_names E (map fst xs) st = Inr t"
  by (induction xs arbitrary: st) (auto simp: disconnect_step_def split: bind_splits sum.splits prod.splits)

abbreviation (input) is_name_tx :: "CTransaction \<Rightarrow> bool" where
  "is_name_tx tx \<equiv> tx_nVersion tx = NAMECOIN_TX_VERSION"

lemma disconnect_names_skip:
  "disconnect_names E txs st = disconnect_names E (filter is_name_tx txs) st"
  by (induction txs arbitrary: st) (auto simp: name_DisconnectInputs_def [of _ "_ :: CTransaction"] intro!: arg_cong2 [where f = bind_sum])

definition accepted_from ::
    "name_env \<Rightarrow> name_state \<Rightarrow> heap \<Rightarrow> ptr \<Rightarrow> (CTransaction \<times> CDiskTxPos \<times> CAmount) list \<Rightarrow> CTransaction \<times> nameTempProxy \<Rightarrow> bool" where
  "accepted_from E st H p txs x \<longleftrightarrow> (\<exists>pos fee v. (fst x, pos, fee) \<in> set txs
     \<and> name_CheckInputs E st H (fst x) p v pos fee = Inr (True, v @ [snd x]))"

lemma accepted_from_Cons: "accepted_from E st H p txs x \<Longrightarrow> accepted_from E st H p (t # txs) x"
  by (auto simp: accepted_from_def)

text \<open>When every name transaction of the block was accepted, the collected operations are theirs, in order.\<close>

lemma collect_names_pairs:
  "collect_names E st H p txs vName = Inr vName' \<Longrightarrow>
    \<exists>xs. vName' = vName @ map snd xs \<and> length xs \<le> length (filter is_name_tx (map fst txs))
      \<and> (length xs = length (filter is_name_tx (map fst txs)) \<longrightarrow> map fst xs = filter is_name_tx (map fst txs))
      \<and> (\<forall>x \<in> set xs. accepted_from E st H p txs x)"
proof (induction txs arbitrary: vName)
  case (Cons t txs)
  obtain tx pos fee where t: "t = (tx, pos, fee)" by (metis prod_cases3)
  obtain b v1 where c: "name_CheckInputs E st H tx p vName pos fee = Inr (b, v1)" "collect_names E st H p txs v1 = Inr vName'"
    using Cons.prems(1) by (auto simp: t)
  obtain xs where xs: "vName' = v1 @ map snd xs" "length xs \<le> length (filter is_name_tx (map fst txs))"
      "length xs = length (filter is_name_tx (map fst txs)) \<longrightarrow> map fst xs = filter is_name_tx (map fst txs)"
      "\<forall>x \<in> set xs. accepted_from E st H p txs x"
    using Cons.IH [OF c(2)] by blast
  show ?case
  proof (cases b)
    case True
    then obtain i where i: "v1 = vName @ [i]" "is_name_tx tx" using CheckInputs_accepts [OF c(1)] by auto
    have "accepted_from E st H p (t # txs) (tx, i)" using c(1) i True t by (auto simp: accepted_from_def)
    then show ?thesis using xs i t accepted_from_Cons by (intro exI [of _ "(tx, i) # xs"]) auto
  next
    case False
    then have "v1 = vName" using CheckInputs_accepts [OF c(1)] by simp
    then show ?thesis using xs t accepted_from_Cons by (intro exI [of _ xs]) (auto split: if_splits)
  qed
qed simp

lemma accepted_op_address:
  assumes acc: "name_CheckInputs E st H tx p v pos fee = Inr (True, v @ [i])" and inv: "index_ok E st"
    and r: "ReadName st (ntp_name i) = Inr (ok, rec)"
  shows "current_address E rec = Inr (Some (ntp_prev_address i))"
proof -
  obtain nti ok' rec' found prev where a: "i = accepted_op E H tx p pos nti prev"
    "ReadName st (nti_name nti) = Inr (ok', rec')" "previous_op E rec' tx = Inr (Some (found, prev))"
    using CheckInputs_accepts [OF acc] by auto
  have rec: "rec' = rec" "rec_ok E rec" using a r ReadName_ok [OF inv, of "ntp_name i"] by auto
  have "ntp_prev_address i = (if nti_op prev \<noteq> OP_NAME_DELETE then nti_strAddress prev else '''')" by (simp add: a(1) accepted_op_def)
  moreover have "nti_op prev \<noteq> OP_NAME_DELETE" if "vtxPos rec \<noteq> []" "\<not> deleted rec"
  proof -
    have "entry_ok E (last (vtxPos rec))" using rec(2) that(1) by (simp add: rec_ok_def)
    then show ?thesis using a(3) rec(1) that by (auto simp: previous_op_def entry_ok_def deleted_def)
  qed
  ultimately show ?thesis using a(3) rec(1)
    by (auto simp: previous_op_def current_address_def split: if_splits option.splits)
qed

lemma accepted_step_ok:
  assumes acc: "name_CheckInputs E st H tx p v pos fee = Inr (True, v @ [i])" and inv: "index_ok E st"
    and disk: "ne_tx E pos = Some tx" "ne_index E (ComputeHash (ne_hash E) tx) = Some pos"
    and size: "maxSize \<le> 9223372036854775808" "0 < maxSize" "\<forall>name rec. nameindex st name = Some rec \<longrightarrow> length (vtxPos rec) < maxSize"
  shows "step_ok E maxSize (tx, i) st"
proof -
  have op: "op_ok E st i" by (rule accepted_op_ok [OF acc disk(1)])
  obtain nti prev where a: "i = accepted_op E H tx p pos nti prev" "is_name_tx tx" "DecodeNameTx E tx True False = Inr (True, nti)"
    using CheckInputs_accepts [OF acc] by auto
  have "length (vtxPos rec) < maxSize" if "ReadName st (ntp_name i) = Inr (ok, rec)" for ok rec
    using that size(2,3) by (auto simp: ReadName_def CNameRecord0_def split: option.splits if_splits)
  then show ?thesis using op a(2,3) disk(2) size(1) accepted_op_address [OF acc inv]
    by (auto simp: step_ok_def a(1) accepted_op_def DiskBlockPos_eq_def)
qed

section \<open>A sample block\<close>

text \<open>The transaction of a name script that \<^verbatim>\<open>createNameScript\<close> built in front of the script of an address.\<close>

lemma DecodeNameTx_created:
  assumes "createNameScript [] name v nRentalDays op err = (True, p, err')" "op = OP_NAME_NEW \<or> op = OP_NAME_UPDATE" "v \<noteq> []"
    and d: "d = CKeyID h \<or> d = CScriptID h" "length h = 20"
    and tx: "is_name_tx tx" "vout tx = [out]" "scriptPubKey out = p @ GetScriptForDestination d"
  shows "DecodeNameTx E tx True False = Inr (True, NameTxInfo0\<lparr>nti_name := name, nti_value := v, nti_nRentalDays := nRentalDays,
    nti_op := op, nti_nOut := 0, nti_strAddress := ne_address E d\<rparr>)"
proof -
  obtain opc where "GetOp2 (GetScriptForDestination d) = (True, 1, opc, [])" "opc \<noteq> OP_DROP" "opc \<noteq> OP_2DROP"
    using d by (auto simp: GetScriptForDestination_def)
  from decode_created [OF assms(1-3) this] ExtractDestination_plain [OF d] show ?thesis
    using tx by (simp add: DecodeNameTx_def Let_def NameTxInfo0_def split: option.split)
qed

definition sample_name_tx :: CTransaction where
  "sample_name_tx = \<lparr>tx_nVersion = 1638, tx_nTime = 7, vin = [\<lparr>prevout = \<lparr>out_hash = replicate 32 9, out_n = 0\<rparr>, scriptSig = [],
       nSequence = 0, scriptWitness = []\<rparr>],
     vout = [\<lparr>nValue = 1000, scriptPubKey = [0x51, 0x75, 1, 0x61, 1, 100, 0x6d, 2, 0x62, 0x63, 0x75] @
       GetScriptForDestination (CKeyID (replicate 20 7))\<rparr>], nLockTime = 0\<rparr>"

definition sample_pos :: CDiskTxPos where
  "sample_pos = \<lparr>pos_nFile = 0, pos_nPos = 8, nTxOffset = 81\<rparr>"

definition sample_env :: name_env where
  "sample_env = \<lparr>ne_tx = \<lambda>_. Some sample_name_tx, ne_index = \<lambda>_. Some sample_pos, ne_hash = \<lambda>_. replicate 32 9,
     ne_hash160 = \<lambda>_. replicate 20 0, ne_address = \<lambda>_. ''A'', ne_mine = None\<rparr>"

definition no_names :: name_state where
  "no_names = \<lparr>nameindex = \<lambda>_. None, nameaddress = \<lambda>_. None, mapNamePending = \<lambda>_. None\<rparr>"

definition work_line :: heap where
  "work_line p = (line p)\<lparr>nFlags := 0\<rparr>"

lemma work_line_last [simp]: "GetLastBlockIndex work_line (Some p) False = Some (Some p)"
  by (subst GetLastBlockIndex.simps) (simp add: work_line_def line_def IsProofOfStake_def)

lemma work_line_fee [simp]: "GetNameOpFee work_line (Some p) 100 OP_NAME_NEW [0x61] [0x62, 0x63] = Some MIN_TX_FEE"
  by (simp add: GetNameOpFee_def work_line_def line_def CBlockIndex_SetNull_def cdiv_def sqrt_cents_def wrap64_def)

definition sample_nti :: NameTxInfo where
  "sample_nti = NameTxInfo0\<lparr>nti_name := [0x61], nti_value := [0x62, 0x63], nti_nRentalDays := 100, nti_op := OP_NAME_NEW,
     nti_nOut := 0, nti_strAddress := ''A''\<rparr>"

lemma sample_decoded [simp]: "DecodeNameTx sample_env sample_name_tx True False = Inr (True, sample_nti)"
  by (subst DecodeNameTx_created [OF sample_created, of "CKeyID (replicate 20 7)" "replicate 20 7" _ "hd (vout sample_name_tx)"])
    (simp_all add: sample_name_tx_def sample_env_def sample_nti_def)

lemma sample_decoded_plain: "\<exists>nti. DecodeNameTx sample_env sample_name_tx False True = Inr (True, nti) \<and> nti_nRentalDays nti = 100"
  using DecodeNameTx_plain [OF sample_decoded, of True] by (auto simp: same_info_def sample_nti_def)

lemma work_line_prev [simp]: "pprev (work_line p) = (if p = 0 then None else Some (p - 1))" "nHeight (work_line p) = int p"
  by (simp_all add: work_line_def)

lemma sample_fee: "IsNameFeeEnough work_line sample_nti (Some 5) MIN_TX_FEE = Some True"
  by (simp add: IsNameFeeEnough_def sample_nti_def eval_nat_numeral)

abbreviation (input) sample_op :: nameTempProxy where
  "sample_op \<equiv> accepted_op sample_env work_line sample_name_tx 5 sample_pos sample_nti NameTxInfo0"

lemma sample_accepted:
  "name_CheckInputs sample_env no_names work_line sample_name_tx 5 [] sample_pos MIN_TX_FEE = Inr (True, [sample_op])"
proof -
  have r: "ReadName no_names n = Inr (False, CNameRecord0)" for n by (simp add: ReadName_def no_names_def)
  have "check_op no_names work_line 5 sample_nti False NameTxInfo0 MIN_TX_FEE = Inr True"
    using sample_fee by (simp add: check_op_def NameActive_def r sample_nti_def exI [of _ False])
  then show ?thesis by (simp add: name_CheckInputs_def r previous_op_def lift_exn_def) (simp add: sample_name_tx_def CNameRecord0_def)
qed

lemma sample_collected:
  "collect_names sample_env no_names work_line 5 [(sample_name_tx, sample_pos, MIN_TX_FEE)] [] = Inr [sample_op]"
  by (simp add: sample_accepted)

lemma sample_connects:
  obtains st' where "name_ConnectBlock sample_env 1000 [sample_op] no_names = Inr (True, st')"
proof -
  have op: "op_ok sample_env no_names sample_op"
    by (rule accepted_op_ok [of _ _ _ _ _ "[]", simplified, OF sample_accepted]) (simp add: sample_env_def)
  have inv: "index_ok sample_env no_names" by (simp add: index_ok_def no_names_def)
  obtain st' s' where "connect_op sample_env 1000 sample_op no_names {} =
      Inr (fst (MoveName (nameaddress no_names) (ntp_prev_address sample_op) (ntp_address sample_op) (ntp_name sample_op)), st', s')"
    by (rule connect_op_writes [OF inv _ _ op, of 0 "{}"]) (simp_all add: no_names_def)
  moreover have "fst (MoveName (nameaddress no_names) (ntp_prev_address sample_op) (ntp_address sample_op) (ntp_name sample_op))"
    by (simp add: accepted_op_def sample_nti_def MoveName_at(1) names_at_def no_names_def)
  ultimately show ?thesis using that by (simp add: name_ConnectBlock_def)
qed

text \<open>The same with an update, and with a long rent.\<close>

definition sample_long :: bytes where
  "sample_long = [0x51, 0x75, 1, 0x61, 4, 0xc0, 0xe1, 0xe4, 0, 0x6d, 2, 0x62, 0x63, 0x75]"

lemma sample_long_created: "createNameScript [] [0x61] [0x62, 0x63] 15000000 OP_NAME_NEW [] = (True, sample_long, [])"
  by (simp add: createNameScript_def checkNameValues_def value_chunks_def drop_markers_def
      push_data_def push_int64_def serialize_def le_digits.simps sample_long_def)

definition sample_update :: bytes where
  "sample_update = [0x52, 0x75, 1, 0x61, 1, 100, 0x6d, 2, 0x62, 0x63, 0x75]"

lemma sample_update_created: "createNameScript [] [0x61] [0x62, 0x63] 100 OP_NAME_UPDATE [] = (True, sample_update, [])"
  by (simp add: createNameScript_def checkNameValues_def value_chunks_def drop_markers_def
      push_data_def push_int64_def serialize_def le_digits.simps sample_update_def)

definition sample_tx_of :: "bytes \<Rightarrow> CTransaction" where
  "sample_tx_of s = sample_name_tx\<lparr>vout := [\<lparr>nValue = 1000, scriptPubKey = s @ GetScriptForDestination (CKeyID (replicate 20 7))\<rparr>]\<rparr>"

lemma sample_tx_of_decoded:
  assumes "createNameScript [] name v nRentalDays op err = (True, s, err')" "op = OP_NAME_NEW \<or> op = OP_NAME_UPDATE" "v \<noteq> []"
  shows "DecodeNameTx E (sample_tx_of s) True False = Inr (True, NameTxInfo0\<lparr>nti_name := name, nti_value := v,
    nti_nRentalDays := nRentalDays, nti_op := op, nti_nOut := 0, nti_strAddress := ne_address E (CKeyID (replicate 20 7))\<rparr>)"
  by (rule DecodeNameTx_created [OF assms, where h = "replicate 20 7" and out = "hd (vout (sample_tx_of s))"])
    (simp_all add: sample_tx_of_def sample_name_tx_def)

definition sample_entry :: CNameIndex where
  "sample_entry = \<lparr>ni_txPos = sample_pos, ni_nHeight = 5, ni_op = OP_NAME_NEW, ni_value = [0x62, 0x63]\<rparr>"

lemma wrap32_mod: "wrap32 x = (if 2 ^ 31 \<le> x mod 2 ^ 32 then x mod 2 ^ 32 - 2 ^ 32 else x mod 2 ^ 32)"
proof -
  have m: "0 \<le> x mod 4294967296" "x mod 4294967296 < 4294967296" by simp_all
  have "(x + 2147483648) mod 4294967296 = (x mod 4294967296 + 2147483648) mod 4294967296" by (simp add: mod_simps)
  also have "\<dots> = (if 2147483648 \<le> x mod 4294967296 then x mod 4294967296 - 2147483648 else x mod 4294967296 + 2147483648)"
  proof (cases "2147483648 \<le> x mod 4294967296")
    case True
    have "(x mod 4294967296 + 2147483648) mod 4294967296 = (x mod 4294967296 - 2147483648) mod 4294967296"
      using mod_add_self2 [of "x mod 4294967296 - 2147483648" 4294967296] by (simp add: algebra_simps)
    then show ?thesis using True m by simp
  qed (use m in simp)
  finally show ?thesis by (simp add: wrap32_def)
qed

section \<open>Properties\<close>

text \<open>C32: Connecting the accepted name operations of a block never aborts and keeps the name index well formed:
  every history can be read back, the active chain starts at the last registration and the expiry is the
  one computed from the history. This needs a well-formed index, transactions that can be read back and
  histories shorter than the size type allows.\<close>

theorem name_block_keeps_index:
  assumes "index_ok E st" "hist_small st (length txs)" "\<forall>(tx, pos, fee) \<in> set txs. ne_tx E pos = Some tx"
    and "collect_names E st H p txs [] = Inr vName"
  shows "\<exists>ok st'. name_ConnectBlock E maxSize vName st = Inr (ok, st') \<and> index_ok E st'"
proof -
  have v: "\<forall>i \<in> set vName. op_ok E st i" "length vName \<le> length txs"
    using collect_names_ok [OF assms(4,3)] by simp_all
  have "hist_small st (length vName)" using assms(2) v(2) by (auto simp: hist_small_def intro: le_trans dest!: spec)
  from connect_ops_inv [OF assms(1) this v(1)] show ?thesis by (simp add: name_ConnectBlock_def)
qed

theorem name_block_keeps_index_witness:
  "\<exists>ok st'. name_ConnectBlock sample_env 1000 [sample_op] no_names = Inr (ok, st') \<and> index_ok sample_env st'"
  by (rule name_block_keeps_index [OF _ _ _ sample_collected])
    (simp_all add: index_ok_def no_names_def hist_small_def sample_env_def)

text \<open>C3: Disconnecting a block undoes connecting it. When every name transaction of the block was accepted, no name
  is used twice in it, no history is full and the transactions are on disk and in the transaction index,
  connecting the operations and then disconnecting the transactions from the last to the first restores
  the name index and the address index, up to records without history and addresses without names.\<close>

theorem name_block_undone:
  assumes inv: "index_ok E st" and coll: "collect_names E st H p txs [] = Inr vName"
    and disk: "\<forall>(tx, pos, fee) \<in> set txs. ne_tx E pos = Some tx \<and> ne_index E (ComputeHash (ne_hash E) tx) = Some pos"
    and all: "length vName = length (filter is_name_tx (map fst txs))" and dist: "distinct (map ntp_name vName)"
    and size: "0 < maxSize" "maxSize \<le> 2 ^ 63" "\<forall>name rec. nameindex st name = Some rec \<longrightarrow> length (vtxPos rec) < maxSize"
    and conn: "name_ConnectBlock E maxSize vName st = Inr (True, st')"
  shows "\<exists>t. disconnect_names E (rev (map fst txs)) st' = Inr t \<and> name_eqv t st"
proof -
  obtain xs where xs: "vName = map snd xs" "map fst xs = filter is_name_tx (map fst txs)" "\<forall>x \<in> set xs. accepted_from E st H p txs x"
    using collect_names_pairs [OF coll] all by auto
  have d: "distinct (map (ntp_name \<circ> snd) xs)" using dist xs(1) by simp
  have "step_ok E maxSize x st" if x: "x \<in> set xs" for x
  proof -
    obtain pos fee v where "(fst x, pos, fee) \<in> set txs" "name_CheckInputs E st H (fst x) p v pos fee = Inr (True, v @ [snd x])"
      using xs(3) x by (auto simp: accepted_from_def)
    then show ?thesis using disk size accepted_step_ok [OF _ inv, of H "fst x" p v pos fee "snd x" maxSize] by auto
  qed
  then have "ok_run (step_ok E maxSize) (connect_step E maxSize) xs st" using d by (intro steps_ok_run) blast+
  moreover have "run_ops (connect_step E maxSize) xs st = Some st'"
    using conn d by (intro connect_ops_run [of _ _ _ _ "{}"]) (simp_all add: name_ConnectBlock_def xs(1))
  ultimately obtain t where t: "run_ops (disconnect_step E) (rev xs) st' = Some t" "name_eqv t st"
    using names.undo_run [OF inv] by blast
  have "disconnect_names E (rev (map fst txs)) st' = disconnect_names E (map fst (rev xs)) st'"
    unfolding disconnect_names_skip [of E "rev (map fst txs)"] by (simp add: rev_filter [symmetric] xs(2) rev_map [symmetric])
  then show ?thesis using disconnect_names_run [OF t(1)] t(2) by simp
qed

theorem name_block_undone_witness:
  "\<exists>st' t. name_ConnectBlock sample_env 1000 [sample_op] no_names = Inr (True, st')
     \<and> disconnect_names sample_env [sample_name_tx] st' = Inr t \<and> name_eqv t no_names"
proof -
  obtain st' where st': "name_ConnectBlock sample_env 1000 [sample_op] no_names = Inr (True, st')" by (rule sample_connects)
  have "\<exists>t. disconnect_names sample_env (rev (map fst [(sample_name_tx, sample_pos, MIN_TX_FEE)])) st' = Inr t \<and> name_eqv t no_names"
    by (rule name_block_undone [OF _ sample_collected _ _ _ _ _ _ st'])
      (simp_all add: index_ok_def no_names_def sample_env_def sample_name_tx_def)
  then show ?thesis using st' by auto
qed

text \<open>C4: An operation that \<^verbatim>\<open>CheckInputs\<close> accepts has the right to its name: a registration is for a name that is not
  active at this height; an update or a deletion is for an active name, and one of the inputs spends an
  output of the transaction of the last operation on that name, which is not a deletion.\<close>

theorem accepted_name_op:
  assumes "name_CheckInputs E st H tx p vName pos fee = Inr (True, vName')"
  shows "\<exists>nti i. DecodeNameTx E tx True False = Inr (True, nti) \<and> vName' = vName @ [i] \<and> ntp_name i = nti_name nti \<and>
    (nti_op nti = OP_NAME_NEW \<and> NameActive st (nti_name nti) (nHeight (H p)) (nHeight (H p)) = Inr False
     \<or> (nti_op nti = OP_NAME_UPDATE \<or> nti_op nti = OP_NAME_DELETE)
       \<and> NameActive st (nti_name nti) (nHeight (H p)) (nHeight (H p)) = Inr True
       \<and> (\<exists>rec prevtx prev. nameindex st (nti_name nti) = Some rec \<and> vtxPos rec \<noteq> []
            \<and> ne_tx E (ni_txPos (last (vtxPos rec))) = Some prevtx \<and> DecodeNameTx E prevtx True False = Inr (True, prev)
            \<and> nti_name prev = nti_name nti \<and> nti_op prev \<noteq> OP_NAME_DELETE
            \<and> (\<exists>txin \<in> set (vin tx). out_hash (prevout txin) = ComputeHash (ne_hash E) prevtx)))"
proof -
  obtain nti ok rec found prev where a: "vName' = vName @ [accepted_op E H tx p pos nti prev]"
    "DecodeNameTx E tx True False = Inr (True, nti)" "ReadName st (nti_name nti) = Inr (ok, rec)"
    "previous_op E rec tx = Inr (Some (found, prev))" "check_op st H p nti found prev fee = Inr True"
    using CheckInputs_accepts [OF assms] by auto
  let ?h = "nHeight (H p)"
  have c: "nti_op nti = OP_NAME_NEW \<and> NameActive st (nti_name nti) ?h ?h = Inr False
    \<or> (nti_op nti = OP_NAME_UPDATE \<or> nti_op nti = OP_NAME_DELETE) \<and> NameActive st (nti_name nti) ?h ?h = Inr True
      \<and> owns_previous found prev (nti_name nti)"
    using a(5) by (auto simp: check_op_def Let_def split: if_splits option.splits)
  have "nameindex st (nti_name nti) = Some rec \<and> vtxPos rec \<noteq> []
      \<and> (\<exists>last. ne_tx E (ni_txPos (List.last (vtxPos rec))) = Some last \<and> (\<exists>i \<in> set (vin tx). out_hash (prevout i) = ComputeHash (ne_hash E) last)
        \<and> DecodeNameTx E last True False = Inr (True, prev))" if f: "found"
    using previous_op_found [of E rec tx prev] a(4) f ReadName_vtxPos [OF a(3)] by simp
  then show ?thesis using a(1,2) c unfolding owns_previous_def by fastforce
qed

theorem accepted_name_op_witness:
  "\<exists>nti. DecodeNameTx sample_env sample_name_tx True False = Inr (True, nti) \<and> nti_op nti = OP_NAME_NEW
     \<and> NameActive no_names (nti_name nti) 5 5 = Inr False"
  using accepted_name_op [OF sample_accepted] by (auto simp: sample_nti_def)

text \<open>C33: The days of a registration are multiplied by 175 in a 32-bit integer before the sum is limited to the largest
  height. For a name whose active chain is its registration, whatever its history before, the name has already
  expired in the block that registers it exactly when the product is at least \<open>2 ^ 31\<close> modulo \<open>2 ^ 32\<close>: never below
  12271336 days, always from there to 24542669 days, and beyond as the remainder says.\<close>

theorem expiry_wraps:
  assumes "vtxPos rec = old @ [x]" "nLastActiveChainIndex rec = int (length old)" "ni_op x = OP_NAME_NEW"
    and "ne_tx E (ni_txPos x) = Some tx" "DecodeNameTx E tx False True = Inr (True, nti)"
    and "0 \<le> nti_nRentalDays nti" "0 \<le> ni_nHeight x" "ni_nHeight x < 2 ^ 31"
  shows "\<exists>rec'. CalculateExpiresAt E rec = Inr (True, rec')
    \<and> (nExpiresAt rec' < ni_nHeight x \<longleftrightarrow> 2 ^ 31 \<le> nti_nRentalDays nti * 175 mod 2 ^ 32)
    \<and> (nti_nRentalDays nti < 12271336 \<longrightarrow> \<not> nExpiresAt rec' < ni_nHeight x)
    \<and> (12271336 \<le> nti_nRentalDays nti \<and> nti_nRentalDays nti \<le> 24542669 \<longrightarrow> nExpiresAt rec' < ni_nHeight x)"
proof -
  let ?d = "nti_nRentalDays nti * 175" and ?h = "ni_nHeight x"
  have w: "wrap32 ?d = (if 2 ^ 31 \<le> ?d mod 2 ^ 32 then ?d mod 2 ^ 32 - 2 ^ 32 else ?d mod 2 ^ 32)" by (rule wrap32_mod)
  have m: "0 \<le> ?d mod 2 ^ 32" "?d mod 2 ^ 32 < 2 ^ 32" by simp_all
  define e where "e = (if wrap32 ?d + ?h > INT_MAX then INT_MAX else wrap32 (wrap32 ?d + ?h))"
  have "wrap32 (wrap32 ?d + ?h) = wrap32 ?d + ?h" if "\<not> wrap32 ?d + ?h > INT_MAX"
    using that assms(7,8) w m by (intro wrap32_id) (auto simp: INT_MAX_def)
  then have e: "e < ?h \<longleftrightarrow> 2 ^ 31 \<le> ?d mod 2 ^ 32" using w m assms(8) by (auto simp: e_def INT_MAX_def)
  have "CalculateExpiresAt E rec = Inr (True, rec\<lparr>nExpiresAt := e\<rparr>)"
    using assms(1-5) by (simp add: CalculateExpiresAt_def deleted_def lift_exn_def Let_def e_def)
  moreover have "?d mod 2 ^ 32 = ?d" if "nti_nRentalDays nti \<le> 24542669" using that assms(6) by (intro mod_pos_pos_trivial) auto
  ultimately show ?thesis using e by auto
qed

theorem expiry_wraps_witness:
  "\<exists>rec'. CalculateExpiresAt (sample_env\<lparr>ne_tx := \<lambda>_. Some (sample_tx_of sample_long)\<rparr>)
     \<lparr>vtxPos = [sample_entry], nExpiresAt = 0, nLastActiveChainIndex = 0\<rparr> = Inr (True, rec') \<and> nExpiresAt rec' < 5"
proof -
  let ?E = "sample_env\<lparr>ne_tx := \<lambda>_. Some (sample_tx_of sample_long)\<rparr>"
  obtain nti where nti: "DecodeNameTx ?E (sample_tx_of sample_long) False True = Inr (True, nti)" "nti_nRentalDays nti = 15000000"
    using DecodeNameTx_plain [OF sample_tx_of_decoded [OF sample_long_created, of ?E], of True] by (auto simp: same_info_def)
  let ?rec = "\<lparr>vtxPos = [sample_entry], nExpiresAt = 0, nLastActiveChainIndex = 0\<rparr>"
  show ?thesis using expiry_wraps [of ?rec "[]" sample_entry ?E, OF _ _ _ _ nti(1)] by (auto simp: nti(2) sample_entry_def)
qed

text \<open>C34: Disconnecting an update that the index does not contain can read outside a vector. Positions are compared by file and block
  only. When the last entry of a name is its registration, the name has an older history that does not end in a
  deletion, and an update of the name stands elsewhere in the block of the registration, the update is taken
  for the registration: the entry is removed, the start of the active chain still points to it, and
  the height at that start is read outside the history.\<close>

theorem disconnect_unrecorded_update:
  assumes "is_name_tx tx" "DecodeNameTx E tx True False = Inr (True, nti)" "nti_op nti = OP_NAME_UPDATE"
    and "nameindex st (nti_name nti) = Some rec" "vtxPos rec = old @ [reg]" "old \<noteq> []" "ni_op (last old) \<noteq> OP_NAME_DELETE"
    and "nLastActiveChainIndex rec = int (length old)" "ne_index E (ComputeHash (ne_hash E) tx) = Some postx"
    and "pos_nFile postx = pos_nFile (ni_txPos reg)" "pos_nPos postx = pos_nPos (ni_txPos reg)" "nTxOffset postx \<noteq> nTxOffset (ni_txPos reg)"
  shows "name_DisconnectInputs E tx st = Inl OutOfBounds"
  using assms
  by (simp add: name_DisconnectInputs_def DiskBlockPos_eq_def lift_exn_def ReadName_def remove_op_def CalculateExpiresAt_def deleted_def)

theorem disconnect_unrecorded_update_witness:
  "name_DisconnectInputs sample_env (sample_tx_of sample_update) (no_names\<lparr>nameindex := [[0x61] \<mapsto>
     \<lparr>vtxPos = [sample_entry, sample_entry\<lparr>ni_txPos := sample_pos\<lparr>nTxOffset := 7\<rparr>\<rparr>], nExpiresAt = 0, nLastActiveChainIndex = 1\<rparr>]\<rparr>) = Inl OutOfBounds"
  by (rule disconnect_unrecorded_update [OF _ sample_tx_of_decoded [OF sample_update_created], where old = "[sample_entry]" and postx = sample_pos
        and reg = "sample_entry\<lparr>ni_txPos := sample_pos\<lparr>nTxOffset := 7\<rparr>\<rparr>" and rec = "\<lparr>vtxPos = [sample_entry,
          sample_entry\<lparr>ni_txPos := sample_pos\<lparr>nTxOffset := 7\<rparr>\<rparr>], nExpiresAt = 0, nLastActiveChainIndex = 1\<rparr>"])
    (simp_all add: sample_tx_of_def sample_name_tx_def sample_env_def sample_entry_def sample_pos_def)

end
