(* ===== verification/MFC_Merkle.thy ===== *)
theory MFC_Merkle
  imports MFC_Block
begin

text \<open>
  Merkle trees: the constant-space computation of roots and branches of \<^verbatim>\<open>src/src/consensus/merkle.cpp\<close> and the partial
  trees that are sent to light clients, \<^verbatim>\<open>src/src/merkleblock.h\<close> and \<^verbatim>\<open>merkleblock.cpp\<close>. The hash of the
  concatenation of two hashes is a parameter \<open>Hash\<close>. Unsigned 32-bit counters are natural numbers with the
  wrap-around written out by \<open>U32\<close>.
\<close>

definition U32 :: "nat \<Rightarrow> nat" where
  "U32 n = n mod 4294967296"

section \<open>The constant-space computation\<close>

text \<open>What the loops change: the eager subtree hashes, the level of the one that contains the position asked
  for, the flag and the branch.\<close>

record merkle =
  mk_inner :: "uint256 list"
  mk_matchlevel :: int
  mk_mutated :: bool
  mk_branch :: "uint256 list"

definition branch_push :: "bool \<Rightarrow> bool \<Rightarrow> nat \<Rightarrow> uint256 \<Rightarrow> merkle \<Rightarrow> bool \<times> merkle" where
  "branch_push want matchh level h m =
     (if want \<and> matchh then (matchh, m\<lparr>mk_branch := mk_branch m @ [mk_inner m ! level]\<rparr>)
      else if want \<and> mk_matchlevel m = int level then (True, m\<lparr>mk_branch := mk_branch m @ [h]\<rparr>)
      else (matchh, m))"

text \<open>The inner loop over the low zero bits of the count: the level it ends at, the hash and whether it contains
  the position. \<open>None\<close>: the level leaves the array of 32 hashes.\<close>

function combine_up :: "(bytes \<Rightarrow> uint256) \<Rightarrow> bool \<Rightarrow> nat \<Rightarrow> nat \<Rightarrow> uint256 \<Rightarrow> bool \<Rightarrow> merkle \<Rightarrow> (nat \<times> uint256 \<times> bool \<times> merkle) option" where
  "combine_up Hash want count level h matchh m =
     (if level \<ge> 32 then None
      else if bit count level then Some (level, h, matchh, m)
      else
        let (matchh, m) = branch_push want matchh level h m;
            m = m\<lparr>mk_mutated := mk_mutated m \<or> mk_inner m ! level = h\<rparr>
        in combine_up Hash want count (level + 1) (Hash (mk_inner m ! level @ h)) matchh m)"
  by pat_completeness auto

termination
  by (relation "measure (\<lambda>(_, _, _, level, _). 32 - level)") auto

declare combine_up.simps [simp del]

fun process_leaves :: "(bytes \<Rightarrow> uint256) \<Rightarrow> bool \<Rightarrow> nat \<Rightarrow> nat \<Rightarrow> uint256 list \<Rightarrow> merkle \<Rightarrow> (nat \<times> merkle) option" where
  "process_leaves Hash want branchpos count [] m = Some (count, m)"
| "process_leaves Hash want branchpos count (leaf # leaves) m =
     (let matchh = (count = branchpos); count = U32 (count + 1) in
      Option.bind (combine_up Hash want count 0 leaf matchh m) (\<lambda>(level, h, matchh, m).
        let m = m\<lparr>mk_inner := (mk_inner m)[level := h]\<rparr>;
            m = (if matchh then m\<lparr>mk_matchlevel := int level\<rparr> else m)
        in process_leaves Hash want branchpos count leaves m))"

function lowest_bit :: "nat \<Rightarrow> nat \<Rightarrow> nat option" where
  "lowest_bit count level =
     (if level \<ge> 32 then None else if bit count level then Some level else lowest_bit count (level + 1))"
  by pat_completeness auto

termination
  by (relation "measure (\<lambda>(_, level). 32 - level)") auto

declare lowest_bit.simps [simp del]

text \<open>The second inner loop, which does not look for equal hashes.\<close>

function propagate_up :: "(bytes \<Rightarrow> uint256) \<Rightarrow> bool \<Rightarrow> nat \<Rightarrow> nat \<Rightarrow> uint256 \<Rightarrow> bool \<Rightarrow> merkle \<Rightarrow> (nat \<times> uint256 \<times> bool \<times> merkle) option" where
  "propagate_up Hash want count level h matchh m =
     (if level \<ge> 32 then None
      else if bit count level then Some (level, h, matchh, m)
      else
        let (matchh, m) = branch_push want matchh level h m
        in propagate_up Hash want count (level + 1) (Hash (mk_inner m ! level @ h)) matchh m)"
  by pat_completeness auto

termination
  by (relation "measure (\<lambda>(_, _, _, level, _). 32 - level)") auto

declare propagate_up.simps [simp del]

lemma propagate_up_level: "propagate_up Hash want count level h matchh m = Some (level', r) \<Longrightarrow> level \<le> level' \<and> level' < 32"
proof (induction Hash want count level h matchh m rule: propagate_up.induct)
  case (1 Hash want count level h matchh m)
  obtain mh m' where b: "branch_push want matchh level h m = (mh, m')" by fastforce
  show ?case
  proof (cases "level \<ge> 32 \<or> bit count level")
    case True
    then show ?thesis using "1.prems" by (subst (asm) propagate_up.simps) (auto split: if_splits)
  next
    case False
    then have "propagate_up Hash want count (level + 1) (Hash (mk_inner m' ! level @ h)) mh m' = Some (level', r)"
      using "1.prems" b by (subst (asm) propagate_up.simps) simp
    then show ?thesis using "1.IH" [of "(mh, m')" mh m'] False b by simp
  qed
qed

function final_sweep :: "(bytes \<Rightarrow> uint256) \<Rightarrow> bool \<Rightarrow> nat \<Rightarrow> nat \<Rightarrow> uint256 \<Rightarrow> bool \<Rightarrow> merkle \<Rightarrow> (uint256 \<times> merkle) option" where
  "final_sweep Hash want count level h matchh m =
     (if count = 2 ^ level then Some (h, m)
      else if level \<ge> 32 then None
      else
        let m = (if want \<and> matchh then m\<lparr>mk_branch := mk_branch m @ [h]\<rparr> else m);
            count = U32 (count + 2 ^ level)
        in case propagate_up Hash want count (level + 1) (Hash (h @ h)) matchh m of
             None \<Rightarrow> None
           | Some (level, h, matchh, m) \<Rightarrow> final_sweep Hash want count level h matchh m)"
  by pat_completeness auto

termination
  by (relation "measure (\<lambda>(_, _, _, level, _). 32 - level)") (auto dest!: propagate_up_level)

declare final_sweep.simps [simp del]

definition MerkleComputation :: "(bytes \<Rightarrow> uint256) \<Rightarrow> uint256 list \<Rightarrow> nat \<Rightarrow> bool \<Rightarrow> (uint256 \<times> bool \<times> uint256 list) option" where
  "MerkleComputation Hash leaves branchpos want =
     (if leaves = [] then Some (uint256_null, False, [])
      else
        Option.bind (process_leaves Hash want branchpos 0 leaves
            \<lparr>mk_inner = replicate 32 uint256_null, mk_matchlevel = -1, mk_mutated = False, mk_branch = []\<rparr>) (\<lambda>(count, m).
        Option.bind (lowest_bit count 0) (\<lambda>level.
        Option.bind (final_sweep Hash want count level (mk_inner m ! level) (mk_matchlevel m = int level) m) (\<lambda>(h, m).
        Some (h, mk_mutated m, mk_branch m)))))"

definition ComputeMerkleRoot :: "(bytes \<Rightarrow> uint256) \<Rightarrow> uint256 list \<Rightarrow> (uint256 \<times> bool) option" where
  "ComputeMerkleRoot Hash leaves =
     map_option (\<lambda>(root, mutated, _). (root, mutated)) (MerkleComputation Hash leaves 4294967295 False)"

definition ComputeMerkleBranch :: "(bytes \<Rightarrow> uint256) \<Rightarrow> uint256 list \<Rightarrow> nat \<Rightarrow> uint256 list option" where
  "ComputeMerkleBranch Hash leaves position =
     map_option (\<lambda>(_, _, branch). branch) (MerkleComputation Hash leaves position True)"

fun ComputeMerkleRootFromBranch :: "(bytes \<Rightarrow> uint256) \<Rightarrow> uint256 \<Rightarrow> uint256 list \<Rightarrow> nat \<Rightarrow> uint256" where
  "ComputeMerkleRootFromBranch Hash hash [] nIndex = hash"
| "ComputeMerkleRootFromBranch Hash hash (it # vMerkleBranch) nIndex =
     ComputeMerkleRootFromBranch Hash (if odd nIndex then Hash (it @ hash) else Hash (hash @ it)) vMerkleBranch (nIndex div 2)"

definition BlockMerkleRoot :: "(bytes \<Rightarrow> uint256) \<Rightarrow> CBlock \<Rightarrow> (uint256 \<times> bool) option" where
  "BlockMerkleRoot Hash block = ComputeMerkleRoot Hash (map (ComputeHash Hash) (vtx block))"

text \<open>Without transactions the write to the first leaf is outside the vector.\<close>

definition BlockWitnessMerkleRoot :: "(bytes \<Rightarrow> uint256) \<Rightarrow> CBlock \<Rightarrow> (uint256 \<times> bool) option" where
  "BlockWitnessMerkleRoot Hash block =
     (case vtx block of
        [] \<Rightarrow> None
      | _ # txs \<Rightarrow> ComputeMerkleRoot Hash (uint256_null # map (GetWitnessHash Hash) txs))"

definition BlockMerkleBranch :: "(bytes \<Rightarrow> uint256) \<Rightarrow> CBlock \<Rightarrow> nat \<Rightarrow> uint256 list option" where
  "BlockMerkleBranch Hash block position = ComputeMerkleBranch Hash (map (ComputeHash Hash) (vtx block)) position"

section \<open>Partial trees\<close>

record CPartialMerkleTree =
  nTransactions :: nat
  vBits :: "bool list"
  vHash :: "uint256 list"
  fBad :: bool

definition CalcTreeWidth :: "nat \<Rightarrow> nat \<Rightarrow> nat" where
  "CalcTreeWidth n height = U32 (n + 2 ^ height - 1) div 2 ^ height"

fun CalcHash :: "(bytes \<Rightarrow> uint256) \<Rightarrow> nat \<Rightarrow> nat \<Rightarrow> nat \<Rightarrow> uint256 list \<Rightarrow> uint256" where
  "CalcHash Hash n 0 pos vTxid = vTxid ! pos"
| "CalcHash Hash n (Suc height) pos vTxid =
     (let left = CalcHash Hash n height (U32 (pos * 2)) vTxid;
          right = (if U32 (pos * 2 + 1) < CalcTreeWidth n height then CalcHash Hash n height (U32 (pos * 2 + 1)) vTxid else left)
      in Hash (left @ right))"

definition parent_of_match :: "nat \<Rightarrow> nat \<Rightarrow> nat \<Rightarrow> bool list \<Rightarrow> bool" where
  "parent_of_match n height pos vMatch =
     (\<exists>p \<in> set [U32 (pos * 2 ^ height)..<min (U32 ((pos + 1) * 2 ^ height)) n]. vMatch ! p)"

text \<open>The bits and hashes that are appended.\<close>

fun TraverseAndBuild :: "(bytes \<Rightarrow> uint256) \<Rightarrow> nat \<Rightarrow> nat \<Rightarrow> nat \<Rightarrow> uint256 list \<Rightarrow> bool list \<Rightarrow> bool list \<times> uint256 list" where
  "TraverseAndBuild Hash n 0 pos vTxid vMatch = ([parent_of_match n 0 pos vMatch], [CalcHash Hash n 0 pos vTxid])"
| "TraverseAndBuild Hash n (Suc height) pos vTxid vMatch =
     (if \<not> parent_of_match n (Suc height) pos vMatch then ([False], [CalcHash Hash n (Suc height) pos vTxid])
      else
        let (b1, h1) = TraverseAndBuild Hash n height (U32 (pos * 2)) vTxid vMatch;
            (b2, h2) = (if U32 (pos * 2 + 1) < CalcTreeWidth n height
                        then TraverseAndBuild Hash n height (U32 (pos * 2 + 1)) vTxid vMatch else ([], []))
        in (True # b1 @ b2, h1 @ h2))"

text \<open>The loop ends at height 31 at the latest: there the width of 32 bits leaves at most one node.\<close>

function tree_height :: "nat \<Rightarrow> nat \<Rightarrow> nat" where
  "tree_height n h = (if h \<ge> 31 then h else if CalcTreeWidth n h > 1 then tree_height n (h + 1) else h)"
  by pat_completeness auto

termination
  by (relation "measure (\<lambda>(_, h). 31 - h)") auto

declare tree_height.simps [simp del]

definition CPartialMerkleTree_build :: "(bytes \<Rightarrow> uint256) \<Rightarrow> uint256 list \<Rightarrow> bool list \<Rightarrow> CPartialMerkleTree" where
  "CPartialMerkleTree_build Hash vTxid vMatch =
     (let n = U32 (length vTxid); (bits, hashes) = TraverseAndBuild Hash n (tree_height n 0) 0 vTxid vMatch
      in \<lparr>nTransactions = n, vBits = bits, vHash = hashes, fBad = False\<rparr>)"

definition CPartialMerkleTree_empty :: CPartialMerkleTree where
  "CPartialMerkleTree_empty = \<lparr>nTransactions = 0, vBits = [], vHash = [], fBad = True\<rparr>"

text \<open>What the extraction changes.\<close>

record extraction =
  nBitsUsed :: nat
  nHashUsed :: nat
  ex_vMatch :: "uint256 list"
  ex_vnIndex :: "nat list"
  ex_bad :: bool

text \<open>A node that is not descended into: its hash is taken, and it is a match when it is a marked leaf.\<close>

definition take_hash :: "CPartialMerkleTree \<Rightarrow> bool \<Rightarrow> nat \<Rightarrow> extraction \<Rightarrow> uint256 \<times> extraction" where
  "take_hash t matched pos e =
     (if nHashUsed e \<ge> length (vHash t) then (uint256_null, e\<lparr>ex_bad := True\<rparr>)
      else
        let hash = vHash t ! nHashUsed e; e = e\<lparr>nHashUsed := nHashUsed e + 1\<rparr>
        in (hash, if matched then e\<lparr>ex_vMatch := ex_vMatch e @ [hash], ex_vnIndex := ex_vnIndex e @ [pos]\<rparr> else e))"

fun TraverseAndExtract :: "(bytes \<Rightarrow> uint256) \<Rightarrow> CPartialMerkleTree \<Rightarrow> nat \<Rightarrow> nat \<Rightarrow> extraction \<Rightarrow> uint256 \<times> extraction" where
  "TraverseAndExtract Hash t 0 pos e =
     (if nBitsUsed e \<ge> length (vBits t) then (uint256_null, e\<lparr>ex_bad := True\<rparr>)
      else take_hash t (vBits t ! nBitsUsed e) pos (e\<lparr>nBitsUsed := nBitsUsed e + 1\<rparr>))"
| "TraverseAndExtract Hash t (Suc height) pos e =
     (if nBitsUsed e \<ge> length (vBits t) then (uint256_null, e\<lparr>ex_bad := True\<rparr>)
      else
        let fParentOfMatch = vBits t ! nBitsUsed e; e = e\<lparr>nBitsUsed := nBitsUsed e + 1\<rparr> in
        if \<not> fParentOfMatch then take_hash t False pos e
        else
          let (left, e) = TraverseAndExtract Hash t height (U32 (pos * 2)) e in
          if U32 (pos * 2 + 1) < CalcTreeWidth (nTransactions t) height then
            let (right, e) = TraverseAndExtract Hash t height (U32 (pos * 2 + 1)) e;
                e = (if right = left then e\<lparr>ex_bad := True\<rparr> else e)
            in (Hash (left @ right), e)
          else (Hash (left @ left), e))"

abbreviation (input) MAX_BLOCK_BASE_SIZE :: nat where "MAX_BLOCK_BASE_SIZE \<equiv> 2000000"

text \<open>The root, the matched hashes and their positions, appended to the ones the caller passes.\<close>

definition ExtractMatches :: "(bytes \<Rightarrow> uint256) \<Rightarrow> CPartialMerkleTree \<Rightarrow> nat list \<Rightarrow> uint256 \<times> uint256 list \<times> nat list" where
  "ExtractMatches Hash t vnIndex =
     (if nTransactions t = 0 \<or> nTransactions t > MAX_BLOCK_BASE_SIZE div 60 \<or> length (vHash t) > nTransactions t
         \<or> length (vBits t) < length (vHash t) then (uint256_null, [], vnIndex)
      else
        let (hashMerkleRoot, e) = TraverseAndExtract Hash t (tree_height (nTransactions t) 0) 0
              \<lparr>nBitsUsed = 0, nHashUsed = 0, ex_vMatch = [], ex_vnIndex = vnIndex, ex_bad = fBad t\<rparr>;
            root = (if ex_bad e \<or> (nBitsUsed e + 7) div 8 \<noteq> (length (vBits t) + 7) div 8 \<or> nHashUsed e \<noteq> length (vHash t)
                    then uint256_null else hashMerkleRoot)
        in (root, ex_vMatch e, ex_vnIndex e))"

text \<open>The bits on the wire: eight to a byte, the first in the lowest bit.\<close>

definition bits_to_bytes :: "bool list \<Rightarrow> bytes" where
  "bits_to_bytes bits =
     map (\<lambda>i. fold (\<lambda>p b. if bits ! p then b OR push_bit (p mod 8) 1 else b) [8 * i..<min (8 * i + 8) (length bits)] 0)
       [0..<(length bits + 7) div 8]"

definition bytes_to_bits :: "bytes \<Rightarrow> bool list" where
  "bytes_to_bits vBytes = map (\<lambda>p. vBytes ! (p div 8) AND push_bit (p mod 8) 1 \<noteq> 0) [0..<length vBytes * 8]"

definition SerializePartialTree :: "CPartialMerkleTree \<Rightarrow> bytes" where
  "SerializePartialTree t =
     Serialize_uint32 (of_nat (nTransactions t)) @ Serialize_vector id (vHash t) @ Serialize_bytes (bits_to_bytes (vBits t))"

definition UnserializePartialTree :: "CPartialMerkleTree reader" where
  "UnserializePartialTree s =
     bind_sum (Unserialize_uint32 s) (\<lambda>(n, s).
     bind_sum (Unserialize_vector (stream_read 32) s) (\<lambda>(hashes, s).
     bind_sum (Unserialize_bytes s) (\<lambda>(vBytes, s).
     Inr (\<lparr>nTransactions = unat n, vBits = bytes_to_bits vBytes, vHash = hashes, fBad = False\<rparr>, s))))"

record CMerkleBlock =
  mb_header :: CBlockHeader
  mb_txn :: CPartialMerkleTree
  vMatchedTxn :: "(nat \<times> uint256) list"

text \<open>From a filter, whose test may change it, and from a set of transactions.\<close>

fun filter_match :: "('f \<Rightarrow> CTransaction \<Rightarrow> bool \<times> 'f) \<Rightarrow> 'f \<Rightarrow> CTransaction list \<Rightarrow> bool list \<times> 'f" where
  "filter_match IsRelevantAndUpdate flt [] = ([], flt)"
| "filter_match IsRelevantAndUpdate flt (tx # txs) =
     (let (r, flt) = IsRelevantAndUpdate flt tx; (rs, flt) = filter_match IsRelevantAndUpdate flt txs
      in (r # rs, flt))"

definition CMerkleBlock_filter ::
    "(bytes \<Rightarrow> uint256) \<Rightarrow> ('f \<Rightarrow> CTransaction \<Rightarrow> bool \<times> 'f) \<Rightarrow> CBlock \<Rightarrow> 'f \<Rightarrow> CMerkleBlock \<times> 'f" where
  "CMerkleBlock_filter Hash IsRelevantAndUpdate block flt =
     (let (vMatch, flt) = filter_match IsRelevantAndUpdate flt (vtx block);
          vHashes = map (ComputeHash Hash) (vtx block)
      in (\<lparr>mb_header = GetBlockHeader block, mb_txn = CPartialMerkleTree_build Hash vHashes vMatch,
           vMatchedTxn = map snd (List.filter fst (zip vMatch (enumerate 0 vHashes)))\<rparr>, flt))"

definition CMerkleBlock_txids :: "(bytes \<Rightarrow> uint256) \<Rightarrow> CBlock \<Rightarrow> uint256 set \<Rightarrow> CMerkleBlock" where
  "CMerkleBlock_txids Hash block txids =
     (let vHashes = map (ComputeHash Hash) (vtx block)
      in \<lparr>mb_header = GetBlockHeader block, mb_txn = CPartialMerkleTree_build Hash vHashes (map (\<lambda>h. h \<in> txids) vHashes),
          vMatchedTxn = []\<rparr>)"

end
