(* ===== verification/MFC_MerkleProps.thy ===== *)
theory MFC_MerkleProps
  imports MFC_Merkle
begin

unbundle bit_operations_syntax

text \<open>
  Properties of the Merkle computations. The reference is the tree itself: \<open>node Hash xs k i\<close> is the hash at level
  \<open>k\<close> and position \<open>i\<close> over the leaves \<open>xs\<close>, where the last node of a level of odd width is paired with itself.
\<close>

section \<open>The tree\<close>

definition width :: "nat \<Rightarrow> nat \<Rightarrow> nat" where
  "width n k = (n + 2 ^ k - 1) div 2 ^ k"

fun node :: "(bytes \<Rightarrow> uint256) \<Rightarrow> uint256 list \<Rightarrow> nat \<Rightarrow> nat \<Rightarrow> uint256" where
  "node Hash xs 0 i = xs ! i"
| "node Hash xs (Suc k) i =
     Hash (node Hash xs k (2 * i) @ (if 2 * i + 1 < width (length xs) k then node Hash xs k (2 * i + 1) else node Hash xs k (2 * i)))"

lemma width_0 [simp]: "width n 0 = n"
  by (simp add: width_def)

lemma width_Suc: "width n (Suc k) = (width n k + 1) div 2"
proof -
  have "n + 2 ^ Suc k - 1 = n + 2 ^ k - 1 + 2 ^ k" by (simp add: Suc_le_eq)
  then have "(n + 2 ^ Suc k - 1) div 2 ^ Suc k = (n + 2 ^ k - 1 + 2 ^ k) div 2 ^ k div 2"
    by (simp only: power_Suc2 div_mult2_eq)
  also have "(n + 2 ^ k - 1 + 2 ^ k) div 2 ^ k = width n k + 1" unfolding width_def by (rule div_add_self2) simp
  finally show ?thesis by (simp add: width_def)
qed

lemma width_bounds: "n \<le> width n k * 2 ^ k" "width n k * 2 ^ k < n + 2 ^ k"
proof -
  have "(n + 2 ^ k - 1) div 2 ^ k * 2 ^ k + (n + 2 ^ k - 1) mod 2 ^ k = n + 2 ^ k - 1" by (rule div_mult_mod_eq)
  moreover have "(n + 2 ^ k - 1) mod 2 ^ k < 2 ^ k" by simp
  ultimately show "n \<le> width n k * 2 ^ k" "width n k * 2 ^ k < n + 2 ^ k" unfolding width_def by linarith+
qed

lemma width_less: "i < width n k \<longleftrightarrow> i * 2 ^ k < n"
proof
  assume "i < width n k"
  then have "(i + 1) * 2 ^ k \<le> width n k * 2 ^ k" by (intro mult_right_mono) simp_all
  then show "i * 2 ^ k < n" using width_bounds(2) [of n k] by simp
next
  assume "i * 2 ^ k < n"
  then have "i * 2 ^ k < width n k * 2 ^ k" using width_bounds(1) [of n k] by linarith
  then show "i < width n k" by simp
qed

lemma width_pos: "0 < n \<Longrightarrow> 0 < width n k"
  by (simp add: width_less)

text \<open>Multiples of the power, and what is left of one less.\<close>

lemma div_pred:
  fixes c :: nat
  assumes "2 ^ l dvd c" "0 < c"
  shows "(c - 1) div 2 ^ l = c div 2 ^ l - 1"
proof -
  obtain q where q: "c = 2 ^ l * q" using assms(1) by blast
  then obtain r where r: "q = Suc r" using assms(2) by (cases q) auto
  have "1 \<le> (2 :: nat) ^ l" by simp
  then have "2 ^ l * r \<le> c - 1" "c - 1 < 2 ^ l * Suc r" unfolding q r mult_Suc_right by linarith+
  then have "(c - 1) div 2 ^ l = r" by (rule div_nat_eqI)
  then show ?thesis by (simp add: q r)
qed

lemma dvd_Suc_pow:
  fixes c :: nat
  assumes "2 ^ l dvd c" "\<not> bit c l"
  shows "2 ^ Suc l dvd c" "c div 2 ^ l = 2 * (c div 2 ^ Suc l)"
proof -
  have e: "even (c div 2 ^ l)" using assms(2) by (simp add: bit_iff_odd)
  then show "2 ^ Suc l dvd c" using assms(1) by (metis dvd_mult_div_cancel mult_dvd_mono dvd_refl power_Suc2)
  show "c div 2 ^ l = 2 * (c div 2 ^ Suc l)" using e by (simp add: power_Suc2 div_mult2_eq del: power_Suc)
qed

lemma div_pred_above:
  fixes c :: nat
  assumes "2 ^ l dvd c" "bit c l" "l < k"
  shows "(c - 1) div 2 ^ k = c div 2 ^ k"
proof -
  have o: "odd (c div 2 ^ l)" using assms(2) by (simp add: bit_iff_odd)
  then have c: "0 < c" by (auto intro: ccontr)
  obtain d where k: "k = Suc l + d" using assms(3) less_iff_Suc_add by auto
  have s: "x div 2 ^ k = x div 2 ^ l div 2 div 2 ^ d" for x :: nat unfolding k by (simp only: power_add power_Suc2 div_mult2_eq)
  have "(c - 1) div 2 ^ k = (c - 1) div 2 ^ l div 2 div 2 ^ d" by (rule s)
  also have "(c - 1) div 2 ^ l div 2 = c div 2 ^ l div 2" unfolding div_pred [OF assms(1) c] using o by (elim oddE) simp
  finally show ?thesis by (simp only: s)
qed

section \<open>Adding the leaves\<close>

text \<open>The complete subtrees among the first \<open>c\<close> leaves are in place.\<close>

definition subtrees :: "(bytes \<Rightarrow> uint256) \<Rightarrow> uint256 list \<Rightarrow> nat \<Rightarrow> merkle \<Rightarrow> bool" where
  "subtrees Hash xs c m \<longleftrightarrow> length (mk_inner m) = 32 \<and> (\<forall>l. bit c l \<longrightarrow> mk_inner m ! l = node Hash xs l (c div 2 ^ l - 1))"

text \<open>The sibling on the way up from a leaf, and the branch up to a level.\<close>

definition sib :: "(bytes \<Rightarrow> uint256) \<Rightarrow> uint256 list \<Rightarrow> nat \<Rightarrow> nat \<Rightarrow> uint256" where
  "sib Hash xs p l =
     (let i = p div 2 ^ l in
      node Hash xs l (if odd i then i - 1 else if i + 1 < width (length xs) l then i + 1 else i))"

abbreviation (input) sibs :: "(bytes \<Rightarrow> uint256) \<Rightarrow> uint256 list \<Rightarrow> nat \<Rightarrow> nat \<Rightarrow> uint256 list" where
  "sibs Hash xs p l \<equiv> map (sib Hash xs p) [0..<l]"

text \<open>The position is in the subtree of level \<open>l\<close> that ends at \<open>c\<close>.\<close>

definition in_last :: "nat \<Rightarrow> nat \<Rightarrow> nat \<Rightarrow> bool" where
  "in_last p c l \<longleftrightarrow> p div 2 ^ l + 1 = c div 2 ^ l"

definition waiting :: "(bytes \<Rightarrow> uint256) \<Rightarrow> uint256 list \<Rightarrow> nat \<Rightarrow> nat \<Rightarrow> nat \<Rightarrow> merkle \<Rightarrow> bool" where
  "waiting Hash xs p c l m \<longleftrightarrow>
     (if p < c then \<exists>k \<ge> l. mk_matchlevel m = int k \<and> bit c k \<and> in_last p c k \<and> mk_branch m = sibs Hash xs p k
      else mk_matchlevel m = -1 \<and> mk_branch m = [])"

lemma mutated_irrelevant [simp]:
  "subtrees Hash xs c (m\<lparr>mk_mutated := b\<rparr>) = subtrees Hash xs c m" "waiting Hash xs p c l (m\<lparr>mk_mutated := b\<rparr>) = waiting Hash xs p c l m"
  by (simp_all add: subtrees_def waiting_def)

lemma in_last_Suc: "in_last p c l \<Longrightarrow> c div 2 ^ l = 2 * (c div 2 ^ Suc l) \<Longrightarrow> in_last p c (Suc l) \<and> odd (p div 2 ^ l)"
proof -
  assume a: "in_last p c l" "c div 2 ^ l = 2 * (c div 2 ^ Suc l)"
  have "p div 2 ^ Suc l = p div 2 ^ l div 2" by (simp only: power_Suc2 div_mult2_eq)
  then show ?thesis using a by (cases "c div 2 ^ Suc l") (simp_all add: in_last_def)
qed

lemma node_pair:
  "2 * q \<le> width (length xs) k \<Longrightarrow> 0 < q \<Longrightarrow>
    node Hash xs (Suc k) (q - 1) = Hash (node Hash xs k (2 * q - 2) @ node Hash xs k (2 * q - 1))"
  by (cases q) auto

definition equal_pair :: "(bytes \<Rightarrow> uint256) \<Rightarrow> uint256 list \<Rightarrow> nat \<Rightarrow> bool" where
  "equal_pair Hash xs c \<longleftrightarrow> (\<exists>k i. (2 * i + 2) * 2 ^ k = c \<and> node Hash xs k (2 * i) = node Hash xs k (2 * i + 1))"

text \<open>The state of the inner loop at a level: the hash of the subtree that ends with the new leaf, what is known of the
  position, and the equal pairs seen.\<close>

definition carrying :: "(bytes \<Rightarrow> uint256) \<Rightarrow> uint256 list \<Rightarrow> bool \<Rightarrow> nat \<Rightarrow> nat \<Rightarrow> nat \<Rightarrow> uint256 \<Rightarrow> bool \<Rightarrow> merkle \<Rightarrow> bool" where
  "carrying Hash xs want p c l h matchh m \<longleftrightarrow>
     2 ^ l dvd c \<and> 0 < c \<and> c \<le> length xs \<and> subtrees Hash xs (c - 1) m \<and> h = node Hash xs l (c div 2 ^ l - 1)
     \<and> (want \<longrightarrow> (if matchh then in_last p c l \<and> mk_branch m = sibs Hash xs p l else p + 1 \<noteq> c \<and> waiting Hash xs p (c - 1) l m))"

lemma carrying_step:
  assumes inv: "carrying Hash xs want p c l h matchh m" and b: "\<not> bit c l" and s: "branch_push want matchh l h m = (matchh', m')"
  shows "carrying Hash xs want p c (Suc l) (Hash (mk_inner m' ! l @ h)) matchh' (m'\<lparr>mk_mutated := mu\<rparr>)
    \<and> mk_inner m' ! l = node Hash xs l (c div 2 ^ l - 2) \<and> mk_mutated m' = mk_mutated m \<and> 0 < c div 2 ^ Suc l"
proof -
  have c: "2 ^ l dvd c" "0 < c" "c \<le> length xs" "subtrees Hash xs (c - 1) m" "h = node Hash xs l (c div 2 ^ l - 1)"
    using inv by (simp_all add: carrying_def)
  note d = dvd_Suc_pow [OF c(1) b]
  define q where "q = c div 2 ^ Suc l"
  have q: "0 < q" "c div 2 ^ l = 2 * q" using d c(2) by (auto simp: q_def dvd_imp_le div_greater_zero_iff)
  have pr: "(c - 1) div 2 ^ l = 2 * q - 1" using div_pred [OF c(1,2)] q by simp
  then have "bit (c - 1) l" using q(1) by (simp add: bit_iff_odd)
  then have i: "mk_inner m ! l = node Hash xs l (2 * q - 2)" using c(4) pr by (simp add: subtrees_def numeral_2_eq_2)
  have m': "mk_inner m' = mk_inner m" "mk_mutated m' = mk_mutated m" "mk_matchlevel m' = mk_matchlevel m"
    using s by (auto simp: branch_push_def split: if_splits)
  have w: "2 * q \<le> width (length xs) l"
  proof -
    have "(2 * q - 1) * 2 ^ l < 2 * q * 2 ^ l" using q(1) by simp
    also have "\<dots> = c" using dvd_div_mult_self [OF c(1)] q(2) by simp
    finally have "2 * q - 1 < width (length xs) l" unfolding width_less using c(3) by simp
    then show ?thesis using q(1) by linarith
  qed
  have match: "if matchh' then in_last p c (Suc l) \<and> mk_branch m' = sibs Hash xs p (Suc l)
      else p + 1 \<noteq> c \<and> waiting Hash xs p (c - 1) (Suc l) m'" if want
  proof -
    have up: "in_last p c (Suc l)" "odd (p div 2 ^ l)" "p div 2 ^ l = 2 * q - 1" if "in_last p c l"
      using in_last_Suc [OF that d(2)] that q by (auto simp: in_last_def)
    show ?thesis
    proof (cases matchh)
      case True
      then show ?thesis using inv s i up \<open>want\<close> q(1)
        by (auto simp: carrying_def branch_push_def sib_def Let_def m' numeral_2_eq_2)
    next
      case False
      then have wt: "p + 1 \<noteq> c" "waiting Hash xs p (c - 1) l m" using inv \<open>want\<close> by (simp_all add: carrying_def)
      show ?thesis
      proof (cases "mk_matchlevel m = int l")
        case True
        then have p: "p < c - 1" "in_last p (c - 1) l" "mk_branch m = sibs Hash xs p l"
          using wt(2) by (auto simp: waiting_def split: if_splits)
        then have e: "p div 2 ^ l = 2 * q - 2" using pr q(1) by (simp add: in_last_def)
        have "p div 2 ^ Suc l = p div 2 ^ l div 2" by (simp only: power_Suc2 div_mult2_eq)
        then have "in_last p c (Suc l)" using e q(1) by (cases q) (simp_all add: in_last_def q_def [symmetric] del: power_Suc)
        moreover have "sib Hash xs p l = h" using e q w c(5) by (cases q) (auto simp: sib_def Let_def)
        ultimately show ?thesis using s False True p(3) \<open>want\<close> by (auto simp: branch_push_def)
      next
        case other: False
        then have "matchh' = matchh" "m' = m" using s False by (auto simp: branch_push_def)
        moreover have "waiting Hash xs p (c - 1) (Suc l) m"
          using wt(2) other by (auto simp: waiting_def Suc_le_eq order_less_le split: if_splits)
        ultimately show ?thesis using False wt(1) by simp
      qed
    qed
  qed
  have "Hash (mk_inner m' ! l @ h) = node Hash xs (Suc l) (q - 1)"
    using node_pair [OF w q(1), of Hash] c(5) q(2) i m'(1) by simp
  moreover have "subtrees Hash xs (c - 1) m'" using c(4) m'(1) by (simp add: subtrees_def)
  ultimately show ?thesis using d(1) c(2,3) match i q m'(1,2) unfolding carrying_def q_def [symmetric]
    by (cases matchh') simp_all
qed

lemma pow_dvd_less: "2 ^ l dvd (c :: nat) \<Longrightarrow> 0 < c \<Longrightarrow> c < 2 ^ k \<Longrightarrow> l < k"
  by (metis dvd_imp_le le_less_trans nat_power_less_imp_less zero_less_numeral)

lemma combine_up_carrying:
  "carrying Hash xs want p c l h matchh m \<Longrightarrow> c < 4294967296 \<Longrightarrow>
    \<exists>l' h' matchh' m'. combine_up Hash want c l h matchh m = Some (l', h', matchh', m')
      \<and> carrying Hash xs want p c l' h' matchh' m' \<and> bit c l' \<and> l \<le> l' \<and> l' < 32
      \<and> (mk_mutated m' \<longleftrightarrow> mk_mutated m \<or> (\<exists>k. l \<le> k \<and> k < l' \<and> node Hash xs k (c div 2 ^ k - 2) = node Hash xs k (c div 2 ^ k - 1)))"
proof (induction "32 - l" arbitrary: l h matchh m rule: less_induct)
  case less
  have l: "l < 32" using less.prems pow_dvd_less [of l c 32] by (auto simp: carrying_def)
  show ?case
  proof (cases "bit c l")
    case True
    then show ?thesis using less.prems l by (subst combine_up.simps) auto
  next
    case False
    obtain mh m' where s: "branch_push want matchh l h m = (mh, m')" by fastforce
    define m1 where "m1 = m'\<lparr>mk_mutated := mk_mutated m' \<or> mk_inner m' ! l = h\<rparr>"
    note st = carrying_step [OF less.prems(1) False s, of "mk_mutated m' \<or> mk_inner m' ! l = h", folded m1_def]
    have h: "h = node Hash xs l (c div 2 ^ l - 1)" using less.prems(1) by (simp add: carrying_def)
    obtain l' h' matchh' m2 where r: "combine_up Hash want c (Suc l) (Hash (mk_inner m' ! l @ h)) mh m1 = Some (l', h', matchh', m2)"
      "carrying Hash xs want p c l' h' matchh' m2" "bit c l'" "Suc l \<le> l'" "l' < 32"
      and mu: "mk_mutated m2 \<longleftrightarrow> mk_mutated m1 \<or> (\<exists>k. Suc l \<le> k \<and> k < l' \<and> node Hash xs k (c div 2 ^ k - 2) = node Hash xs k (c div 2 ^ k - 1))"
      using less.hyps [OF _ conjunct1 [OF st] less.prems(2)] l by fastforce
    have "mk_inner m1 = mk_inner m'" by (simp add: m1_def)
    then have "combine_up Hash want c l h matchh m = Some (l', h', matchh', m2)"
      using l False r(1) by (subst combine_up.simps) (simp add: s m1_def Let_def)
    moreover have "mk_mutated m1 \<longleftrightarrow> mk_mutated m \<or> node Hash xs l (c div 2 ^ l - 2) = node Hash xs l (c div 2 ^ l - 1)"
      using st h by (simp add: m1_def)
    then have "mk_mutated m2 \<longleftrightarrow> mk_mutated m \<or> (\<exists>k. l \<le> k \<and> k < l' \<and> node Hash xs k (c div 2 ^ k - 2) = node Hash xs k (c div 2 ^ k - 1))"
      using mu r(4) by (metis Suc_le_eq le_neq_implies_less less_or_eq_imp_le order_refl)
    ultimately show ?thesis using r(2-5) by auto
  qed
qed

lemma equal_pair_lowest:
  assumes "2 ^ l dvd c" "bit c l"
  shows "equal_pair Hash xs c \<longleftrightarrow> (\<exists>k. k < l \<and> node Hash xs k (c div 2 ^ k - 2) = node Hash xs k (c div 2 ^ k - 1))"
proof
  have odd: "odd (c div 2 ^ l)" using assms(2) by (simp add: bit_iff_odd)
  have pos: "0 < c" using odd by (auto intro: ccontr)
  {
    assume "equal_pair Hash xs c"
    then obtain k i where c: "c = (2 * i + 2) * 2 ^ k" and e: "node Hash xs k (2 * i) = node Hash xs k (2 * i + 1)"
      by (auto simp: equal_pair_def)
    have "k < l"
    proof (rule ccontr)
      assume "\<not> k < l"
      then obtain d where "k = l + d" using le_Suc_ex [of l k] by auto
      then have "c div 2 ^ l = 2 * ((i + 1) * 2 ^ d)" by (simp add: c power_add)
      then show False using odd by simp
    qed
    moreover have "c div 2 ^ k = 2 * i + 2" by (simp add: c)
    ultimately show "\<exists>k. k < l \<and> node Hash xs k (c div 2 ^ k - 2) = node Hash xs k (c div 2 ^ k - 1)" using e by auto
  next
    assume "\<exists>k. k < l \<and> node Hash xs k (c div 2 ^ k - 2) = node Hash xs k (c div 2 ^ k - 1)"
    then obtain k where k: "k < l" "node Hash xs k (c div 2 ^ k - 2) = node Hash xs k (c div 2 ^ k - 1)" by blast
    have "2 ^ Suc k dvd c" using assms(1) k(1) by (meson Suc_leI dvd_trans le_imp_power_dvd)
    then obtain r where r: "c = 2 ^ Suc k * r" by blast
    then obtain i where i: "r = Suc i" using pos by (cases r) auto
    have "(2 * i + 2) * 2 ^ k = c" "c div 2 ^ k = 2 * i + 2" by (simp_all add: r i)
    then show "equal_pair Hash xs c" using k(2) unfolding equal_pair_def by (intro exI [of _ k] exI [of _ i]) simp
  }
qed

definition loaded :: "(bytes \<Rightarrow> uint256) \<Rightarrow> uint256 list \<Rightarrow> bool \<Rightarrow> nat \<Rightarrow> nat \<Rightarrow> merkle \<Rightarrow> bool" where
  "loaded Hash xs want p c m \<longleftrightarrow> subtrees Hash xs c m \<and> (want \<longrightarrow> waiting Hash xs p c 0 m)
     \<and> (mk_mutated m \<longleftrightarrow> (\<exists>c' \<le> c. equal_pair Hash xs c'))"

lemma loaded_store:
  assumes car: "carrying Hash xs want p (Suc c) l h matchh m" and b: "bit (Suc c) l" "l < 32"
    and m': "m' = (if matchh then m\<lparr>mk_inner := (mk_inner m)[l := h], mk_matchlevel := int l\<rparr> else m\<lparr>mk_inner := (mk_inner m)[l := h]\<rparr>)"
  shows "subtrees Hash xs (Suc c) m' \<and> (want \<longrightarrow> waiting Hash xs p (Suc c) 0 m') \<and> mk_mutated m' = mk_mutated m"
proof -
  have c: "2 ^ l dvd Suc c" "subtrees Hash xs c m" "h = node Hash xs l (Suc c div 2 ^ l - 1)"
    using car by (simp_all add: carrying_def)
  have above: "c div 2 ^ k = Suc c div 2 ^ k" if "l < k" for k using div_pred_above [OF c(1) b(1) that] by simp
  have below: "\<not> bit (Suc c) k" if "k < l" for k
  proof -
    have "2 ^ Suc k dvd Suc c" using c(1) that by (meson Suc_leI dvd_trans le_imp_power_dvd)
    then have "even (Suc c div 2 ^ k)" by (auto simp: power_Suc2 mult.assoc simp del: power_Suc elim!: dvdE)
    then show ?thesis by (simp add: bit_iff_odd)
  qed
  have in': "mk_inner m' = (mk_inner m)[l := h]" "mk_branch m' = mk_branch m" "mk_mutated m' = mk_mutated m" by (simp_all add: m')
  have "mk_inner m' ! k = node Hash xs k (Suc c div 2 ^ k - 1)" if k: "bit (Suc c) k" for k
  proof (cases "k = l")
    case True
    then show ?thesis using c(2,3) b(2) by (simp add: in' subtrees_def)
  next
    case False
    then have "l < k" using below k by (meson linorder_neqE_nat)
    moreover from this have "bit c k" using k above by (simp add: bit_iff_odd)
    ultimately show ?thesis using c(2) above False by (simp add: in' subtrees_def)
  qed
  then have sub: "subtrees Hash xs (Suc c) m'" using c(2) by (simp add: subtrees_def in')
  have "waiting Hash xs p (Suc c) 0 m'" if want
  proof (cases matchh)
    case True
    then have p: "in_last p (Suc c) l" "mk_branch m = sibs Hash xs p l" using car that by (simp_all add: carrying_def)
    have "p < Suc c"
    proof (rule ccontr)
      assume "\<not> p < Suc c"
      then have "Suc c div 2 ^ l \<le> p div 2 ^ l" by (intro div_le_mono) simp
      then show False using p(1) by (simp add: in_last_def)
    qed
    then show ?thesis using p b(1) True by (auto simp: waiting_def m')
  next
    case False
    then have w: "p + 1 \<noteq> Suc c" "waiting Hash xs p c l m" using car that by (simp_all add: carrying_def)
    show ?thesis
    proof (cases "p < c")
      case True
      then obtain k where k: "l \<le> k" "mk_matchlevel m = int k" "bit c k" "in_last p c k" "mk_branch m = sibs Hash xs p k"
        using w(2) by (auto simp: waiting_def)
      have "odd (Suc c div 2 ^ l)" using b(1) by (simp add: bit_iff_odd)
      then have "even (c div 2 ^ l)" using div_pred [OF c(1)] by simp
      then have "l < k" using k(1,3) by (auto simp: bit_iff_odd le_less)
      then show ?thesis using k True above False by (auto simp: waiting_def m' in_last_def bit_iff_odd intro!: exI [of _ k])
    next
      case pc: False
      then show ?thesis using w False by (auto simp: waiting_def m')
    qed
  qed
  then show ?thesis using sub in'(3) by simp
qed

lemma process_leaves_loaded:
  "loaded Hash xs want p c m \<Longrightarrow> drop c xs = ys \<Longrightarrow> c \<le> length xs \<Longrightarrow> length xs < 4294967296 \<Longrightarrow>
    \<exists>m'. process_leaves Hash want p c ys m = Some (length xs, m') \<and> loaded Hash xs want p (length xs) m'"
proof (induction ys arbitrary: c m)
  case Nil
  then show ?case by simp
next
  case (Cons y ys)
  have c: "c < length xs" using Cons.prems(2) by (cases "c < length xs") simp_all
  then have y: "y = xs ! c" "drop (Suc c) xs = ys" using Cons.prems(2) by (metis Cons_nth_drop_Suc list.inject)+
  have ld: "subtrees Hash xs c m" "want \<longrightarrow> waiting Hash xs p c 0 m" "mk_mutated m \<longleftrightarrow> (\<exists>c' \<le> c. equal_pair Hash xs c')"
    using Cons.prems(1) by (simp_all add: loaded_def)
  have "carrying Hash xs want p (Suc c) 0 y (c = p) m"
    using ld c y(1) by (auto simp: carrying_def in_last_def waiting_def)
  then obtain l h matchh m1 where r: "combine_up Hash want (Suc c) 0 y (c = p) m = Some (l, h, matchh, m1)"
    "carrying Hash xs want p (Suc c) l h matchh m1" "bit (Suc c) l" "l < 32"
    and mu: "mk_mutated m1 \<longleftrightarrow> mk_mutated m \<or> (\<exists>k<l. node Hash xs k (Suc c div 2 ^ k - 2) = node Hash xs k (Suc c div 2 ^ k - 1))"
    using combine_up_carrying [of Hash xs want p "Suc c" 0 y "c = p" m] c Cons.prems(4) by fastforce
  define m2 where "m2 = (if matchh then m1\<lparr>mk_inner := (mk_inner m1)[l := h], mk_matchlevel := int l\<rparr> else m1\<lparr>mk_inner := (mk_inner m1)[l := h]\<rparr>)"
  note st = loaded_store [OF r(2-4) m2_def]
  have "2 ^ l dvd Suc c" using r(2) by (simp add: carrying_def)
  then have "mk_mutated m1 \<longleftrightarrow> (\<exists>c' \<le> Suc c. equal_pair Hash xs c')"
    using mu ld(3) equal_pair_lowest [OF _ r(3), of Hash xs] by (auto simp: le_Suc_eq)
  then have "loaded Hash xs want p (Suc c) m2" using st by (simp add: loaded_def)
  from Cons.IH [OF this y(2)] c Cons.prems(4) obtain m' where
    "process_leaves Hash want p (Suc c) ys m2 = Some (length xs, m')" "loaded Hash xs want p (length xs) m'" by auto
  moreover have "process_leaves Hash want p c (y # ys) m = process_leaves Hash want p (Suc c) ys m2"
    using c Cons.prems(4) r(1) by (simp add: U32_def Let_def m2_def)
  ultimately show ?case by simp
qed

section \<open>The final sweep\<close>

text \<open>The sweep has reached level \<open>l\<close>: the hash is the last node of that level.\<close>

definition sweeping :: "(bytes \<Rightarrow> uint256) \<Rightarrow> uint256 list \<Rightarrow> bool \<Rightarrow> nat \<Rightarrow> nat \<Rightarrow> nat \<Rightarrow> uint256 \<Rightarrow> bool \<Rightarrow> merkle \<Rightarrow> bool" where
  "sweeping Hash xs want p from l h matchh m \<longleftrightarrow>
     2 ^ l < 2 * length xs \<and> h = node Hash xs l (width (length xs) l - 1) \<and> subtrees Hash xs (length xs) m
     \<and> (want \<longrightarrow> (if matchh then p div 2 ^ l + 1 = width (length xs) l \<and> mk_branch m = sibs Hash xs p l
           else \<exists>k \<ge> from. mk_matchlevel m = int k \<and> bit (length xs) k \<and> in_last p (length xs) k \<and> mk_branch m = sibs Hash xs p k))"

lemma incomplete_last:
  assumes "\<not> 2 ^ l dvd n" "0 < n"
  shows "n div 2 ^ l + 1 = width n l"
proof -
  have w: "width n l - 1 < width n l" using width_pos [OF assms(2), of l] by simp
  then have "(width n l - 1) * 2 ^ l < n" using width_less by blast
  moreover have "n < width n l * 2 ^ l" using width_bounds(1) [of n l] assms(1) by (metis dvd_triv_right le_neq_implies_less)
  ultimately have "n div 2 ^ l = width n l - 1" using w by (intro div_nat_eqI) (simp_all add: mult.commute)
  then show ?thesis using w by simp
qed

lemma odd_width_not_dvd: "odd (width n l) \<Longrightarrow> \<not> 2 ^ Suc l dvd n"
proof
  assume o: "odd (width n l)" and "2 ^ Suc l dvd n"
  then obtain r where r: "n = 2 ^ Suc l * r" by blast
  have n: "n = 2 ^ l * (2 * r)" by (simp add: r)
  have "1 \<le> (2 :: nat) ^ l" by simp
  then have "2 ^ l * (2 * r) \<le> n + 2 ^ l - 1" "n + 2 ^ l - 1 < 2 ^ l * Suc (2 * r)" unfolding n mult_Suc_right by linarith+
  then have "width n l = 2 * r" unfolding width_def by (rule div_nat_eqI)
  then show False using o by simp
qed

lemma div_Suc_pow: "(p :: nat) div 2 ^ Suc l = p div 2 ^ l div 2"
  by (simp only: power_Suc2 div_mult2_eq)

lemma sweeping_even:
  assumes inv: "sweeping Hash xs want p l l h matchh m" and e: "even (width (length xs) l)" and nd: "\<not> 2 ^ l dvd length xs"
    and s: "branch_push want matchh l h m = (matchh', m')"
  shows "sweeping Hash xs want p (Suc l) (Suc l) (Hash (mk_inner m' ! l @ h)) matchh' m'
    \<and> mk_mutated m' = mk_mutated m \<and> width (length xs) (Suc l) * 2 ^ Suc l = width (length xs) l * 2 ^ l"
proof -
  let ?n = "length xs"
  have n: "0 < ?n" using nd by (auto intro: ccontr)
  obtain q where w: "width ?n l = 2 * q" using e by blast
  have q: "0 < q" using w width_pos [OF n, of l] by simp
  have nq: "?n div 2 ^ l + 1 = 2 * q" using incomplete_last [OF nd n] w by simp
  then have "bit ?n l" using q by (metis bit_iff_odd even_Suc even_mult_iff even_numeral Suc_eq_plus1)
  have inn: "mk_inner m ! l = node Hash xs l (2 * q - 2)"
  proof -
    have "?n div 2 ^ l - 1 = 2 * q - 2" using nq by linarith
    then show ?thesis using \<open>bit ?n l\<close> inv by (auto simp: sweeping_def subtrees_def)
  qed
  have m': "mk_inner m' = mk_inner m" "mk_mutated m' = mk_mutated m" "mk_matchlevel m' = mk_matchlevel m"
    using s by (auto simp: branch_push_def split: if_splits)
  have w': "width ?n (Suc l) = q" by (simp add: width_Suc w)
  have h: "h = node Hash xs l (2 * q - 1)" using inv w by (simp add: sweeping_def)
  have "Hash (mk_inner m' ! l @ h) = node Hash xs (Suc l) (q - 1)"
    unfolding m' inn h using node_pair [of q xs l Hash] w q by simp
  moreover have "2 ^ Suc l < 2 * ?n"
  proof -
    have "1 < width ?n l" using w q by simp
    then show ?thesis by (simp add: width_less)
  qed
  moreover have "if matchh' then p div 2 ^ Suc l + 1 = q \<and> mk_branch m' = sibs Hash xs p (Suc l)
      else \<exists>k \<ge> Suc l. mk_matchlevel m' = int k \<and> bit ?n k \<and> in_last p ?n k \<and> mk_branch m' = sibs Hash xs p k" if wt: want
  proof (cases matchh)
    case True
    then have p: "p div 2 ^ l = 2 * q - 1" "mk_branch m = sibs Hash xs p l" using inv wt w by (auto simp: sweeping_def)
    have "p div 2 ^ Suc l + 1 = q" unfolding div_Suc_pow p(1) using q by (cases q) simp_all
    moreover have "sib Hash xs p l = mk_inner m ! l" using p(1) q inn by (cases q) (simp_all add: sib_def Let_def)
    ultimately show ?thesis using s True wt p(2) by (auto simp: branch_push_def)
  next
    case False
    then obtain k where k: "l \<le> k" "mk_matchlevel m = int k" "bit ?n k" "in_last p ?n k" "mk_branch m = sibs Hash xs p k"
      using inv wt by (auto simp: sweeping_def)
    show ?thesis
    proof (cases "k = l")
      case True
      then have p: "p div 2 ^ l = 2 * q - 2" using k(4) nq by (simp add: in_last_def)
      have "p div 2 ^ Suc l + 1 = q" unfolding div_Suc_pow p(1) using q by (cases q) simp_all
      moreover have "sib Hash xs p l = h" using p q w h by (cases q) (simp_all add: sib_def Let_def)
      ultimately show ?thesis using s True False wt k by (auto simp: branch_push_def)
    next
      case other: False
      then have "matchh' = matchh" "m' = m" using s False k(2) by (auto simp: branch_push_def)
      then show ?thesis using k other False by (auto intro!: exI [of _ k])
    qed
  qed
  moreover have "subtrees Hash xs ?n m'" using inv m' by (simp add: sweeping_def subtrees_def)
  ultimately show ?thesis using w' m'(2) unfolding sweeping_def by (cases matchh') (simp_all add: w)
qed

lemma propagate_up_sweeping:
  "sweeping Hash xs want p l l h matchh m \<Longrightarrow> \<not> 2 ^ l dvd length xs \<Longrightarrow> length xs \<le> 2147483648 \<Longrightarrow>
    \<exists>l' h' matchh' m'. propagate_up Hash want (width (length xs) l * 2 ^ l) l h matchh m = Some (l', h', matchh', m')
      \<and> sweeping Hash xs want p (Suc l') l' h' matchh' m' \<and> odd (width (length xs) l') \<and> l \<le> l'
      \<and> width (length xs) l' * 2 ^ l' = width (length xs) l * 2 ^ l \<and> mk_mutated m' = mk_mutated m"
proof (induction "32 - l" arbitrary: l h matchh m rule: less_induct)
  case less
  let ?n = "length xs" and ?w = "width (length xs) l"
  have "(2 :: nat) ^ l < 2 ^ 32" using less.prems(1,3) by (simp add: sweeping_def)
  then have l: "l < 32" by (rule power_less_imp_less_exp [rotated]) simp
  have n: "0 < ?n" using less.prems(2) by (auto intro: ccontr)
  have bit: "bit (?w * 2 ^ l) l \<longleftrightarrow> odd ?w" by (simp add: bit_iff_odd)
  show ?case
  proof (cases "odd ?w")
    case True
    have "even (?n div 2 ^ l)" using True incomplete_last [OF less.prems(2) n] by (metis even_plus_one_iff)
    then have "sweeping Hash xs want p (Suc l) l h matchh m"
      using less.prems(1) unfolding sweeping_def by (auto simp: bit_iff_odd Suc_le_eq le_less)
    then show ?thesis using True l bit by (subst propagate_up.simps) auto
  next
    case False
    obtain mh m' where s: "branch_push want matchh l h m = (mh, m')" by fastforce
    note st = sweeping_even [OF less.prems(1) _ less.prems(2) s] and e = False [simplified]
    have nd: "\<not> 2 ^ Suc l dvd ?n" using less.prems(2) by (metis dvd_mult_left power_Suc2)
    obtain l' h' matchh' m2 where r: "propagate_up Hash want (width ?n (Suc l) * 2 ^ Suc l) (Suc l) (Hash (mk_inner m' ! l @ h)) mh m' = Some (l', h', matchh', m2)"
      "sweeping Hash xs want p (Suc l') l' h' matchh' m2" "odd (width ?n l')" "Suc l \<le> l'"
      "width ?n l' * 2 ^ l' = width ?n (Suc l) * 2 ^ Suc l" "mk_mutated m2 = mk_mutated m'"
      using less.hyps [OF _ conjunct1 [OF st [OF e]] nd less.prems(3)] l by fastforce
    have "propagate_up Hash want (?w * 2 ^ l) l h matchh m = Some (l', h', matchh', m2)"
      using l bit False r(1) st [OF e] by (subst propagate_up.simps) (simp add: s del: power_Suc)
    then show ?thesis using r st [OF e] by (auto simp del: power_Suc)
  qed
qed

lemma final_sweep_sweeping:
  "sweeping Hash xs want p (Suc l) l h matchh m \<Longrightarrow> odd (width (length xs) l) \<Longrightarrow> length xs \<le> 2147483648 \<Longrightarrow>
    \<exists>L m'. final_sweep Hash want (width (length xs) l * 2 ^ l) l h matchh m = Some (node Hash xs L 0, m')
      \<and> width (length xs) L = 1 \<and> 2 ^ L < 2 * length xs \<and> mk_mutated m' = mk_mutated m \<and> (want \<longrightarrow> mk_branch m' = sibs Hash xs p L)"
proof (induction "32 - l" arbitrary: l h matchh m rule: less_induct)
  case less
  let ?n = "length xs" and ?w = "width (length xs) l"
  have pl: "2 ^ l < 2 * ?n" using less.prems(1) by (simp add: sweeping_def)
  then have "(2 :: nat) ^ l < 2 ^ 32" using less.prems(3) by simp
  then have l: "l < 32" by (rule power_less_imp_less_exp [rotated]) simp
  show ?case
  proof (cases "?w = 1")
    case True
    have "mk_branch m = sibs Hash xs p l" if wt: want
    proof (cases matchh)
      case False
      then obtain k where k: "Suc l \<le> k" "bit ?n k" using less.prems(1) wt by (auto simp: sweeping_def)
      have "2 ^ k \<le> ?n" using k(2) by (metis bit_iff_odd div_less dvd_0_right not_le_imp_less)
      moreover have "(2 :: nat) ^ l < 2 ^ k" using k(1) by simp
      moreover have "?n \<le> 2 ^ l" using width_bounds(1) [of ?n l] True by simp
      ultimately have False by linarith
      then show ?thesis ..
    qed (use less.prems(1) wt in \<open>simp add: sweeping_def\<close>)
    then show ?thesis using True pl less.prems(1) by (subst final_sweep.simps) (auto simp: sweeping_def intro!: exI [of _ l])
  next
    case False
    obtain q where w: "?w = 2 * q + 1" using less.prems(2) by (elim oddE)
    have q: "0 < q" using False w by simp
    have lt: "2 ^ l < ?n" using width_less [of 1 ?n l] w q by simp
    have c: "?w * 2 ^ l + 2 ^ l = width ?n (Suc l) * 2 ^ Suc l" by (simp add: width_Suc w algebra_simps)
    have "(2 :: nat) ^ l < 2 ^ 31" using lt less.prems(3) by simp
    then have "l < 31" by (rule power_less_imp_less_exp [rotated]) simp
    then have "(2 :: nat) ^ Suc l \<le> 2 ^ 31" by (intro power_increasing) simp_all
    then have "(2 :: nat) ^ Suc l \<le> 2147483648" by simp
    then have "width ?n (Suc l) * 2 ^ Suc l < 4294967296" using width_bounds(2) [of ?n "Suc l"] less.prems(3) by linarith
    then have u: "U32 (?w * 2 ^ l + 2 ^ l) = width ?n (Suc l) * 2 ^ Suc l" by (simp add: U32_def c del: power_Suc)
    define m1 where "m1 = (if want \<and> matchh then m\<lparr>mk_branch := mk_branch m @ [h]\<rparr> else m)"
    have "Hash (h @ h) = node Hash xs (Suc l) (width ?n (Suc l) - 1)"
      using less.prems(1) w by (simp add: sweeping_def width_Suc)
    moreover have "2 ^ Suc l < 2 * ?n" using lt by simp
    moreover have "if matchh then p div 2 ^ Suc l + 1 = width ?n (Suc l) \<and> mk_branch m1 = sibs Hash xs p (Suc l)
        else \<exists>k \<ge> Suc l. mk_matchlevel m1 = int k \<and> bit ?n k \<and> in_last p ?n k \<and> mk_branch m1 = sibs Hash xs p k" if wt: want
    proof (cases matchh)
      case True
      then have p: "p div 2 ^ l = 2 * q" "mk_branch m = sibs Hash xs p l" using less.prems(1) wt w by (auto simp: sweeping_def)
      moreover have "sib Hash xs p l = h" using p(1) w less.prems(1) by (simp add: sib_def Let_def sweeping_def)
      ultimately show ?thesis using True wt by (simp add: m1_def div_Suc_pow width_Suc w del: power_Suc)
    qed (use less.prems(1) wt in \<open>auto simp: m1_def sweeping_def\<close>)
    moreover have "subtrees Hash xs ?n m1" using less.prems(1) by (simp add: m1_def sweeping_def subtrees_def)
    ultimately have sw: "sweeping Hash xs want p (Suc l) (Suc l) (Hash (h @ h)) matchh m1"
      unfolding sweeping_def by (cases matchh) simp_all
    obtain l' h' matchh' m2 where r: "propagate_up Hash want (width ?n (Suc l) * 2 ^ Suc l) (Suc l) (Hash (h @ h)) matchh m1 = Some (l', h', matchh', m2)"
      "sweeping Hash xs want p (Suc l') l' h' matchh' m2" "odd (width ?n l')" "Suc l \<le> l'"
      "width ?n l' * 2 ^ l' = width ?n (Suc l) * 2 ^ Suc l" "mk_mutated m2 = mk_mutated m1"
      using propagate_up_sweeping [OF sw odd_width_not_dvd [OF less.prems(2)] less.prems(3)] by blast
    have "final_sweep Hash want (?w * 2 ^ l) l h matchh m = final_sweep Hash want (width ?n l' * 2 ^ l') l' h' matchh' m2"
      using l w q u r(1,5) by (subst final_sweep.simps) (simp add: m1_def [symmetric] del: power_Suc)
    moreover have "mk_mutated m1 = mk_mutated m" by (simp add: m1_def)
    ultimately show ?thesis using less.hyps [OF _ r(2,3) less.prems(3)] r(4,6) l by simp
  qed
qed

section \<open>The whole computation\<close>

lemma lowest_bit_finds:
  "2 ^ l dvd c \<Longrightarrow> 0 < c \<Longrightarrow> c < 4294967296 \<Longrightarrow> \<exists>l'. lowest_bit c l = Some l' \<and> bit c l' \<and> 2 ^ l' dvd c"
proof (induction "32 - l" arbitrary: l rule: less_induct)
  case less
  have l: "l < 32" using pow_dvd_less [OF less.prems(1,2), of 32] less.prems(3) by simp
  show ?case
  proof (cases "bit c l")
    case True
    then show ?thesis using l less.prems by (subst lowest_bit.simps) auto
  next
    case False
    then show ?thesis using less.hyps [OF _ dvd_Suc_pow(1) [OF less.prems(1) False] less.prems(2,3)] l
      by (subst lowest_bit.simps) simp
  qed
qed

text \<open>The height of the tree.\<close>

definition height :: "nat \<Rightarrow> nat" where
  "height n = (LEAST k. width n k \<le> 1)"

lemma height_eq: "width n L = 1 \<Longrightarrow> 2 ^ L < 2 * n \<Longrightarrow> height n = L"
  unfolding height_def
proof (rule Least_equality)
  fix k assume "width n k \<le> 1" and a: "2 ^ L < 2 * n"
  then have "n \<le> 2 ^ k" using width_less [of 1 n k] by (simp add: not_less [symmetric])
  then have "(2 :: nat) ^ L < 2 ^ Suc k" using a by simp
  then show "L \<le> k" by (simp only: power_strict_increasing_iff less_Suc_eq_le one_less_numeral_iff semiring_norm)
qed simp

lemma dvd_bit_below: "2 ^ l dvd (c :: nat) \<Longrightarrow> k < l \<Longrightarrow> \<not> bit c k"
proof -
  assume "2 ^ l dvd c" "k < l"
  then have "2 ^ Suc k dvd c" by (meson Suc_leI dvd_trans le_imp_power_dvd)
  then have "even (c div 2 ^ k)" by (auto simp: power_Suc2 mult.assoc simp del: power_Suc elim!: dvdE)
  then show ?thesis by (simp add: bit_iff_odd)
qed

lemma width_dvd: "2 ^ l dvd n \<Longrightarrow> width n l = n div 2 ^ l"
proof -
  assume "2 ^ l dvd n"
  then obtain r where n: "n = 2 ^ l * r" by blast
  have "1 \<le> (2 :: nat) ^ l" by simp
  then have "2 ^ l * r \<le> n + 2 ^ l - 1" "n + 2 ^ l - 1 < 2 ^ l * Suc r" unfolding n mult_Suc_right by linarith+
  then have "width n l = r" unfolding width_def by (rule div_nat_eqI)
  then show ?thesis by (simp add: n)
qed

lemma loaded_sweeping:
  assumes ld: "loaded Hash xs want p (length xs) m" and l: "bit (length xs) l" "2 ^ l dvd length xs"
    and p: "want \<longrightarrow> p < length xs" and n: "0 < length xs"
  shows "sweeping Hash xs want p (Suc l) l (mk_inner m ! l) (mk_matchlevel m = int l) m"
proof -
  let ?n = "length xs"
  have w: "width ?n l = ?n div 2 ^ l" by (rule width_dvd [OF l(2)])
  have "2 ^ l \<le> ?n" using l(2) n by (rule dvd_imp_le)
  then have "2 ^ l < 2 * ?n" using n by linarith
  moreover have "mk_inner m ! l = node Hash xs l (width ?n l - 1)" "subtrees Hash xs ?n m"
    using ld l(1) w by (simp_all add: loaded_def subtrees_def)
  moreover have "if mk_matchlevel m = int l then p div 2 ^ l + 1 = width ?n l \<and> mk_branch m = sibs Hash xs p l
      else \<exists>k \<ge> Suc l. mk_matchlevel m = int k \<and> bit ?n k \<and> in_last p ?n k \<and> mk_branch m = sibs Hash xs p k" if wt: want
  proof -
    obtain k where k: "mk_matchlevel m = int k" "bit ?n k" "in_last p ?n k" "mk_branch m = sibs Hash xs p k"
      using ld wt p by (auto simp: loaded_def waiting_def)
    have "l \<le> k" using dvd_bit_below [OF l(2)] k(2) not_less by blast
    then show ?thesis using k w by (auto simp: in_last_def intro!: exI [of _ k])
  qed
  ultimately show ?thesis unfolding sweeping_def by (cases "mk_matchlevel m = int l") simp_all
qed

lemma MerkleComputation_node:
  assumes n: "0 < length xs" "length xs \<le> 2147483648" and p: "want \<longrightarrow> p < length xs"
  shows "\<exists>branch. MerkleComputation Hash xs p want =
      Some (node Hash xs (height (length xs)) 0, \<exists>c \<le> length xs. equal_pair Hash xs c, branch)
    \<and> (want \<longrightarrow> branch = sibs Hash xs p (height (length xs)))"
proof -
  let ?m = "\<lparr>mk_inner = replicate 32 uint256_null, mk_matchlevel = -1, mk_mutated = False, mk_branch = []\<rparr> :: merkle"
  have "loaded Hash xs want p 0 ?m" by (simp add: loaded_def subtrees_def waiting_def equal_pair_def)
  then obtain m where m: "process_leaves Hash want p 0 xs ?m = Some (length xs, m)" "loaded Hash xs want p (length xs) m"
    using process_leaves_loaded [of Hash xs want p 0 ?m xs] n by auto
  obtain l where l: "lowest_bit (length xs) 0 = Some l" "bit (length xs) l" "2 ^ l dvd length xs"
    using lowest_bit_finds [of 0 "length xs"] n by auto
  have w: "odd (width (length xs) l)" "width (length xs) l * 2 ^ l = length xs"
    using l(2,3) by (simp_all add: width_dvd bit_iff_odd)
  obtain L m' where f: "final_sweep Hash want (length xs) l (mk_inner m ! l) (mk_matchlevel m = int l) m = Some (node Hash xs L 0, m')"
    "width (length xs) L = 1" "2 ^ L < 2 * length xs" "mk_mutated m' = mk_mutated m" "want \<longrightarrow> mk_branch m' = sibs Hash xs p L"
    using final_sweep_sweeping [OF loaded_sweeping [OF m(2) l(2,3) p n(1)] w(1) n(2)] w(2) by auto
  have "mk_mutated m \<longleftrightarrow> (\<exists>c \<le> length xs. equal_pair Hash xs c)" using m(2) by (simp add: loaded_def)
  then show ?thesis using n m(1) l(1) f height_eq [OF f(2,3)] by (auto simp: MerkleComputation_def)
qed

section \<open>The recursive hash of partial trees\<close>

lemma CalcTreeWidth_width: "n \<le> 2147483648 \<Longrightarrow> k \<le> 31 \<Longrightarrow> CalcTreeWidth n k = width n k"
proof -
  assume n: "n \<le> 2147483648" and k: "k \<le> 31"
  have "(2 :: nat) ^ k \<le> 2 ^ 31" using k by (intro power_increasing) simp_all
  then have "n + 2 ^ k - 1 < 4294967296" using n by simp
  then show ?thesis by (simp add: CalcTreeWidth_def width_def U32_def)
qed

lemma pos_small: "i < width n (Suc k) \<Longrightarrow> n \<le> 2147483648 \<Longrightarrow> U32 (i * 2) = 2 * i \<and> U32 (i * 2 + 1) = 2 * i + 1 \<and> 2 * i < width n k"
proof -
  assume i: "i < width n (Suc k)" and n: "n \<le> 2147483648"
  then have "2 * i * 2 ^ k < n" by (simp add: width_less mult.commute mult.left_commute)
  moreover from this have "2 * i < n" using le_less_trans [of "2 * i" "2 * i * 2 ^ k" n] by simp
  ultimately show ?thesis using n by (simp add: U32_def width_less)
qed

lemma CalcHash_node:
  "i < width (length xs) k \<Longrightarrow> k \<le> 31 \<Longrightarrow> length xs \<le> 2147483648 \<Longrightarrow> CalcHash Hash (length xs) k i xs = node Hash xs k i"
proof (induction k arbitrary: i)
  case (Suc k)
  note p = pos_small [OF Suc.prems(1,3)]
  have "CalcTreeWidth (length xs) k = width (length xs) k" using Suc.prems(2,3) by (intro CalcTreeWidth_width) simp_all
  then show ?case using Suc p by (simp add: Let_def)
qed simp

lemma width_mono: "k \<le> l \<Longrightarrow> width n l \<le> width n k"
proof (induction l)
  case (Suc l)
  have "width n (Suc l) \<le> width n l" by (cases "width n l") (simp_all add: width_Suc)
  then show ?case using Suc by (cases "k = Suc l") simp_all
qed simp

lemma height_props:
  assumes "0 < n" "n \<le> 2147483648"
  shows "width n (height n) = 1" "height n \<le> 31" "k < height n \<Longrightarrow> 1 < width n k"
proof -
  have w: "width n 31 \<le> 1" using assms(2) width_less [of 1 n 31] by (simp add: not_less [symmetric])
  then have "width n (height n) \<le> 1" unfolding height_def by (rule LeastI)
  then show "width n (height n) = 1" using width_pos [OF assms(1), of "height n"] by simp
  show "height n \<le> 31" unfolding height_def using w by (rule Least_le)
  show "k < height n \<Longrightarrow> 1 < width n k" unfolding height_def using not_less_Least [of k "\<lambda>k. width n k \<le> 1"] by simp
qed

lemma tree_height_height:
  "h \<le> height n \<Longrightarrow> 0 < n \<Longrightarrow> n \<le> 2147483648 \<Longrightarrow> tree_height n h = height n"
proof (induction "height n - h" arbitrary: h)
  case 0
  then have h: "h = height n" by simp
  have "\<not> 1 < CalcTreeWidth n h" if "h < 31" using that height_props [OF 0(3,4)] 0(4) by (simp add: h CalcTreeWidth_width)
  then show ?case using h by (subst tree_height.simps) simp
next
  case (Suc d)
  then have h: "h < height n" by simp
  have "1 < CalcTreeWidth n h" "h < 31"
    using h height_props [OF Suc.prems(2,3)] Suc.prems(3) by (simp_all add: CalcTreeWidth_width)
  then show ?case using Suc by (subst tree_height.simps) simp
qed

lemma MerkleComputation_CalcHash:
  assumes "0 < length xs" "length xs \<le> 2147483648"
  shows "node Hash xs (height (length xs)) 0 = CalcHash Hash (length xs) (tree_height (length xs) 0) 0 xs"
  using assms height_props [OF assms] tree_height_height [of 0, OF _ assms] by (simp add: CalcHash_node)

lemma equal_pair_complete:
  "(\<exists>c \<le> n. equal_pair Hash xs c) \<longleftrightarrow> (\<exists>k i. (2 * i + 2) * 2 ^ k \<le> n \<and> node Hash xs k (2 * i) = node Hash xs k (2 * i + 1))"
  by (auto simp: equal_pair_def)

lemma equal_pair_CalcHash:
  assumes "length xs \<le> 2147483648"
  shows "(\<exists>c \<le> length xs. equal_pair Hash xs c) \<longleftrightarrow>
    (\<exists>k i. (2 * i + 2) * 2 ^ k \<le> length xs \<and> CalcHash Hash (length xs) k (2 * i) xs = CalcHash Hash (length xs) k (2 * i + 1) xs)"
proof -
  have "CalcHash Hash (length xs) k (2 * i) xs = node Hash xs k (2 * i) \<and> CalcHash Hash (length xs) k (2 * i + 1) xs = node Hash xs k (2 * i + 1)"
    if "(2 * i + 2) * 2 ^ k \<le> length xs" for i k
  proof -
    have "2 * i * 2 ^ k < (2 * i + 2) * 2 ^ k" "(2 * i + 1) * 2 ^ k < (2 * i + 2) * 2 ^ k" by simp_all
    then have w: "2 * i < width (length xs) k" "2 * i + 1 < width (length xs) k" using that unfolding width_less by linarith+
    have "(2 :: nat) ^ k \<le> (2 * i + 2) * 2 ^ k" by simp
    then have "(2 :: nat) ^ k < 2 ^ 32" using that assms by simp
    then have "k < 32" by (rule power_less_imp_less_exp [rotated]) simp
    then show ?thesis using w assms by (simp add: CalcHash_node)
  qed
  then show ?thesis unfolding equal_pair_complete by (intro ex_cong1 conj_cong refl) simp
qed

lemma ComputeMerkleRoot_node:
  assumes "0 < length xs" "length xs \<le> 2147483648"
  shows "ComputeMerkleRoot Hash xs = Some (node Hash xs (height (length xs)) 0, \<exists>c \<le> length xs. equal_pair Hash xs c)"
  using MerkleComputation_node [OF assms, of False 4294967295 Hash] by (auto simp: ComputeMerkleRoot_def)

lemma root_from_sibs:
  "p < length xs \<Longrightarrow> j \<le> L \<Longrightarrow>
    ComputeMerkleRootFromBranch Hash (node Hash xs j (p div 2 ^ j)) (map (sib Hash xs p) [j..<L]) (p div 2 ^ j) = node Hash xs L (p div 2 ^ L)"
proof (induction "L - j" arbitrary: j)
  case (Suc d)
  then have j: "j < L" by simp
  let ?i = "p div 2 ^ j"
  have u: "[j..<L] = j # [Suc j..<L]" using j by (rule upt_conv_Cons)
  have i: "p div 2 ^ Suc j = ?i div 2" by (rule div_Suc_pow)
  have w: "?i < width (length xs) j" unfolding width_less using Suc.prems(1) by (meson div_times_less_eq_dividend le_less_trans)
  have "(if odd ?i then Hash (sib Hash xs p j @ node Hash xs j ?i) else Hash (node Hash xs j ?i @ sib Hash xs p j))
      = node Hash xs (Suc j) (p div 2 ^ Suc j)"
    unfolding i using w by (auto simp: sib_def Let_def elim!: evenE oddE)
  then show ?case using Suc.hyps(1) [of "Suc j"] Suc.hyps(2) Suc.prems(1) j by (simp add: u i [symmetric] del: power_Suc)
qed simp

section \<open>What the root commits to\<close>

text \<open>The strings that are hashed for the inner nodes of a tree, and two of a set of strings with the same
  hash. Only such a finite set makes the second notion say something: some pair of strings always collides.\<close>

definition node_input :: "(bytes \<Rightarrow> uint256) \<Rightarrow> uint256 list \<Rightarrow> nat \<Rightarrow> nat \<Rightarrow> bytes" where
  "node_input Hash xs k i =
     node Hash xs k (2 * i) @ (if 2 * i + 1 < width (length xs) k then node Hash xs k (2 * i + 1) else node Hash xs k (2 * i))"

definition hashed :: "(bytes \<Rightarrow> uint256) \<Rightarrow> uint256 list \<Rightarrow> bytes set" where
  "hashed Hash xs = {node_input Hash xs k i | k i. k < height (length xs) \<and> i < width (length xs) (Suc k)}"

definition collision :: "(bytes \<Rightarrow> uint256) \<Rightarrow> bytes set \<Rightarrow> bool" where
  "collision Hash S \<longleftrightarrow> (\<exists>a \<in> S. \<exists>b \<in> S. a \<noteq> b \<and> Hash a = Hash b)"

lemma collision_mono: "collision Hash S \<Longrightarrow> S \<subseteq> T \<Longrightarrow> collision Hash T"
  by (auto simp: collision_def)

lemma finite_hashed: "finite (hashed Hash xs)"
proof -
  have "hashed Hash xs \<subseteq> (\<Union>k < height (length xs). node_input Hash xs k ` {..<width (length xs) (Suc k)})"
    by (auto simp: hashed_def)
  then show ?thesis by (rule finite_subset) simp
qed

lemma hashedI: "k < height (length xs) \<Longrightarrow> i < width (length xs) (Suc k) \<Longrightarrow> node_input Hash xs k i \<in> hashed Hash xs"
  by (auto simp: hashed_def)

lemma node_length:
  assumes "\<forall>b. length (Hash b) = 32" "\<forall>x \<in> set xs. length x = 32" "i < width (length xs) k"
  shows "length (node Hash xs k i) = 32"
  using assms by (cases k) simp_all

lemma Hash_pair:
  assumes "\<not> collision Hash S" "Hash (a @ b) = Hash (c @ d)" "length a = length c" "a @ b \<in> S" "c @ d \<in> S"
  shows "a = c" "b = d"
proof -
  have "a @ b = c @ d" using assms(1,2,4,5) by (auto simp: collision_def)
  then show "a = c" "b = d" using assms(3) by simp_all
qed

lemma node_children:
  assumes nc: "\<not> collision Hash (hashed Hash xs \<union> hashed Hash ys)" "\<forall>b. length (Hash b) = 32" "\<forall>x \<in> set xs. length x = 32" "\<forall>y \<in> set ys. length y = 32"
    and e: "node Hash xs (Suc k) i = node Hash ys (Suc l) j" "i < width (length xs) (Suc k)" "j < width (length ys) (Suc l)"
    and kl: "k < height (length xs)" "l < height (length ys)"
  shows "node Hash xs k (2 * i) = node Hash ys l (2 * j)"
    "(if 2 * i + 1 < width (length xs) k then node Hash xs k (2 * i + 1) else node Hash xs k (2 * i))
     = (if 2 * j + 1 < width (length ys) l then node Hash ys l (2 * j + 1) else node Hash ys l (2 * j))"
proof -
  have "2 * i < width (length xs) k" "2 * j < width (length ys) l" using e(2,3) by (simp_all add: width_less mult.commute mult.left_commute)
  then have l: "length (node Hash xs k (2 * i)) = length (node Hash ys l (2 * j))" using nc by (simp add: node_length)
  have m: "node_input Hash xs k i \<in> hashed Hash xs \<union> hashed Hash ys" "node_input Hash ys l j \<in> hashed Hash xs \<union> hashed Hash ys"
    using hashedI [OF kl(1) e(2)] hashedI [OF kl(2) e(3)] by blast+
  from Hash_pair [OF nc(1) e(1) [unfolded node.simps] l m [unfolded node_input_def]] show "node Hash xs k (2 * i) = node Hash ys l (2 * j)"
    "(if 2 * i + 1 < width (length xs) k then node Hash xs k (2 * i + 1) else node Hash xs k (2 * i))
     = (if 2 * j + 1 < width (length ys) l then node Hash ys l (2 * j + 1) else node Hash ys l (2 * j))" .
qed

text \<open>A complete subtree and an incomplete one of the same level with equal hashes hide an equal pair.\<close>

lemma incomplete_equal_pair:
  assumes nc: "\<not> collision Hash (hashed Hash ys)" "\<forall>b. length (Hash b) = 32" "\<forall>y \<in> set ys. length y = 32"
  shows "k \<le> height (length ys) \<Longrightarrow> node Hash ys k i = node Hash ys k j \<Longrightarrow> (i + 1) * 2 ^ k \<le> length ys \<Longrightarrow> j * 2 ^ k < length ys \<Longrightarrow> length ys < (j + 1) * 2 ^ k \<Longrightarrow>
    \<exists>c \<le> length ys. equal_pair Hash ys c"
proof (induction k arbitrary: i j)
  case (Suc k)
  let ?m = "length ys"
  have i: "(2 * i + 2) * 2 ^ k \<le> ?m" using Suc.prems(3) by (simp add: algebra_simps)
  have j: "2 * j * 2 ^ k < ?m" "?m < (2 * j + 2) * 2 ^ k" using Suc.prems(4,5) by (simp_all add: algebra_simps)
  have ij: "i < width ?m (Suc k)" "j < width ?m (Suc k)" 
    using Suc.prems(3,4) less_le_trans [of "i * 2 ^ Suc k" "(i + 1) * 2 ^ Suc k" ?m] by (simp_all add: width_less)
  have i1: "2 * i + 1 < width ?m k" unfolding width_less using i by (rule less_le_trans [rotated]) simp
  have kh: "k < height ?m" "k \<le> height ?m" using Suc.prems(1) by simp_all
  have nc': "\<not> collision Hash (hashed Hash ys \<union> hashed Hash ys)" using nc(1) by simp
  note ch = node_children [OF nc' nc(2,3,3) Suc.prems(2) ij kh(1,1)]
  show ?case
  proof (cases "2 * j + 1 < width ?m k")
    case True
    then have "node Hash ys k (2 * i + 1) = node Hash ys k (2 * j + 1)" using ch(2) i1 by simp
    with kh(2) show ?thesis
    proof (rule Suc.IH)
      show "(2 * i + 1 + 1) * 2 ^ k \<le> ?m" using i by simp
      show "(2 * j + 1) * 2 ^ k < ?m" using True by (simp only: width_less)
      show "?m < (2 * j + 1 + 1) * 2 ^ k" using j by simp
    qed
  next
    case False
    then have "node Hash ys k (2 * i) = node Hash ys k (2 * i + 1)" using ch i1 by simp
    then show ?thesis unfolding equal_pair_complete using i by blast
  qed
qed simp

text \<open>Equal roots over trees of the same height: the nodes that both have agree.\<close>

lemma nodes_agree:
  assumes nc: "\<not> collision Hash (hashed Hash xs \<union> hashed Hash ys)" "\<forall>b. length (Hash b) = 32" "\<forall>x \<in> set xs. length x = 32" "\<forall>y \<in> set ys. length y = 32"
    and top: "width (length xs) L = 1" "width (length ys) L = 1" "node Hash xs L 0 = node Hash ys L 0"
    and L: "height (length xs) = L" "height (length ys) = L"
  shows "k \<le> L \<Longrightarrow> i < width (length xs) k \<Longrightarrow> i < width (length ys) k \<Longrightarrow> node Hash xs k i = node Hash ys k i"
proof (induction "L - k" arbitrary: k i)
  case 0
  then show ?case using top by simp
next
  case (Suc d)
  then have k: "k < L" by simp
  let ?j = "i div 2"
  have j: "?j < width (length xs) (Suc k)" "?j < width (length ys) (Suc k)" using Suc.prems by (auto simp: width_Suc)
  have "node Hash xs (Suc k) ?j = node Hash ys (Suc k) ?j" using Suc.hyps(1) [of "Suc k" ?j] Suc.hyps(2) k j by simp
  note ch = node_children [OF nc this j k [folded L(1)] k [folded L(2)]]
  show ?case using ch Suc.prems(2,3) by (cases "even i") (auto elim!: evenE oddE)
qed

lemma half_up_eq: "(a :: nat) < b \<Longrightarrow> (a + 1) div 2 = (b + 1) div 2 \<Longrightarrow> a + 1 = 2 * ((b + 1) div 2) \<and> b = 2 * ((b + 1) div 2) \<and> 0 < b"
  by presburger

lemma unmutated_lengths:
  assumes nc: "\<not> collision Hash (hashed Hash xs \<union> hashed Hash ys)" "\<forall>b. length (Hash b) = 32" "\<forall>x \<in> set xs. length x = 32" "\<forall>y \<in> set ys. length y = 32"
    and top: "width (length xs) L = 1" "width (length ys) L = 1" "node Hash xs L 0 = node Hash ys L 0"
    and L: "height (length xs) = L" "height (length ys) = L"
    and nm: "\<not> (\<exists>c \<le> length ys. equal_pair Hash ys c)"
  shows "length ys \<le> length xs"
proof (rule ccontr)
  let ?n = "length xs" and ?m = "length ys"
  assume "\<not> ?m \<le> ?n"
  then have 0: "width ?n 0 < width ?m 0" by simp
  have "\<exists>k < L. width ?n k < width ?m k \<and> width ?n (Suc k) = width ?m (Suc k)"
  proof (rule ccontr)
    assume a: "\<not> (\<exists>k < L. width ?n k < width ?m k \<and> width ?n (Suc k) = width ?m (Suc k))"
    have "k \<le> L \<Longrightarrow> width ?n k < width ?m k" for k
    proof (induction k)
      case (Suc k)
      have "width ?n (Suc k) \<le> width ?m (Suc k)" using Suc unfolding width_Suc by (intro div_le_mono) simp
      then show ?case using a Suc by fastforce
    qed (use 0 in simp)
    from this [of L] show False using top by simp
  qed
  then obtain k where k: "k < L" "width ?n k < width ?m k" "width ?n (Suc k) = width ?m (Suc k)" by blast
  define w where "w = width ?m (Suc k)"
  have w: "width ?n k + 1 = 2 * w" "width ?m k = 2 * w" "0 < w" 
    using half_up_eq [OF k(2)] k(3) unfolding w_def width_Suc by simp_all
  obtain v where v: "w = Suc v" using w(3) by (cases w) auto
  have "node Hash xs (Suc k) v = node Hash ys (Suc k) v"
    by (rule nodes_agree [OF nc top L]) (use k v in \<open>simp_all add: w_def\<close>)
  note ch = node_children [OF nc this _ _ k(1) [folded L(1)] k(1) [folded L(2)]]
  have e: "node Hash ys k (2 * v) = node Hash ys k (2 * v + 1)"
    using ch k(3) w v by (simp add: w_def split: if_splits)
  have lt: "(2 * v + 1) * 2 ^ k < ?m" using w(2) v by (simp only: width_less [symmetric]) simp
  show False
  proof (cases "(2 * v + 2) * 2 ^ k \<le> ?m")
    case True
    then show False using nm e unfolding equal_pair_complete by blast
  next
    case False
    have "\<exists>c \<le> ?m. equal_pair Hash ys c"
    proof (rule incomplete_equal_pair [OF _ nc(2,4) _ e])
      show "\<not> collision Hash (hashed Hash ys)" using nc(1) collision_mono [OF _ Un_upper2] by blast
      show "k \<le> height ?m" using k(1) L(2) by simp
    qed (use lt False in \<open>simp_all add: algebra_simps\<close>)
    then show False using nm by blast
  qed
qed

lemma heights_agree:
  assumes nc: "\<not> collision Hash (hashed Hash xs \<union> hashed Hash ys)" "\<forall>b. length (Hash b) = 32" "\<forall>x \<in> set xs. length x = 32" "\<forall>y \<in> set ys. length y = 32"
    and n: "0 < length xs" "0 < length ys" and root: "node Hash xs L 0 = node Hash ys M 0"
    and leaf: "\<forall>x \<in> set xs. \<forall>a \<in> hashed Hash ys. Hash a \<noteq> x" and LM: "height (length xs) = L" "height (length ys) = M"
  shows "M \<le> L"
proof (rule ccontr)
  assume m: "\<not> M \<le> L"
  have "j \<le> L \<Longrightarrow> node Hash xs (L - j) 0 = node Hash ys (M - j) 0" for j
  proof (induction j)
    case (Suc j)
    define k l where kl: "k = L - Suc j" "l = M - Suc j"
    have s: "L - j = Suc k" "M - j = Suc l" using Suc.prems m kl by simp_all
    have "node Hash xs (Suc k) 0 = node Hash ys (Suc l) 0" using Suc s by simp
    then have "node Hash xs k (2 * 0) = node Hash ys l (2 * 0)"
      by (rule node_children(1) [OF nc]) (use n Suc.prems m in \<open>simp_all add: width_pos kl LM\<close>)
    then show ?case by (simp add: kl)
  qed (use root in simp)
  from this [of L] have e: "xs ! 0 = node Hash ys (M - L) 0" by simp
  obtain d where d: "M - L = Suc d" using m by (cases "M - L") auto
  have "node_input Hash ys d 0 \<in> hashed Hash ys" using n(2) d LM(2) by (intro hashedI) (simp_all add: width_pos)
  moreover have "Hash (node_input Hash ys d 0) = xs ! 0" using e d by (simp add: node_input_def)
  ultimately show False using leaf n(1) by (metis nth_mem)
qed

section \<open>Properties\<close>

text \<open>C35: The constant-space computation ends for up to half the range of its counter and returns the hash of the tree as the
  partial trees of light clients define it. It reports a mutation exactly when two sibling subtrees that
  are both complete have the same hash.\<close>

theorem merkle_root_is_tree_hash:
  assumes "0 < length leaves" "length leaves \<le> 2147483648"
  shows "ComputeMerkleRoot Hash leaves =
    Some (CalcHash Hash (length leaves) (tree_height (length leaves) 0) 0 leaves,
      \<exists>k i. (2 * i + 2) * 2 ^ k \<le> length leaves
        \<and> CalcHash Hash (length leaves) k (2 * i) leaves = CalcHash Hash (length leaves) k (2 * i + 1) leaves)"
  unfolding ComputeMerkleRoot_node [OF assms] MerkleComputation_CalcHash [OF assms] equal_pair_CalcHash [OF assms(2)] by simp

theorem merkle_root_is_tree_hash_witness:
  "map_option fst (ComputeMerkleRoot (take 32) [replicate 32 1, replicate 32 2, replicate 32 3])
     = Some (CalcHash (take 32) 3 (tree_height 3 0) 0 [replicate 32 1, replicate 32 2, replicate 32 3])"
  using merkle_root_is_tree_hash [of "[replicate 32 1, replicate 32 2, replicate 32 3]" "take 32"] by (simp add: numeral_3_eq_3)

text \<open>The branch that is computed for a position leads from the leaf at that position to the root.\<close>

theorem merkle_branch_leads_to_root:
  assumes "position < length leaves" "length leaves \<le> 2147483648"
  shows "\<exists>branch mutated. ComputeMerkleBranch Hash leaves position = Some branch
    \<and> ComputeMerkleRoot Hash leaves = Some (ComputeMerkleRootFromBranch Hash (leaves ! position) branch position, mutated)"
proof -
  have n: "0 < length leaves" using assms(1) by (rule le_less_trans [OF le0])
  let ?h = "height (length leaves)"
  have "position div 2 ^ ?h < width (length leaves) ?h"
    unfolding width_less using assms(1) by (meson div_times_less_eq_dividend le_less_trans)
  then have "position div 2 ^ ?h = 0" by (simp add: height_props [OF n assms(2)])
  then have "ComputeMerkleRootFromBranch Hash (leaves ! position) (sibs Hash leaves position ?h) position = node Hash leaves ?h 0"
    using root_from_sibs [OF assms(1), of 0 ?h Hash] by simp
  then show ?thesis using MerkleComputation_node [OF n assms(2), of True position Hash] assms(1) ComputeMerkleRoot_node [OF n assms(2), of Hash]
    by (auto simp: ComputeMerkleBranch_def)
qed

theorem merkle_branch_leads_to_root_witness:
  "\<exists>branch mutated. ComputeMerkleBranch (take 32) [replicate 32 1, replicate 32 2, replicate 32 3] 2 = Some branch
    \<and> ComputeMerkleRoot (take 32) [replicate 32 1, replicate 32 2, replicate 32 3]
      = Some (ComputeMerkleRootFromBranch (take 32) (replicate 32 3) branch 2, mutated)"
  using merkle_branch_leads_to_root [of 2 "[replicate 32 1, replicate 32 2, replicate 32 3]" "take 32"] by simp

text \<open>C6: Two lists of hashes with the same root for which no mutation is reported are equal, unless two of the strings hashed
  for the inner nodes of the two trees collide or one of the hashes in the lists is the hash of such a string, that is
  an inner node in disguise. Repeating transactions at the end of a block, which keeps the root, is always reported.\<close>

theorem merkle_root_commits:
  assumes h: "\<forall>b. length (Hash b) = 32" "\<forall>x \<in> set xs \<union> set ys. length x = 32"
    and n: "0 < length xs" "length xs \<le> 2147483648" "0 < length ys" "length ys \<le> 2147483648"
    and root: "ComputeMerkleRoot Hash xs = Some (root, False)" "ComputeMerkleRoot Hash ys = Some (root, False)"
  shows "xs = ys \<or> collision Hash (hashed Hash xs \<union> hashed Hash ys) \<or> (\<exists>x \<in> set xs \<union> set ys. \<exists>a \<in> hashed Hash xs \<union> hashed Hash ys. Hash a = x)"
proof (rule ccontr)
  assume "\<not> ?thesis"
  then have nc: "xs \<noteq> ys" "\<not> collision Hash (hashed Hash xs \<union> hashed Hash ys)" and leaf: "\<forall>x \<in> set xs. \<forall>a \<in> hashed Hash ys. Hash a \<noteq> x"
    "\<forall>y \<in> set ys. \<forall>a \<in> hashed Hash xs. Hash a \<noteq> y" by blast+
  have nc': "\<not> collision Hash (hashed Hash ys \<union> hashed Hash xs)" using nc(2) by (simp add: Un_commute)
  have l: "\<forall>x \<in> set xs. length x = 32" "\<forall>y \<in> set ys. length y = 32" using h(2) by auto
  define L M where LM: "L = height (length xs)" "M = height (length ys)"
  have e: "node Hash xs L 0 = node Hash ys M 0" "\<not> (\<exists>c \<le> length xs. equal_pair Hash xs c)" "\<not> (\<exists>c \<le> length ys. equal_pair Hash ys c)"
    using root ComputeMerkleRoot_node [OF n(1,2), of Hash] ComputeMerkleRoot_node [OF n(3,4), of Hash] by (auto simp: LM)
  have LM': "height (length xs) = L" "height (length ys) = M" by (simp_all add: LM)
  have lm: "L = M" using heights_agree [OF nc(2) h(1) l n(1,3) e(1) leaf(1) LM'] heights_agree [OF nc' h(1) l(2,1) n(3,1) e(1) [symmetric] leaf(2) LM'(2,1)]
    by simp
  then have top: "width (length xs) L = 1" "width (length ys) L = 1" "node Hash xs L 0 = node Hash ys L 0"
    using e(1) height_props(1) [OF n(1,2)] height_props(1) [OF n(3,4)] by (simp_all add: LM)
  have len: "length xs = length ys"
    using unmutated_lengths [OF nc(2) h(1) l top LM' [folded lm] e(3)]
      unmutated_lengths [OF nc' h(1) l(2,1) top(2,1) top(3) [symmetric] LM'(2,1) [folded lm] e(2)] by simp
  have "xs = ys" by (rule nth_equalityI [OF len]) (use nodes_agree [OF nc(2) h(1) l top LM' [folded lm], of 0] len in simp)
  then show False using nc(1) by simp
qed

definition pad32 :: "bytes \<Rightarrow> uint256" where
  "pad32 b = take 32 (b @ replicate 32 0)"

lemma length_pad32 [simp]: "length (pad32 b) = 32"
  by (simp add: pad32_def)

lemma two_leaves: "a \<noteq> b \<Longrightarrow> ComputeMerkleRoot Hash [a, b] = Some (Hash (a @ b), False)"
proof -
  assume ab: "a \<noteq> b"
  have w: "width 2 1 = 1" by (simp add: width_def)
  then have "height 2 = 1" by (rule height_eq) simp
  moreover have "i = 0 \<and> k = 0" if "(2 * i + 2) * 2 ^ k \<le> (2 :: nat)" for i k
  proof -
    have "2 * 2 ^ k \<le> (2 * i + 2) * 2 ^ k" by simp
    then have "(2 :: nat) ^ k < 2 ^ 1" using that by simp
    then have "k = 0" using power_less_imp_less_exp [of "2 :: nat" k 1] by simp
    then show ?thesis using that by simp
  qed
  then have "\<not> (\<exists>c \<le> 2. equal_pair Hash [a, b] c)" unfolding equal_pair_complete using ab by force
  ultimately show ?thesis using ComputeMerkleRoot_node [of "[a, b]" Hash] by (simp add: numeral_2_eq_2)
qed

lemma hashed_two: "hashed Hash [a, b] = {a @ b}"
proof -
  have w: "width 2 1 = 1" by (simp add: width_def)
  then have h: "height 2 = 1" by (rule height_eq) simp
  have "node_input Hash [a, b] 0 0 = a @ b" by (simp add: node_input_def)
  then show ?thesis using h w by (auto simp: hashed_def numeral_2_eq_2)
qed

theorem merkle_root_commits_witness:
  "[replicate 32 1, replicate 32 2 :: uint256] = [replicate 32 1, replicate 32 3] \<or> collision pad32 {replicate 32 1 @ replicate 32 2, replicate 32 1 @ replicate 32 3}
     \<or> (\<exists>x \<in> {replicate 32 1, replicate 32 2, replicate 32 3}. \<exists>a \<in> {replicate 32 1 @ replicate 32 2, replicate 32 1 @ replicate 32 3}. pad32 a = x)"
proof -
  have "ComputeMerkleRoot pad32 [replicate 32 1, replicate 32 x] = Some (replicate 32 1, False)" if "x \<noteq> 1" for x
    using that by (subst two_leaves) (simp_all add: replicate_eq_replicate pad32_def)
  then show ?thesis
    using merkle_root_commits [of pad32 "[replicate 32 1, replicate 32 2]" "[replicate 32 1, replicate 32 3]" "replicate 32 1"]
    by (auto simp: hashed_two insert_commute)
qed

end
