(* ===== verification/MFC_PartialTree.thy ===== *)
theory MFC_PartialTree
  imports MFC_MerkleProps
begin

unbundle bit_operations_syntax

text \<open>
  Properties of the partial Merkle trees that prove to a light client that transactions are in a block: a tree that
  was built and sent gives back the root and the matched transactions, and a tree from an
  untrusted peer with the right root cannot lie about its matches.
\<close>

section \<open>Trees from untrusted peers\<close>

lemma take_hash_bad: "ex_bad e \<Longrightarrow> ex_bad (snd (take_hash t matched pos e))"
  by (simp add: take_hash_def Let_def)

lemma extract_bad: "ex_bad e \<Longrightarrow> ex_bad (snd (TraverseAndExtract Hash t k pos e))"
proof (induction k arbitrary: pos e)
  case 0
  then show ?case by (simp add: take_hash_bad)
next
  case (Suc k)
  have s: "ex_bad (snd (TraverseAndExtract Hash t k q (e\<lparr>nBitsUsed := b\<rparr>)))" for q b using Suc by simp
  have "ex_bad (snd (TraverseAndExtract Hash t k q' (snd (TraverseAndExtract Hash t k q (e\<lparr>nBitsUsed := b\<rparr>)))))" for q q' b
    by (rule Suc.IH) (rule s)
  then show ?case using s Suc.prems by (simp add: take_hash_bad Let_def split_beta)
qed

lemma extract_length:
  assumes "\<forall>b. length (Hash b) = 32" "\<forall>h \<in> set (vHash t). length h = 32"
  shows "length (fst (TraverseAndExtract Hash t k pos e)) = 32"
  using assms by (cases k) (auto simp: take_hash_def Let_def split_beta uint256_null_def)

text \<open>The matches so far are leaves at the stated positions.\<close>

definition matches_ok :: "uint256 list \<Rightarrow> extraction \<Rightarrow> bool" where
  "matches_ok txids e \<longleftrightarrow> length (ex_vMatch e) = length (ex_vnIndex e)
     \<and> (\<forall>j < length (ex_vnIndex e). ex_vnIndex e ! j < length txids \<and> ex_vMatch e ! j = txids ! (ex_vnIndex e ! j))"

lemma matches_ok_irrelevant [simp]:
  "matches_ok txids (e\<lparr>nBitsUsed := b\<rparr>) = matches_ok txids e" "matches_ok txids (e\<lparr>nHashUsed := b\<rparr>) = matches_ok txids e"
  "matches_ok txids (e\<lparr>ex_bad := c\<rparr>) = matches_ok txids e"
  by (simp_all add: matches_ok_def)

lemma matches_ok_push:
  "matches_ok txids e \<Longrightarrow> pos < length txids \<Longrightarrow> h = txids ! pos \<Longrightarrow>
    matches_ok txids (e\<lparr>ex_vMatch := ex_vMatch e @ [h], ex_vnIndex := ex_vnIndex e @ [pos]\<rparr>)"
  by (auto simp: matches_ok_def nth_append less_Suc_eq)

lemma take_hash_sound:
  assumes "take_hash t matched pos e = (h, e')" "\<not> ex_bad e'" "matches_ok txids e"
    and "matched \<longrightarrow> pos < length txids \<and> h = txids ! pos"
  shows "matches_ok txids e'"
proof (cases "nHashUsed e \<ge> length (vHash t)")
  case False
  then show ?thesis using assms matches_ok_push [of txids "e\<lparr>nHashUsed := nHashUsed e + 1\<rparr>" pos h]
    by (auto simp: take_hash_def Let_def split: if_splits)
qed (use assms in \<open>auto simp: take_hash_def\<close>)

text \<open>The strings that are hashed while a partial tree is evaluated.\<close>

fun extract_hashed :: "(bytes \<Rightarrow> uint256) \<Rightarrow> CPartialMerkleTree \<Rightarrow> nat \<Rightarrow> nat \<Rightarrow> extraction \<Rightarrow> bytes set" where
  "extract_hashed Hash t 0 pos e = {}"
| "extract_hashed Hash t (Suc k) pos e =
     (if nBitsUsed e \<ge> length (vBits t) \<or> \<not> vBits t ! nBitsUsed e then {}
      else
        let e0 = e\<lparr>nBitsUsed := nBitsUsed e + 1\<rparr>; (left, e1) = TraverseAndExtract Hash t k (U32 (pos * 2)) e0 in
        extract_hashed Hash t k (U32 (pos * 2)) e0
        \<union> (if U32 (pos * 2 + 1) < CalcTreeWidth (nTransactions t) k
           then insert (left @ fst (TraverseAndExtract Hash t k (U32 (pos * 2 + 1)) e1)) (extract_hashed Hash t k (U32 (pos * 2 + 1)) e1)
           else {left @ left}))"

lemma finite_extract_hashed: "finite (extract_hashed Hash t k pos e)"
  by (induction k arbitrary: pos e) (auto simp: Let_def split_beta)

lemma extract_sound:
  assumes nc: "\<not> collision Hash S" "\<forall>b. length (Hash b) = 32" "\<forall>x \<in> set txids. length x = 32" "\<forall>h \<in> set (vHash t). length h = 32"
    and n: "nTransactions t = length txids" "length txids \<le> 2147483648" and S: "hashed Hash txids \<subseteq> S"
  shows "extract_hashed Hash t k pos e \<subseteq> S \<Longrightarrow> k \<le> height (length txids) \<Longrightarrow> TraverseAndExtract Hash t k pos e = (h, e') \<Longrightarrow> pos < width (length txids) k \<Longrightarrow> k \<le> 31 \<Longrightarrow> \<not> ex_bad e' \<Longrightarrow>
    h = node Hash txids k pos \<Longrightarrow> matches_ok txids e \<Longrightarrow> matches_ok txids e'"
proof (induction k arbitrary: pos e h e')
  case 0
  show ?case
  proof (cases "nBitsUsed e \<ge> length (vBits t)")
    case False
    then have "take_hash t (vBits t ! nBitsUsed e) pos (e\<lparr>nBitsUsed := nBitsUsed e + 1\<rparr>) = (h, e')" using 0(3) by simp
    then show ?thesis by (rule take_hash_sound) (use 0 in simp_all)
  qed (use 0 in auto)
next
  case (Suc k)
  have nb: "\<not> nBitsUsed e \<ge> length (vBits t)" using Suc.prems(3,6) by auto
  define e0 where "e0 = e\<lparr>nBitsUsed := nBitsUsed e + 1\<rparr>"
  have ok0: "matches_ok txids e0" using Suc.prems(8) by (simp add: e0_def)
  have kh: "k \<le> height (length txids)" "k < height (length txids)" using Suc.prems(2) by simp_all
  note p = pos_small [OF Suc.prems(4) n(2)]
  have w: "CalcTreeWidth (nTransactions t) k = width (length txids) k" using Suc.prems(5) n by (simp add: CalcTreeWidth_width)
  have inp: "node_input Hash txids k pos \<in> S" using S hashedI [OF kh(2) Suc.prems(4), of Hash] by blast
  show ?case
  proof (cases "vBits t ! nBitsUsed e")
    case False
    then have "take_hash t False pos e0 = (h, e')" using Suc.prems(3) nb by (simp add: e0_def)
    then show ?thesis by (rule take_hash_sound) (use Suc.prems(6) ok0 in simp_all)
  next
    case True
    obtain left e1 where l: "TraverseAndExtract Hash t k (2 * pos) e0 = (left, e1)" by fastforce
    have ll: "length left = length (node Hash txids k (2 * pos))"
      using extract_length [OF nc(2,4), of k "2 * pos" e0] l node_length [OF nc(2,3)] p by simp
    have S1: "extract_hashed Hash t k (2 * pos) e0 \<subseteq> S"
      using Suc.prems(1) nb True p l [unfolded e0_def] by (simp add: e0_def)
    show ?thesis
    proof (cases "2 * pos + 1 < width (length txids) k")
      case both: True
      obtain right e2 where r: "TraverseAndExtract Hash t k (2 * pos + 1) e1 = (right, e2)" by fastforce
      have S2: "extract_hashed Hash t k (2 * pos + 1) e1 \<subseteq> S" "left @ right \<in> S"
        using Suc.prems(1) nb True both p w l [unfolded e0_def] r by simp_all
      have he: "h = Hash (left @ right)" "e' = (if right = left then e2\<lparr>ex_bad := True\<rparr> else e2)"
        using Suc.prems(3) nb True both p w l [unfolded e0_def] r by simp_all
      then have "Hash (left @ right) = Hash (node Hash txids k (2 * pos) @ node Hash txids k (2 * pos + 1))"
        using Suc.prems(7) both by simp
      note lr = Hash_pair [OF nc(1) this ll S2(2)]
      have lr: "left = node Hash txids k (2 * pos)" "right = node Hash txids k (2 * pos + 1)"
        using lr inp both by (simp_all add: node_input_def)
      have g: "\<not> ex_bad e2" "e' = e2" using he(2) Suc.prems(6) by (auto split: if_splits)
      then have "\<not> ex_bad e1" using extract_bad [of e1 Hash t k "2 * pos + 1"] r by auto
      then have "matches_ok txids e1" using Suc.IH [OF S1 kh(1) l] p Suc.prems(5) lr(1) ok0 by simp
      then show ?thesis using Suc.IH [OF S2(1) kh(1) r both] Suc.prems(5) lr(2) g by simp
    next
      case one: False
      have S2: "left @ left \<in> S" using Suc.prems(1) nb True one p w l [unfolded e0_def] by simp
      have he: "h = Hash (left @ left)" "e' = e1"
        using Suc.prems(3) nb True one p w l [unfolded e0_def] by simp_all
      then have "Hash (left @ left) = Hash (node Hash txids k (2 * pos) @ node Hash txids k (2 * pos))"
        using Suc.prems(7) one by simp
      from Hash_pair(1) [OF nc(1) this ll S2] show ?thesis
        using Suc.IH [OF S1 kh(1) l] p Suc.prems(5,6) ok0 he(2) inp one by (simp add: node_input_def)
    qed
  qed
qed

section \<open>Trees that were built\<close>

definition matched :: "nat \<Rightarrow> bool list \<Rightarrow> nat \<Rightarrow> nat \<Rightarrow> nat list" where
  "matched n vMatch k pos = List.filter ((!) vMatch) [pos * 2 ^ k..<min ((pos + 1) * 2 ^ k) n]"

lemma upt_split: "i \<le> j \<Longrightarrow> j \<le> k \<Longrightarrow> [i..<k] = [i..<j] @ [j..<k]"
  using upt_add_eq_append [of i j "k - j"] by simp

lemma matched_Suc:
  assumes "pos < width n (Suc k)"
  shows "matched n vMatch (Suc k) pos = matched n vMatch k (2 * pos) @ (if 2 * pos + 1 < width n k then matched n vMatch k (2 * pos + 1) else [])"
proof -
  let ?a = "2 * pos * 2 ^ k" and ?b = "(2 * pos + 1) * 2 ^ k" and ?c = "(2 * pos + 2) * 2 ^ k"
  have e: "pos * 2 ^ Suc k = ?a" "(pos + 1) * 2 ^ Suc k = ?c" "2 * pos + 1 + 1 = 2 * pos + 2" by (simp_all add: algebra_simps)
  have o: "?a \<le> ?b" "?b \<le> ?c" by simp_all
  show ?thesis
  proof (cases "2 * pos + 1 < width n k")
    case True
    then have "?b < n" by (simp only: width_less)
    then have "min ?b n = ?b" "?b \<le> min ?c n" using o by simp_all
    then have "[?a..<min ?c n] = [?a..<min ?b n] @ [?b..<min ?c n]" using upt_split [OF o(1), of "min ?c n"] by simp
    then show ?thesis using True by (simp only: matched_def e if_True filter_append)
  next
    case False
    then have "n \<le> ?b" by (simp only: width_less not_less)
    then have "min ?c n = min ?b n" using o by (simp add: min_def)
    then show ?thesis using False by (simp only: matched_def e if_False append_Nil2)
  qed
qed

lemma parent_of_match_matched:
  assumes "pos < width n k" "n \<le> 2147483648" "(2 :: nat) ^ k < 2147483648"
  shows "parent_of_match n k pos vMatch \<longleftrightarrow> matched n vMatch k pos \<noteq> []"
proof -
  have "pos * 2 ^ k < n" using assms(1) by (simp only: width_less)
  then have "pos * 2 ^ k < 4294967296" "(pos + 1) * 2 ^ k < 4294967296" using assms(2,3) by (simp_all add: algebra_simps)
  then show ?thesis by (auto simp: parent_of_match_def matched_def U32_def filter_empty_conv)
qed

lemma build_counts:
  "pos < width n k \<Longrightarrow> n \<le> 2147483648 \<Longrightarrow> k \<le> 31 \<Longrightarrow>
    length (snd (TraverseAndBuild Hash n k pos vTxid vMatch)) \<le> min ((pos + 1) * 2 ^ k) n - pos * 2 ^ k
    \<and> length (snd (TraverseAndBuild Hash n k pos vTxid vMatch)) \<le> length (fst (TraverseAndBuild Hash n k pos vTxid vMatch))"
proof (induction k arbitrary: pos)
  case 0
  then show ?case by simp
next
  case (Suc k)
  note p = pos_small [OF Suc.prems(1,2)]
  let ?a = "2 * pos * 2 ^ k" and ?b = "(2 * pos + 1) * 2 ^ k" and ?c = "(2 * pos + 2) * 2 ^ k"
  have e: "pos * 2 ^ Suc k = ?a" "(pos + 1) * 2 ^ Suc k = ?c" by (simp_all add: algebra_simps)
  have o: "?a < ?b" "?b < ?c" by simp_all
  have an: "?a < n" using p by (simp only: width_less)
  have w: "CalcTreeWidth n k = width n k" using Suc.prems(2,3) by (simp add: CalcTreeWidth_width)
  obtain b1 h1 where 1: "TraverseAndBuild Hash n k (2 * pos) vTxid vMatch = (b1, h1)" by fastforce
  obtain b2 h2 where 2: "TraverseAndBuild Hash n k (2 * pos + 1) vTxid vMatch = (b2, h2)" by fastforce
  have l: "length h1 \<le> min ?b n - ?a" "length h1 \<le> length b1" using Suc.IH [of "2 * pos"] p Suc.prems(2,3) 1 by simp_all
  show ?case
  proof (cases "parent_of_match n (Suc k) pos vMatch")
    case False
    then show ?thesis using o an by (simp only: e TraverseAndBuild.simps if_True not_False_eq_True fst_conv snd_conv) (simp add: min_def Suc_le_eq)
  next
    case True
    show ?thesis
    proof (cases "2 * pos + 1 < width n k")
      case both: True
      then have r: "length h2 \<le> min ?c n - ?b" "length h2 \<le> length b2" using Suc.IH [of "2 * pos + 1"] Suc.prems(2,3) 2 by simp_all
      have "?b < n" using both by (simp only: width_less)
      then show ?thesis using True both p w 1 2 l r o by (simp only: e) (simp add: Let_def min_def split: if_splits)
    next
      case False
      have "min ?b n \<le> min ?c n" using o by simp
      then have "length h1 \<le> min ?c n - ?a" using l(1) by linarith
      then show ?thesis using True False p w 1 l(2) by (simp only: e) simp
    qed
  qed
qed

text \<open>The state after a subtree was read back.\<close>

definition advanced :: "uint256 list \<Rightarrow> nat list \<Rightarrow> nat \<Rightarrow> nat \<Rightarrow> extraction \<Rightarrow> extraction" where
  "advanced txids ps b h e = e\<lparr>nBitsUsed := nBitsUsed e + b, nHashUsed := nHashUsed e + h,
     ex_vMatch := ex_vMatch e @ map ((!) txids) ps, ex_vnIndex := ex_vnIndex e @ ps\<rparr>"

lemma advanced_simps [simp]:
  "nBitsUsed (advanced txids ps b h e) = nBitsUsed e + b" "nHashUsed (advanced txids ps b h e) = nHashUsed e + h"
  "ex_vMatch (advanced txids ps b h e) = ex_vMatch e @ map ((!) txids) ps" "ex_vnIndex (advanced txids ps b h e) = ex_vnIndex e @ ps"
  "ex_bad (advanced txids ps b h e) = ex_bad e"
  by (simp_all add: advanced_def)

lemma advanced_advanced:
  "advanced txids qs b' h' (advanced txids ps b h e) = advanced txids (ps @ qs) (b + b') (h + h') e"
  by (simp add: advanced_def)

lemma advanced_bit: "advanced txids ps b h (e\<lparr>nBitsUsed := nBitsUsed e + 1\<rparr>) = advanced txids ps (Suc b) h e"
  by (simp add: advanced_def)

lemma take_hash_one:
  assumes "vHash t = hs @ h # hs'" "nHashUsed e = length hs"
  shows "take_hash t m pos (e\<lparr>nBitsUsed := nBitsUsed e + 1\<rparr>) =
    (h, if m then e\<lparr>nBitsUsed := nBitsUsed e + 1, nHashUsed := nHashUsed e + 1, ex_vMatch := ex_vMatch e @ [h], ex_vnIndex := ex_vnIndex e @ [pos]\<rparr>
        else e\<lparr>nBitsUsed := nBitsUsed e + 1, nHashUsed := nHashUsed e + 1\<rparr>)"
  using assms by (simp add: take_hash_def Let_def nth_append)

text \<open>No node has the hash of its sibling.\<close>

definition siblings_differ :: "(bytes \<Rightarrow> uint256) \<Rightarrow> uint256 list \<Rightarrow> bool" where
  "siblings_differ Hash xs \<longleftrightarrow> (\<forall>k i. 2 * i + 1 < width (length xs) k \<longrightarrow> node Hash xs k (2 * i) \<noteq> node Hash xs k (2 * i + 1))"

lemma extract_built:
  assumes n: "nTransactions t = length txids" "length txids \<le> 2147483648" and sd: "siblings_differ Hash txids"
  shows "pos < width (length txids) k \<Longrightarrow> (2 :: nat) ^ k < 2147483648 \<Longrightarrow> k \<le> 31 \<Longrightarrow>
    TraverseAndBuild Hash (length txids) k pos txids vMatch = (bs, hs) \<Longrightarrow>
    vBits t = bs0 @ bs @ bs1 \<Longrightarrow> vHash t = hs0 @ hs @ hs1 \<Longrightarrow> nBitsUsed e = length bs0 \<Longrightarrow> nHashUsed e = length hs0 \<Longrightarrow>
    TraverseAndExtract Hash t k pos e =
      (node Hash txids k pos, advanced txids (matched (length txids) vMatch k pos) (length bs) (length hs) e)"
proof (induction k arbitrary: pos bs hs bs0 bs1 hs0 hs1 e)
  case 0
  have p: "pos < length txids" using 0(1) by simp
  have m: "matched (length txids) vMatch 0 pos = (if vMatch ! pos then [pos] else [])"
    using p by (simp add: matched_def upt_conv_Cons)
  have b: "bs = [vMatch ! pos]" "hs = [txids ! pos]"
    using 0(4) parent_of_match_matched [OF 0(1) n(2) 0(2), of vMatch] m by (auto split: if_splits)
  have "take_hash t (vMatch ! pos) pos (e\<lparr>nBitsUsed := nBitsUsed e + 1\<rparr>) =
      (txids ! pos, advanced txids (matched (length txids) vMatch 0 pos) 1 1 e)"
    by (subst take_hash_one [of t hs0 "txids ! pos" hs1]) (use 0 b in \<open>auto simp: m advanced_def\<close>)
  then show ?case using 0 b by (simp add: nth_append)
next
  case (Suc k)
  let ?n = "length txids"
  note p = pos_small [OF Suc.prems(1) n(2)]
  have k: "(2 :: nat) ^ k < 2147483648" "k \<le> 31" using Suc.prems(2,3) by simp_all
  have w: "CalcTreeWidth ?n k = width ?n k" using n(2) k(2) by (rule CalcTreeWidth_width)
  note pm = parent_of_match_matched [OF Suc.prems(1) n(2) Suc.prems(2), of vMatch]
  define e0 where "e0 = e\<lparr>nBitsUsed := nBitsUsed e + 1\<rparr>"
  show ?case
  proof (cases "parent_of_match ?n (Suc k) pos vMatch")
    case False
    then have b: "bs = [False]" "hs = [node Hash txids (Suc k) pos]" "matched ?n vMatch (Suc k) pos = []"
      using Suc.prems(4) pm CalcHash_node [OF Suc.prems(1,3) n(2), of Hash] by (simp_all del: CalcHash.simps node.simps)
    have "take_hash t False pos (e\<lparr>nBitsUsed := nBitsUsed e + 1\<rparr>) = (node Hash txids (Suc k) pos, advanced txids [] 1 1 e)"
      by (subst take_hash_one [of t hs0 "node Hash txids (Suc k) pos" hs1]) (use Suc.prems b in \<open>auto simp: advanced_def\<close>)
    then show ?thesis using Suc.prems b by (simp add: nth_append del: node.simps)
  next
    case True
    obtain b1 h1 where 1: "TraverseAndBuild Hash ?n k (2 * pos) txids vMatch = (b1, h1)" by fastforce
    define m1 where "m1 = matched ?n vMatch k (2 * pos)"
    show ?thesis
    proof (cases "2 * pos + 1 < width ?n k")
      case both: True
      obtain b2 h2 where 2: "TraverseAndBuild Hash ?n k (2 * pos + 1) txids vMatch = (b2, h2)" by fastforce
      have bs: "bs = True # b1 @ b2" "hs = h1 @ h2" using Suc.prems(4) True both p w 1 2 by simp_all
      have l: "TraverseAndExtract Hash t k (2 * pos) e0 = (node Hash txids k (2 * pos), advanced txids m1 (length b1) (length h1) e0)"
        unfolding m1_def by (rule Suc.IH [OF _ k 1, of "bs0 @ [True]" "b2 @ bs1" hs0 "h2 @ hs1"])
          (use p Suc.prems bs in \<open>simp_all add: e0_def\<close>)
      have r: "TraverseAndExtract Hash t k (2 * pos + 1) (advanced txids m1 (length b1) (length h1) e0) =
          (node Hash txids k (2 * pos + 1), advanced txids (matched ?n vMatch k (2 * pos + 1)) (length b2) (length h2)
             (advanced txids m1 (length b1) (length h1) e0))"
        by (rule Suc.IH [OF both k 2, of "bs0 @ True # b1" bs1 "hs0 @ h1" hs1]) (use Suc.prems bs in \<open>simp_all add: e0_def\<close>)
      have "node Hash txids k (2 * pos) \<noteq> node Hash txids k (2 * pos + 1)" using sd both by (simp add: siblings_differ_def)
      then show ?thesis
        using Suc.prems bs True both p w n(1) l [unfolded e0_def] r [unfolded e0_def] matched_Suc [OF Suc.prems(1), of vMatch]
        by (auto simp: nth_append advanced_advanced m1_def [symmetric] advanced_bit)
    next
      case one: False
      have bs: "bs = True # b1" "hs = h1" using Suc.prems(4) True one p w 1 by simp_all
      have l: "TraverseAndExtract Hash t k (2 * pos) e0 = (node Hash txids k (2 * pos), advanced txids m1 (length b1) (length h1) e0)"
        unfolding m1_def by (rule Suc.IH [OF _ k 1, of "bs0 @ [True]" bs1 hs0 hs1]) (use p Suc.prems bs in \<open>simp_all add: e0_def\<close>)
      then show ?thesis
        using Suc.prems bs True one p w n(1) l [unfolded e0_def] matched_Suc [OF Suc.prems(1), of vMatch]
        by (auto simp: nth_append m1_def [symmetric] advanced_bit)
    qed
  qed
qed

lemma unmutated_siblings_differ:
  assumes "\<not> collision Hash (hashed Hash xs)" "\<forall>b. length (Hash b) = 32" "\<forall>y \<in> set xs. length y = 32" "\<not> (\<exists>c \<le> length xs. equal_pair Hash xs c)"
    and n: "0 < length xs" "length xs \<le> 2147483648"
  shows "siblings_differ Hash xs"
  unfolding siblings_differ_def
proof (intro allI impI notI)
  fix k i
  assume w: "2 * i + 1 < width (length xs) k" and e: "node Hash xs k (2 * i) = node Hash xs k (2 * i + 1)"
  have lt: "(2 * i + 1) * 2 ^ k < length xs" using w by (simp only: width_less)
  have k: "k \<le> height (length xs)"
  proof (rule ccontr)
    assume "\<not> k \<le> height (length xs)"
    then show False using width_mono [of "height (length xs)" k "length xs"] height_props(1) [OF n] w by simp
  qed
  show False
  proof (cases "(2 * i + 2) * 2 ^ k \<le> length xs")
    case True
    then show False using assms(4) e unfolding equal_pair_complete by blast
  next
    case False
    have "\<exists>c \<le> length xs. equal_pair Hash xs c"
      by (rule incomplete_equal_pair [OF assms(1-3) k e]) (use lt False in \<open>simp_all add: algebra_simps\<close>)
    then show False using assms(4) by blast
  qed
qed

section \<open>On the wire\<close>

lemma bit_fold_or:
  "j < 8 \<Longrightarrow> bit (fold (\<lambda>p b. if bits ! p then b OR push_bit (p mod 8) 1 else b) ps (acc :: byte)) j \<longleftrightarrow>
    bit acc j \<or> (\<exists>p \<in> set ps. bits ! p \<and> p mod 8 = j)"
  by (induction ps arbitrary: acc) (auto simp: bit_simps)

lemma bits_roundtrip:
  "bytes_to_bits (bits_to_bytes bits) = bits @ replicate (8 * ((length bits + 7) div 8) - length bits) False"
proof (rule nth_equalityI)
  let ?m = "(length bits + 7) div 8"
  have m: "length bits \<le> 8 * ?m" by simp
  show l: "length (bytes_to_bits (bits_to_bytes bits)) = length (bits @ replicate (8 * ?m - length bits) False)"
    using m by (simp add: bytes_to_bits_def bits_to_bytes_def)
  fix p
  assume "p < length (bytes_to_bits (bits_to_bytes bits))"
  then have p: "p < ?m * 8" by (simp add: bytes_to_bits_def bits_to_bytes_def)
  let ?r = "[8 * (p div 8)..<min (8 * (p div 8) + 8) (length bits)]"
  have d: "p div 8 < ?m" using p by (simp add: div_less_iff_less_mult)
  have "bytes_to_bits (bits_to_bytes bits) ! p \<longleftrightarrow> bit (bits_to_bytes bits ! (p div 8)) (p mod 8)"
    using p by (simp add: bytes_to_bits_def bit_iff_and_push_bit_not_eq_0 bits_to_bytes_def)
  also have "\<dots> \<longleftrightarrow> (\<exists>q \<in> set ?r. bits ! q \<and> q mod 8 = p mod 8)"
    using d by (simp add: bits_to_bytes_def bit_fold_or)
  also have "\<dots> \<longleftrightarrow> p < length bits \<and> bits ! p"
  proof
    assume "\<exists>q \<in> set ?r. bits ! q \<and> q mod 8 = p mod 8"
    then obtain q where q: "q \<in> set ?r" "bits ! q" "q mod 8 = p mod 8" by blast
    then have "q div 8 = p div 8" by auto
    then have "q = p" using q(3) by (metis div_mult_mod_eq)
    then show "p < length bits \<and> bits ! p" using q by simp
  next
    assume "p < length bits \<and> bits ! p"
    then show "\<exists>q \<in> set ?r. bits ! q \<and> q mod 8 = p mod 8" by (intro bexI [of _ p]) auto
  qed
  finally show "bytes_to_bits (bits_to_bytes bits) ! p = (bits @ replicate (8 * ?m - length bits) False) ! p"
    using p by (auto simp: nth_append)
qed

lemma build_hashes_32:
  assumes "\<forall>b. length (Hash b) = 32" "\<forall>x \<in> set txids. length x = 32" "length txids \<le> 2147483648"
  shows "pos < width (length txids) k \<Longrightarrow> k \<le> 31 \<Longrightarrow> \<forall>h \<in> set (snd (TraverseAndBuild Hash (length txids) k pos txids vMatch)). length h = 32"
proof (induction k arbitrary: pos)
  case 0
  then show ?case using assms by simp
next
  case (Suc k)
  note p = pos_small [OF Suc.prems(1) assms(3)]
  have w: "CalcTreeWidth (length txids) k = width (length txids) k" using Suc.prems(2) assms(3) by (simp add: CalcTreeWidth_width)
  show ?case using Suc.IH [of "2 * pos"] Suc.IH [of "2 * pos + 1"] Suc.prems(2) p w assms(1)
    by (auto simp: Let_def split_beta)
qed

lemma partial_tree_read_back:
  assumes "t = CPartialMerkleTree_build Hash txids vMatch" "length txids < 4294967296" "length (vHash t) \<le> MAX_SIZE"
    "length (bits_to_bytes (vBits t)) \<le> MAX_SIZE" "\<forall>h \<in> set (vHash t). length h = 32"
  shows "UnserializePartialTree (SerializePartialTree t @ s) =
    Inr (t\<lparr>vBits := vBits t @ replicate (8 * ((length (vBits t) + 7) div 8) - length (vBits t)) False\<rparr>, s)"
proof -
  have n: "nTransactions t = length txids" "fBad t = False"
    using assms(1,2) by (simp_all add: CPartialMerkleTree_build_def U32_def Let_def split_beta)
  have "Unserialize_vector (stream_read 32) (Serialize_vector id (vHash t) @ r) = Inr (vHash t, r)" for r
    using assms(3,5) by (intro uint256.vector_dec_enc) (simp_all add: list_all_iff)
  then show ?thesis using n assms(2,4)
    by (simp add: UnserializePartialTree_def SerializePartialTree_def uint32.dec_enc blob.dec_enc bits_roundtrip unat_of_nat)
qed

lemma disj_right: "(\<not> P \<Longrightarrow> Q) \<Longrightarrow> P \<or> Q"
  by blast

lemma build_bits: "length (fst (TraverseAndBuild Hash n k pos vTxid vMatch)) < 2 ^ Suc k"
proof (induction k arbitrary: pos)
  case (Suc k)
  have "length (fst (TraverseAndBuild Hash n k p vTxid vMatch)) + 1 \<le> 2 ^ Suc k" for p using Suc.IH [of p] by simp
  from this [of "U32 (pos * 2)"] this [of "U32 (pos * 2 + 1)"] show ?case
    by (simp add: Let_def split_beta)
qed simp

lemma small_height: "0 < n \<Longrightarrow> n \<le> 33333 \<Longrightarrow> height n \<le> 16"
  unfolding height_def by (rule Least_le) (simp add: width_def div_le_mono [of "n + 65535" 98868 65536, simplified])

section \<open>Properties\<close>

text \<open>C36: A partial tree that is built for a subset of the transactions of a block, sent and read back gives the Merkle root
  of the block, exactly the selected transactions and their positions, unless two strings hashed for the inner nodes of the
  tree collide. The number of transactions is the largest one the receiver accepts.\<close>

theorem partial_tree_roundtrip:
  assumes h: "\<forall>b. length (Hash b) = 32" "\<forall>x \<in> set txids. length x = 32"
    and n: "0 < length txids" "length txids \<le> 33333" and root: "ComputeMerkleRoot Hash txids = Some (root, False)"
  shows "collision Hash (hashed Hash txids) \<or> (\<exists>t. UnserializePartialTree (SerializePartialTree (CPartialMerkleTree_build Hash txids vMatch) @ s) = Inr (t, s)
    \<and> ExtractMatches Hash t [] = (root, map ((!) txids) (List.filter ((!) vMatch) [0..<length txids]),
        List.filter ((!) vMatch) [0..<length txids]))"
proof (rule disj_right)
  assume nc: "\<not> collision Hash (hashed Hash txids)"
  let ?n = "length txids" and ?k = "height (length txids)"
  have n': "?n \<le> 2147483648" using n(2) by simp
  note hp = height_props [OF n(1) n'] and th = tree_height_height [OF le0 n(1) n']
  have k16: "?k \<le> 16" by (rule small_height [OF n])
  then have "(2 :: nat) ^ ?k \<le> 2 ^ 16" by (intro power_increasing) simp_all
  then have pk: "(2 :: nat) ^ ?k \<le> 65536" by simp
  have r: "root = node Hash txids ?k 0" "\<not> (\<exists>c \<le> ?n. equal_pair Hash txids c)"
    using root ComputeMerkleRoot_node [OF n(1) n', of Hash] by auto
  obtain bs hs where b: "TraverseAndBuild Hash ?n ?k 0 txids vMatch = (bs, hs)" by fastforce
  define t where "t = CPartialMerkleTree_build Hash txids vMatch"
  have t: "t = \<lparr>nTransactions = ?n, vBits = bs, vHash = hs, fBad = False\<rparr>"
    using b th n' by (simp add: t_def CPartialMerkleTree_build_def U32_def)
  have w0: "0 < width ?n ?k" by (simp add: hp)
  have c: "length hs \<le> ?n" "length hs \<le> length bs"
    using build_counts [OF w0 n' hp(2), of Hash txids vMatch] b by (auto split: if_splits)
  have lb: "length bs < 131072" using build_bits [of Hash ?n ?k 0 txids vMatch] b pk by simp
  define t' where "t' = t\<lparr>vBits := bs @ replicate (8 * ((length bs + 7) div 8) - length bs) False\<rparr>"
  have "UnserializePartialTree (SerializePartialTree t @ s) = Inr (t', s)"
    using partial_tree_read_back [OF t_def _, of s] n' c(1) n(2) lb build_hashes_32 [OF h n' w0 hp(2), of vMatch] b
    by (simp add: t t'_def bits_to_bytes_def)
  moreover have "ExtractMatches Hash t' [] = (root, map ((!) txids) (List.filter ((!) vMatch) [0..<?n]), List.filter ((!) vMatch) [0..<?n])"
  proof -
    define e where "e = \<lparr>nBitsUsed = 0, nHashUsed = 0, ex_vMatch = [], ex_vnIndex = [], ex_bad = False\<rparr>"
    have tr: "TraverseAndExtract Hash t' ?k 0 e = (root, advanced txids (matched ?n vMatch ?k 0) (length bs) (length hs) e)"
      unfolding r(1) by (rule extract_built [OF _ n' unmutated_siblings_differ [OF nc h r(2) n(1) n'] w0 _ hp(2) b, of _ "[]" _ "[]" "[]"])
        (use pk in \<open>simp_all add: t'_def t e_def\<close>)
    have "?n \<le> 2 ^ ?k" using width_bounds(1) [of ?n ?k] by (simp add: hp)
    then have "matched ?n vMatch ?k 0 = List.filter ((!) vMatch) [0..<?n]" by (simp add: matched_def)
    moreover have "length hs \<le> 8 * ((length bs + 7) div 8)" by (rule le_trans [OF c(2)]) simp
    ultimately show ?thesis using n c tr th
      by (simp add: ExtractMatches_def t'_def t e_def [symmetric]) (simp add: e_def)
  qed
  ultimately show "\<exists>t. UnserializePartialTree (SerializePartialTree (CPartialMerkleTree_build Hash txids vMatch) @ s) = Inr (t, s)
    \<and> ExtractMatches Hash t [] = (root, map ((!) txids) (List.filter ((!) vMatch) [0..<?n]), List.filter ((!) vMatch) [0..<?n])"
    unfolding t_def by blast
qed

theorem partial_tree_roundtrip_witness:
  "(\<exists>t. UnserializePartialTree (SerializePartialTree
      (CPartialMerkleTree_build pad32 [replicate 32 1, replicate 32 2] [False, True]) @ [5]) = Inr (t, [5])
    \<and> ExtractMatches pad32 t [] = (pad32 (replicate 32 1 @ replicate 32 2), [replicate 32 2], [1]))"
  using partial_tree_roundtrip [OF _ _ _ _ two_leaves, of pad32 "replicate 32 1" "replicate 32 2" "[False, True]" "[5]"]
  by (simp add: replicate_eq_replicate upt_conv_Cons hashed_two collision_def)

abbreviation (input) start_extract :: "CPartialMerkleTree \<Rightarrow> extraction" where
  "start_extract t \<equiv> \<lparr>nBitsUsed = 0, nHashUsed = 0, ex_vMatch = [], ex_vnIndex = [], ex_bad = fBad t\<rparr>"

text \<open>C5: A partial tree from an untrusted peer cannot lie: if it claims the number of transactions of a block and the root that is
  extracted from it is the Merkle root of the block, then every extracted transaction is in the block at the
  stated position, unless two strings collide that are hashed for the block's tree or while the partial tree is evaluated.\<close>

theorem partial_tree_sound:
  assumes h: "\<forall>b. length (Hash b) = 32" "\<forall>x \<in> set txids. length x = 32" "\<forall>x \<in> set (vHash t). length x = 32"
    and n: "nTransactions t = length txids" and root: "ComputeMerkleRoot Hash txids = Some (root, mutated)" "root \<noteq> uint256_null"
    and ex: "ExtractMatches Hash t [] = (root, vMatch, vnIndex)"
  shows "collision Hash (hashed Hash txids \<union> extract_hashed Hash t (tree_height (length txids) 0) 0 (start_extract t))
    \<or> length vMatch = length vnIndex
    \<and> (\<forall>j < length vnIndex. vnIndex ! j < length txids \<and> vMatch ! j = txids ! (vnIndex ! j))"
proof (rule disj_right)
  let ?S = "hashed Hash txids \<union> extract_hashed Hash t (tree_height (length txids) 0) 0 (start_extract t)"
  assume nc: "\<not> collision Hash ?S"
  let ?k = "height (length txids)"
  define e where "e = \<lparr>nBitsUsed = 0, nHashUsed = 0, ex_vMatch = [], ex_vnIndex = [], ex_bad = fBad t\<rparr>"
  obtain hr e' where tr: "TraverseAndExtract Hash t (tree_height (length txids) 0) 0 e = (hr, e')" by fastforce
  have g: "0 < length txids" "length txids \<le> 33333" "\<not> ex_bad e'" "hr = root" "vMatch = ex_vMatch e'" "vnIndex = ex_vnIndex e'"
    using ex root(2) n tr by (auto simp: ExtractMatches_def Let_def e_def [symmetric] split: if_splits)
  have n': "length txids \<le> 2147483648" using g(2) by simp
  note hp = height_props [OF g(1) n']
  have "root = node Hash txids ?k 0" using root(1) ComputeMerkleRoot_node [OF g(1) n', of Hash] by auto
  moreover have "TraverseAndExtract Hash t ?k 0 e = (hr, e')" using tr tree_height_height [OF le0 g(1) n'] by simp
  ultimately have "matches_ok txids e'"
    using extract_sound [OF nc h n n', of ?k 0 e hr e'] hp g(3,4) tree_height_height [OF le0 g(1) n']
    by (simp add: e_def matches_ok_def)
  then show "length vMatch = length vnIndex \<and> (\<forall>j < length vnIndex. vnIndex ! j < length txids \<and> vMatch ! j = txids ! (vnIndex ! j))"
    by (simp add: matches_ok_def g)
qed

definition sample_tree :: CPartialMerkleTree where
  "sample_tree = \<lparr>nTransactions = 2, vBits = [True, True, False], vHash = [replicate 32 1, replicate 32 2], fBad = False\<rparr>"

theorem partial_tree_sound_witness:
  "ExtractMatches pad32 sample_tree [] = (replicate 32 1, [replicate 32 1], [0])
   \<and> [replicate 32 1] ! 0 = [replicate 32 1, replicate 32 2 :: uint256] ! ([0] ! 0)"
proof
  have "height 2 = 1" by (rule height_eq) (simp_all add: width_def)
  then have th: "tree_height 2 0 = 1" by (simp add: tree_height_height)
  then show ex: "ExtractMatches pad32 sample_tree [] = (replicate 32 1, [replicate 32 1], [0])"
    by (simp add: ExtractMatches_def sample_tree_def take_hash_def U32_def CalcTreeWidth_def replicate_eq_replicate pad32_def Let_def)
  have r: "ComputeMerkleRoot pad32 [replicate 32 1, replicate 32 2] = Some (replicate 32 1, False)"
    by (subst two_leaves) (simp_all add: replicate_eq_replicate pad32_def)
  have "extract_hashed pad32 sample_tree 1 0 (start_extract sample_tree) = {replicate 32 1 @ replicate 32 2}"
    by (simp add: sample_tree_def take_hash_def U32_def CalcTreeWidth_def Let_def)
  then show "[replicate 32 1] ! 0 = [replicate 32 1, replicate 32 2 :: uint256] ! ([0] ! 0)"
    using partial_tree_sound [OF _ _ _ _ r _ ex] th
    by (simp add: sample_tree_def uint256_null_def replicate_eq_replicate hashed_two collision_def numeral_2_eq_2)
qed

end
