(* ===== verification/MFC_CheckQueue.thy ===== *)
theory MFC_CheckQueue
  imports MFC_Prelude
begin

text \<open>
  The queue of script checks of \<^verbatim>\<open>src/src/checkqueue.h\<close>: a master adds checks and then waits, worker threads
  take batches from the back of the queue. Each thread is a value that says where it is in \<^verbatim>\<open>Loop\<close>; what runs
  under the mutex is one step, and so is the evaluation of one check. A thread that sleeps on a condition
  variable is woken by a notification, or spuriously. The step relation interleaves the threads freely.
\<close>

section \<open>The shared state and the threads\<close>

record 'c CCheckQueue =
  queue :: "'c list"
  nIdle :: int
  nTotal :: int
  fAllOk :: bool
  nTodo :: u32
  fQuit :: bool
  nBatchSize :: u32

datatype 'c thread =
    Outside
  | Entering u32 bool
  | Asleep
  | Awake
  | Working "'c list" bool u32
  | Returned bool

type_synonym 'c system = "'c CCheckQueue \<times> 'c thread list"

definition CCheckQueue_make :: "u32 \<Rightarrow> 'c CCheckQueue" where
  "CCheckQueue_make nBatchSizeIn =
     \<lparr>queue = [], nIdle = 0, nTotal = 0, fAllOk = True, nTodo = 0, fQuit = False, nBatchSize = nBatchSizeIn\<rparr>"

text \<open>The part of \<^verbatim>\<open>Loop\<close> under the mutex, from the comment that the loop logically starts there: return,
  wait, or take a batch.\<close>

definition batch_size :: "'c CCheckQueue \<Rightarrow> u32" where
  "batch_size q = max 1 (min (nBatchSize q) (of_nat (length (queue q)) div of_int (nTotal q + nIdle q + 1)))"

definition take_batch :: "bool \<Rightarrow> 'c CCheckQueue \<Rightarrow> 'c thread \<times> 'c CCheckQueue" where
  "take_batch fMaster q =
     (if queue q = [] then
        if (fMaster \<or> fQuit q) \<and> nTodo q = 0
        then (Returned (fAllOk q), q\<lparr>nTotal := nTotal q - 1, fAllOk := (if fMaster then True else fAllOk q)\<rparr>)
        else (Asleep, q\<lparr>nIdle := nIdle q + 1\<rparr>)
      else
        let nNow = batch_size q
        in (Working (take (unat nNow) (rev (queue q))) (fAllOk q) nNow,
            q\<lparr>queue := take (length (queue q) - unat nNow) (queue q)\<rparr>))"

text \<open>The clean-up at the head of the critical section; the first result tells whether the master is notified.\<close>

definition loop_head :: "bool \<Rightarrow> u32 \<Rightarrow> bool \<Rightarrow> 'c CCheckQueue \<Rightarrow> bool \<times> 'c CCheckQueue" where
  "loop_head fMaster nNow fOk q =
     (if nNow \<noteq> 0
      then let q = q\<lparr>fAllOk := (fAllOk q \<and> fOk), nTodo := nTodo q - nNow\<rparr> in (nTodo q = 0 \<and> \<not> fMaster, q)
      else (False, q\<lparr>nTotal := nTotal q + 1\<rparr>))"

definition wake :: "'c thread \<Rightarrow> 'c thread" where
  "wake t = (if t = Asleep then Awake else t)"

definition Add :: "'c list \<Rightarrow> 'c CCheckQueue \<Rightarrow> 'c CCheckQueue" where
  "Add vChecks q = q\<lparr>queue := queue q @ vChecks, nTodo := nTodo q + of_nat (length vChecks)\<rparr>"

definition IsIdle :: "'c CCheckQueue \<Rightarrow> bool" where
  "IsIdle q \<longleftrightarrow> nTotal q = nIdle q \<and> nTodo q = 0 \<and> fAllOk q"

section \<open>Steps\<close>

text \<open>The master is thread 0. These are the steps of the threads inside \<^verbatim>\<open>Loop\<close>.\<close>

inductive step :: "('c \<Rightarrow> bool) \<Rightarrow> 'c system \<Rightarrow> 'c system \<Rightarrow> bool" for run where
  enter: "i < length ts \<Longrightarrow> ts ! i = Entering nNow fOk \<Longrightarrow> loop_head (i = 0) nNow fOk q = (notify, q1) \<Longrightarrow>
     take_batch (i = 0) q1 = (t, q2) \<Longrightarrow>
     step run (q, ts) (q2, (if notify then ts[0 := wake (ts ! 0)] else ts)[i := t])"
| resume: "i < length ts \<Longrightarrow> ts ! i = Awake \<Longrightarrow> take_batch (i = 0) (q\<lparr>nIdle := nIdle q - 1\<rparr>) = (t, q2) \<Longrightarrow>
     step run (q, ts) (q2, ts[i := t])"
| check: "i < length ts \<Longrightarrow> ts ! i = Working (c # cs) fOk nNow \<Longrightarrow>
     step run (q, ts) (q, ts[i := Working cs (if fOk then run c else fOk) nNow])"
| checked: "i < length ts \<Longrightarrow> ts ! i = Working [] fOk nNow \<Longrightarrow> step run (q, ts) (q, ts[i := Entering nNow fOk])"

inductive_cases stepE: "step run s s'"

text \<open>The threads that a call of \<^verbatim>\<open>Add\<close> wakes: nobody for an empty batch, at most one worker for a single
  check, all sleeping workers otherwise.\<close>

inductive notified :: "nat \<Rightarrow> 'c thread list \<Rightarrow> 'c thread list \<Rightarrow> bool" where
  none: "notified 0 ts ts"
| one: "0 < i \<Longrightarrow> i < length ts \<Longrightarrow> ts ! i = Asleep \<Longrightarrow> notified 1 ts (ts[i := Awake])"
| nobody: "Asleep \<notin> set (tl ts) \<Longrightarrow> notified 1 ts ts"
| all: "n > 1 \<Longrightarrow> ts \<noteq> [] \<Longrightarrow> notified n ts (hd ts # map wake (tl ts))"

text \<open>
  The states of a program that uses the queue, with the checks added since the last wait. One round adds
  fewer than \<open>2 ^ 32\<close> checks, the range of \<^verbatim>\<open>nTodo\<close>.
\<close>

inductive reach :: "('c \<Rightarrow> bool) \<Rightarrow> 'c list \<Rightarrow> 'c system \<Rightarrow> bool" for run where
  create: "n > 0 \<Longrightarrow> reach run [] (CCheckQueue_make nBatchSizeIn, replicate n Outside)"
| thread: "reach run xs s \<Longrightarrow> step run s s' \<Longrightarrow> reach run xs s'"
| spurious: "reach run xs (q, ts) \<Longrightarrow> i < length ts \<Longrightarrow> ts ! i = Asleep \<Longrightarrow> reach run xs (q, ts[i := Awake])"
| start: "reach run xs (q, ts) \<Longrightarrow> i < length ts \<Longrightarrow> ts ! i = Outside \<Longrightarrow> reach run xs (q, ts[i := Entering 0 True])"
| add: "reach run xs (q, ts) \<Longrightarrow> ts ! 0 = Outside \<Longrightarrow> length xs + length vChecks < 2 ^ 32 \<Longrightarrow>
     notified (length vChecks) ts ts' \<Longrightarrow> reach run (xs @ vChecks) (Add vChecks q, ts')"
| leave: "reach run xs (q, ts) \<Longrightarrow> ts ! 0 = Returned r \<Longrightarrow> reach run [] (q, ts[0 := Outside])"

section \<open>Invariants\<close>

fun pending :: "'c thread \<Rightarrow> int" where
  "pending (Entering nNow fOk) = uint nNow"
| "pending (Working cs fOk nNow) = uint nNow"
| "pending t = 0"

fun inside :: "'c thread \<Rightarrow> int" where
  "inside (Entering nNow fOk) = of_bool (nNow \<noteq> 0)"
| "inside Asleep = 1"
| "inside Awake = 1"
| "inside (Working cs fOk nNow) = 1"
| "inside t = 0"

fun idle :: "'c thread \<Rightarrow> int" where
  "idle Asleep = 1"
| "idle Awake = 1"
| "idle t = 0"

fun has_work :: "'c thread \<Rightarrow> bool" where
  "has_work (Working cs fOk nNow) = (nNow \<noteq> 0)"
| "has_work t = True"

fun fine :: "('c \<Rightarrow> bool) \<Rightarrow> 'c thread \<Rightarrow> bool" where
  "fine run (Entering nNow fOk) = (nNow = 0 \<or> fOk)"
| "fine run (Working cs fOk nNow) = (fOk \<and> list_all run cs)"
| "fine run t = True"

definition tally :: "('c thread \<Rightarrow> int) \<Rightarrow> 'c thread list \<Rightarrow> int" where
  "tally f ts = sum_list (map f ts)"

definition todo :: "'c system \<Rightarrow> int" where
  "todo s = int (length (queue (fst s))) + tally pending (snd s)"

text \<open>What all outstanding checks will say.\<close>

definition verdict :: "('c \<Rightarrow> bool) \<Rightarrow> 'c system \<Rightarrow> bool" where
  "verdict run s \<longleftrightarrow> fAllOk (fst s) \<and> list_all run (queue (fst s)) \<and> list_all (fine run) (snd s)"

fun balanced :: "'c system \<Rightarrow> bool" where
  "balanced (q, ts) \<longleftrightarrow> nTodo q = of_int (todo (q, ts)) \<and> nTotal q = tally inside ts \<and> nIdle q = tally idle ts
     \<and> list_all has_work ts \<and> ts \<noteq> []"

fun master_ok :: "'c CCheckQueue \<Rightarrow> 'c thread \<Rightarrow> bool" where
  "master_ok q Asleep \<longleftrightarrow> queue q = [] \<and> nTodo q \<noteq> 0"
| "master_ok q (Returned r) \<longleftrightarrow> queue q = [] \<and> nTodo q = 0 \<and> fAllOk q"
| "master_ok q t \<longleftrightarrow> True"

lemma tally_update: "i < length ts \<Longrightarrow> tally f (ts[i := t]) = tally f ts + f t - f (ts ! i)"
proof (induction ts arbitrary: i)
  case (Cons a ts)
  then show ?case by (cases i) (auto simp: tally_def)
qed simp

lemma all_update:
  assumes "i < length ts"
  shows "list_all P (ts[i := t]) \<longleftrightarrow> P t \<and> (\<forall>j < length ts. j \<noteq> i \<longrightarrow> P (ts ! j))"
    "list_all P ts \<longleftrightarrow> P (ts ! i) \<and> (\<forall>j < length ts. j \<noteq> i \<longrightarrow> P (ts ! j))"
  using assms by (auto simp: list_all_length nth_list_update)

lemma batch_size_bounds:
  assumes "queue q \<noteq> []"
  shows "batch_size q \<noteq> 0" "unat (batch_size q) \<le> length (queue q)"
proof -
  have "1 \<le> batch_size q" by (simp add: batch_size_def)
  then show "batch_size q \<noteq> 0" by auto
  define d :: u32 where "d = of_nat (length (queue q)) div of_int (nTotal q + nIdle q + 1)"
  have "unat d \<le> unat (of_nat (length (queue q)) :: u32)" by (simp only: d_def unat_div_distrib div_le_dividend)
  also have "\<dots> \<le> length (queue q)" by (simp add: unat_of_nat)
  finally have "unat (min (nBatchSize q) d) \<le> length (queue q)" by (auto simp: min_def word_le_nat_alt)
  moreover have "1 \<le> length (queue q)" using assms by (cases "queue q") auto
  moreover have "batch_size q = max 1 (min (nBatchSize q) d)" by (simp only: batch_size_def d_def)
  moreover have "unat (max 1 x) \<le> n" if "unat x \<le> n" "1 \<le> n" for x :: u32 and n using that by (simp add: max_def)
  ultimately show "unat (batch_size q) \<le> length (queue q)" by metis
qed

lemma take_batch_cases:
  assumes "take_batch m q = (t, q')"
  obtains (leave) "queue q = []" "m \<or> fQuit q" "nTodo q = 0" "t = Returned (fAllOk q)"
      "q' = q\<lparr>nTotal := nTotal q - 1, fAllOk := (if m then True else fAllOk q)\<rparr>"
  | (sleep) "queue q = []" "m \<Longrightarrow> nTodo q \<noteq> 0" "t = Asleep" "q' = q\<lparr>nIdle := nIdle q + 1\<rparr>"
  | (batch) n xs ys where "n \<noteq> 0" "queue q = ys @ rev xs" "length xs = unat n" "t = Working xs (fAllOk q) n" "q' = q\<lparr>queue := ys\<rparr>"
proof (cases "queue q = []")
  case True
  show thesis
  proof (cases "(m \<or> fQuit q) \<and> nTodo q = 0")
    case t: True
    then show thesis using assms True by (intro that(1)) (auto simp: take_batch_def)
  next
    case False
    then show thesis using assms True by (intro that(2)) (auto simp: take_batch_def)
  qed
next
  case False
  let ?n = "unat (batch_size q)"
  have 1: "queue q = take (length (queue q) - ?n) (queue q) @ rev (take ?n (rev (queue q)))"
    by (simp add: take_rev)
  have 2: "length (take ?n (rev (queue q))) = ?n" using batch_size_bounds(2) [OF False] by simp
  have "t = Working (take ?n (rev (queue q))) (fAllOk q) (batch_size q)" "q' = q\<lparr>queue := take (length (queue q) - ?n) (queue q)\<rparr>"
    using assms False by (simp_all add: take_batch_def Let_def)
  then show thesis using that(3) [OF batch_size_bounds(1) [OF False] 1 2] by blast
qed

lemma take_batch_spec:
  assumes "take_batch m q = (t, q')"
  shows "nTotal q' = nTotal q - 1 + inside t" "nIdle q' = nIdle q + idle t" "nTodo q' = nTodo q"
    "int (length (queue q)) = int (length (queue q')) + pending t" "has_work t"
    "\<not> (m \<and> (\<exists>r. t = Returned r)) \<Longrightarrow>
       fAllOk q \<and> list_all run (queue q) \<longleftrightarrow> fAllOk q' \<and> list_all run (queue q') \<and> fine run t"
    "m \<Longrightarrow> master_ok q' t" "t = Returned r \<Longrightarrow> r = fAllOk q \<and> queue q = [] \<and> nTodo q = 0"
    "t \<noteq> Outside" "t \<noteq> Entering n ok" "t \<noteq> Awake" "t = Working cs ok n \<Longrightarrow> length cs = unat n"
  using assms by (cases rule: take_batch_cases; force)+

lemma loop_head_spec:
  assumes "loop_head m nNow fOk q = (notify, q')"
  shows "nTotal q' = nTotal q + 1 - of_bool (nNow \<noteq> 0)" "nIdle q' = nIdle q" "nTodo q' = nTodo q - nNow" "queue q' = queue q"
    "fAllOk q' \<longleftrightarrow> fAllOk q \<and> (nNow = 0 \<or> fOk)" "notify \<longleftrightarrow> nNow \<noteq> 0 \<and> nTodo q' = 0 \<and> \<not> m"
  using assms by (auto simp: loop_head_def Let_def split: if_splits)

lemma wake_simps [simp]:
  "pending (wake t) = pending t" "inside (wake t) = inside t" "idle (wake t) = idle t"
  "has_work (wake t) = has_work t" "fine run (wake t) = fine run t"
  by (simp_all add: wake_def)

definition notify_master :: "bool \<Rightarrow> 'c thread list \<Rightarrow> 'c thread list" where
  "notify_master notify ts = (if notify then ts[0 := wake (ts ! 0)] else ts)"

lemma notify_master_nth: "ts \<noteq> [] \<Longrightarrow> notify_master notify ts ! j = (if notify \<and> j = 0 then wake (ts ! j) else ts ! j)"
  by (auto simp: notify_master_def nth_list_update)

lemma notify_master_length [simp]: "length (notify_master notify ts) = length ts" "notify_master notify ts = [] \<longleftrightarrow> ts = []"
  by (simp_all add: notify_master_def)

lemma notify_master_tally:
  assumes "ts \<noteq> []" "\<And>t. f (wake t) = f t"
  shows "tally f (notify_master notify ts) = tally f ts"
  using assms by (simp add: notify_master_def tally_update)

lemma notify_master_all:
  assumes "ts \<noteq> []" "\<And>t. P (wake t) = P t"
  shows "list_all P (notify_master notify ts) \<longleftrightarrow> list_all P ts"
  using assms all_update [of 0 ts P] by (simp add: notify_master_def)

lemma step_cases:
  assumes "step run (q, ts) (q', ts')"
  obtains (enter) i nNow fOk notify q1 t where "i < length ts" "ts ! i = Entering nNow fOk"
      "loop_head (i = 0) nNow fOk q = (notify, q1)" "take_batch (i = 0) q1 = (t, q')" "ts' = (notify_master notify ts)[i := t]"
  | (resume) i t where "i < length ts" "ts ! i = Awake" "take_batch (i = 0) (q\<lparr>nIdle := nIdle q - 1\<rparr>) = (t, q')" "ts' = ts[i := t]"
  | (check) i c cs fOk nNow where "i < length ts" "ts ! i = Working (c # cs) fOk nNow" "q' = q"
      "ts' = ts[i := Working cs (if fOk then run c else fOk) nNow]"
  | (checked) i fOk nNow where "i < length ts" "ts ! i = Working [] fOk nNow" "q' = q" "ts' = ts[i := Entering nNow fOk]"
  using assms unfolding notify_master_def by (cases rule: step.cases) blast+

lemma balanced_step:
  assumes "balanced (q, ts)" "step run (q, ts) (q', ts')"
  shows "balanced (q', ts') \<and> todo (q', ts') \<le> todo (q, ts)"
  using assms(2)
proof (cases rule: step_cases)
  case (enter i nNow fOk notify q1 t)
  note h = loop_head_spec [OF enter(3)] and b = take_batch_spec [OF enter(4)]
  have n: "notify_master notify ts ! i = Entering nNow fOk" using enter(1-3) assms(1) h(6)
    by (auto simp: notify_master_nth wake_def)
  have u: "tally f ts' = tally f ts + f t - f (Entering nNow fOk)" if "\<And>t. f (wake t) = f t" for f
    using enter(1,5) n assms(1) that by (simp add: tally_update notify_master_tally)
  have "list_all has_work ts'"
    using enter(1,5) n assms(1) b(5) notify_master_all [of ts has_work notify] all_update [of i "notify_master notify ts" has_work]
    by auto
  moreover have "todo (q', ts') = todo (q, ts) - uint nNow" using h(4) b(4) u [of pending] by (simp add: todo_def)
  moreover have "nTodo q' = nTodo q - nNow" "nIdle q' = nIdle q + idle t" "ts' \<noteq> []"
    "nTotal q' = nTotal q - of_bool (nNow \<noteq> 0) + inside t" using h b(1-3) enter(5) assms(1) by simp_all
  ultimately show ?thesis using assms(1) u [of inside] u [of idle] by simp
next
  case (resume i t)
  note b = take_batch_spec [OF resume(3)]
  have "list_all has_work ts'" using resume(1,2,4) assms(1) b(5) all_update [of i ts has_work] by auto
  moreover have "todo (q', ts') = todo (q, ts)" using b(4) tally_update [OF resume(1)] resume(2,4) by (simp add: todo_def)
  ultimately show ?thesis using assms(1) b(1-3) tally_update [OF resume(1)] resume(2,4) by auto
next
  case (check i c cs fOk nNow)
  have "list_all has_work ts'" using check assms(1) all_update [of i ts has_work] by auto
  moreover have "todo (q', ts') = todo (q, ts)" using check by (simp add: todo_def tally_update)
  ultimately show ?thesis using assms(1) check by (auto simp: tally_update)
next
  case (checked i fOk nNow)
  have "list_all has_work ts'" "nNow \<noteq> 0" using checked assms(1) all_update [of i ts has_work] by auto
  moreover have "todo (q', ts') = todo (q, ts)" using checked by (simp add: todo_def tally_update)
  ultimately show ?thesis using assms(1) checked by (auto simp: tally_update)
qed

lemma empty_rest: "int (length xs) + k = 0 \<Longrightarrow> 0 \<le> k \<Longrightarrow> xs = []"
  by (cases xs) auto

lemma pending_nonneg: "0 \<le> pending (t :: 'a thread)" "0 \<le> tally pending (ts :: 'a thread list)"
proof -
  show p: "0 \<le> pending t" for t :: "'a thread" by (cases t) auto
  show "0 \<le> tally pending ts" using p by (auto simp: tally_def intro!: sum_list_nonneg)
qed

lemma todo_nonneg: "0 \<le> todo s"
  using pending_nonneg(2) [of "snd s"] by (simp add: todo_def)

lemma nTodo_zero:
  assumes "balanced (q, ts)" "todo (q, ts) < 2 ^ 32"
  shows "nTodo q = 0 \<longleftrightarrow> todo (q, ts) = 0"
proof -
  have "uint (nTodo q) = todo (q, ts)" using assms todo_nonneg [of "(q, ts)"] by (simp add: uint_word_of_int)
  then show ?thesis by (metis uint_0_iff)
qed

lemma quiet:
  assumes "balanced (q, ts)" "todo (q, ts) = 0"
  shows "queue q = []" "\<And>t. t \<in> set ts \<Longrightarrow> pending t = 0" "list_all (fine run) ts" "nTotal q = nIdle q"
proof -
  show "queue q = []" using assms(2) pending_nonneg(2) [of ts] by (auto simp: todo_def intro: empty_rest)
  then have "tally pending ts = 0" using assms(2) by (simp add: todo_def)
  then show p: "pending t = 0" if "t \<in> set ts" for t
    using that sum_list_nonneg_eq_0_iff [of "map pending ts"] pending_nonneg(1) by (auto simp: tally_def)
  have f: "fine run t" "inside t = idle t" if "t \<in> set ts" for t
    using p [OF that] assms(1) that by (cases t; force simp: list_all_iff uint_0_iff)+
  then show "list_all (fine run) ts" by (simp add: list_all_iff)
  have "tally inside ts = tally idle ts" using f(2) by (auto simp: tally_def intro: arg_cong [of _ _ sum_list])
  then show "nTotal q = nIdle q" using assms(1) by simp
qed

lemma master_step:
  assumes "balanced (q, ts)" "todo (q, ts) < 2 ^ 32" "step run (q, ts) (q', ts')" "master_ok q (ts ! 0)"
  shows "master_ok q' (ts' ! 0)"
  using assms(3)
proof (cases rule: step_cases)
  case (enter i nNow fOk notify q1 t)
  note h = loop_head_spec [OF enter(3)] and b = take_batch_spec [OF enter(4)]
  show ?thesis
  proof (cases "i = 0")
    case True
    then show ?thesis using b(7) enter(1,5) by simp
  next
    case i: False
    then have m: "ts' ! 0 = (if notify then wake (ts ! 0) else ts ! 0)"
      using enter(1,5) assms(1) by (simp add: notify_master_nth)
    show ?thesis
    proof (cases "ts ! 0")
      case Asleep
      then have e: "queue q' = []" using assms(4) h(4) b(4) pending_nonneg(1) [of t] by (auto intro: empty_rest)
      show ?thesis using m Asleep assms(4) h i b(3) e by (cases notify) (auto simp: wake_def)
    next
      case (Returned r)
      then have z: "todo (q, ts) = 0" "queue q = []" "nTodo q = 0" "fAllOk q" using assms(4) nTodo_zero [OF assms(1,2)] by auto
      have "nNow = 0" using quiet(2) [OF assms(1) z(1) nth_mem [OF enter(1)]] enter(2) by (simp add: uint_0_iff)
      with enter(4) show ?thesis using m Returned z h i by (cases rule: take_batch_cases) auto
    qed (use m in \<open>auto simp: wake_def split: if_splits\<close>)
  qed
next
  case (resume i t)
  note b = take_batch_spec [OF resume(3)]
  show ?thesis
  proof (cases "i = 0")
    case False
    then have "ts' ! 0 = ts ! 0" using resume by simp
    with resume(3) show ?thesis using assms(4) False by (cases rule: take_batch_cases; cases "ts ! 0") auto
  qed (use b(7) resume in simp)
next
  case (check i c cs fOk nNow)
  then show ?thesis using assms(4) by (cases "i = 0") auto
next
  case (checked i fOk nNow)
  then show ?thesis using assms(4) by (cases "i = 0") auto
qed

lemma verdict_step:
  assumes "balanced (q, ts)" "todo (q, ts) < 2 ^ 32" "step run (q, ts) (q', ts')" "\<nexists>r. ts' ! 0 = Returned r"
  shows "verdict run (q', ts') \<longleftrightarrow> verdict run (q, ts)"
  using assms(3)
proof (cases rule: step_cases)
  case (enter i nNow fOk notify q1 t)
  note h = loop_head_spec [OF enter(3)]
  let ?ts = "notify_master notify ts"
  have n: "?ts ! i = Entering nNow fOk" using enter(1-3) assms(1) h(6) by (auto simp: notify_master_nth wake_def)
  have "\<not> (i = 0 \<and> (\<exists>r. t = Returned r))" using assms(1,4) enter(1,5) by auto
  then have "fAllOk q1 \<and> list_all run (queue q1) \<longleftrightarrow> fAllOk q' \<and> list_all run (queue q') \<and> fine run t"
    using take_batch_spec(6) [OF enter(4)] by blast
  then show ?thesis using h(4,5) all_update [of i ?ts "fine run"] n enter(1,5) assms(1)
      notify_master_all [of ts "fine run" notify] by (auto simp: verdict_def)
next
  case (resume i t)
  have "\<not> (i = 0 \<and> (\<exists>r. t = Returned r))" using assms(1,4) resume by auto
  then have "fAllOk q \<and> list_all run (queue q) \<longleftrightarrow> fAllOk q' \<and> list_all run (queue q') \<and> fine run t"
    using take_batch_spec(6) [OF resume(3), of run] by auto
  then show ?thesis using all_update [of i ts "fine run"] resume by (auto simp: verdict_def)
next
  case (check i c cs fOk nNow)
  then show ?thesis using all_update [of i ts "fine run"] by (auto simp: verdict_def)
next
  case (checked i fOk nNow)
  then have "nNow \<noteq> 0" using assms(1) all_update(2) [of i ts has_work] by auto
  then show ?thesis using checked all_update [of i ts "fine run"] by (auto simp: verdict_def)
qed

text \<open>When the call of the master returns, everything is done.\<close>

lemma return_step:
  assumes "balanced (q, ts)" "todo (q, ts) < 2 ^ 32" "step run (q, ts) (q', ts')" "ts' ! 0 = Returned r" "\<nexists>r. ts ! 0 = Returned r"
  shows "r \<longleftrightarrow> verdict run (q, ts)"
proof -
  have b': "balanced (q', ts')" "todo (q', ts') < 2 ^ 32" using balanced_step [OF assms(1,3)] assms(2) by auto
  from assms(3) show ?thesis
  proof (cases rule: step_cases)
    case (enter i nNow fOk notify q1 t)
    note h = loop_head_spec [OF enter(3)] and b = take_batch_spec [OF enter(4)]
    let ?ts = "notify_master notify ts"
    have n: "?ts ! i = Entering nNow fOk" using enter(1-3) assms(1) h(6) by (auto simp: notify_master_nth wake_def)
    have i: "i = 0" using enter(1,5) assms(1,4,5) by (cases "i = 0") (auto simp: notify_master_nth wake_def split: if_splits)
    then have r: "t = Returned r" using enter(1,5) assms(4) by simp
    then have z: "r = fAllOk q1" "queue q1 = []" "todo (q', ts') = 0"
      using b(3) b(8) [OF r] nTodo_zero [OF b'] by auto
    have "list_all (fine run) ts'" by (rule quiet(3) [OF b'(1) z(3)])
    then show ?thesis using z h(4,5) all_update [of i ?ts "fine run"] n enter(1,5) assms(1)
        notify_master_all [of ts "fine run" notify] by (auto simp: verdict_def)
  next
    case (resume i t)
    have i: "i = 0" using resume assms(4,5) by (cases "i = 0") auto
    then have r: "t = Returned r" using resume assms(4) by simp
    then have z: "r = fAllOk q" "queue q = []" "todo (q', ts') = 0"
      using take_batch_spec(3) [OF resume(3)] take_batch_spec(8) [OF resume(3) r] nTodo_zero [OF b'] by auto
    have "list_all (fine run) ts'" by (rule quiet(3) [OF b'(1) z(3)])
    then show ?thesis using z all_update [of i ts "fine run"] resume by (auto simp: verdict_def)
  next
    case (check i c cs fOk nNow)
    then show ?thesis using assms(4,5) by (cases "i = 0") auto
  next
    case (checked i fOk nNow)
    then show ?thesis using assms(4,5) by (cases "i = 0") auto
  qed
qed

text \<open>The invariant of a program that uses the queue.\<close>

definition answered :: "('c \<Rightarrow> bool) \<Rightarrow> 'c list \<Rightarrow> 'c system \<Rightarrow> bool" where
  "answered run xs s \<longleftrightarrow> (case snd s ! 0 of Returned r \<Rightarrow> r = list_all run xs | _ \<Rightarrow> verdict run s = list_all run xs)"

fun queue_inv :: "('c \<Rightarrow> bool) \<Rightarrow> 'c list \<Rightarrow> 'c system \<Rightarrow> bool" where
  "queue_inv run xs (q, ts) \<longleftrightarrow> balanced (q, ts) \<and> todo (q, ts) \<le> int (length xs) \<and> length xs < 2 ^ 32
     \<and> master_ok q (ts ! 0) \<and> answered run xs (q, ts)"

lemma answered_cases:
  "(\<nexists>r. snd s ! 0 = Returned r) \<Longrightarrow> answered run xs s \<longleftrightarrow> (verdict run s \<longleftrightarrow> list_all run xs)"
  "snd s ! 0 = Returned r \<Longrightarrow> answered run xs s \<longleftrightarrow> (r \<longleftrightarrow> list_all run xs)"
  by (cases "snd s ! 0"; simp add: answered_def)+

lemma returned_stays:
  "balanced (q, ts) \<Longrightarrow> step run (q, ts) (q', ts') \<Longrightarrow> ts ! 0 = Returned r \<Longrightarrow> ts' ! 0 = Returned r"
  by (cases rule: step_cases)
    (auto simp: nth_list_update notify_master_nth wake_def split: if_splits intro!: gr0I)

lemma queue_inv_step:
  assumes "queue_inv run xs (q, ts)" "step run (q, ts) (q', ts')"
  shows "queue_inv run xs (q', ts')"
proof -
  have b: "balanced (q, ts)" "todo (q, ts) < 2 ^ 32" "master_ok q (ts ! 0)" "answered run xs (q, ts)" using assms(1) by auto
  note s = balanced_step [OF b(1) assms(2)] and m = master_step [OF b(1,2) assms(2) b(3)]
  have "answered run xs (q', ts')"
  proof (cases "\<exists>r. ts' ! 0 = Returned r")
    case True
    then obtain r where r: "ts' ! 0 = Returned r" by blast
    show ?thesis
    proof (cases "\<exists>r. ts ! 0 = Returned r")
      case True
      then show ?thesis using returned_stays [OF b(1) assms(2)] b(4) by (auto simp: answered_cases(2))
    next
      case False
      then show ?thesis using return_step [OF b(1,2) assms(2) r] b(4) r by (simp add: answered_cases)
    qed
  next
    case False
    then have "\<nexists>r. ts ! 0 = Returned r" using returned_stays [OF b(1) assms(2)] by blast
    then show ?thesis using verdict_step [OF b(1,2) assms(2) False] b(4) False by (simp add: answered_cases(1))
  qed
  then show ?thesis using s m assms(1) by auto
qed

lemma same_tally: "list_all2 (\<lambda>t t'. f t' = f t) ts ts' \<Longrightarrow> tally f ts' = tally f ts"
  by (induction rule: list_all2_induct) (auto simp: tally_def)

lemma same_all: "list_all2 (\<lambda>t t'. P t' = P t) ts ts' \<Longrightarrow> list_all P ts' = list_all P ts"
  by (induction rule: list_all2_induct) auto

text \<open>Waking threads changes nothing that the counters see.\<close>

definition woken :: "'c thread list \<Rightarrow> 'c thread list \<Rightarrow> bool" where
  "woken ts ts' \<longleftrightarrow> list_all2 (\<lambda>t t'. t' = t \<or> t' = wake t) ts ts'"

lemma woken_rel:
  assumes "woken ts ts'" "\<And>t. f (wake t) = f t"
  shows "list_all2 (\<lambda>t t'. f t' = f t) ts ts'"
  using assms(1) unfolding woken_def by (rule list_all2_mono) (use assms(2) in auto)

lemma woken_same:
  assumes "woken ts ts'"
  shows "tally pending ts' = tally pending ts" "tally inside ts' = tally inside ts" "tally idle ts' = tally idle ts"
    "list_all has_work ts' = list_all has_work ts" "list_all (fine run) ts' = list_all (fine run) ts"
    "ts' = [] \<longleftrightarrow> ts = []"
  using assms by (auto intro!: same_tally same_all woken_rel simp: woken_def)

lemma woken_one: "i < length ts \<Longrightarrow> ts ! i = Asleep \<Longrightarrow> woken ts (ts[i := Awake])"
  by (auto simp: woken_def list_all2_conv_all_nth nth_list_update wake_def)

lemma notified_woken:
  assumes "notified n ts ts'" "ts \<noteq> []"
  shows "woken ts ts' \<and> ts' ! 0 = ts ! 0"
  using assms
proof (cases rule: notified.cases)
  case all
  then show ?thesis by (cases ts) (auto simp: woken_def list_all2_map2 intro: list.rel_refl)
next
  case (one i)
  then show ?thesis using woken_one [of i ts] by simp
qed (auto simp: woken_def list_all2_conv_all_nth)

lemma queue_inv_woken:
  assumes "queue_inv run xs (q, ts)" "woken ts ts'" "master_ok q (ts' ! 0)" "\<And>r. ts' ! 0 = Returned r \<longleftrightarrow> ts ! 0 = Returned r"
  shows "queue_inv run xs (q, ts')"
proof -
  note w = woken_same [OF assms(2)]
  have t: "todo (q, ts') = todo (q, ts)" by (simp add: todo_def w)
  have "verdict run (q, ts') \<longleftrightarrow> verdict run (q, ts)" by (simp add: verdict_def w)
  then have "answered run xs (q, ts')" using assms(1,4)
    by (cases "\<exists>r. ts ! 0 = Returned r") (auto simp: answered_cases)
  then show ?thesis using assms(1,3) by (simp add: t w)
qed

lemma queue_inv_add:
  assumes "queue_inv run xs (q, ts)" "ts ! 0 = Outside" "length xs + length vChecks < 2 ^ 32"
  shows "queue_inv run (xs @ vChecks) (Add vChecks q, ts)"
proof -
  have "todo (Add vChecks q, ts) = todo (q, ts) + int (length vChecks)" by (simp add: todo_def Add_def)
  moreover have "verdict run (Add vChecks q, ts) \<longleftrightarrow> verdict run (q, ts) \<and> list_all run vChecks"
    by (auto simp: verdict_def Add_def)
  ultimately show ?thesis using assms by (auto simp: Add_def answered_cases(1))
qed

lemma queue_inv_replace:
  assumes "queue_inv run xs (q, ts)" "i < length ts" "ts ! i = Outside"
  shows "queue_inv run xs (q, ts[i := Entering 0 True])"
proof -
  have a: "list_all P (ts[i := Entering 0 True]) \<longleftrightarrow> list_all P ts" if "P Outside" "P (Entering 0 True)" for P
    using all_update [OF assms(2), of P] assms(3) that by auto
  have t: "todo (q, ts[i := Entering 0 True]) = todo (q, ts)" using assms(2,3) by (simp add: todo_def tally_update)
  have v: "verdict run (q, ts[i := Entering 0 True]) = verdict run (q, ts)" by (simp add: verdict_def a)
  have "answered run xs (q, ts[i := Entering 0 True])"
    using assms v by (cases "i = 0"; cases "\<exists>r. ts ! 0 = Returned r") (auto simp: answered_cases)
  moreover have "master_ok q (ts[i := Entering 0 True] ! 0)" using assms by (cases "i = 0") auto
  ultimately show ?thesis using assms by (simp add: t a tally_update)
qed

lemma queue_inv_leave:
  assumes "queue_inv run xs (q, ts)" "ts ! 0 = Returned r"
  shows "queue_inv run [] (q, ts[0 := Outside])"
proof -
  have b: "balanced (q, ts)" "queue q = []" "fAllOk q" "ts \<noteq> []" using assms by auto
  have "todo (q, ts) < 2 ^ 32" using assms(1) by auto
  then have z: "todo (q, ts) = 0" using assms nTodo_zero [OF b(1)] by simp
  have a: "list_all P (ts[0 := Outside]) \<longleftrightarrow> list_all P ts" if "P Outside" "P (Returned r)" for P
    using all_update [of 0 ts P] b(4) assms(2) that by auto
  have "todo (q, ts[0 := Outside]) = 0" using z b(4) assms(2) by (simp add: todo_def tally_update)
  moreover have "verdict run (q, ts[0 := Outside])" using quiet(3) [OF b(1) z] b a by (simp add: verdict_def)
  ultimately show ?thesis using assms b z by (simp add: a tally_update answered_cases(1))
qed

lemma reach_inv: "reach run xs s \<Longrightarrow> queue_inv run xs s"
proof (induction rule: reach.induct)
  case (create n nBatchSizeIn)
  have "tally f (replicate n Outside) = int n * f Outside" for f :: "'a thread \<Rightarrow> int" by (simp add: tally_def sum_list_replicate)
  then show ?case using create by (simp add: todo_def verdict_def CCheckQueue_make_def answered_cases(1) list_all_iff)
next
  case (thread xs s s')
  then show ?case by (cases s; cases s') (auto intro: queue_inv_step simp del: queue_inv.simps)
next
  case (spurious xs q ts i)
  have "master_ok q (ts[i := Awake] ! 0)" using spurious by (cases "i = 0") auto
  moreover have "ts[i := Awake] ! 0 = Returned r \<longleftrightarrow> ts ! 0 = Returned r" for r using spurious by (cases "i = 0") auto
  ultimately show ?case by (intro queue_inv_woken [OF spurious.IH woken_one [OF spurious.hyps(2,3)]])
next
  case (add xs q ts vChecks ts')
  have a: "queue_inv run (xs @ vChecks) (Add vChecks q, ts)" by (rule queue_inv_add [OF add.IH add.hyps(2,3)])
  have n: "woken ts ts'" "ts' ! 0 = ts ! 0" using notified_woken [OF add.hyps(4)] add.IH by auto
  show ?case using a by (intro queue_inv_woken [OF a n(1)]) (auto simp: n(2))
qed (auto intro: queue_inv_replace queue_inv_leave simp del: queue_inv.simps)

section \<open>Progress\<close>

text \<open>Every step of a thread makes this measure smaller, so the threads cannot run forever between two
  events from outside.\<close>

fun effort :: "'c thread \<Rightarrow> int" where
  "effort (Entering nNow fOk) = 2"
| "effort Awake = 1"
| "effort (Working cs fOk nNow) = int (length cs) + 3"
| "effort t = 0"

definition remaining :: "'c system \<Rightarrow> int" where
  "remaining s = 5 * int (length (queue (fst s))) + tally effort (snd s)"

lemma remaining_nonneg: "0 \<le> remaining s"
proof -
  have "0 \<le> effort t" for t :: "'a thread" by (cases t) auto
  then have "0 \<le> tally effort (snd s)" by (auto simp: tally_def intro!: sum_list_nonneg)
  then show ?thesis by (simp add: remaining_def)
qed

lemma take_batch_effort:
  assumes "take_batch m q = (t, q')"
  shows "5 * int (length (queue q')) + effort t \<le> 5 * int (length (queue q)) \<and> (queue q \<noteq> [] \<longrightarrow> 5 * int (length (queue q')) + effort t < 5 * int (length (queue q)))"
  using assms
proof (cases rule: take_batch_cases)
  case (batch n xs ys)
  then have "xs \<noteq> []" using unat_gt_0 [of n] by auto
  then show ?thesis using batch(2,4,5) by (cases xs) auto
qed auto

lemma effort_notify: "ts \<noteq> [] \<Longrightarrow> tally effort (notify_master notify ts) \<le> tally effort ts + 1"
  by (auto simp: notify_master_def tally_update wake_def)

lemma remaining_step:
  assumes "step run (q, ts) (q', ts')" "ts \<noteq> []"
  shows "remaining (q', ts') < remaining (q, ts)"
  using assms(1)
proof (cases rule: step_cases)
  case (enter i nNow fOk notify q1 t)
  note h = loop_head_spec [OF enter(3)]
  have n: "notify_master notify ts ! i = Entering nNow fOk" using enter(1-3) assms(2) h(6)
    by (auto simp: notify_master_nth wake_def)
  have "tally effort ts' \<le> tally effort ts + 1 + effort t - 2"
    using effort_notify [OF assms(2), of notify] enter(1,5) n by (simp add: tally_update)
  then show ?thesis using take_batch_effort [OF enter(4)] h(4) by (simp add: remaining_def)
next
  case (resume i t)
  then show ?thesis using take_batch_effort [OF resume(3)] by (simp add: remaining_def tally_update)
qed (auto simp: remaining_def tally_update)

lemma step_length: "step run (q, ts) (q', ts') \<Longrightarrow> length ts' = length ts"
  by (cases rule: step_cases) auto

lemma no_infinite_run:
  assumes "\<And>i. step run (f i) (f (Suc i))" "snd (f 0) \<noteq> []"
  shows False
proof -
  have ne: "snd (f i) \<noteq> []" for i
  proof (induction i)
    case (Suc i)
    then show ?case using step_length assms(1) [of i] by (cases "f i"; cases "f (Suc i)") fastforce
  qed (rule assms(2))
  have "remaining (f i) + int i \<le> remaining (f 0)" for i
  proof (induction i)
    case (Suc i)
    have "remaining (f (Suc i)) < remaining (f i)"
      using remaining_step assms(1) [of i] ne [of i] by (cases "f i"; cases "f (Suc i)") fastforce
    then show ?case using Suc by simp
  qed simp
  from this [of "nat (remaining (f 0)) + 1"] show False
    using remaining_nonneg [of "f (nat (remaining (f 0)) + 1)"] remaining_nonneg [of "f 0"] by simp
qed

lemma busy_steps:
  assumes "i < length ts" "ts ! i \<noteq> Outside" "ts ! i \<noteq> Asleep" "\<nexists>r. ts ! i = Returned r"
  shows "\<exists>s'. step run (q, ts) s'"
proof (cases "ts ! i")
  case (Entering n ok)
  obtain b q1 t q2 where "loop_head (i = 0) n ok q = (b, q1)" "take_batch (i = 0) q1 = (t, q2)" by fastforce
  then show ?thesis using step.enter [OF assms(1) Entering] by blast
next
  case Awake
  obtain t q2 where "take_batch (i = 0) (q\<lparr>nIdle := nIdle q - 1\<rparr>) = (t, q2)" by fastforce
  then show ?thesis using step.resume [OF assms(1) Awake] by blast
next
  case (Working cs ok n)
  then show ?thesis using step.check [OF assms(1)] step.checked [OF assms(1)] by (cases cs) blast+
qed (use assms in auto)

text \<open>While the master is inside \<^verbatim>\<open>Wait\<close>, some thread can move.\<close>

lemma never_stuck:
  assumes "queue_inv run xs (q, ts)" "ts ! 0 \<noteq> Outside" "\<nexists>r. ts ! 0 = Returned r"
  shows "\<exists>s'. step run (q, ts) s'"
proof (cases "ts ! 0 = Asleep")
  case True
  then have z: "queue q = []" "nTodo q \<noteq> 0" and b: "balanced (q, ts)" using assms(1) by auto
  then have "tally pending ts \<noteq> 0" by (auto simp: todo_def)
  then obtain t where t: "t \<in> set ts" "pending t \<noteq> 0"
    using sum_list_nonneg_eq_0_iff [of "map pending ts"] pending_nonneg(1) by (auto simp: tally_def)
  then obtain i where "i < length ts" "ts ! i = t" by (auto simp: in_set_conv_nth)
  moreover have "t \<noteq> Outside" "t \<noteq> Asleep" "\<nexists>r. t = Returned r" using t(2) by auto
  ultimately show ?thesis using busy_steps by blast
next
  case False
  have "0 < length ts" using assms(1) by auto
  then show ?thesis using busy_steps False assms(2,3) by blast
qed

lemma stays_inside:
  assumes "step run (q, ts) (q', ts')" "ts ! 0 \<noteq> Outside"
  shows "ts' ! 0 \<noteq> Outside"
  using assms(1)
proof (cases rule: step_cases)
  case (enter i nNow fOk notify q1 t)
  then have "ts \<noteq> []" by auto
  then show ?thesis using take_batch_spec(9) [OF enter(4)] assms(2) enter(1,5)
    by (auto simp: nth_list_update notify_master_nth wake_def)
next
  case (resume i t)
  then show ?thesis using take_batch_spec(9) [OF resume(3)] assms(2) by (auto simp: nth_list_update)
qed (use assms(2) in \<open>auto simp: nth_list_update\<close>)

lemma finishes:
  assumes "queue_inv run xs (q, ts)" "ts ! 0 \<noteq> Outside"
  shows "\<exists>q' ts' r. (step run)\<^sup>*\<^sup>* (q, ts) (q', ts') \<and> ts' ! 0 = Returned r"
  using assms
proof (induction "nat (remaining (q, ts))" arbitrary: q ts rule: less_induct)
  case less
  show ?case
  proof (cases "\<exists>r. ts ! 0 = Returned r")
    case False
    obtain q1 ts1 where s: "step run (q, ts) (q1, ts1)" using never_stuck [OF less.prems False] by auto
    have "ts \<noteq> []" using less.prems(1) by auto
    then have "remaining (q1, ts1) < remaining (q, ts)" by (rule remaining_step [OF s])
    then have m: "nat (remaining (q1, ts1)) < nat (remaining (q, ts))" using remaining_nonneg [of "(q1, ts1)"] by simp
    show ?thesis using less.hyps [OF m queue_inv_step [OF less.prems(1) s] stays_inside [OF s less.prems(2)]] s
      by (meson converse_rtranclp_into_rtranclp)
  qed blast
qed

section \<open>A run\<close>

text \<open>The step of one thread as a function, to follow a schedule.\<close>

definition advance :: "('c \<Rightarrow> bool) \<Rightarrow> nat \<Rightarrow> 'c system \<Rightarrow> 'c system option" where
  "advance run i s =
     (let (q, ts) = s in
      if i \<ge> length ts then None
      else case ts ! i of
        Entering nNow fOk \<Rightarrow>
          (let (notify, q1) = loop_head (i = 0) nNow fOk q; (t, q2) = take_batch (i = 0) q1
           in Some (q2, (if notify then ts[0 := wake (ts ! 0)] else ts)[i := t]))
      | Awake \<Rightarrow> (let (t, q2) = take_batch (i = 0) (q\<lparr>nIdle := nIdle q - 1\<rparr>) in Some (q2, ts[i := t]))
      | Working [] fOk nNow \<Rightarrow> Some (q, ts[i := Entering nNow fOk])
      | Working (c # cs) fOk nNow \<Rightarrow> Some (q, ts[i := Working cs (if fOk then run c else fOk) nNow])
      | _ \<Rightarrow> None)"

lemma advance_step: "advance run i s = Some s' \<Longrightarrow> step run s s'"
proof -
  assume a: "advance run i s = Some s'"
  obtain q ts where s: "s = (q, ts)" by (cases s)
  have l: "i < length ts" using a by (auto simp: advance_def s split: if_splits)
  show "step run s s'"
  proof (cases "ts ! i")
    case (Entering nNow fOk)
    obtain notify q1 t q2 where h: "loop_head (i = 0) nNow fOk q = (notify, q1)" "take_batch (i = 0) q1 = (t, q2)" by fastforce
    then show ?thesis using a step.enter [OF l Entering h] l Entering by (simp add: advance_def s)
  next
    case Awake
    obtain t q2 where h: "take_batch (i = 0) (q\<lparr>nIdle := nIdle q - 1\<rparr>) = (t, q2)" by fastforce
    then show ?thesis using a step.resume [OF l Awake h] l Awake by (simp add: advance_def s)
  next
    case (Working cs fOk nNow)
    then show ?thesis using a l step.check [OF l, of _ _ fOk nNow run q] step.checked [OF l, of fOk nNow run q]
      by (cases cs) (auto simp: advance_def s)
  qed (use a l in \<open>auto simp: advance_def s\<close>)
qed

fun schedule :: "('c \<Rightarrow> bool) \<Rightarrow> nat list \<Rightarrow> 'c system \<Rightarrow> 'c system option" where
  "schedule run [] s = Some s"
| "schedule run (i # is) s = Option.bind (advance run i s) (schedule run is)"

lemma schedule_reach: "reach run xs s \<Longrightarrow> schedule run is s = Some s' \<Longrightarrow> reach run xs s'"
proof (induction "is" arbitrary: s)
  case (Cons i "is")
  then obtain s1 where "advance run i s = Some s1" "schedule run is s1 = Some s'" by (auto split: bind_splits)
  then show ?case using Cons.IH reach.thread [OF Cons.prems(1) advance_step] by blast
qed simp

definition toy_queue :: "bool system" where
  "toy_queue = (Add [True, False] (CCheckQueue_make 4), [Entering 0 True, Entering 0 True])"

lemma toy_reach: "reach id [True, False] toy_queue"
proof -
  have "replicate 2 Outside = [Outside, Outside :: bool thread]" by (simp add: numeral_2_eq_2)
  then have r: "reach id [] (CCheckQueue_make 4 :: bool CCheckQueue, [Outside, Outside])"
    using reach.create [of 2 id 4] by simp
  have n: "notified (length [True, False]) [Outside, Outside :: bool thread] [Outside, Outside]"
    using notified.all [of "length [True, False]" "[Outside, Outside :: bool thread]"] by (simp add: wake_def)
  have "reach id [True, False] (Add [True, False] (CCheckQueue_make 4), [Outside, Outside])"
    using reach.add [OF r _ _ n] by simp
  from reach.start [OF this, of 0] have "reach id [True, False] (Add [True, False] (CCheckQueue_make 4), [Entering 0 True, Outside])" by simp
  from reach.start [OF this, of 1] show ?thesis by (simp add: toy_queue_def)
qed

lemma toy_schedule: "schedule id [0, 1, 0, 1, 0, 0, 1, 1, 0] toy_queue =
   Some (\<lparr>queue = [], nIdle = 1, nTotal = 1, fAllOk = True, nTodo = 0, fQuit = False, nBatchSize = 4\<rparr>, [Returned False, Asleep])"
  by code_simp

section \<open>What the queue promises\<close>

text \<open>C37: the verdict of the queue. However the threads interleave, when a round of checks was added and the call of
  \<^verbatim>\<open>Wait\<close> returns, it returns true exactly when every check of the round holds, and the queue is idle again, so the
  assertion at the start of the next round holds.\<close>

theorem check_queue_verdict:
  assumes "reach run xs (q, ts)" "ts ! 0 = Returned r"
  shows "r = list_all run xs \<and> IsIdle q"
proof -
  have i: "queue_inv run xs (q, ts)" by (rule reach_inv [OF assms(1)])
  then have "todo (q, ts) < 2 ^ 32" by auto
  then have "todo (q, ts) = 0" using i assms(2) nTodo_zero [of q ts] by auto
  then show ?thesis using i assms(2) quiet(4) [of q ts] by (auto simp: answered_cases(2) IsIdle_def)
qed

theorem check_queue_verdict_witness:
  "\<exists>q. reach id [True, False] (q, [Returned False, Asleep]) \<and> IsIdle q"
  using check_queue_verdict [OF schedule_reach [OF toy_reach toy_schedule]] schedule_reach [OF toy_reach toy_schedule]
  by auto

text \<open>C38: the queue always answers. Once the master waits, the threads cannot run forever without an event from
  outside, they are never all stuck before the master has its answer, and so a state with the answer is reached.\<close>

theorem check_queue_answers:
  assumes "reach run xs (q, ts)" "ts ! 0 \<noteq> Outside"
  shows "(\<nexists>f. f 0 = (q, ts) \<and> (\<forall>i. step run (f i) (f (Suc i))))
    \<and> (\<forall>s. (step run)\<^sup>*\<^sup>* (q, ts) s \<longrightarrow> (\<exists>s'. step run s s') \<or> snd s ! 0 = Returned (list_all run xs))
    \<and> (\<exists>s. (step run)\<^sup>*\<^sup>* (q, ts) s \<and> snd s ! 0 = Returned (list_all run xs))"
proof -
  have i: "queue_inv run xs (q, ts)" by (rule reach_inv [OF assms(1)])
  then have ne: "ts \<noteq> []" by auto
  have reach: "queue_inv run xs s \<and> snd s ! 0 \<noteq> Outside" if "(step run)\<^sup>*\<^sup>* (q, ts) s" for s
    using that
  proof (induction rule: rtranclp_induct)
    case (step s s')
    then show ?case
      by (cases s; cases s') (auto simp del: queue_inv.simps intro: queue_inv_step dest: stays_inside)
  qed (use i assms(2) in auto)
  have 1: "\<nexists>f. f 0 = (q, ts) \<and> (\<forall>i. step run (f i) (f (Suc i)))" using no_infinite_run ne by (metis snd_conv)
  have a: "snd s ! 0 = Returned (list_all run xs)" if "(step run)\<^sup>*\<^sup>* (q, ts) s" "snd s ! 0 = Returned r" for s r
    using reach [OF that(1)] that(2) by (cases s) (auto simp: answered_cases(2))
  have 2: "(\<exists>s'. step run s s') \<or> snd s ! 0 = Returned (list_all run xs)" if "(step run)\<^sup>*\<^sup>* (q, ts) s" for s
    using never_stuck reach [OF that] a [OF that] by (cases s) fastforce
  show ?thesis using 1 2 a finishes [OF i assms(2)] by fastforce
qed

theorem check_queue_answers_witness:
  "\<exists>s. (step id)\<^sup>*\<^sup>* toy_queue s \<and> snd s ! 0 = Returned False"
  using check_queue_answers [OF toy_reach [unfolded toy_queue_def]] by (auto simp: toy_queue_def)

end
