(* ===== verification/MFC_Compress.thy ===== *)
theory MFC_Compress
  imports MFC_TxProps MFC_Standard
begin

unbundle bit_operations_syntax

text \<open>
  The compact encoding of outputs in the coin database and in the undo files
  (\<^verbatim>\<open>src/src/compressor.h\<close>, \<^verbatim>\<open>compressor.cpp\<close>): amounts with their trailing zeros factored out, and scripts of
  the common forms reduced to a hash or to the coordinate of a key. What the elliptic curve library
  does for keys is a parameter: \<open>fully_valid\<close> (\<^verbatim>\<open>CPubKey::IsFullyValid\<close>) and \<open>decompress\<close> (\<^verbatim>\<open>CPubKey::Decompress\<close>).
\<close>

section \<open>Variable-length integers of 32 bits\<close>

definition ReadVarInt_uint32 :: "nat reader" where
  "ReadVarInt_uint32 s = bind_sum (ReadVarInt s) (\<lambda>(n, s). Inr (n mod 4294967296, s))"

definition WriteVarInt_int32 :: "int \<Rightarrow> bytes" where
  "WriteVarInt_int32 n = (if n \<le> 0x7F then [of_int (n mod 128)] else WriteVarInt (nat n))"

definition ReadVarInt_int32 :: "int reader" where
  "ReadVarInt_int32 s = bind_sum (ReadVarInt s) (\<lambda>(n, s). Inr (wrap32 (int n), s))"

interpretation varint32: codec WriteVarInt ReadVarInt_uint32 "\<lambda>n. n < 4294967296"
  by unfold_locales (simp add: ReadVarInt_uint32_def)

lemma WriteVarInt_int32_nonneg: "0 \<le> n \<Longrightarrow> WriteVarInt_int32 n = WriteVarInt (nat n)"
proof (cases "n \<le> 0x7F")
  case True
  assume "0 \<le> n"
  then obtain k where k: "n = int k" using nonneg_int_cases by blast
  then have "of_int (n mod 128) = (of_nat (k mod 128) :: byte)" by (metis of_int_of_nat_eq of_nat_mod of_nat_numeral)
  then show ?thesis using True k
    by (subst WriteVarInt_def, subst varint_tmp.simps) (simp add: WriteVarInt_int32_def)
qed (simp add: WriteVarInt_int32_def)

interpretation svarint32: codec WriteVarInt_int32 ReadVarInt_int32 "\<lambda>n. 0 \<le> n \<and> n < 2147483648"
  by unfold_locales (simp add: ReadVarInt_int32_def WriteVarInt_int32_nonneg nat_less_iff)

section \<open>Amounts\<close>

function strip_zeros :: "nat \<Rightarrow> nat \<Rightarrow> nat \<times> nat" where
  "strip_zeros n e = (if n mod 10 = 0 \<and> e < 9 then strip_zeros (n div 10) (e + 1) else (n, e))"
  by pat_completeness auto
termination by (relation "measure (\<lambda>(n, e). 9 - e)") auto

declare strip_zeros.simps [simp del]

definition CompressAmount :: "nat \<Rightarrow> nat" where
  "CompressAmount n =
     (if n = 0 then 0
      else let (n, e) = strip_zeros n 0 in
        if e < 9 then (let d = n mod 10; n = n div 10 in (1 + (n * 9 + d - 1) * 10 + e) mod 18446744073709551616)
        else (1 + (n - 1) * 10 + 9) mod 18446744073709551616)"

primrec times_ten :: "nat \<Rightarrow> nat \<Rightarrow> nat" where
  "times_ten 0 n = n"
| "times_ten (Suc e) n = times_ten e ((n * 10) mod 18446744073709551616)"

definition DecompressAmount :: "nat \<Rightarrow> nat" where
  "DecompressAmount x =
     (if x = 0 then 0
      else let x = x - 1; e = x mod 10; x = x div 10;
               n = (if e < 9 then (let d = x mod 9 + 1; x = x div 9 in x * 10 + d) mod 18446744073709551616
                    else x + 1)
           in times_ten e n)"

lemma strip_zeros_spec:
  "strip_zeros n e = (m, f) \<Longrightarrow> e \<le> 9 \<Longrightarrow> n * 10 ^ e = m * 10 ^ f \<and> e \<le> f \<and> f \<le> 9 \<and> (f < 9 \<longrightarrow> m mod 10 \<noteq> 0)"
proof (induction n e rule: strip_zeros.induct)
  case (1 n e)
  show ?case
  proof (cases "n mod 10 = 0 \<and> e < 9")
    case True
    have n: "n = n div 10 * 10" using True by (metis mult.commute mult_div_mod_eq add_0_right)
    have "strip_zeros (n div 10) (e + 1) = (m, f)" using 1(2) True by (simp add: strip_zeros.simps [of n])
    with 1(1) [OF True] True
    have r: "n div 10 * 10 ^ (e + 1) = m * 10 ^ f \<and> e + 1 \<le> f \<and> f \<le> 9 \<and> (f < 9 \<longrightarrow> m mod 10 \<noteq> 0)" by simp
    have "n * 10 ^ e = n div 10 * 10 ^ (e + 1)" by (subst n) simp
    with r show ?thesis by simp
  next
    case False
    then have "m = n \<and> f = e" using 1(2) by (auto simp: strip_zeros.simps [of n])
    with False 1(3) show ?thesis by auto
  qed
qed

lemma times_ten_exact: "n * 10 ^ e < 18446744073709551616 \<Longrightarrow> times_ten e n = n * 10 ^ e"
proof (induction e arbitrary: n)
  case (Suc e)
  have "n * 10 * 1 \<le> n * 10 * 10 ^ e" by (intro mult_le_mono2) simp
  moreover have p: "n * 10 * 10 ^ e = n * 10 ^ Suc e" by simp
  ultimately have lt: "n * 10 < 18446744073709551616" using Suc.prems by linarith
  have "times_ten e (n * 10) = n * 10 * 10 ^ e" using Suc p by metis
  with p show ?case by (simp only: times_ten.simps mod_less [OF lt])
qed simp

text \<open>As long as nine times the amount does not pass 64 bits, nothing is lost.\<close>

lemma DecompressAmount_CompressAmount:
  assumes "9 * n < 18446744073709551616"
  shows "DecompressAmount (CompressAmount n) = n" and "CompressAmount n < 18446744073709551616"
proof -
  show "CompressAmount n < 18446744073709551616" by (simp add: CompressAmount_def Let_def split_beta)
  obtain m e where s: "strip_zeros n 0 = (m, e)" by fastforce
  have n: "n = m * 10 ^ e" "e \<le> 9" "e < 9 \<longrightarrow> m mod 10 \<noteq> 0" using strip_zeros_spec [OF s] by auto
  have le: "m * 1 \<le> m * 10 ^ e" by (intro mult_le_mono2) simp
  show "DecompressAmount (CompressAmount n) = n"
  proof (cases "n = 0")
    case False
    then have m0: "m \<noteq> 0" using n by auto
    have tt: "times_ten e m = n" using times_ten_exact [of m e] n assms by simp
    show ?thesis
    proof (cases "e < 9")
      case True
      define q d where "q = m div 10" and "d = m mod 10"
      have md: "m = q * 10 + d" "0 < d" "d < 10" using n True by (simp_all add: q_def d_def)
      have c: "1 + (q * 9 + d - 1) * 10 + e < 18446744073709551616"
      proof (cases "e = 0")
        case True
        then show ?thesis using n assms md by simp
      next
        case False
        then have "m * 10 \<le> m * 10 ^ e" by (intro mult_le_mono2) (simp add: self_le_power)
        then show ?thesis using n assms md True by simp
      qed
      have "CompressAmount n = 1 + (q * 9 + d - 1) * 10 + e"
        unfolding CompressAmount_def using False True s c by (simp add: q_def d_def Let_def)
      moreover have "(q * 9 + d - 1) mod 9 + 1 = d" "(q * 9 + d - 1) div 9 = q"
        using md(2,3) gr0_conv_Suc [of d] by auto
      moreover have "((q * 9 + d - 1) * 10 + e) mod 10 = e" "((q * 9 + d - 1) * 10 + e) div 10 = q * 9 + d - 1" using True by simp_all
      moreover have "m < 18446744073709551616" using le n(1) assms by linarith
      ultimately show ?thesis using True md tt by (simp add: DecompressAmount_def Let_def)
    next
      case nine: False
      then have e: "e = 9" using n by simp
      have "CompressAmount n = 1 + (m - 1) * 10 + 9"
        unfolding CompressAmount_def using False nine s n assms e by (simp add: Let_def)
      moreover have "((m - 1) * 10 + 9) mod 10 = 9" "((m - 1) * 10 + 9) div 10 = m - 1" by simp_all
      ultimately show ?thesis using tt m0 e by (simp add: DecompressAmount_def Let_def)
    qed
  qed (simp add: CompressAmount_def DecompressAmount_def)
qed

section \<open>Scripts\<close>

abbreviation (input) nSpecialScripts :: nat where "nSpecialScripts \<equiv> 6"

definition IsToKeyID :: "script \<Rightarrow> bytes option" where
  "IsToKeyID s =
     (if length s = 25 \<and> s ! 0 = of_nat OP_DUP \<and> s ! 1 = of_nat OP_HASH160 \<and> s ! 2 = 20
       \<and> s ! 23 = of_nat OP_EQUALVERIFY \<and> s ! 24 = of_nat OP_CHECKSIG
      then Some (take 20 (drop 3 s)) else None)"

definition IsToScriptID :: "script \<Rightarrow> bytes option" where
  "IsToScriptID s =
     (if length s = 23 \<and> s ! 0 = of_nat OP_HASH160 \<and> s ! 1 = 20 \<and> s ! 22 = of_nat OP_EQUAL
      then Some (take 20 (drop 2 s)) else None)"

definition IsToPubKey :: "(CPubKey \<Rightarrow> bool) \<Rightarrow> script \<Rightarrow> CPubKey option" where
  "IsToPubKey fully_valid s =
     (if length s = 35 \<and> s ! 0 = 33 \<and> s ! 34 = of_nat OP_CHECKSIG \<and> (s ! 1 = 0x02 \<or> s ! 1 = 0x03)
      then Some (CPubKey_Set (take 33 (drop 1 s)))
      else if length s = 67 \<and> s ! 0 = 65 \<and> s ! 66 = of_nat OP_CHECKSIG \<and> s ! 1 = 0x04
      then (let pubkey = CPubKey_Set (take 65 (drop 1 s)) in if fully_valid pubkey then Some pubkey else None)
      else None)"

definition Compress :: "(CPubKey \<Rightarrow> bool) \<Rightarrow> script \<Rightarrow> bytes option" where
  "Compress fully_valid s =
     (case IsToKeyID s of
        Some keyID \<Rightarrow> Some (0x00 # keyID)
      | None \<Rightarrow> (case IsToScriptID s of
          Some scriptID \<Rightarrow> Some (0x01 # scriptID)
        | None \<Rightarrow> (case IsToPubKey fully_valid s of
            Some pubkey \<Rightarrow>
              (if pubkey ! 0 = 0x02 \<or> pubkey ! 0 = 0x03 then Some (pubkey ! 0 # take 32 (drop 1 pubkey))
               else if pubkey ! 0 = 0x04 then Some ((0x04 OR (pubkey ! 64 AND 0x01)) # take 32 (drop 1 pubkey))
               else None)
          | None \<Rightarrow> None)))"

definition GetSpecialSize :: "nat \<Rightarrow> nat" where
  "GetSpecialSize nSize =
     (if nSize = 0 \<or> nSize = 1 then 20
      else if nSize = 2 \<or> nSize = 3 \<or> nSize = 4 \<or> nSize = 5 then 32 else 0)"

text \<open>
  The outer sum is the assertion on the size of a decompressed key; the inner option is a script left as
  it was, because the code returned false.
\<close>

definition Decompress :: "(CPubKey \<Rightarrow> CPubKey option) \<Rightarrow> nat \<Rightarrow> bytes \<Rightarrow> ser_error + script option" where
  "Decompress decompress nSize input =
     (if nSize = 0x00 then Inr (Some ([of_nat OP_DUP, of_nat OP_HASH160, 20] @ take 20 input @ [of_nat OP_EQUALVERIFY, of_nat OP_CHECKSIG]))
      else if nSize = 0x01 then Inr (Some ([of_nat OP_HASH160, 20] @ take 20 input @ [of_nat OP_EQUAL]))
      else if nSize = 0x02 \<or> nSize = 0x03 then Inr (Some ([33, of_nat nSize] @ take 32 input @ [of_nat OP_CHECKSIG]))
      else if nSize = 0x04 \<or> nSize = 0x05 then
        (case decompress (CPubKey_Set (of_nat (nSize - 2) # take 32 input)) of
           None \<Rightarrow> Inr None
         | Some pubkey \<Rightarrow>
             if length pubkey \<noteq> 65 then Inl AssertionFailed
             else Inr (Some (65 # pubkey @ [of_nat OP_CHECKSIG])))
      else Inr None)"

definition Serialize_CScriptCompressor :: "(CPubKey \<Rightarrow> bool) \<Rightarrow> script \<Rightarrow> bytes" where
  "Serialize_CScriptCompressor fully_valid s =
     (case Compress fully_valid s of
        Some compr \<Rightarrow> compr
      | None \<Rightarrow> WriteVarInt ((length s + nSpecialScripts) mod 4294967296) @ s)"

definition Unserialize_CScriptCompressor :: "(CPubKey \<Rightarrow> CPubKey option) \<Rightarrow> script \<Rightarrow> script reader" where
  "Unserialize_CScriptCompressor decompress script0 s =
     bind_sum (ReadVarInt_uint32 s) (\<lambda>(nSize, s).
       if nSize < nSpecialScripts then
         bind_sum (stream_read (GetSpecialSize nSize) s) (\<lambda>(vch, s).
         bind_sum (Decompress decompress nSize vch) (\<lambda>r.
           Inr (case r of Some script1 \<Rightarrow> script1 | None \<Rightarrow> script0, s)))
       else
         (let nSize = nSize - nSpecialScripts in
          if nSize > MAX_SCRIPT_SIZE then bind_sum (stream_read nSize s) (\<lambda>(_, s). Inr (script0 @ [of_nat OP_RETURN], s))
          else stream_read nSize s))"

definition Serialize_CTxOutCompressor :: "(CPubKey \<Rightarrow> bool) \<Rightarrow> CTxOut \<Rightarrow> bytes" where
  "Serialize_CTxOutCompressor fully_valid txout =
     WriteVarInt (CompressAmount (nat (nValue txout mod 18446744073709551616)))
     @ Serialize_CScriptCompressor fully_valid (scriptPubKey txout)"

text \<open>The code reads into an output that is null, so the script before reading is empty.\<close>

definition Unserialize_CTxOutCompressor :: "(CPubKey \<Rightarrow> CPubKey option) \<Rightarrow> CTxOut reader" where
  "Unserialize_CTxOutCompressor decompress s =
     bind_sum (ReadVarInt s) (\<lambda>(nVal, s).
     bind_sum (Unserialize_CScriptCompressor decompress (scriptPubKey CTxOut_SetNull) s) (\<lambda>(spk, s).
       Inr (\<lparr>nValue = wrap64 (int (DecompressAmount nVal)), scriptPubKey = spk\<rparr>, s)))"

text \<open>
  What is relied on of the curve library: a valid uncompressed key is found again from its first
  coordinate and the parity of the second.
\<close>

definition point_compression :: "(CPubKey \<Rightarrow> bool) \<Rightarrow> (CPubKey \<Rightarrow> CPubKey option) \<Rightarrow> bool" where
  "point_compression fully_valid decompress \<longleftrightarrow>
     (\<forall>x y. length x = 32 \<and> length y = 32 \<and> fully_valid (0x04 # x @ y) \<longrightarrow>
        decompress ((0x02 OR (last y AND 0x01)) # x) = Some (0x04 # x @ y))"

definition ok_coin_out :: "CTxOut \<Rightarrow> bool" where
  "ok_coin_out txout \<longleftrightarrow> 0 \<le> nValue txout \<and> 9 * nValue txout < 18446744073709551616
     \<and> length (scriptPubKey txout) \<le> MAX_SCRIPT_SIZE"

section \<open>Reading back what was written\<close>

lemma drop_nth: "i < length s \<Longrightarrow> drop i s = s ! i # drop (Suc i) s"
  by (simp add: Cons_nth_drop_Suc)

lemma IsToKeyID_Some:
  assumes "IsToKeyID s = Some h"
  shows "length h = 20 \<and> s = [of_nat OP_DUP, of_nat OP_HASH160, 20] @ h @ [of_nat OP_EQUALVERIFY, of_nat OP_CHECKSIG]"
proof -
  have l: "length s = 25" and h: "h = take 20 (drop 3 s)" using assms by (auto simp: IsToKeyID_def split: if_splits)
  have "drop 3 s = h @ drop 23 s" unfolding h using append_take_drop_id [of 20 "drop 3 s"] by simp
  moreover have "s = s ! 0 # s ! 1 # s ! 2 # drop 3 s"
    using l drop_nth [of 0 s] drop_nth [of 1 s] drop_nth [of 2 s] by (simp add: numeral_eq_Suc)
  moreover have "drop 23 s = [s ! 23, s ! 24]" using l drop_nth [of 23 s] drop_nth [of 24 s] by simp
  ultimately show ?thesis using assms l h by (auto simp: IsToKeyID_def split: if_splits)
qed

lemma IsToScriptID_Some:
  assumes "IsToScriptID s = Some h"
  shows "length h = 20 \<and> s = [of_nat OP_HASH160, 20] @ h @ [of_nat OP_EQUAL]"
proof -
  have l: "length s = 23" and h: "h = take 20 (drop 2 s)" using assms by (auto simp: IsToScriptID_def split: if_splits)
  have "drop 2 s = h @ drop 22 s" unfolding h using append_take_drop_id [of 20 "drop 2 s"] by simp
  moreover have "s = s ! 0 # s ! 1 # drop 2 s" using l drop_nth [of 0 s] drop_nth [of 1 s] by (simp add: numeral_eq_Suc)
  moreover have "drop 22 s = [s ! 22]" using l drop_nth [of 22 s] by simp
  ultimately show ?thesis using assms l h by (auto simp: IsToScriptID_def split: if_splits)
qed

lemma pubkey_script_split:
  assumes "length s = n + 2" "s ! 0 = a" "s ! Suc n = b"
  shows "s = a # take n (drop 1 s) @ [b]"
proof -
  have "drop 1 s = take n (drop 1 s) @ drop (Suc n) s" using append_take_drop_id [of n "drop 1 s"] by simp
  moreover have "drop (Suc n) s = [b]" using assms drop_nth [of "Suc n" s] by simp
  ultimately show ?thesis using assms drop_nth [of 0 s] by simp
qed

lemma IsToPubKey_Some:
  assumes "IsToPubKey fully_valid s = Some k"
  shows "(\<exists>x. length x = 32 \<and> (hd k = 2 \<or> hd k = 3) \<and> k = hd k # x \<and> s = 33 # k @ [of_nat OP_CHECKSIG]) \<or>
    (\<exists>x y. length x = 32 \<and> length y = 32 \<and> k = 4 # x @ y \<and> fully_valid k \<and> s = 65 # k @ [of_nat OP_CHECKSIG])"
proof (cases "length s = 35")
  case True
  then have p: "s ! 0 = 33" "s ! 34 = of_nat OP_CHECKSIG" "s ! 1 = 2 \<or> s ! 1 = 3"
    using assms by (auto simp: IsToPubKey_def split: if_splits)
  define v where "v = take 33 (drop 1 s)"
  have hv: "v = s ! 1 # tl v" "length (tl v) = 32" using True drop_nth [of 1 s] by (simp_all add: v_def)
  then have "hd v = 2 \<or> hd v = 3" "length v = 33" "v \<noteq> []"
    using p(3) True drop_nth [of 1 s] by (auto simp: v_def)
  then have "CPubKey_Set v = v" by (auto simp: CPubKey_Set_def Let_def GetLen_def)
  then have "k = v" using assms True p by (simp add: IsToPubKey_def v_def)
  moreover have "s = 33 # v @ [of_nat OP_CHECKSIG]" using pubkey_script_split [of s 33] True p by (simp add: v_def)
  ultimately show ?thesis using hv p(3) by (metis list.sel(1))
next
  case False
  then have l: "length s = 67" and p: "s ! 0 = 65" "s ! 66 = of_nat OP_CHECKSIG" "s ! 1 = 4"
    using assms by (auto simp: IsToPubKey_def split: if_splits)
  define v where "v = take 65 (drop 1 s)"
  define x y where "x = take 32 (tl v)" and "y = drop 32 (tl v)"
  have lv: "length v = 65" using l by (simp add: v_def)
  have "v = 4 # tl v" using l drop_nth [of 1 s] p(3) by (simp add: v_def)
  then have hv: "v = 4 # x @ y" "length x = 32" "length y = 32" using lv by (simp_all add: x_def y_def)
  have "CPubKey_Set v = v" using hv by (simp add: CPubKey_Set_def Let_def GetLen_def)
  then have "k = v" "fully_valid v" using assms l p by (auto simp: IsToPubKey_def v_def Let_def split: if_splits)
  moreover have "s = 65 # v @ [of_nat OP_CHECKSIG]" using pubkey_script_split [of s 65] l p by (simp add: v_def)
  ultimately show ?thesis using hv by metis
qed

lemma small_varint: "unat b < 128 \<Longrightarrow> ReadVarInt_uint32 (b # s) = Inr (unat b, s)"
  by (simp add: ReadVarInt_uint32_def ReadVarInt_def byte_clear_high byte_high_bit)

lemma low_bit_cases: "(b :: byte) AND 1 = 0 \<or> b AND 1 = 1"
  by (simp add: and_one_eq mod_2_eq_odd)

text \<open>Every script of at most \<^verbatim>\<open>MAX_SCRIPT_SIZE\<close> bytes is found again, whatever its form.\<close>

interpretation script_compressor: codec "Serialize_CScriptCompressor fully_valid"
  "Unserialize_CScriptCompressor decompress script0"
  "\<lambda>s. length s \<le> MAX_SCRIPT_SIZE \<and> point_compression fully_valid decompress" for fully_valid decompress script0
proof
  fix s r :: bytes
  assume ok: "length s \<le> MAX_SCRIPT_SIZE \<and> point_compression fully_valid decompress"
  let ?dec = "Unserialize_CScriptCompressor decompress script0"
  have plain: "Inr (s, r) = ?dec (WriteVarInt ((length s + nSpecialScripts) mod 4294967296) @ s @ r)"
    using ok varint32.dec_enc [of "length s + 6" "s @ r"] by (simp add: Unserialize_CScriptCompressor_def)
  consider (keyid) h where "IsToKeyID s = Some h" | (scriptid) h where "IsToKeyID s = None" "IsToScriptID s = Some h"
    | (pubkey) k where "IsToKeyID s = None" "IsToScriptID s = None" "IsToPubKey fully_valid s = Some k"
    | (none) "IsToKeyID s = None" "IsToScriptID s = None" "IsToPubKey fully_valid s = None" by fastforce
  then show "?dec (Serialize_CScriptCompressor fully_valid s @ r) = Inr (s, r)"
  proof cases
    case keyid
    then show ?thesis using IsToKeyID_Some [OF keyid]
      by (simp add: Serialize_CScriptCompressor_def Compress_def Unserialize_CScriptCompressor_def
          small_varint Decompress_def GetSpecialSize_def)
  next
    case scriptid
    then show ?thesis using IsToScriptID_Some [OF scriptid(2)]
      by (simp add: Serialize_CScriptCompressor_def Compress_def Unserialize_CScriptCompressor_def
          small_varint Decompress_def GetSpecialSize_def)
  next
    case pubkey
    then consider x where "length x = 32" "hd k = 2 \<or> hd k = 3" "k = hd k # x" "s = 33 # k @ [of_nat OP_CHECKSIG]"
      | x y where "length x = 32" "length y = 32" "k = 4 # x @ y" "fully_valid k" "s = 65 # k @ [of_nat OP_CHECKSIG]"
      using IsToPubKey_Some [OF pubkey(3)] by blast
    then show ?thesis
    proof cases
      case x: 1
      then have "k ! 0 = hd k" "take 32 (drop 1 k) = x" by (metis nth_Cons_0) (metis x(1,3) drop0 drop_Suc_Cons One_nat_def take_all order_refl)
      then have "Compress fully_valid s = Some (hd k # x)" using pubkey x(2) by (simp add: Compress_def)
      then show ?thesis using x(1,2,4) arg_cong [OF x(3), of "\<lambda>l. 33 # l @ [of_nat OP_CHECKSIG]"]
        by (auto simp: Serialize_CScriptCompressor_def Unserialize_CScriptCompressor_def
            small_varint Decompress_def GetSpecialSize_def simp del: bind_sum_eq_Inr)
    next
      case x: 2
      define c where "c = last y AND 0x01"
      have d: "decompress ((2 OR c) # x) = Some k" using ok x by (simp add: point_compression_def c_def)
      have "k ! 64 = last y" using x(1-3) last_conv_nth [of y] by (cases "y = []") (simp_all add: nth_append nth_Cons')
      then have "Compress fully_valid s = Some ((4 OR c) # x)" using pubkey x by (simp add: Compress_def c_def)
      moreover have "c = 0 \<or> c = 1" using low_bit_cases by (simp add: c_def)
      ultimately show ?thesis using x d
        by (auto simp: Serialize_CScriptCompressor_def Unserialize_CScriptCompressor_def
            small_varint Decompress_def GetSpecialSize_def CPubKey_Set_def GetLen_def simp del: bind_sum_eq_Inr)
    qed
  next
    case none
    then show ?thesis using plain by (simp add: Serialize_CScriptCompressor_def Compress_def)
  qed
qed

interpretation coin_out: codec "Serialize_CTxOutCompressor fully_valid" "Unserialize_CTxOutCompressor decompress"
  "\<lambda>t. ok_coin_out t \<and> point_compression fully_valid decompress" for fully_valid decompress
proof
  fix t s
  assume ok: "ok_coin_out t \<and> point_compression fully_valid decompress"
  define n where "n = nat (nValue t)"
  have n: "nValue t = int n" "9 * n < 18446744073709551616" using ok by (auto simp: ok_coin_out_def n_def)
  have sc: "Unserialize_CScriptCompressor decompress [] (Serialize_CScriptCompressor fully_valid (scriptPubKey t) @ s)
      = Inr (scriptPubKey t, s)"
    using ok by (intro script_compressor.dec_enc) (simp add: ok_coin_out_def)
  show "Unserialize_CTxOutCompressor decompress (Serialize_CTxOutCompressor fully_valid t @ s) = Inr (t, s)"
    using n DecompressAmount_CompressAmount [OF n(2)] sc
    by (simp add: Unserialize_CTxOutCompressor_def Serialize_CTxOutCompressor_def CTxOut_SetNull_def)
qed

end
