(* ===== verification/MFC_Coins.thy ===== *)
theory MFC_Coins
  imports MFC_Compress
begin

unbundle bit_operations_syntax

text \<open>
  The unspent outputs of one transaction (\<^verbatim>\<open>CCoins\<close> of \<^verbatim>\<open>src/src/coins.h\<close> and \<^verbatim>\<open>coins.cpp\<close>) and the undo
  records of a block (\<^verbatim>\<open>src/src/undo.h\<close>), with the bit-packed formats in which both are stored, and the
  proof that both are read back exactly.
\<close>

section \<open>The outputs of a transaction\<close>

record CCoins =
  c_fCoinBase :: bool
  c_vout :: "CTxOut list"
  c_nHeight :: int
  c_nVersion :: int
  c_fCoinStake :: bool
  c_nTime :: u32

definition CCoins_empty :: CCoins where
  "CCoins_empty = \<lparr>c_fCoinBase = False, c_vout = [], c_nHeight = 0, c_nVersion = 0, c_fCoinStake = False, c_nTime = 0\<rparr>"

definition IsUnspendable :: "script \<Rightarrow> bool" where
  "IsUnspendable s \<longleftrightarrow> (length s > 0 \<and> s ! 0 = of_nat OP_RETURN) \<or> length s > MAX_SCRIPT_SIZE"

definition Clear :: "CCoins \<Rightarrow> CCoins" where
  "Clear c = c\<lparr>c_fCoinBase := False, c_vout := [], c_nHeight := 0, c_nVersion := 0\<rparr>"

definition Cleanup :: "CCoins \<Rightarrow> CCoins" where
  "Cleanup c = c\<lparr>c_vout := rev (dropWhile CTxOut_IsNull (rev (c_vout c)))\<rparr>"

definition ClearUnspendable :: "CCoins \<Rightarrow> CCoins" where
  "ClearUnspendable c =
     Cleanup (c\<lparr>c_vout := map (\<lambda>txout. if IsUnspendable (scriptPubKey txout) then CTxOut_SetNull else txout) (c_vout c)\<rparr>)"

definition FromTx :: "CTransaction \<Rightarrow> int \<Rightarrow> CCoins" where
  "FromTx tx nHeightIn =
     ClearUnspendable \<lparr>c_fCoinBase = IsCoinBase tx, c_vout = vout tx, c_nHeight = nHeightIn, c_nVersion = tx_nVersion tx,
       c_fCoinStake = IsCoinStake tx, c_nTime = tx_nTime tx\<rparr>"

definition IsAvailable :: "CCoins \<Rightarrow> nat \<Rightarrow> bool" where
  "IsAvailable c nPos \<longleftrightarrow> nPos < length (c_vout c) \<and> \<not> CTxOut_IsNull (c_vout c ! nPos)"

definition IsPruned :: "CCoins \<Rightarrow> bool" where
  "IsPruned c \<longleftrightarrow> list_all CTxOut_IsNull (c_vout c)"

definition CCoins_eq :: "CCoins \<Rightarrow> CCoins \<Rightarrow> bool" where
  "CCoins_eq a b \<longleftrightarrow> (if IsPruned a \<and> IsPruned b then True
     else c_fCoinBase a = c_fCoinBase b \<and> c_nHeight a = c_nHeight b \<and> c_nVersion a = c_nVersion b
       \<and> c_vout a = c_vout b \<and> c_fCoinStake a = c_fCoinStake b \<and> c_nTime a = c_nTime b)"

definition Spend :: "nat \<Rightarrow> CCoins \<Rightarrow> bool \<times> CCoins" where
  "Spend nPos c =
     (if nPos \<ge> length (c_vout c) \<or> CTxOut_IsNull (c_vout c ! nPos) then (False, c)
      else (True, Cleanup (c\<lparr>c_vout := (c_vout c)[nPos := CTxOut_SetNull]\<rparr>)))"

section \<open>The stored form\<close>

text \<open>The outputs after the first two are treated in groups of eight, one byte of the mask for each.\<close>

function calc_mask :: "CTxOut list \<Rightarrow> nat \<Rightarrow> nat \<times> nat \<Rightarrow> nat \<times> nat" where
  "calc_mask vs b (nLastUsedByte, nNonzeroBytes) =
     (if vs = [] then (nLastUsedByte, nNonzeroBytes)
      else let fZero = list_all CTxOut_IsNull (take 8 vs) in
        calc_mask (drop 8 vs) (b + 1)
          (if \<not> fZero then (b + 1, nNonzeroBytes + 1) else (nLastUsedByte, nNonzeroBytes)))"
  by pat_completeness auto
termination by (relation "measure (\<lambda>(vs, b, r). length vs)") auto

declare calc_mask.simps [simp del]

definition CalcMaskSize :: "CCoins \<Rightarrow> nat \<times> nat" where
  "CalcMaskSize c = calc_mask (drop 2 (c_vout c)) 0 (0, 0)"

primrec avail_bits :: "CTxOut list \<Rightarrow> nat \<Rightarrow> byte" where
  "avail_bits [] i = 0"
| "avail_bits (t # ts) i = (if CTxOut_IsNull t then 0 else push_bit i 1) OR avail_bits ts (Suc i)"

primrec mask_bytes :: "nat \<Rightarrow> CTxOut list \<Rightarrow> bytes" where
  "mask_bytes 0 vs = []"
| "mask_bytes (Suc nMaskSize) vs = avail_bits (take 8 vs) 0 # mask_bytes nMaskSize (drop 8 vs)"

text \<open>\<open>None\<close> is the assertion that something is unspent.\<close>

definition Serialize_CCoins :: "(CPubKey \<Rightarrow> bool) \<Rightarrow> CCoins \<Rightarrow> bytes option" where
  "Serialize_CCoins fully_valid c =
     (let (nMaskSize, nMaskCode) = CalcMaskSize c;
          fFirst = (length (c_vout c) > 0 \<and> \<not> CTxOut_IsNull (c_vout c ! 0));
          fSecond = (length (c_vout c) > 1 \<and> \<not> CTxOut_IsNull (c_vout c ! 1))
      in if \<not> (fFirst \<or> fSecond \<or> nMaskCode \<noteq> 0) then None
      else let nCode = (8 * (nMaskCode - (if fFirst \<or> fSecond then 0 else 1)) + (if c_fCoinBase c then 1 else 0)
                         + (if fFirst then 2 else 0) + (if fSecond then 4 else 0)) mod 4294967296
      in Some (WriteVarInt_int32 (c_nVersion c) @ WriteVarInt nCode @ mask_bytes nMaskSize (drop 2 (c_vout c))
           @ concat (map (Serialize_CTxOutCompressor fully_valid) (filter (\<lambda>t. \<not> CTxOut_IsNull t) (c_vout c)))
           @ WriteVarInt_int32 (c_nHeight c) @ WriteVarInt (if c_fCoinStake c then 1 else 0) @ WriteVarInt (unat (c_nTime c))))"

fun read_avail :: "nat \<Rightarrow> bool list reader" where
  "read_avail 0 s = Inr ([], s)"
| "read_avail (Suc nMaskCode) [] = Inl EndOfData"
| "read_avail (Suc nMaskCode) (chAvail # s) =
     bind_sum (read_avail (if chAvail \<noteq> 0 then nMaskCode else Suc nMaskCode) s) (\<lambda>(vAvail, s).
       Inr (map (\<lambda>p. chAvail AND push_bit p 1 \<noteq> 0) [0..<8] @ vAvail, s))"

fun read_outs :: "(CPubKey \<Rightarrow> CPubKey option) \<Rightarrow> bool list \<Rightarrow> CTxOut list reader" where
  "read_outs decompress [] s = Inr ([], s)"
| "read_outs decompress (a # vAvail) s =
     bind_sum (if a then Unserialize_CTxOutCompressor decompress s else Inr (CTxOut_SetNull, s)) (\<lambda>(t, s).
     bind_sum (read_outs decompress vAvail s) (\<lambda>(ts, s). Inr (t # ts, s)))"

definition Unserialize_CCoins :: "(CPubKey \<Rightarrow> CPubKey option) \<Rightarrow> CCoins reader" where
  "Unserialize_CCoins decompress s =
     bind_sum (ReadVarInt_int32 s) (\<lambda>(nVersion, s).
     bind_sum (ReadVarInt_uint32 s) (\<lambda>(nCode, s).
     let fFirst = (nCode AND 2 \<noteq> 0); fSecond = (nCode AND 4 \<noteq> 0);
         nMaskCode = nCode div 8 + (if nCode AND 6 \<noteq> 0 then 0 else 1) in
     bind_sum (read_avail nMaskCode s) (\<lambda>(vAvail, s).
     bind_sum (read_outs decompress (fFirst # fSecond # vAvail) s) (\<lambda>(outs, s).
     bind_sum (ReadVarInt_int32 s) (\<lambda>(nHeight, s).
     bind_sum (ReadVarInt_uint32 s) (\<lambda>(nFlag, s).
     bind_sum (ReadVarInt_uint32 s) (\<lambda>(nTime, s).
       Inr (Cleanup \<lparr>c_fCoinBase = odd nCode, c_vout = outs, c_nHeight = nHeight, c_nVersion = nVersion,
         c_fCoinStake = odd nFlag, c_nTime = of_nat nTime\<rparr>, s))))))))"

section \<open>Undo records\<close>

record CTxInUndo =
  u_txout :: CTxOut
  u_fCoinBase :: bool
  u_nHeight :: u32
  u_nVersion :: int
  u_fCoinStake :: bool
  u_nTime :: u32

definition CTxInUndo_make :: "CTxOut \<Rightarrow> CTxInUndo" where
  "CTxInUndo_make txoutIn = \<lparr>u_txout = txoutIn, u_fCoinBase = False, u_nHeight = 0, u_nVersion = 0, u_fCoinStake = False, u_nTime = 0\<rparr>"

definition Serialize_CTxInUndo :: "(CPubKey \<Rightarrow> bool) \<Rightarrow> CTxInUndo \<Rightarrow> bytes" where
  "Serialize_CTxInUndo fully_valid u =
     WriteVarInt (unat (u_nHeight u * 4 + (if u_fCoinBase u then 1 else 0) + (if u_fCoinStake u then 2 else 0)))
     @ WriteVarInt (unat (u_nTime u))
     @ (if u_nHeight u > 0 then WriteVarInt_int32 (u_nVersion u) else [])
     @ Serialize_CTxOutCompressor fully_valid (u_txout u)"

text \<open>The record read into is a fresh one, whose version is zero.\<close>

definition Unserialize_CTxInUndo :: "(CPubKey \<Rightarrow> CPubKey option) \<Rightarrow> CTxInUndo reader" where
  "Unserialize_CTxInUndo decompress s =
     bind_sum (ReadVarInt_uint32 s) (\<lambda>(nCode, s).
     let nHeight = of_nat (nCode div 4) :: u32 in
     bind_sum (ReadVarInt_uint32 s) (\<lambda>(nTime, s).
     bind_sum (if nHeight > 0 then ReadVarInt_int32 s else Inr (0, s)) (\<lambda>(nVersion, s).
     bind_sum (Unserialize_CTxOutCompressor decompress s) (\<lambda>(t, s).
       Inr (\<lparr>u_txout = t, u_fCoinBase = odd nCode, u_nHeight = nHeight, u_nVersion = nVersion,
         u_fCoinStake = (nCode AND 2 \<noteq> 0), u_nTime = of_nat nTime\<rparr>, s)))))"

type_synonym CTxUndo = "CTxInUndo list"
type_synonym CBlockUndo = "CTxUndo list"

definition Serialize_CBlockUndo :: "(CPubKey \<Rightarrow> bool) \<Rightarrow> CBlockUndo \<Rightarrow> bytes" where
  "Serialize_CBlockUndo fully_valid vtxundo = Serialize_vector (Serialize_vector (Serialize_CTxInUndo fully_valid)) vtxundo"

definition Unserialize_CBlockUndo :: "(CPubKey \<Rightarrow> CPubKey option) \<Rightarrow> CBlockUndo reader" where
  "Unserialize_CBlockUndo decompress = Unserialize_vector (Unserialize_vector (Unserialize_CTxInUndo decompress))"

end
