(* ===== verification/MFC_CoinsView.thy ===== *)
theory MFC_CoinsView
  imports MFC_Coins "HOL-Library.AList"
begin

unbundle bit_operations_syntax

text \<open>
  The stack of coin views of \<^verbatim>\<open>src/src/coins.h\<close> and \<^verbatim>\<open>coins.cpp\<close>: a database at the bottom
  (\<^verbatim>\<open>CCoinsViewDB\<close> of \<^verbatim>\<open>txdb.cpp\<close>), and over it write-back caches that mark their entries as dirty or as
  fresh, with what validation does to the top of the stack (\<^verbatim>\<open>UpdateCoins\<close>, \<^verbatim>\<open>ApplyTxInUndo\<close> and the loop of
  \<^verbatim>\<open>DisconnectBlock\<close> of \<^verbatim>\<open>validation.cpp\<close>). A map is an association list in the order of its iteration.
  Reading fills the caches passed through, so even a query returns the new view. The lifetime of a
  \<^verbatim>\<open>CCoinsModifier\<close>, from \<^verbatim>\<open>ModifyCoins\<close> to its destructor, is one operation, so \<^verbatim>\<open>hasModifier\<close> is false
  whenever an operation starts. The database is a map of records, not of stored strings: the stored form is modelled in
  \<open>MFC_Coins\<close>, and \<open>MFC_CoinsProps\<close> shows for which records it reads back as written.
\<close>

datatype coins_error = LogicError | CoinsAssert | OutOfRange | Inconsistent

section \<open>Entries and views\<close>

record CCoinsCacheEntry =
  e_coins :: CCoins
  e_DIRTY :: bool
  e_FRESH :: bool

type_synonym CCoinsMap = "(uint256 \<times> CCoinsCacheEntry) list"

datatype CCoinsView =
    CCoinsViewDB "uint256 \<Rightarrow> CCoins option" uint256
  | CCoinsViewCache CCoinsMap uint256 CCoinsView

definition randpaytx :: uint256 where
  "randpaytx = replicate 32 0xEC"

definition randpay_coins :: CCoins where
  "randpay_coins = \<lparr>c_fCoinBase = False, c_vout = [CTxOut_SetNull\<lparr>nValue := 0\<rparr>], c_nHeight = 0, c_nVersion = 1,
     c_fCoinStake = False, c_nTime = 0\<rparr>"

definition CCoinsViewCache_make :: "CCoinsView \<Rightarrow> CCoinsView" where
  "CCoinsViewCache_make baseIn =
     CCoinsViewCache [(randpaytx, \<lparr>e_coins = randpay_coins, e_DIRTY = True, e_FRESH = False\<rparr>)] uint256_null baseIn"

text \<open>\<^verbatim>\<open>GetCoins\<close> of either kind of view, with \<^verbatim>\<open>FetchCoins\<close> for a cache.\<close>

fun GetCoins :: "uint256 \<Rightarrow> CCoinsView \<Rightarrow> CCoins option \<times> CCoinsView" where
  "GetCoins txid (CCoinsViewDB db best) = (db txid, CCoinsViewDB db best)"
| "GetCoins txid (CCoinsViewCache cache hashBlock base) =
     (case map_of cache txid of
        Some e \<Rightarrow> (Some (e_coins e), CCoinsViewCache cache hashBlock base)
      | None \<Rightarrow> (case GetCoins txid base of
          (None, base) \<Rightarrow> (None, CCoinsViewCache cache hashBlock base)
        | (Some tmp, base) \<Rightarrow>
            (Some tmp, CCoinsViewCache (AList.update txid \<lparr>e_coins = tmp, e_DIRTY = False, e_FRESH = IsPruned tmp\<rparr> cache) hashBlock base)))"

definition AccessCoins :: "uint256 \<Rightarrow> CCoinsView \<Rightarrow> CCoins option \<times> CCoinsView" where
  "AccessCoins txid v = GetCoins txid v"

definition HaveCoins :: "uint256 \<Rightarrow> CCoinsView \<Rightarrow> bool \<times> CCoinsView" where
  "HaveCoins txid v =
     (case GetCoins txid v of (None, v) \<Rightarrow> (False, v) | (Some c, v) \<Rightarrow> (c_vout c \<noteq> [], v))"

fun GetBestBlock :: "CCoinsView \<Rightarrow> uint256 \<times> CCoinsView" where
  "GetBestBlock (CCoinsViewDB db best) = (best, CCoinsViewDB db best)"
| "GetBestBlock (CCoinsViewCache cache hashBlock base) =
     (if hashBlock = uint256_null
      then (case GetBestBlock base of (h, base) \<Rightarrow> (h, CCoinsViewCache cache h base))
      else (hashBlock, CCoinsViewCache cache hashBlock base))"

fun SetBestBlock :: "uint256 \<Rightarrow> CCoinsView \<Rightarrow> CCoinsView" where
  "SetBestBlock hashBlockIn (CCoinsViewCache cache hashBlock base) = CCoinsViewCache cache hashBlockIn base"
| "SetBestBlock hashBlockIn (CCoinsViewDB db best) = CCoinsViewDB db best"

section \<open>Writing back\<close>

definition batch_entry :: "uint256 \<times> CCoinsCacheEntry \<Rightarrow> CCoinsMap \<Rightarrow> coins_error + CCoinsMap" where
  "batch_entry it cache =
     (let (k, e) = it in
      if e_DIRTY e then
        (case map_of cache k of
           None \<Rightarrow>
             if \<not> (e_FRESH e \<and> IsPruned (e_coins e))
             then Inr (AList.update k \<lparr>e_coins = e_coins e, e_DIRTY = True, e_FRESH = e_FRESH e\<rparr> cache)
             else Inr cache
         | Some us \<Rightarrow>
             if e_FRESH e \<and> \<not> IsPruned (e_coins us) then Inl LogicError
             else if e_FRESH us \<and> IsPruned (e_coins e) then Inr (AList.delete k cache)
             else Inr (AList.update k (us\<lparr>e_coins := e_coins e, e_DIRTY := True\<rparr>) cache))
      else Inr cache)"

fun batch_loop :: "CCoinsMap \<Rightarrow> CCoinsMap \<Rightarrow> coins_error + CCoinsMap" where
  "batch_loop [] cache = Inr cache"
| "batch_loop (it # mapCoins) cache = bind_sum (batch_entry it cache) (batch_loop mapCoins)"

definition db_entry :: "uint256 \<times> CCoinsCacheEntry \<Rightarrow> (uint256 \<Rightarrow> CCoins option) \<Rightarrow> (uint256 \<Rightarrow> CCoins option)" where
  "db_entry it db =
     (let (k, e) = it in
      if e_DIRTY e then (if IsPruned (e_coins e) then db(k := None) else db(k \<mapsto> e_coins e)) else db)"

fun BatchWrite :: "CCoinsMap \<Rightarrow> uint256 \<Rightarrow> CCoinsView \<Rightarrow> coins_error + CCoinsView" where
  "BatchWrite mapCoins hashBlockIn (CCoinsViewDB db best) =
     Inr (CCoinsViewDB (fold db_entry mapCoins db) (if hashBlockIn \<noteq> uint256_null then hashBlockIn else best))"
| "BatchWrite mapCoins hashBlockIn (CCoinsViewCache cache hashBlock base) =
     bind_sum (batch_loop mapCoins cache) (\<lambda>cache. Inr (CCoinsViewCache cache hashBlockIn base))"

fun Flush :: "CCoinsView \<Rightarrow> coins_error + CCoinsView" where
  "Flush (CCoinsViewCache cache hashBlock base) =
     bind_sum (BatchWrite cache hashBlock base) (\<lambda>base. Inr (CCoinsViewCache [] hashBlock base))"
| "Flush (CCoinsViewDB db best) = Inr (CCoinsViewDB db best)"

fun Uncache :: "uint256 \<Rightarrow> CCoinsView \<Rightarrow> CCoinsView" where
  "Uncache hash (CCoinsViewCache cache hashBlock base) =
     (case map_of cache hash of
        Some e \<Rightarrow> CCoinsViewCache (if \<not> e_DIRTY e \<and> \<not> e_FRESH e then AList.delete hash cache else cache) hashBlock base
      | None \<Rightarrow> CCoinsViewCache cache hashBlock base)"
| "Uncache hash (CCoinsViewDB db best) = CCoinsViewDB db best"

section \<open>Modifying an entry\<close>

text \<open>The end of a modifier: the entry is tidied, and dropped when nobody below knows it.\<close>

definition release_entry :: "uint256 \<Rightarrow> CCoinsCacheEntry \<Rightarrow> CCoinsMap \<Rightarrow> CCoinsMap" where
  "release_entry txid e cache =
     (let e = e\<lparr>e_coins := Cleanup (e_coins e)\<rparr> in
      if e_FRESH e \<and> IsPruned (e_coins e) then AList.delete txid cache else AList.update txid e cache)"

text \<open>\<^verbatim>\<open>ModifyCoins\<close>, the statements \<open>body\<close> run through the modifier, and its destructor.\<close>

fun ModifyCoins ::
  "uint256 \<Rightarrow> (CCoins \<Rightarrow> coins_error + 'r \<times> CCoins) \<Rightarrow> CCoinsView \<Rightarrow> coins_error + 'r \<times> CCoinsView" where
  "ModifyCoins txid body (CCoinsViewCache cache hashBlock base) =
     (let (e, base) =
        (case map_of cache txid of
           Some e \<Rightarrow> (e, base)
         | None \<Rightarrow> (case GetCoins txid base of
             (None, base) \<Rightarrow> (\<lparr>e_coins = Clear CCoins_empty, e_DIRTY = False, e_FRESH = True\<rparr>, base)
           | (Some tmp, base) \<Rightarrow> (\<lparr>e_coins = tmp, e_DIRTY = False, e_FRESH = IsPruned tmp\<rparr>, base)))
      in bind_sum (body (e_coins e)) (\<lambda>(r, coins).
           Inr (r, CCoinsViewCache (release_entry txid (e\<lparr>e_DIRTY := True, e_coins := coins\<rparr>) cache) hashBlock base)))"
| "ModifyCoins txid body (CCoinsViewDB db best) = Inl CoinsAssert"

fun ModifyNewCoins :: "uint256 \<Rightarrow> bool \<Rightarrow> (CCoins \<Rightarrow> CCoins) \<Rightarrow> CCoinsView \<Rightarrow> coins_error + CCoinsView" where
  "ModifyNewCoins txid coinbase body (CCoinsViewCache cache hashBlock base) =
     (let e = (case map_of cache txid of
                 Some e \<Rightarrow> e | None \<Rightarrow> \<lparr>e_coins = CCoins_empty, e_DIRTY = False, e_FRESH = False\<rparr>)
      in if \<not> coinbase \<and> \<not> IsPruned (e_coins e) then Inl LogicError
      else let e = (if \<not> coinbase \<and> \<not> e_DIRTY e then e\<lparr>e_FRESH := True\<rparr> else e);
               e = e\<lparr>e_coins := body (Clear (e_coins e)), e_DIRTY := True\<rparr>
      in Inr (CCoinsViewCache (release_entry txid e cache) hashBlock base))"
| "ModifyNewCoins txid coinbase body (CCoinsViewDB db best) = Inl CoinsAssert"

section \<open>Queries on a transaction\<close>

definition GetOutputFor :: "CTxIn \<Rightarrow> CCoinsView \<Rightarrow> coins_error + CTxOut \<times> CCoinsView" where
  "GetOutputFor input v =
     (let (c, v) = AccessCoins (out_hash (prevout input)) v in
      case c of
        Some c \<Rightarrow> (if IsAvailable c (unat (out_n (prevout input)))
                 then Inr (c_vout c ! unat (out_n (prevout input)), v) else Inl CoinsAssert)
      | None \<Rightarrow> Inl CoinsAssert)"

fun value_in_loop :: "CTxIn list \<Rightarrow> CAmount \<Rightarrow> CCoinsView \<Rightarrow> coins_error + CAmount \<times> CCoinsView" where
  "value_in_loop [] nResult v = Inr (nResult, v)"
| "value_in_loop (txin # vs) nResult v =
     bind_sum (GetOutputFor txin v) (\<lambda>(txout, v). value_in_loop vs (wrap64 (nResult + nValue txout)) v)"

definition GetValueIn :: "CTransaction \<Rightarrow> CCoinsView \<Rightarrow> coins_error + CAmount \<times> CCoinsView" where
  "GetValueIn tx v = (if IsCoinBase tx then Inr (0, v) else value_in_loop (vin tx) 0 v)"

fun have_inputs_loop :: "CTxIn list \<Rightarrow> CCoinsView \<Rightarrow> bool \<times> CCoinsView" where
  "have_inputs_loop [] v = (True, v)"
| "have_inputs_loop (txin # vs) v =
     (let (c, v) = AccessCoins (out_hash (prevout txin)) v in
      case c of
        Some c \<Rightarrow> (if \<not> IsAvailable c (unat (out_n (prevout txin))) then (False, v) else have_inputs_loop vs v)
      | None \<Rightarrow> (False, v))"

definition HaveInputs :: "CTransaction \<Rightarrow> CCoinsView \<Rightarrow> bool \<times> CCoinsView" where
  "HaveInputs tx v = (if \<not> IsCoinBase tx then have_inputs_loop (vin tx) v else (True, v))"

section \<open>Connecting and disconnecting a transaction\<close>

definition spend_body :: "nat \<Rightarrow> CCoins \<Rightarrow> coins_error + CTxInUndo \<times> CCoins" where
  "spend_body nPos coins =
     (if nPos \<ge> length (c_vout coins) \<or> CTxOut_IsNull (c_vout coins ! nPos) then Inl CoinsAssert
      else let undo = CTxInUndo_make (c_vout coins ! nPos); coins = snd (Spend nPos coins) in
        Inr (if length (c_vout coins) = 0
             then undo\<lparr>u_nHeight := of_int (c_nHeight coins), u_fCoinBase := c_fCoinBase coins,
               u_nVersion := c_nVersion coins, u_fCoinStake := c_fCoinStake coins, u_nTime := c_nTime coins\<rparr>
             else undo, coins))"

fun spend_inputs :: "CTxIn list \<Rightarrow> CTxUndo \<Rightarrow> CCoinsView \<Rightarrow> coins_error + CTxUndo \<times> CCoinsView" where
  "spend_inputs [] txundo v = Inr (txundo, v)"
| "spend_inputs (txin # vs) txundo v =
     (if out_hash (prevout txin) = randpaytx then spend_inputs vs txundo v
      else bind_sum (ModifyCoins (out_hash (prevout txin)) (spend_body (unat (out_n (prevout txin)))) v) (\<lambda>(u, v).
        spend_inputs vs (txundo @ [u]) v))"

definition UpdateCoins ::
  "(bytes \<Rightarrow> uint256) \<Rightarrow> CTransaction \<Rightarrow> CTxUndo \<Rightarrow> int \<Rightarrow> CCoinsView \<Rightarrow> coins_error + CTxUndo \<times> CCoinsView" where
  "UpdateCoins Hash tx txundo nHeight v =
     bind_sum (if \<not> IsCoinBase tx then spend_inputs (vin tx) txundo v else Inr (txundo, v)) (\<lambda>(txundo, v).
     bind_sum (ModifyNewCoins (ComputeHash Hash tx) (IsCoinBase tx) (\<lambda>_. FromTx tx nHeight) v) (\<lambda>v. Inr (txundo, v)))"

definition undo_body :: "CTxInUndo \<Rightarrow> u32 \<Rightarrow> CCoins \<Rightarrow> coins_error + bool \<times> CCoins" where
  "undo_body undo out_pos coins =
     (let (fClean, coins) =
        (if u_nHeight undo \<noteq> 0
         then (IsPruned coins,
           (Clear coins)\<lparr>c_fCoinBase := u_fCoinBase undo, c_nHeight := wrap32 (uint (u_nHeight undo)), c_nVersion := u_nVersion undo,
             c_fCoinStake := u_fCoinStake undo, c_nTime := u_nTime undo\<rparr>)
         else (\<not> IsPruned coins, coins));
        fClean = (fClean \<and> \<not> IsAvailable coins (unat out_pos));
        vs = c_vout coins @ replicate (unat (out_pos + 1) - length (c_vout coins)) CTxOut_SetNull
      in if unat out_pos < length vs then Inr (fClean, coins\<lparr>c_vout := vs[unat out_pos := u_txout undo]\<rparr>)
         else Inl OutOfRange)"

definition ApplyTxInUndo :: "CTxInUndo \<Rightarrow> COutPoint \<Rightarrow> CCoinsView \<Rightarrow> coins_error + bool \<times> CCoinsView" where
  "ApplyTxInUndo undo out v = ModifyCoins (out_hash out) (undo_body undo (out_n out)) v"

definition outs_body :: "CTransaction \<Rightarrow> int \<Rightarrow> CCoins \<Rightarrow> coins_error + bool \<times> CCoins" where
  "outs_body tx nHeight outs =
     (let outs = ClearUnspendable outs; outsBlock = FromTx tx nHeight;
          outs = (if c_nVersion outsBlock < 0 then outs\<lparr>c_nVersion := c_nVersion outsBlock\<rparr> else outs)
      in Inr (CCoins_eq outs outsBlock, Clear outs))"

text \<open>The inputs are restored from the last to the first, so the lists are given reversed.\<close>

fun undo_inputs :: "(CTxIn \<times> CTxInUndo) list \<Rightarrow> bool \<Rightarrow> CCoinsView \<Rightarrow> coins_error + bool \<times> CCoinsView" where
  "undo_inputs [] fClean v = Inr (fClean, v)"
| "undo_inputs ((txin, undo) # us) fClean v =
     bind_sum (ApplyTxInUndo undo (prevout txin) v) (\<lambda>(r, v). undo_inputs us (fClean \<and> r) v)"

definition disconnect_tx ::
  "(bytes \<Rightarrow> uint256) \<Rightarrow> int \<Rightarrow> CTransaction \<Rightarrow> CTxUndo option \<Rightarrow> bool \<Rightarrow> CCoinsView \<Rightarrow> coins_error + bool \<times> CCoinsView" where
  "disconnect_tx Hash nHeight tx txundo fClean v =
     bind_sum (ModifyCoins (ComputeHash Hash tx) (outs_body tx nHeight) v) (\<lambda>(r, v).
     let fClean = (fClean \<and> r) in
     case txundo of
       None \<Rightarrow> Inr (fClean, v)
     | Some vprevout \<Rightarrow>
         (let vinWithoutRandpay = filter (\<lambda>txin. out_hash (prevout txin) \<noteq> randpaytx) (vin tx) in
          if length vprevout \<noteq> length vinWithoutRandpay then Inl Inconsistent
          else undo_inputs (rev (zip vinWithoutRandpay vprevout)) fClean v))"

definition isForkBlock :: "int \<Rightarrow> bool" where
  "isForkBlock nHeight \<longleftrightarrow> nHeight > 0 \<and> nHeight \<le> 365"

abbreviation (input) forkCBPerBlock :: nat where "forkCBPerBlock \<equiv> 2000"

primrec disconnect_loop ::
  "(bytes \<Rightarrow> uint256) \<Rightarrow> int \<Rightarrow> CTransaction list \<Rightarrow> CBlockUndo \<Rightarrow> nat \<Rightarrow> bool \<Rightarrow> CCoinsView \<Rightarrow> coins_error + bool \<times> CCoinsView" where
  "disconnect_loop Hash nHeight vtx vtxundo 0 fClean v = Inr (fClean, v)"
| "disconnect_loop Hash nHeight vtx vtxundo (Suc i) fClean v =
     (let nNonCBIdx = (if isForkBlock nHeight then forkCBPerBlock else 0) in
      bind_sum (disconnect_tx Hash nHeight (vtx ! i) (if i > nNonCBIdx then Some (vtxundo ! (i - 1)) else None) fClean v)
        (\<lambda>(fClean, v). disconnect_loop Hash nHeight vtx vtxundo i fClean v))"

section \<open>A block\<close>

text \<open>What \<^verbatim>\<open>ConnectBlock\<close> does to the coins: the undo record of every transaction but the first is kept.\<close>

fun connect_loop ::
  "(bytes \<Rightarrow> uint256) \<Rightarrow> int \<Rightarrow> nat \<Rightarrow> CTransaction list \<Rightarrow> CBlockUndo \<Rightarrow> CCoinsView \<Rightarrow> coins_error + CBlockUndo \<times> CCoinsView" where
  "connect_loop Hash nHeight i [] vtxundo v = Inr (vtxundo, v)"
| "connect_loop Hash nHeight i (tx # vtx) vtxundo v =
     bind_sum (UpdateCoins Hash tx [] nHeight v) (\<lambda>(txundo, v).
       connect_loop Hash nHeight (Suc i) vtx (if i > 0 then vtxundo @ [txundo] else vtxundo) v)"

definition undo_file :: "(bytes \<Rightarrow> uint256) \<Rightarrow> (CPubKey \<Rightarrow> bool) \<Rightarrow> CBlockUndo \<Rightarrow> uint256 \<Rightarrow> bytes" where
  "undo_file Hash fully_valid blockundo hashBlock =
     Serialize_CBlockUndo fully_valid blockundo @ Hash (hashBlock @ Serialize_CBlockUndo fully_valid blockundo)"

definition UndoReadFromDisk ::
  "(bytes \<Rightarrow> uint256) \<Rightarrow> (CPubKey \<Rightarrow> bool) \<Rightarrow> (CPubKey \<Rightarrow> CPubKey option) \<Rightarrow> bytes \<Rightarrow> uint256 \<Rightarrow> CBlockUndo option" where
  "UndoReadFromDisk Hash fully_valid decompress filein hashBlock =
     (case bind_sum (Unserialize_CBlockUndo decompress filein) (\<lambda>(blockundo, s).
             bind_sum (stream_read 32 s) (\<lambda>(hashChecksum, s). Inr (blockundo, hashChecksum))) of
        Inl e \<Rightarrow> None
      | Inr (blockundo, hashChecksum) \<Rightarrow>
          (if hashChecksum \<noteq> Hash (hashBlock @ Serialize_CBlockUndo fully_valid blockundo) then None else Some blockundo))"

text \<open>
  \<^verbatim>\<open>DisconnectBlock\<close> with the undo file at the position of the block as an argument. The block index is
  represented by the hash of the block, the hash of its predecessor and the height.
\<close>

definition DisconnectBlock ::
  "(bytes \<Rightarrow> uint256) \<Rightarrow> (CPubKey \<Rightarrow> bool) \<Rightarrow> (CPubKey \<Rightarrow> CPubKey option) \<Rightarrow> CTransaction list \<Rightarrow> int \<Rightarrow> uint256 \<Rightarrow> uint256
     \<Rightarrow> bytes option \<Rightarrow> CCoinsView \<Rightarrow> coins_error + bool \<times> CCoinsView" where
  "DisconnectBlock Hash fully_valid decompress vtx nHeight hashBlock hashPrev undo_pos v =
     (let (best, v) = GetBestBlock v in
      if hashBlock \<noteq> best then Inl CoinsAssert
      else case Option.bind undo_pos (\<lambda>f. UndoReadFromDisk Hash fully_valid decompress f hashPrev) of
        None \<Rightarrow> Inl Inconsistent
      | Some vtxundo \<Rightarrow>
          (if length vtxundo + 1 \<noteq> length vtx then Inl Inconsistent
           else bind_sum (disconnect_loop Hash nHeight vtx vtxundo (length vtx) True v) (\<lambda>(fClean, v).
             Inr (fClean, SetBestBlock hashPrev v))))"

end
