(* ===== verification/MFC_CoinsProps.thy ===== *)
theory MFC_CoinsProps
  imports MFC_Coins
begin

unbundle bit_operations_syntax

text \<open>
  Coins and undo records are read back exactly as they were stored: the spentness mask, the header code
  that packs three flags with the number of its nonzero bytes, and the outputs that are left.
\<close>

section \<open>The spentness mask\<close>

abbreviation unspent :: "CTxOut \<Rightarrow> bool" where "unspent t \<equiv> \<not> CTxOut_IsNull t"

lemma bit_avail_bits:
  "bit (avail_bits ts i) p \<longleftrightarrow> p < 8 \<and> i \<le> p \<and> p - i < length ts \<and> unspent (ts ! (p - i))"
proof (induction ts arbitrary: i)
  case (Cons t ts)
  have "bit (2 ^ i :: byte) p \<longleftrightarrow> p < 8 \<and> p = i" by (auto simp: bit_exp_iff)
  then show ?case using Cons [of "Suc i"] by (cases "p = i") (auto simp: bit_or_iff nth_Cons' Suc_diff_le)
qed simp

lemma and_exp_bit: "(b AND 2 ^ p \<noteq> (0 :: byte)) \<longleftrightarrow> bit b p"
proof -
  have "b AND 2 ^ p \<noteq> 0 \<longleftrightarrow> (\<exists>q < 8. bit (b AND 2 ^ p) q)" by (simp add: bit_eq_iff)
  also have "\<dots> \<longleftrightarrow> bit b p" using bit_imp_le_length [of b p] by (auto simp: bit_and_iff bit_exp_iff)
  finally show ?thesis .
qed

lemma avail_bits_flags:
  assumes "length ts \<le> 8"
  shows "map (\<lambda>p. avail_bits ts 0 AND push_bit p 1 \<noteq> 0) [0..<8] = map unspent ts @ replicate (8 - length ts) False"
  using assms and_exp_bit [of "avail_bits ts 0"] by (intro nth_equalityI) (auto simp: bit_avail_bits nth_append)

lemma avail_bits_0:
  assumes "length ts \<le> 8"
  shows "avail_bits ts 0 = 0 \<longleftrightarrow> list_all CTxOut_IsNull ts"
  using assms by (auto simp: bit_eq_iff bit_avail_bits list_all_length)

definition tidy :: "CTxOut list \<Rightarrow> bool" where
  "tidy vs \<longleftrightarrow> vs = [] \<or> unspent (last vs)"

lemma mask_roundtrip:
  "tidy vs \<Longrightarrow> \<exists>n z pad.
     calc_mask vs b (l, k) = (if vs = [] then l else b + n, k + z) \<and> (vs = [] \<longrightarrow> n = 0) \<and> (vs \<noteq> [] \<longrightarrow> 0 < z) \<and> z \<le> length vs
     \<and> read_avail z (mask_bytes n vs @ s) = Inr (map unspent vs @ replicate pad False, s)"
proof (induction "length vs" arbitrary: vs b l k rule: less_induct)
  case less
  let ?c = "take 8 vs" and ?d = "drop 8 vs"
  let ?r = "if list_all CTxOut_IsNull ?c then (l, k) else (b + 1, k + 1)"
  note flags = avail_bits_flags [of ?c] avail_bits_0 [of ?c]
  consider "vs = []" | "vs \<noteq> []" "?d = []" | "?d \<noteq> []" by fastforce
  then show ?case
  proof cases
    case 1
    then show ?thesis by (intro exI [of _ 0] exI [of _ 0] exI [of _ 0]) (simp add: calc_mask.simps)
  next
    case 2
    then have "\<not> list_all CTxOut_IsNull ?c" "?c = vs" using less.prems
      by (auto simp: tidy_def list_all_iff dest: last_in_set)
    moreover from this have "calc_mask vs b (l, k) = (b + 1, k + 1)" using 2
      by (simp add: calc_mask.simps [of vs] calc_mask.simps [of "[]"] Let_def)
    ultimately show ?thesis using 2 flags
      by (intro exI [of _ 1] exI [of _ 1] exI [of _ "8 - length vs"]) (simp add: Suc_leI)
  next
    case 3
    then have ne: "vs \<noteq> []" "length ?c = 8" "length vs - 8 < length vs" by auto
    have td: "tidy ?d" using less.prems 3 by (auto simp: tidy_def)
    obtain l' k' where r: "?r = (l', k')" by fastforce
    obtain n z pad where ih: "calc_mask ?d (b + 1) (l', k') = (b + 1 + n, k' + z)" "0 < z" "z \<le> length ?d"
      "read_avail z (mask_bytes n ?d @ s) = Inr (map unspent ?d @ replicate pad False, s)"
      using less.hyps [of ?d "b + 1" l' k', OF _ td] 3 ne by (auto simp del: drop_eq_Nil)
    have cm: "calc_mask vs b (l, k) = (b + Suc n, k' + z)"
      using ne ih(1) r by (auto simp: calc_mask.simps [of vs] Let_def split: if_splits)
    have fl: "map unspent ?c @ map unspent ?d = map unspent vs" by (simp flip: map_append)
    obtain y where y: "z = Suc y" using ih(2) gr0_implies_Suc by blast
    show ?thesis
    proof (cases "list_all CTxOut_IsNull ?c")
      case True
      then have "read_avail z (mask_bytes (Suc n) vs @ s) = Inr (map unspent vs @ replicate pad False, s)"
        using ih(4) flags ne fl y by (simp flip: append_assoc)
      then show ?thesis using True r cm ih ne
        by (intro exI [of _ "Suc n"] exI [of _ z] exI [of _ pad]) simp
    next
      case False
      then have "read_avail (Suc z) (mask_bytes (Suc n) vs @ s) = Inr (map unspent vs @ replicate pad False, s)"
        using ih(4) flags ne fl by (simp flip: append_assoc)
      then show ?thesis using False r cm ih ne
        by (intro exI [of _ "Suc n"] exI [of _ "Suc z"] exI [of _ pad]) auto
    qed
  qed
qed

section \<open>Coins\<close>

lemma read_outs_nulls: "read_outs decompress (replicate pad False) s = Inr (replicate pad CTxOut_SetNull, s)"
  by (induction pad) simp_all

definition ok_slot :: "CTxOut \<Rightarrow> bool" where
  "ok_slot t \<longleftrightarrow> (if CTxOut_IsNull t then t = CTxOut_SetNull else ok_coin_out t)"

lemma read_outs_roundtrip:
  assumes "list_all ok_slot vs" "point_compression fully_valid decompress"
  shows "read_outs decompress (map unspent vs @ replicate pad False)
      (concat (map (Serialize_CTxOutCompressor fully_valid) (filter unspent vs)) @ s)
    = Inr (vs @ replicate pad CTxOut_SetNull, s)"
  using assms
proof (induction vs)
  case Nil
  then show ?case by (simp add: read_outs_nulls)
next
  case (Cons t vs)
  then show ?case using coin_out.dec_enc [of t fully_valid decompress] by (auto simp: ok_slot_def)
qed

lemma null_SetNull [simp]: "CTxOut_IsNull CTxOut_SetNull"
  by (simp add: CTxOut_IsNull_def CTxOut_SetNull_def)

lemma dropWhile_nulls: "dropWhile CTxOut_IsNull (replicate n CTxOut_SetNull @ ys) = dropWhile CTxOut_IsNull ys"
  by (induction n) simp_all

lemma tidy_dropWhile: "tidy vs \<Longrightarrow> dropWhile CTxOut_IsNull (rev vs) = rev vs"
  by (cases vs rule: rev_cases) (auto simp: tidy_def)

lemma Cleanup_nulls: "tidy vs \<Longrightarrow> Cleanup (c\<lparr>c_vout := vs @ replicate n CTxOut_SetNull\<rparr>) = c\<lparr>c_vout := vs\<rparr>"
  by (simp add: Cleanup_def dropWhile_nulls tidy_dropWhile)

lemma and_low_bits:
  assumes "m < 8"
  shows "(n :: nat) AND m = (n mod 8) AND m"
proof -
  have "m = m AND mask 3" using assms by (simp add: take_bit_nat_eq_self flip: take_bit_eq_mask)
  then have "n AND m = (n AND mask 3) AND m" by (metis and.assoc and.commute)
  then show ?thesis by (simp add: take_bit_eq_mod flip: take_bit_eq_mask)
qed

lemma header_code:
  fixes q :: nat
  assumes "n = 8 * q + (if a then 1 else 0) + (if f then 2 else 0) + (if g then 4 else 0)"
  shows "odd n \<longleftrightarrow> a" "n AND 2 \<noteq> 0 \<longleftrightarrow> f" "n AND 4 \<noteq> 0 \<longleftrightarrow> g" "n AND 6 \<noteq> 0 \<longleftrightarrow> f \<or> g" "n div 8 = q"
proof -
  have m: "n mod 8 = (if a then 1 else 0) + (if f then 2 else 0) + (if g then 4 else 0)" unfolding assms by (cases a; cases f; cases g; simp) presburger+
  show "odd n \<longleftrightarrow> a" unfolding assms by simp
  show "n AND 2 \<noteq> 0 \<longleftrightarrow> f" unfolding and_low_bits [of 2 n, simplified] m by (simp del: add_2_eq_Suc add_2_eq_Suc')
  show "n AND 4 \<noteq> 0 \<longleftrightarrow> g" unfolding and_low_bits [of 4 n, simplified] m by (simp del: add_2_eq_Suc add_2_eq_Suc')
  show "n AND 6 \<noteq> 0 \<longleftrightarrow> f \<or> g" unfolding and_low_bits [of 6 n, simplified] m by (simp del: add_2_eq_Suc add_2_eq_Suc')
  show "n div 8 = q" unfolding assms by (simp del: add_2_eq_Suc add_2_eq_Suc')
qed

definition ok_coins :: "CCoins \<Rightarrow> bool" where
  "ok_coins c \<longleftrightarrow> c_vout c \<noteq> [] \<and> unspent (last (c_vout c)) \<and> list_all ok_slot (c_vout c) \<and> length (c_vout c) \<le> MAX_SIZE
     \<and> 0 \<le> c_nHeight c \<and> c_nHeight c < 2147483648 \<and> 0 \<le> c_nVersion c \<and> c_nVersion c < 2147483648"

lemma two_flags:
  "\<exists>pad. (length vs > 0 \<and> unspent (vs ! 0)) # (length vs > 1 \<and> unspent (vs ! 1)) # map unspent (drop 2 vs) @ replicate p False
     = map unspent vs @ replicate pad False"
proof (cases vs)
  case Nil
  then show ?thesis by (intro exI [of _ "Suc (Suc p)"]) simp
next
  case (Cons a ws)
  then show ?thesis
    by (cases ws) (auto intro: exI [of _ "Suc p"] exI [of _ p])
qed

lemma two_outputs:
  assumes "vs \<noteq> []" "unspent (last vs)" "drop 2 vs = []"
  shows "(length vs > 0 \<and> unspent (vs ! 0)) \<or> (length vs > 1 \<and> unspent (vs ! 1))"
proof -
  have "length vs = 1 \<or> length vs = 2" using assms by (cases "length vs") auto
  then show ?thesis using assms last_conv_nth [of vs] by auto
qed

lemma Unserialize_Serialize_CCoins:
  assumes ok: "ok_coins c" and pc: "point_compression fully_valid decompress"
  shows "\<exists>bs. Serialize_CCoins fully_valid c = Some bs \<and> Unserialize_CCoins decompress (bs @ s) = Inr (c, s)"
proof -
  let ?vs = "drop 2 (c_vout c)"
  define first second where "first = (length (c_vout c) > 0 \<and> unspent (c_vout c ! 0))"
    and "second = (length (c_vout c) > 1 \<and> unspent (c_vout c ! 1))"
  define flag :: nat where "flag = (if c_fCoinStake c then 1 else 0)"
  have flag: "flag < 4294967296" "odd flag = c_fCoinStake c" by (simp_all add: flag_def)
  let ?rest = "WriteVarInt_int32 (c_nHeight c) @ WriteVarInt flag @ WriteVarInt (unat (c_nTime c)) @ s"
  let ?outs = "concat (map (Serialize_CTxOutCompressor fully_valid) (filter unspent (c_vout c))) @ ?rest"
  have td: "tidy (c_vout c)" "tidy ?vs" using ok by (auto simp: ok_coins_def tidy_def)
  obtain n z p where m: "calc_mask ?vs 0 (0, 0) = (n, z)" "?vs \<noteq> [] \<longrightarrow> 0 < z" "z \<le> length ?vs"
    "read_avail z (mask_bytes n ?vs @ ?outs) = Inr (map unspent ?vs @ replicate p False, ?outs)"
    using mask_roundtrip [OF td(2), of 0 0 0 ?outs] by (auto split: if_splits)
  have some: "first \<or> second \<or> z \<noteq> 0"
    using two_outputs [of "c_vout c"] ok m(2) by (auto simp: ok_coins_def first_def second_def)
  define code where "code = 8 * (z - (if first \<or> second then 0 else 1)) + (if c_fCoinBase c then 1 else 0)
      + (if first then 2 else 0) + (if second then 4 else 0)"
  have "z \<le> MAX_SIZE" using m(3) ok by (auto simp: ok_coins_def)
  moreover have "code \<le> 8 * z + 7" unfolding code_def by (cases z) auto
  ultimately have lt: "code < 4294967296" by linarith
  note hc = header_code [OF code_def]
  have zc: "code div 8 + (if code AND 6 \<noteq> 0 then 0 else 1) = z" using hc some by auto
  obtain pad where pad: "first # second # map unspent ?vs @ replicate p False = map unspent (c_vout c) @ replicate pad False"
    using two_flags [of "c_vout c" p] unfolding first_def second_def by blast
  have ro: "read_outs decompress (first # second # map unspent ?vs @ replicate p False) ?outs
      = Inr (c_vout c @ replicate pad CTxOut_SetNull, ?rest)"
    unfolding pad using read_outs_roundtrip ok pc by (auto simp: ok_coins_def)
  have time: "unat (c_nTime c) < 4294967296" using unsigned_less [of "c_nTime c", where 'a = nat] by simp
  let ?bs = "WriteVarInt_int32 (c_nVersion c) @ WriteVarInt code @ mask_bytes n ?vs @ ?outs"
  have "Serialize_CCoins fully_valid c = Some (WriteVarInt_int32 (c_nVersion c) @ WriteVarInt code @ mask_bytes n ?vs
       @ concat (map (Serialize_CTxOutCompressor fully_valid) (filter unspent (c_vout c)))
       @ WriteVarInt_int32 (c_nHeight c) @ WriteVarInt flag @ WriteVarInt (unat (c_nTime c)))"
    using m(1) some lt by (simp add: Serialize_CCoins_def CalcMaskSize_def Let_def first_def second_def code_def flag_def)
  moreover have "Cleanup \<lparr>c_fCoinBase = c_fCoinBase c, c_vout = c_vout c @ replicate pad CTxOut_SetNull, c_nHeight = c_nHeight c,
      c_nVersion = c_nVersion c, c_fCoinStake = c_fCoinStake c, c_nTime = c_nTime c\<rparr> = c"
    using Cleanup_nulls [OF td(1), where c = c and n = pad] by (cases c) simp
  then have "Unserialize_CCoins decompress ?bs = Inr (c, s)"
    using svarint32.dec_enc [of "c_nVersion c"] svarint32.dec_enc [of "c_nHeight c"] varint32.dec_enc [OF lt]
      varint32.dec_enc [OF time] varint32.dec_enc [OF flag(1)] ok m(4) ro zc hc(1-3) flag(2)
    by (simp add: Unserialize_CCoins_def ok_coins_def Let_def del: bind_sum_eq_Inr read_outs.simps)
  ultimately show ?thesis by auto
qed

section \<open>Undo records\<close>

definition ok_undo :: "CTxInUndo \<Rightarrow> bool" where
  "ok_undo u \<longleftrightarrow> ok_coin_out (u_txout u) \<and> unat (u_nHeight u) < 1073741824 \<and> 0 \<le> u_nVersion u \<and> u_nVersion u < 2147483648
     \<and> (u_nHeight u = 0 \<longrightarrow> u_nVersion u = 0)"

interpretation txin_undo: codec "Serialize_CTxInUndo fully_valid" "Unserialize_CTxInUndo decompress"
  "\<lambda>u. ok_undo u \<and> point_compression fully_valid decompress" for fully_valid decompress
proof
  fix u s
  assume ok: "ok_undo u \<and> point_compression fully_valid decompress"
  define k where "k = unat (u_nHeight u)"
  define code where "code = 8 * 0 + 4 * k + (if u_fCoinBase u then 1 else 0) + (if u_fCoinStake u then 2 else 0)"
  have h: "u_nHeight u = of_nat k" "k < 1073741824" using ok by (simp_all add: k_def ok_undo_def)
  have "u_nHeight u * 4 + (if u_fCoinBase u then 1 else 0) + (if u_fCoinStake u then 2 else 0) = of_nat code"
    by (simp add: h code_def)
  moreover have lt: "code < 4294967296" using h(2) by (simp add: code_def)
  ultimately have w: "unat (u_nHeight u * 4 + (if u_fCoinBase u then 1 else 0) + (if u_fCoinStake u then 2 else 0)) = code"
    by (simp add: unat_of_nat)
  have c8: "code = 8 * (k div 2) + (if u_fCoinBase u then 1 else 0) + (if u_fCoinStake u then 2 else 0) + (if odd k then 4 else 0)"
    unfolding code_def by (cases "odd k") (auto elim!: oddE evenE)
  have d: "code div 4 = k" unfolding code_def by (simp del: add_2_eq_Suc add_2_eq_Suc')
  have time: "unat (u_nTime u) < 4294967296" using unsigned_less [of "u_nTime u", where 'a = nat] by simp
  have pos: "(0 < u_nHeight u) = (0 < (of_nat k :: u32))" by (simp add: h)
  have z: "\<not> 0 < u_nHeight u \<Longrightarrow> u_nVersion u = 0" using ok by (simp add: ok_undo_def word_gt_0)
  show "Unserialize_CTxInUndo decompress (Serialize_CTxInUndo fully_valid u @ s) = Inr (u, s)"
    using ok varint32.dec_enc [OF lt] varint32.dec_enc [OF time] svarint32.dec_enc [of "u_nVersion u"] header_code(1,2) [OF c8] d z
      coin_out.dec_enc [of "u_txout u" fully_valid decompress s]
    by (simp add: Serialize_CTxInUndo_def Unserialize_CTxInUndo_def Let_def w flip: h(1)) (simp add: ok_undo_def)
qed

definition ok_block_undo :: "CBlockUndo \<Rightarrow> bool" where
  "ok_block_undo b \<longleftrightarrow> length b \<le> MAX_SIZE \<and> list_all (\<lambda>t. length t \<le> MAX_SIZE \<and> list_all ok_undo t) b"

interpretation tx_undo: codec "Serialize_vector (Serialize_CTxInUndo fully_valid)"
  "Unserialize_vector (Unserialize_CTxInUndo decompress)"
  "\<lambda>t. length t \<le> MAX_SIZE \<and> list_all ok_undo t \<and> point_compression fully_valid decompress" for fully_valid decompress
  by unfold_locales (auto intro!: txin_undo.vector_dec_enc simp: list_all_iff)

interpretation block_undo: codec "Serialize_CBlockUndo fully_valid" "Unserialize_CBlockUndo decompress"
  "\<lambda>b. ok_block_undo b \<and> point_compression fully_valid decompress" for fully_valid decompress
  by unfold_locales
    (auto intro!: tx_undo.vector_dec_enc simp: list_all_iff ok_block_undo_def Serialize_CBlockUndo_def Unserialize_CBlockUndo_def)

section \<open>What the coin database gives back\<close>

text \<open>
  A curve of one key, for the examples: the generator of secp256k1, whose second coordinate is even.
\<close>

definition base_x :: bytes where
  "base_x = [0x79, 0xBE, 0x66, 0x7E, 0xF9, 0xDC, 0xBB, 0xAC, 0x55, 0xA0, 0x62, 0x95, 0xCE, 0x87, 0x0B, 0x07,
    0x02, 0x9B, 0xFC, 0xDB, 0x2D, 0xCE, 0x28, 0xD9, 0x59, 0xF2, 0x81, 0x5B, 0x16, 0xF8, 0x17, 0x98]"

definition base_y :: bytes where
  "base_y = [0x48, 0x3A, 0xDA, 0x77, 0x26, 0xA3, 0xC4, 0x65, 0x5D, 0xA4, 0xFB, 0xFC, 0x0E, 0x11, 0x08, 0xA8,
    0xFD, 0x17, 0xB4, 0x48, 0xA6, 0x85, 0x54, 0x19, 0x9C, 0x47, 0xD0, 0x8F, 0xFB, 0x10, 0xD4, 0xB8]"

definition base_valid :: "CPubKey \<Rightarrow> bool" where
  "base_valid k \<longleftrightarrow> k = 4 # base_x @ base_y"

definition base_decompress :: "CPubKey \<Rightarrow> CPubKey option" where
  "base_decompress k = (if k = 2 # base_x then Some (4 # base_x @ base_y) else None)"

lemma base_point_compression: "point_compression base_valid base_decompress"
proof -
  have "last base_y AND 1 = 0" by (simp add: base_y_def)
  moreover have "length base_x = 32" by (simp add: base_x_def)
  ultimately show ?thesis by (auto simp: point_compression_def base_valid_def base_decompress_def)
qed

text \<open>Ten outputs, spent but for the first, which pays to the key, and the last, of a coinstake.\<close>

definition sample_coins :: CCoins where
  "sample_coins = \<lparr>c_fCoinBase = False,
     c_vout = \<lparr>nValue = 5000000, scriptPubKey = 65 # 4 # base_x @ base_y @ [of_nat OP_CHECKSIG]\<rparr> # replicate 8 CTxOut_SetNull
       @ [\<lparr>nValue = 1234567, scriptPubKey = [0x51]\<rparr>],
     c_nHeight = 120000, c_nVersion = 1, c_fCoinStake = True, c_nTime = 1500000000\<rparr>"


lemma sample_coins_ok: "ok_coins sample_coins"
  by (simp add: ok_coins_def sample_coins_def ok_slot_def ok_coin_out_def CTxOut_IsNull_def CTxOut_SetNull_def
      base_x_def base_y_def list_all_iff)


end
