(* ===== verification/MFC_CoinsViewProps.thy ===== *)
theory MFC_CoinsViewProps
  imports MFC_CoinsView MFC_CoinsProps
begin

text \<open>
  What the stack of caches means: every level is a plain map of unspent outputs, and the dirty and fresh
  marks, the entries fetched on the way and the entries dropped early cannot be seen. Each operation of
  the views is a simple operation on the map of the top, and flushing copies the top to the level below.
\<close>

section \<open>The map a view stands for\<close>

type_synonym utxo = "uint256 \<Rightarrow> CCoins option"

definition prune :: "CCoins \<Rightarrow> CCoins option" where
  "prune c = (if IsPruned c then None else Some c)"

fun lookup :: "CCoinsView \<Rightarrow> utxo" where
  "lookup (CCoinsViewDB db best) k = db k"
| "lookup (CCoinsViewCache cache h base) k =
     (case map_of cache k of Some e \<Rightarrow> Some (e_coins e) | None \<Rightarrow> lookup base k)"

definition utxo_of :: "CCoinsView \<Rightarrow> utxo" where
  "utxo_of v k = Option.bind (lookup v k) prune"

fun levels :: "CCoinsView \<Rightarrow> utxo list" where
  "levels (CCoinsViewDB db best) = [utxo_of (CCoinsViewDB db best)]"
| "levels (CCoinsViewCache cache h base) = utxo_of (CCoinsViewCache cache h base) # levels base"

definition tidy_coins :: "CCoins \<Rightarrow> bool" where
  "tidy_coins c \<longleftrightarrow> tidy (c_vout c)"

definition entry_ok :: "CCoins option \<Rightarrow> CCoinsCacheEntry \<Rightarrow> bool" where
  "entry_ok below e \<longleftrightarrow> tidy_coins (e_coins e) \<and> (e_FRESH e \<longrightarrow> below = None) \<and> (\<not> e_DIRTY e \<longrightarrow> prune (e_coins e) = below)"

definition entries_ok :: "(uint256 \<Rightarrow> CCoinsCacheEntry option) \<Rightarrow> utxo \<Rightarrow> bool" where
  "entries_ok cache below \<longleftrightarrow> (\<forall>k e. cache k = Some e \<longrightarrow> entry_ok (below k) e)"

fun view_ok :: "CCoinsView \<Rightarrow> bool" where
  "view_ok (CCoinsViewDB db best) = (\<forall>k c. db k = Some c \<longrightarrow> tidy_coins c)"
| "view_ok (CCoinsViewCache cache h base) =
     (view_ok base \<and> distinct (map fst cache) \<and> entries_ok (map_of cache) (utxo_of base))"

fun is_cache :: "CCoinsView \<Rightarrow> bool" where
  "is_cache (CCoinsViewDB db best) = False"
| "is_cache (CCoinsViewCache cache h base) = True"

lemma entries_ok_simps [simp]:
  "entry_ok (below k) e \<Longrightarrow> entries_ok cache below \<Longrightarrow> entries_ok (cache(k \<mapsto> e)) below"
  "entries_ok cache below \<Longrightarrow> entries_ok (cache(k := None)) below"
  "entries_ok Map.empty below"
  by (auto simp: entries_ok_def)

lemma entries_okD: "entries_ok cache below \<Longrightarrow> cache k = Some e \<Longrightarrow> entry_ok (below k) e"
  by (simp add: entries_ok_def)

lemma utxo_of_cache:
  "utxo_of (CCoinsViewCache cache h base) k =
    (case map_of cache k of Some e \<Rightarrow> prune (e_coins e) | None \<Rightarrow> utxo_of base k)"
  by (simp add: utxo_of_def split: option.split)

lemma levels_Cons: "\<exists>ms. levels v = utxo_of v # ms"
  by (cases v) auto

lemma levels_hd [simp]: "hd (levels v) = utxo_of v" "levels v \<noteq> []"
  by (cases v; simp)+

lemma tidy_pruned: "tidy_coins c \<Longrightarrow> IsPruned c \<longleftrightarrow> c_vout c = []"
  by (auto simp: tidy_coins_def tidy_def IsPruned_def list_all_iff dest: last_in_set)

lemma tidy_Cleanup [simp]: "tidy_coins (Cleanup c)"
  using hd_dropWhile [of CTxOut_IsNull "rev (c_vout c)"]
  by (auto simp: tidy_coins_def tidy_def Cleanup_def last_rev)

lemma lookup_tidy: "view_ok v \<Longrightarrow> lookup v k = Some c \<Longrightarrow> tidy_coins c"
  by (induction v) (auto simp: entry_ok_def dest: entries_okD split: option.splits)

lemma prune_simps [simp]: "IsPruned c \<Longrightarrow> prune c = None" "\<not> IsPruned c \<Longrightarrow> prune c = Some c"
  by (simp_all add: prune_def)

lemma prune_eq: "prune c = Some d \<longleftrightarrow> d = c \<and> \<not> IsPruned c" "prune c = None \<longleftrightarrow> IsPruned c"
  by (auto simp: prune_def)

lemma empty_pruned [simp]: "IsPruned CCoins_empty" "tidy_coins CCoins_empty" "Clear CCoins_empty = CCoins_empty"
  by (simp_all add: IsPruned_def CCoins_empty_def tidy_coins_def tidy_def Clear_def)

section \<open>Reading\<close>

lemma view_ok_base: "utxo_of base' = utxo_of base \<Longrightarrow> view_ok base' \<Longrightarrow>
    view_ok (CCoinsViewCache cache h base) \<Longrightarrow> view_ok (CCoinsViewCache cache h base')"
  by simp

lemma GetCoins_spec:
  "view_ok v \<Longrightarrow> GetCoins k v = (r, v') \<Longrightarrow>
    r = lookup v k \<and> lookup v' = lookup v \<and> view_ok v' \<and> levels v' = levels v \<and> (is_cache v' \<longleftrightarrow> is_cache v)"
proof (induction v arbitrary: r v')
  case (CCoinsViewDB db best)
  then show ?case by auto
next
  case (CCoinsViewCache cache h base)
  show ?case
  proof (cases "map_of cache k")
    case (Some e)
    then show ?thesis using CCoinsViewCache.prems by auto
  next
    case None
    obtain q base' where g: "GetCoins k base = (q, base')" by fastforce
    have b: "q = lookup base k" "lookup base' = lookup base" "view_ok base'" "levels base' = levels base"
      using CCoinsViewCache.IH [OF _ g] CCoinsViewCache.prems(1) by auto
    then have u: "utxo_of base' = utxo_of base" by (simp add: utxo_of_def fun_eq_iff)
    show ?thesis
    proof (cases q)
      case None
      then have "r = None" "v' = CCoinsViewCache cache h base'"
        using CCoinsViewCache.prems(2) g \<open>map_of cache k = None\<close> by auto
      moreover have "view_ok (CCoinsViewCache cache h base')" by (rule view_ok_base [OF u b(3) CCoinsViewCache.prems(1)])
      ultimately show ?thesis using \<open>map_of cache k = None\<close> b None u
        by (auto simp: fun_eq_iff utxo_of_cache simp del: view_ok.simps split: option.split)
    next
      case (Some t)
      let ?e = "\<lparr>e_coins = t, e_DIRTY = False, e_FRESH = IsPruned t\<rparr>"
      have v': "v' = CCoinsViewCache (AList.update k ?e cache) h base'" "r = Some t"
        using CCoinsViewCache.prems(2) None g Some by auto
      have lk: "lookup base k = Some t" using b(1) Some by simp
      then have t: "tidy_coins t" "utxo_of base k = prune t"
        using lookup_tidy [of base k t] CCoinsViewCache.prems(1) by (simp_all add: utxo_of_def)
      then have "entry_ok (utxo_of base k) ?e" by (simp add: entry_ok_def)
      then have "view_ok v'" using CCoinsViewCache.prems(1) b(3) u unfolding v'
        by (simp add: update_conv' distinct_update)
      then show ?thesis using v' b Some None t u
        by (auto simp: fun_eq_iff utxo_of_cache update_conv' simp del: view_ok.simps split: option.split)
    qed
  qed
qed

lemma same_utxo: "levels v' = levels v \<Longrightarrow> utxo_of v' = utxo_of v"
  using levels_hd(1) [of v'] levels_hd(1) [of v] by simp

lemma HaveCoins_spec:
  assumes "view_ok v" "HaveCoins k v = (r, v')"
  shows "r \<longleftrightarrow> utxo_of v k \<noteq> None" "view_ok v'" "levels v' = levels v" "is_cache v' \<longleftrightarrow> is_cache v"
proof -
  obtain q w where g: "GetCoins k v = (q, w)" by fastforce
  note s = GetCoins_spec [OF assms(1) g]
  show "r \<longleftrightarrow> utxo_of v k \<noteq> None"
    using assms s g lookup_tidy [OF assms(1), of k] tidy_pruned
    by (auto simp: HaveCoins_def utxo_of_def prune_def split: option.splits)
  show "view_ok v'" "levels v' = levels v" "is_cache v' \<longleftrightarrow> is_cache v"
    using assms(2) s g by (auto simp: HaveCoins_def split: option.splits)
qed

section \<open>Modifying\<close>

text \<open>What a modifier finds: possibly a record that is entirely spent, whose other fields are stale.\<close>

definition found :: "CCoinsView \<Rightarrow> uint256 \<Rightarrow> CCoins" where
  "found v k = (case lookup v k of Some c \<Rightarrow> c | None \<Rightarrow> CCoins_empty)"

lemma found_cases:
  assumes "view_ok v"
  shows "tidy_coins (found v k)" "utxo_of v k = Some c \<Longrightarrow> found v k = c"
    "utxo_of v k = None \<Longrightarrow> c_vout (found v k) = [] \<and> IsPruned (found v k)" "utxo_of v k = prune (found v k)"
proof -
  show t: "tidy_coins (found v k)" using lookup_tidy [OF assms] by (auto simp: found_def split: option.split)
  show p: "utxo_of v k = prune (found v k)" by (auto simp: utxo_of_def found_def split: option.split)
  show "utxo_of v k = Some c \<Longrightarrow> found v k = c" using p by (simp add: prune_eq)
  show "utxo_of v k = None \<Longrightarrow> c_vout (found v k) = [] \<and> IsPruned (found v k)"
    using p t tidy_pruned by (simp add: prune_eq)
qed

lemma release_entry_spec:
  assumes ok: "view_ok (CCoinsViewCache cache h base)" and e: "e_DIRTY e" "e_FRESH e \<longrightarrow> utxo_of base k = None"
  defines "v' \<equiv> CCoinsViewCache (release_entry k e cache) h base"
  shows "view_ok v'" "levels v' = (utxo_of (CCoinsViewCache cache h base))(k := prune (Cleanup (e_coins e))) # levels base"
proof -
  have "entry_ok (utxo_of base k) (e\<lparr>e_coins := Cleanup (e_coins e)\<rparr>)" using e by (simp add: entry_ok_def)
  then show "view_ok v'" using ok unfolding v'_def release_entry_def
    by (simp add: Let_def update_conv' delete_conv' distinct_update distinct_delete)
  show "levels v' = (utxo_of (CCoinsViewCache cache h base))(k := prune (Cleanup (e_coins e))) # levels base"
    using ok e unfolding v'_def release_entry_def
    by (auto simp: Let_def fun_eq_iff utxo_of_cache update_conv' delete_conv' split: option.split)
qed

lemma ModifyCoins_spec:
  assumes ok: "view_ok v" "is_cache v"
  shows "case body (found v k) of
      Inl e \<Rightarrow> ModifyCoins k body v = Inl e
    | Inr (r, c) \<Rightarrow> (\<exists>v'. ModifyCoins k body v = Inr (r, v') \<and> view_ok v' \<and> is_cache v'
        \<and> levels v' = (utxo_of v)(k := prune (Cleanup c)) # tl (levels v))"
proof -
  obtain cache h base where v: "v = CCoinsViewCache cache h base" using ok(2) by (cases v) auto
  have "\<exists>e base'. found v k = e_coins e \<and> (e_FRESH e \<longrightarrow> utxo_of base k = None) \<and> view_ok base' \<and> utxo_of base' = utxo_of base
    \<and> levels base' = levels base
    \<and> ModifyCoins k body v = bind_sum (body (e_coins e)) (\<lambda>(r, coins).
         Inr (r, CCoinsViewCache (release_entry k (e\<lparr>e_DIRTY := True, e_coins := coins\<rparr>) cache) h base'))"
  proof (cases "map_of cache k")
    case (Some e)
    then show ?thesis using ok v by (intro exI [of _ e] exI [of _ base]) (auto simp: found_def entry_ok_def dest: entries_okD)
  next
    case None
    obtain q base' where g: "GetCoins k base = (q, base')" by fastforce
    have b: "q = lookup base k" "lookup base' = lookup base" "view_ok base'" "levels base' = levels base"
      using GetCoins_spec [OF _ g] ok v by auto
    have u: "utxo_of base' = utxo_of base" by (rule same_utxo [OF b(4)])
    let ?e = "case q of None \<Rightarrow> \<lparr>e_coins = Clear CCoins_empty, e_DIRTY = False, e_FRESH = True\<rparr>
      | Some t \<Rightarrow> \<lparr>e_coins = t, e_DIRTY = False, e_FRESH = IsPruned t\<rparr>"
    show ?thesis using None g b u v
      by (intro exI [of _ ?e] exI [of _ base']) (auto simp: found_def utxo_of_def split: option.split)
  qed
  then obtain e base' where e: "found v k = e_coins e" "e_FRESH e \<longrightarrow> utxo_of base k = None" "view_ok base'"
    "utxo_of base' = utxo_of base" "levels base' = levels base"
    "ModifyCoins k body v = bind_sum (body (e_coins e)) (\<lambda>(r, coins).
         Inr (r, CCoinsViewCache (release_entry k (e\<lparr>e_DIRTY := True, e_coins := coins\<rparr>) cache) h base'))" by blast
  have "view_ok (CCoinsViewCache cache h base')" using ok v e by simp
  moreover have "utxo_of (CCoinsViewCache cache h base') = utxo_of v" using e(4) v by (auto simp: fun_eq_iff utxo_of_cache split: option.split)
  ultimately show ?thesis using e v release_entry_spec [of cache h base' "e\<lparr>e_DIRTY := True, e_coins := _\<rparr>" k]
    by (auto split: sum.split)
qed

lemma ModifyNewCoins_spec:
  assumes ok: "view_ok v" "is_cache v" and new: "coinbase \<or> utxo_of v k = None"
  shows "\<exists>v'. ModifyNewCoins k coinbase (\<lambda>_. c) v = Inr v' \<and> view_ok v' \<and> is_cache v'
    \<and> levels v' = (utxo_of v)(k := prune (Cleanup c)) # tl (levels v)"
proof -
  obtain cache h base where v: "v = CCoinsViewCache cache h base" using ok(2) by (cases v) auto
  define e where "e = (case map_of cache k of Some e \<Rightarrow> e | None \<Rightarrow> \<lparr>e_coins = CCoins_empty, e_DIRTY = False, e_FRESH = False\<rparr>)"
  define e' where "e' = (if \<not> coinbase \<and> \<not> e_DIRTY e then e\<lparr>e_FRESH := True\<rparr> else e)\<lparr>e_coins := c, e_DIRTY := True\<rparr>"
  have p: "coinbase \<or> IsPruned (e_coins e)" using new v by (auto simp: e_def utxo_of_cache prune_eq split: option.splits)
  have "e_FRESH e \<or> (\<not> coinbase \<and> \<not> e_DIRTY e) \<Longrightarrow> utxo_of base k = None"
    using ok v new by (fastforce simp: e_def utxo_of_cache entry_ok_def prune_eq dest: entries_okD split: option.splits)
  then have f: "e_DIRTY e'" "e_FRESH e' \<longrightarrow> utxo_of base k = None" "e_coins e' = c" by (auto simp: e'_def)
  have "ModifyNewCoins k coinbase (\<lambda>_. c) v = Inr (CCoinsViewCache (release_entry k e' cache) h base)"
    using p by (auto simp: v Let_def e'_def e_def)
  then show ?thesis using release_entry_spec [of cache h base e' k] ok v f by auto
qed

section \<open>Flushing\<close>

definition merged :: "CCoinsCacheEntry option \<Rightarrow> CCoinsCacheEntry option \<Rightarrow> CCoinsCacheEntry option" where
  "merged child us =
     (case child of
        None \<Rightarrow> us
      | Some e \<Rightarrow>
          (if \<not> e_DIRTY e then us
           else case us of
             None \<Rightarrow> if e_FRESH e \<and> IsPruned (e_coins e) then None
                    else Some \<lparr>e_coins = e_coins e, e_DIRTY = True, e_FRESH = e_FRESH e\<rparr>
           | Some u \<Rightarrow> if e_FRESH u \<and> IsPruned (e_coins e) then None else Some (u\<lparr>e_coins := e_coins e, e_DIRTY := True\<rparr>)))"

lemma batch_entry_merged:
  assumes "case us k of Some u \<Rightarrow> e_FRESH e \<longrightarrow> IsPruned (e_coins u) | None \<Rightarrow> True" "us = map_of cache" "distinct (map fst cache)"
  shows "\<exists>cache'. batch_entry (k, e) cache = Inr cache' \<and> distinct (map fst cache')
    \<and> map_of cache' = us(k := merged (Some e) (us k))"
  using assms by (auto simp: batch_entry_def merged_def update_conv' delete_conv' distinct_update distinct_delete
      simp del: map_of_eq_Some_iff split: option.splits)

lemma batch_loop_merged:
  "distinct (map fst mapCoins) \<Longrightarrow> distinct (map fst cache) \<Longrightarrow>
   (\<And>k e u. map_of mapCoins k = Some e \<Longrightarrow> map_of cache k = Some u \<Longrightarrow> e_FRESH e \<Longrightarrow> IsPruned (e_coins u)) \<Longrightarrow>
   \<exists>cache'. batch_loop mapCoins cache = Inr cache' \<and> distinct (map fst cache')
     \<and> (\<forall>k. map_of cache' k = merged (map_of mapCoins k) (map_of cache k))"
proof (induction mapCoins arbitrary: cache)
  case Nil
  then show ?case by (simp add: merged_def)
next
  case (Cons it mapCoins)
  obtain k e where it: "it = (k, e)" by fastforce
  have "case map_of cache k of Some u \<Rightarrow> e_FRESH e \<longrightarrow> IsPruned (e_coins u) | None \<Rightarrow> True"
    using Cons.prems(3) [of k e] it by (auto split: option.split)
  from batch_entry_merged [OF this refl Cons.prems(2)]
  obtain c1 where c1: "batch_entry it cache = Inr c1" "distinct (map fst c1)"
    "map_of c1 = (map_of cache)(k := merged (Some e) (map_of cache k))" using it by auto
  have nk: "map_of mapCoins k = None" using Cons.prems(1) it by (simp add: map_of_eq_None_iff)
  have "\<And>k' e' u. map_of mapCoins k' = Some e' \<Longrightarrow> map_of c1 k' = Some u \<Longrightarrow> e_FRESH e' \<Longrightarrow> IsPruned (e_coins u)"
    using Cons.prems(3) nk it unfolding c1(3) by (metis fun_upd_apply map_of_Cons_code(2) option.distinct(1))
  then obtain c2 where c2: "batch_loop mapCoins c1 = Inr c2" "distinct (map fst c2)"
    "\<forall>j. map_of c2 j = merged (map_of mapCoins j) (map_of c1 j)"
    using Cons.IH [OF _ c1(2)] Cons.prems(1) it by auto
  moreover have "\<forall>j. map_of c2 j = merged (map_of (it # mapCoins) j) (map_of cache j)"
    using c2(3) c1(3) nk it by (auto simp: merged_def)
  ultimately show ?case using c1 by auto
qed

lemma fold_db_entry:
  "distinct (map fst mapCoins) \<Longrightarrow> fold db_entry mapCoins db k =
    (case map_of mapCoins k of Some e \<Rightarrow> (if e_DIRTY e then prune (e_coins e) else db k) | None \<Rightarrow> db k)"
proof (induction mapCoins arbitrary: db)
  case (Cons it mapCoins)
  obtain j e where it: "it = (j, e)" by fastforce
  then have "map_of mapCoins j = None" using Cons.prems by (simp add: map_of_eq_None_iff)
  then show ?case using Cons it by (auto simp: db_entry_def prune_def split: option.split)
qed simp

definition content :: "CCoinsCacheEntry option \<Rightarrow> CCoins option \<Rightarrow> CCoins option" where
  "content e below = (case e of Some e \<Rightarrow> prune (e_coins e) | None \<Rightarrow> below)"

lemma content_cache: "utxo_of (CCoinsViewCache cache h base) k = content (map_of cache k) (utxo_of base k)"
  by (simp add: utxo_of_cache content_def)

lemma merged_ok:
  assumes "\<And>e. child = Some e \<Longrightarrow> entry_ok (content us below) e" "\<And>u. us = Some u \<Longrightarrow> entry_ok below u"
  shows "merged child us = Some e \<Longrightarrow> entry_ok below e" "content (merged child us) below = content child (content us below)"
  using assms by (cases child; cases us; force simp: merged_def entry_ok_def content_def split: if_splits)+

text \<open>The level below takes the contents of the cache that is written back, without an error.\<close>

lemma BatchWrite_spec:
  assumes ok: "view_ok (CCoinsViewCache mapCoins h base)"
  shows "\<exists>base'. BatchWrite mapCoins hashBlock base = Inr base' \<and> view_ok base'
    \<and> levels base' = utxo_of (CCoinsViewCache mapCoins h base) # tl (levels base)"
proof (cases base)
  case (CCoinsViewDB db best)
  have d: "distinct (map fst mapCoins)" and en: "entries_ok (map_of mapCoins) (utxo_of base)" using ok by auto
  have "view_ok (CCoinsViewDB (fold db_entry mapCoins db) b)" for b
    using ok entries_okD [OF en] CCoinsViewDB by (auto simp: fold_db_entry [OF d] entry_ok_def prune_def split: option.splits if_splits)
  moreover have "utxo_of (CCoinsViewDB (fold db_entry mapCoins db) b) k = utxo_of (CCoinsViewCache mapCoins h base) k" for b k
    using entries_okD [OF en, of k] CCoinsViewDB
    by (auto simp: utxo_of_def [of "CCoinsViewDB _ _"] utxo_of_cache fold_db_entry [OF d] entry_ok_def prune_def split: option.split)
  ultimately show ?thesis using CCoinsViewDB by (auto simp: fun_eq_iff)
next
  case (CCoinsViewCache cb hb bb)
  have d: "distinct (map fst mapCoins)" "distinct (map fst cb)"
    and en: "entries_ok (map_of mapCoins) (utxo_of base)" "entries_ok (map_of cb) (utxo_of bb)" "view_ok bb"
    using ok CCoinsViewCache by auto
  have fr: "\<And>k e u. map_of mapCoins k = Some e \<Longrightarrow> map_of cb k = Some u \<Longrightarrow> e_FRESH e \<Longrightarrow> IsPruned (e_coins u)"
    using entries_okD [OF en(1)] CCoinsViewCache
    by (fastforce simp: entry_ok_def utxo_of_cache prune_eq simp del: map_of_eq_Some_iff)
  obtain cb' where cb': "batch_loop mapCoins cb = Inr cb'" "distinct (map fst cb')"
    "\<forall>k. map_of cb' k = merged (map_of mapCoins k) (map_of cb k)"
    using batch_loop_merged [OF d] fr by blast
  have m: "\<And>e. map_of mapCoins k = Some e \<Longrightarrow> entry_ok (content (map_of cb k) (utxo_of bb k)) e"
    "\<And>u. map_of cb k = Some u \<Longrightarrow> entry_ok (utxo_of bb k) u" for k
    using entries_okD [OF en(1), of k] entries_okD [OF en(2), of k] unfolding CCoinsViewCache content_cache by blast+
  have "entries_ok (map_of cb') (utxo_of bb)"
    using merged_ok(1) [OF m] cb'(3) by (simp add: entries_ok_def del: map_of_eq_Some_iff)
  moreover have "utxo_of (CCoinsViewCache cb' hashBlock bb) k = utxo_of (CCoinsViewCache mapCoins h base) k" for k
    using merged_ok(2) [OF m] cb'(3) by (simp add: CCoinsViewCache content_cache)
  ultimately show ?thesis using cb' en CCoinsViewCache by (auto simp: fun_eq_iff)
qed

lemma Flush_spec:
  assumes "view_ok v" "is_cache v"
  shows "\<exists>v'. Flush v = Inr v' \<and> view_ok v' \<and> is_cache v' \<and> levels v' = utxo_of v # utxo_of v # tl (tl (levels v))"
proof -
  obtain cache h base where v: "v = CCoinsViewCache cache h base" using assms(2) by (cases v) auto
  obtain base' where b: "BatchWrite cache h base = Inr base'" "view_ok base'" "levels base' = utxo_of v # tl (levels base)"
    using BatchWrite_spec assms(1) v by blast
  then have "utxo_of (CCoinsViewCache [] h base') = utxo_of v"
    using levels_hd(1) [of base'] by (simp add: fun_eq_iff utxo_of_cache)
  then show ?thesis using b v by simp
qed

lemma Uncache_spec:
  assumes "view_ok v" "is_cache v"
  shows "view_ok (Uncache k v)" "is_cache (Uncache k v)" "levels (Uncache k v) = levels v"
proof -
  obtain cache h base where v: "v = CCoinsViewCache cache h base" using assms(2) by (cases v) auto
  then show "view_ok (Uncache k v)" "is_cache (Uncache k v)" "levels (Uncache k v) = levels v"
    using assms entries_okD [of "map_of cache" "utxo_of base" k]
    by (auto simp: delete_conv' distinct_delete fun_eq_iff utxo_of_cache entry_ok_def split: option.split)
qed

lemma make_spec:
  assumes "view_ok v"
  shows "view_ok (CCoinsViewCache_make v)" "is_cache (CCoinsViewCache_make v)"
    "levels (CCoinsViewCache_make v) = (utxo_of v)(randpaytx \<mapsto> randpay_coins) # levels v"
  using assms by (simp_all add: CCoinsViewCache_make_def fun_eq_iff utxo_of_cache entry_ok_def randpay_coins_def
      tidy_coins_def tidy_def CTxOut_IsNull_def CTxOut_SetNull_def prune_def IsPruned_def)

end
