(* ===== verification/MFC_Utxo.thy ===== *)
theory MFC_Utxo
  imports MFC_CoinsViewProps MFC_Undo
begin

text \<open>
  The specification of the coin views: nested transactions over plain maps of unspent outputs. The locale
  \<open>simulation\<close> is the contract between an implementation with its own state and a specification; the stack
  of caches is an instance, so every run of operations that the specification allows is answered by the
  stack in the same way.
\<close>

section \<open>Simulations\<close>

fun run_step :: "('op \<Rightarrow> 's \<Rightarrow> ('r \<times> 's) option) \<Rightarrow> 'op list \<Rightarrow> 's \<Rightarrow> ('r list \<times> 's) option" where
  "run_step f [] s = Some ([], s)"
| "run_step f (x # xs) s = Option.bind (f x s) (\<lambda>(r, s). map_option (\<lambda>(rs, s). (r # rs, s)) (run_step f xs s))"

locale simulation =
  fixes rel :: "'c \<Rightarrow> 'a \<Rightarrow> bool" and conc :: "'op \<Rightarrow> 'c \<Rightarrow> ('r \<times> 'c) option" and spec :: "'op \<Rightarrow> 'a \<Rightarrow> ('r \<times> 'a) option"
  assumes step: "rel c a \<Longrightarrow> spec x a = Some (r, a') \<Longrightarrow> \<exists>c'. conc x c = Some (r, c') \<and> rel c' a'"
begin

lemma run:
  "rel c a \<Longrightarrow> run_step spec xs a = Some (rs, a') \<Longrightarrow> \<exists>c'. run_step conc xs c = Some (rs, c') \<and> rel c' a'"
proof (induction xs arbitrary: c a rs)
  case (Cons x xs)
  obtain r a1 rs1 where a1: "spec x a = Some (r, a1)" "run_step spec xs a1 = Some (rs1, a')" "rs = r # rs1"
    using Cons.prems(2) by (auto split: bind_splits)
  obtain c1 where c1: "conc x c = Some (r, c1)" "rel c1 a1" using step [OF Cons.prems(1) a1(1)] by blast
  obtain c' where "run_step conc xs c1 = Some (rs1, c')" "rel c' a'" using Cons.IH [OF c1(2) a1(2)] by blast
  then show ?case using a1(3) c1(1) by simp
qed simp

end

section \<open>Operations on a map of unspent outputs\<close>

definition coins_at :: "utxo \<Rightarrow> uint256 \<Rightarrow> CCoins" where
  "coins_at m k = (case m k of Some c \<Rightarrow> c | None \<Rightarrow> CCoins_empty)"

definition available :: "utxo \<Rightarrow> CTxIn \<Rightarrow> bool" where
  "available m txin \<longleftrightarrow> IsAvailable (coins_at m (out_hash (prevout txin))) (unat (out_n (prevout txin)))"

definition output_of :: "utxo \<Rightarrow> CTxIn \<Rightarrow> CTxOut" where
  "output_of m txin = c_vout (coins_at m (out_hash (prevout txin))) ! unat (out_n (prevout txin))"

definition utxo_have_inputs :: "CTransaction \<Rightarrow> utxo \<Rightarrow> bool" where
  "utxo_have_inputs tx m \<longleftrightarrow> IsCoinBase tx \<or> list_all (available m) (vin tx)"

definition utxo_value_in :: "CTransaction \<Rightarrow> utxo \<Rightarrow> CAmount option" where
  "utxo_value_in tx m =
     (if IsCoinBase tx then Some 0
      else if list_all (available m) (vin tx)
        then Some (fold (\<lambda>txin n. wrap64 (n + nValue (output_of m txin))) (vin tx) 0) else None)"

fun utxo_spend :: "CTxIn list \<Rightarrow> utxo \<Rightarrow> (CTxUndo \<times> utxo) option" where
  "utxo_spend [] m = Some ([], m)"
| "utxo_spend (txin # vs) m =
     (let k = out_hash (prevout txin) in
      if k = randpaytx then utxo_spend vs m
      else case spend_body (unat (out_n (prevout txin))) (coins_at m k) of
        Inl e \<Rightarrow> None
      | Inr (u, c) \<Rightarrow> map_option (\<lambda>(us, m). (u # us, m)) (utxo_spend vs (m(k := prune c))))"

definition utxo_update :: "(bytes \<Rightarrow> uint256) \<Rightarrow> CTransaction \<Rightarrow> int \<Rightarrow> utxo \<Rightarrow> (CTxUndo \<times> utxo) option" where
  "utxo_update Hash tx nHeight m =
     Option.bind (if IsCoinBase tx then Some ([], m) else utxo_spend (vin tx) m) (\<lambda>(us, m).
       if IsCoinBase tx \<or> m (ComputeHash Hash tx) = None
       then Some (us, m(ComputeHash Hash tx := prune (FromTx tx nHeight))) else None)"

fun utxo_unspend :: "(CTxIn \<times> CTxInUndo) list \<Rightarrow> utxo \<Rightarrow> utxo option" where
  "utxo_unspend [] m = Some m"
| "utxo_unspend ((txin, undo) # us) m =
     (let k = out_hash (prevout txin) in
      case undo_body undo (out_n (prevout txin)) (coins_at m k) of
        Inr (True, c) \<Rightarrow> utxo_unspend us (m(k := prune (Cleanup c)))
      | _ \<Rightarrow> None)"

abbreviation real_inputs :: "CTransaction \<Rightarrow> CTxIn list" where
  "real_inputs tx \<equiv> filter (\<lambda>txin. out_hash (prevout txin) \<noteq> randpaytx) (vin tx)"

definition utxo_disconnect :: "(bytes \<Rightarrow> uint256) \<Rightarrow> int \<Rightarrow> CTransaction \<Rightarrow> CTxUndo option \<Rightarrow> utxo \<Rightarrow> utxo option" where
  "utxo_disconnect Hash nHeight tx txundo m =
     (let k = ComputeHash Hash tx in
      if fst (projr (outs_body tx nHeight (coins_at m k))) then
        (case txundo of
           None \<Rightarrow> Some (m(k := None))
         | Some us \<Rightarrow> if length us \<noteq> length (real_inputs tx) then None
             else utxo_unspend (rev (zip (real_inputs tx) us)) (m(k := None)))
      else None)"

section \<open>Each operation of the views does that\<close>

definition good_view :: "CCoinsView \<Rightarrow> bool" where
  "good_view v \<longleftrightarrow> view_ok v \<and> is_cache v"

lemma found_coins_at:
  assumes "view_ok v"
  shows "utxo_of v k = Some c \<Longrightarrow> found v k = c \<and> coins_at (utxo_of v) k = c"
    "utxo_of v k = None \<Longrightarrow> c_vout (found v k) = [] \<and> coins_at (utxo_of v) k = CCoins_empty"
  using found_cases(2,3) [OF assms, of k] by (simp_all add: coins_at_def)

lemma found_vout:
  assumes "view_ok v"
  shows "c_vout (found v k) = c_vout (coins_at (utxo_of v) k)"
  using found_coins_at [OF assms, of k] by (cases "utxo_of v k") (auto simp: CCoins_empty_def)

lemma Cleanup_idem: "tidy_coins c \<Longrightarrow> Cleanup c = c"
  by (simp add: Cleanup_def tidy_dropWhile tidy_coins_def)

lemma spend_body_sim:
  assumes "view_ok v"
  shows "spend_body n (found v k) = spend_body n (coins_at (utxo_of v) k)"
  using found_coins_at [OF assms, of k] by (cases "utxo_of v k") (auto simp: spend_body_def CCoins_empty_def)

lemma spend_body_tidy: "spend_body n c = Inr (u, c') \<Longrightarrow> tidy_coins c'"
  by (auto simp: spend_body_def Spend_def Let_def split: if_splits)

lemma spend_inputs_sim:
  "good_view v \<Longrightarrow> utxo_spend vs (utxo_of v) = Some (us, m) \<Longrightarrow>
    \<exists>v'. spend_inputs vs ws v = Inr (ws @ us, v') \<and> good_view v' \<and> levels v' = m # tl (levels v)"
proof (induction vs arbitrary: v us ws)
  case Nil
  then show ?case using levels_Cons [of v] by auto
next
  case (Cons txin vs)
  let ?k = "out_hash (prevout txin)" and ?n = "unat (out_n (prevout txin))"
  show ?case
  proof (cases "?k = randpaytx")
    case False
    then obtain u c us1 where s: "spend_body ?n (coins_at (utxo_of v) ?k) = Inr (u, c)"
      "utxo_spend vs ((utxo_of v)(?k := prune c)) = Some (us1, m)" "us = u # us1"
      using Cons.prems(2) by (auto simp: Let_def split: sum.splits)
    have ok: "view_ok v" "is_cache v" using Cons.prems(1) by (simp_all add: good_view_def)
    have "spend_body ?n (found v ?k) = Inr (u, c)" using s(1) spend_body_sim [OF ok(1)] by simp
    then obtain v1 where v1: "ModifyCoins ?k (spend_body ?n) v = Inr (u, v1)" "good_view v1"
      "levels v1 = (utxo_of v)(?k := prune c) # tl (levels v)"
      using ModifyCoins_spec [OF ok, where body = "spend_body ?n" and k = ?k] Cleanup_idem [OF spend_body_tidy [OF s(1)]]
      by (auto simp: good_view_def)
    have "utxo_of v1 = (utxo_of v)(?k := prune c)" using v1(3) levels_hd(1) [of v1] by simp
    then have "utxo_spend vs (utxo_of v1) = Some (us1, m)" by (simp only: s(2))
    from Cons.IH [OF v1(2) this] obtain v' where
      "spend_inputs vs (ws @ [u]) v1 = Inr ((ws @ [u]) @ us1, v')" "good_view v'" "levels v' = m # tl (levels v1)" by blast
    then show ?thesis using False v1 s(3) by simp
  qed (use Cons in \<open>simp add: Let_def\<close>)
qed

lemma tidy_FromTx [simp]: "tidy_coins (FromTx tx nHeight)"
  by (simp add: FromTx_def ClearUnspendable_def)

lemma UpdateCoins_sim:
  assumes "good_view v" "utxo_update Hash tx nHeight (utxo_of v) = Some (us, m)"
  shows "\<exists>v'. UpdateCoins Hash tx [] nHeight v = Inr (us, v') \<and> good_view v' \<and> levels v' = m # tl (levels v)"
proof -
  let ?k = "ComputeHash Hash tx"
  obtain m1 where m1: "(if IsCoinBase tx then Some ([], utxo_of v) else utxo_spend (vin tx) (utxo_of v)) = Some (us, m1)"
    "IsCoinBase tx \<or> m1 ?k = None" "m = m1(?k := prune (FromTx tx nHeight))"
    using assms(2) by (auto simp: utxo_update_def split: bind_splits if_splits)
  obtain v1 where v1: "(if \<not> IsCoinBase tx then spend_inputs (vin tx) [] v else Inr ([], v)) = Inr (us, v1)"
    "good_view v1" "levels v1 = m1 # tl (levels v)"
  proof (cases "IsCoinBase tx")
    case True
    then show thesis using m1(1) assms(1) that [of v] levels_Cons [of v] by auto
  next
    case False
    then show thesis using spend_inputs_sim [OF assms(1), of "vin tx" us m1 "[]"] m1(1) that by auto
  qed
  have "utxo_of v1 = m1" using v1(3) levels_hd(1) [of v1] by simp
  then obtain v' where "ModifyNewCoins ?k (IsCoinBase tx) (\<lambda>_. FromTx tx nHeight) v1 = Inr v'" "good_view v'"
    "levels v' = m # tl (levels v1)"
    using ModifyNewCoins_spec [of v1 "IsCoinBase tx" ?k "FromTx tx nHeight"] v1(2) m1 Cleanup_idem [OF tidy_FromTx]
    by (auto simp: good_view_def)
  then show ?thesis using v1 by (simp add: UpdateCoins_def)
qed

lemma undo_body_pruned: "u_nHeight undo \<noteq> 0 \<Longrightarrow> IsPruned a \<Longrightarrow> IsPruned b \<Longrightarrow> undo_body undo n a = undo_body undo n b"
  by (cases a; cases b) (simp add: undo_body_def Clear_def)

lemma undo_body_sim:
  assumes "view_ok v" "undo_body undo n (coins_at (utxo_of v) k) = Inr (True, c)"
  shows "undo_body undo n (found v k) = Inr (True, c)"
proof (cases "utxo_of v k")
  case None
  have p: "IsPruned CCoins_empty" by simp
  have e: "c_vout (found v k) = []" "coins_at (utxo_of v) k = CCoins_empty" "IsPruned (found v k)"
    using found_coins_at(2) [OF assms(1) None] by (auto simp: IsPruned_def)
  have "u_nHeight undo \<noteq> 0" using assms(2) p by (auto simp: e undo_body_def Let_def split: if_splits)
  then show ?thesis using assms(2) e undo_body_pruned [OF _ e(3) p] by simp
qed (use assms found_coins_at in \<open>force\<close>)

lemma outs_body_sim:
  assumes "view_ok v"
  shows "\<exists>c. outs_body tx h (found v k) = Inr (fst (projr (outs_body tx h (coins_at (utxo_of v) k))), c) \<and> IsPruned c"
proof (cases "utxo_of v k")
  case None
  have e: "c_vout (found v k) = []" "coins_at (utxo_of v) k = CCoins_empty" using found_coins_at(2) [OF assms None] by auto
  have "c_vout (ClearUnspendable c) = [] \<and> IsPruned (ClearUnspendable c)" if "c_vout c = []" for c
    using that by (simp add: ClearUnspendable_def Cleanup_def IsPruned_def)
  moreover have "CCoins_eq a b \<longleftrightarrow> IsPruned b" if "IsPruned a" "c_vout a = []" for a b
    using that by (auto simp: CCoins_eq_def IsPruned_def)
  ultimately show ?thesis using e by (auto simp: outs_body_def Let_def Clear_def IsPruned_def CCoins_empty_def)
next
  case (Some c)
  then show ?thesis using found_coins_at(1) [OF assms Some] by (simp add: outs_body_def Let_def Clear_def IsPruned_def)
qed

lemma Cleanup_pruned: "IsPruned c \<Longrightarrow> prune (Cleanup c) = None"
  by (auto simp: prune_def IsPruned_def Cleanup_def list_all_iff dest: set_dropWhileD)

lemma undo_inputs_sim:
  "good_view v \<Longrightarrow> utxo_unspend us (utxo_of v) = Some m \<Longrightarrow>
    \<exists>v'. undo_inputs us True v = Inr (True, v') \<and> good_view v' \<and> levels v' = m # tl (levels v)"
proof (induction us arbitrary: v)
  case Nil
  then show ?case using levels_Cons [of v] by auto
next
  case (Cons u us)
  obtain txin undo where u: "u = (txin, undo)" by fastforce
  let ?k = "out_hash (prevout txin)" and ?body = "undo_body undo (out_n (prevout txin))"
  obtain c where c: "?body (coins_at (utxo_of v) ?k) = Inr (True, c)"
    "utxo_unspend us ((utxo_of v)(?k := prune (Cleanup c))) = Some m"
    using Cons.prems(2) by (auto simp: u Let_def split: sum.splits prod.splits bool.splits)
  have ok: "view_ok v" "is_cache v" using Cons.prems(1) by (simp_all add: good_view_def)
  obtain v1 where v1: "ModifyCoins ?k ?body v = Inr (True, v1)" "good_view v1"
    "levels v1 = (utxo_of v)(?k := prune (Cleanup c)) # tl (levels v)"
    using ModifyCoins_spec [OF ok, where body = ?body and k = ?k] undo_body_sim [OF ok(1) c(1)] by (auto simp: good_view_def)
  have "utxo_of v1 = (utxo_of v)(?k := prune (Cleanup c))" using v1(3) levels_hd(1) [of v1] by simp
  then have "utxo_unspend us (utxo_of v1) = Some m" by (simp only: c(2))
  from Cons.IH [OF v1(2) this] show ?case using v1 by (auto simp: u ApplyTxInUndo_def)
qed

lemma disconnect_tx_sim:
  assumes "good_view v" "utxo_disconnect Hash nHeight tx txundo (utxo_of v) = Some m"
  shows "\<exists>v'. disconnect_tx Hash nHeight tx txundo True v = Inr (True, v') \<and> good_view v' \<and> levels v' = m # tl (levels v)"
proof -
  let ?k = "ComputeHash Hash tx" and ?m = "(utxo_of v)(ComputeHash Hash tx := None)"
  have ok: "view_ok v" "is_cache v" using assms(1) by (simp_all add: good_view_def)
  have r: "fst (projr (outs_body tx nHeight (coins_at (utxo_of v) ?k)))"
    using assms(2) by (auto simp: utxo_disconnect_def Let_def split: if_splits)
  obtain c where c: "outs_body tx nHeight (found v ?k) = Inr (True, c)" "IsPruned c"
    using outs_body_sim [OF ok(1)] r by metis
  obtain v1 where v1: "ModifyCoins ?k (outs_body tx nHeight) v = Inr (True, v1)" "good_view v1" "levels v1 = ?m # tl (levels v)"
    using ModifyCoins_spec [OF ok, where body = "outs_body tx nHeight" and k = ?k] c Cleanup_pruned [OF c(2)]
    by (auto simp: good_view_def)
  have u1: "utxo_of v1 = ?m" using v1(3) levels_hd(1) [of v1] by simp
  show ?thesis
  proof (cases txundo)
    case None
    then show ?thesis using assms(2) r v1 by (auto simp: utxo_disconnect_def disconnect_tx_def Let_def)
  next
    case (Some us)
    have l: "length us = length (real_inputs tx)" and "utxo_unspend (rev (zip (real_inputs tx) us)) (utxo_of v1) = Some m"
      using assms(2) Some r unfolding u1 by (auto simp: utxo_disconnect_def Let_def split: if_splits)
    from undo_inputs_sim [OF v1(2) this(2)] show ?thesis using l Some v1 by (auto simp: disconnect_tx_def Let_def)
  qed
qed

lemma available_found:
  assumes "view_ok v" "AccessCoins (out_hash (prevout txin)) v = (r, v')"
  shows "(case r of Some c \<Rightarrow> IsAvailable c (unat (out_n (prevout txin))) | None \<Rightarrow> False) = available (utxo_of v) txin"
    "available (utxo_of v) txin \<Longrightarrow> \<exists>c. r = Some c \<and> c_vout c ! unat (out_n (prevout txin)) = output_of (utxo_of v) txin"
    "view_ok v'" "levels v' = levels v" "is_cache v' = is_cache v"
proof -
  let ?k = "out_hash (prevout txin)"
  have s: "r = lookup v ?k" "view_ok v'" "levels v' = levels v" "is_cache v' = is_cache v"
    using GetCoins_spec [OF assms(1)] assms(2) by (auto simp: AccessCoins_def)
  then show "view_ok v'" "levels v' = levels v" "is_cache v' = is_cache v" by auto
  have f: "case r of Some c \<Rightarrow> found v ?k = c | None \<Rightarrow> c_vout (found v ?k) = []"
    using s(1) by (auto simp: found_def CCoins_empty_def split: option.split)
  show "(case r of Some c \<Rightarrow> IsAvailable c (unat (out_n (prevout txin))) | None \<Rightarrow> False) = available (utxo_of v) txin"
    using f found_vout [OF assms(1), of ?k] by (cases r) (auto simp: available_def IsAvailable_def)
  show "available (utxo_of v) txin \<Longrightarrow> \<exists>c. r = Some c \<and> c_vout c ! unat (out_n (prevout txin)) = output_of (utxo_of v) txin"
    using f found_vout [OF assms(1), of ?k] by (cases r) (auto simp: available_def IsAvailable_def output_of_def)
qed

lemma have_inputs_sim:
  "good_view v \<Longrightarrow> \<exists>v'. have_inputs_loop vs v = (list_all (available (utxo_of v)) vs, v') \<and> good_view v' \<and> levels v' = levels v"
proof (induction vs arbitrary: v)
  case (Cons txin vs)
  obtain r v1 where a: "AccessCoins (out_hash (prevout txin)) v = (r, v1)" by fastforce
  note f = available_found [OF _ a]
  have g: "good_view v1" "levels v1 = levels v" using f(3-5) Cons.prems by (auto simp: good_view_def)
  show ?case
  proof (cases "available (utxo_of v) txin")
    case True
    then show ?thesis using a f(1) Cons.prems Cons.IH [OF g(1)] g(2) same_utxo [OF g(2)]
      by (auto simp: good_view_def split: option.splits)
  next
    case False
    then show ?thesis using a f(1) Cons.prems g by (auto simp: good_view_def split: option.splits)
  qed
qed simp

lemma value_in_sim:
  "good_view v \<Longrightarrow> list_all (available (utxo_of v)) vs \<Longrightarrow>
    \<exists>v'. value_in_loop vs n v = Inr (fold (\<lambda>txin n. wrap64 (n + nValue (output_of (utxo_of v) txin))) vs n, v')
      \<and> good_view v' \<and> levels v' = levels v"
proof (induction vs arbitrary: v n)
  case (Cons txin vs)
  obtain r v1 where a: "AccessCoins (out_hash (prevout txin)) v = (r, v1)" by fastforce
  note f = available_found [OF _ a]
  have g: "good_view v1" "levels v1 = levels v" using f(3-5) Cons.prems by (auto simp: good_view_def)
  have "GetOutputFor txin v = Inr (output_of (utxo_of v) txin, v1)"
    using a f(1,2) Cons.prems by (auto simp: GetOutputFor_def good_view_def)
  then show ?case using Cons.IH [OF g(1)] Cons.prems(2) g(2) same_utxo [OF g(2)] by auto
qed simp

section \<open>Runs of operations\<close>

datatype coin_op =
    QHaveCoins uint256 | QHaveInputs CTransaction | QValueIn CTransaction
  | Connect CTransaction int | Disconnect CTransaction int "CTxUndo option"
  | Forget uint256 | NewCache | FlushCache | DropCache

datatype coin_answer = Done | Answer bool | Amount CAmount | UndoData CTxUndo

text \<open>The stack of views, driven by operations; a run ends at an error or an unclean disconnection.\<close>

definition drive_views :: "(bytes \<Rightarrow> uint256) \<Rightarrow> coin_op \<Rightarrow> CCoinsView \<Rightarrow> (coin_answer \<times> CCoinsView) option" where
  "drive_views Hash x v =
     (case x of
        QHaveCoins k \<Rightarrow> Some (apfst Answer (HaveCoins k v))
      | QHaveInputs tx \<Rightarrow> Some (apfst Answer (HaveInputs tx v))
      | QValueIn tx \<Rightarrow> (case GetValueIn tx v of Inr (n, v) \<Rightarrow> Some (Amount n, v) | Inl e \<Rightarrow> None)
      | Connect tx h \<Rightarrow> (case UpdateCoins Hash tx [] h v of Inr (us, v) \<Rightarrow> Some (UndoData us, v) | Inl e \<Rightarrow> None)
      | Disconnect tx h us \<Rightarrow> (case disconnect_tx Hash h tx us True v of Inr (True, v) \<Rightarrow> Some (Done, v) | _ \<Rightarrow> None)
      | Forget k \<Rightarrow> Some (Done, Uncache k v)
      | NewCache \<Rightarrow> Some (Done, CCoinsViewCache_make v)
      | FlushCache \<Rightarrow> (case Flush v of Inr v \<Rightarrow> Some (Done, v) | Inl e \<Rightarrow> None)
      | DropCache \<Rightarrow> (case v of CCoinsViewCache c h base \<Rightarrow> if is_cache base then Some (Done, base) else None | _ \<Rightarrow> None))"

text \<open>The specification: a stack of plain maps, the last of them on disk.\<close>

definition drive_spec :: "(bytes \<Rightarrow> uint256) \<Rightarrow> coin_op \<Rightarrow> utxo list \<Rightarrow> (coin_answer \<times> utxo list) option" where
  "drive_spec Hash x ms =
     (let m = hd ms in
      case x of
        QHaveCoins k \<Rightarrow> Some (Answer (m k \<noteq> None), ms)
      | QHaveInputs tx \<Rightarrow> Some (Answer (utxo_have_inputs tx m), ms)
      | QValueIn tx \<Rightarrow> map_option (\<lambda>n. (Amount n, ms)) (utxo_value_in tx m)
      | Connect tx h \<Rightarrow> map_option (\<lambda>(us, m). (UndoData us, m # tl ms)) (utxo_update Hash tx h m)
      | Disconnect tx h us \<Rightarrow> map_option (\<lambda>m. (Done, m # tl ms)) (utxo_disconnect Hash h tx us m)
      | Forget k \<Rightarrow> Some (Done, ms)
      | NewCache \<Rightarrow> Some (Done, m(randpaytx \<mapsto> randpay_coins) # ms)
      | FlushCache \<Rightarrow> Some (Done, m # m # tl (tl ms))
      | DropCache \<Rightarrow> if length ms > 2 then Some (Done, tl ms) else None)"

lemma is_cache_levels: "is_cache v \<longleftrightarrow> length (levels v) > 1"
  by (cases v) auto

interpretation views: simulation "\<lambda>v ms. good_view v \<and> levels v = ms" "drive_views Hash" "drive_spec Hash" for Hash
proof
  fix v ms x r ms'
  assume rel: "good_view v \<and> levels v = ms" and st: "drive_spec Hash x ms = Some (r, ms')"
  have g: "good_view v" "view_ok v" "is_cache v" "hd ms = utxo_of v" "levels v = ms"
    using rel by (auto simp: good_view_def)
  show "\<exists>v'. drive_views Hash x v = Some (r, v') \<and> good_view v' \<and> levels v' = ms'"
  proof (cases x)
    case (QHaveCoins k)
    obtain b v' where "HaveCoins k v = (b, v')" by fastforce
    then show ?thesis using HaveCoins_spec [OF g(2)] g st QHaveCoins by (auto simp: drive_views_def drive_spec_def Let_def good_view_def)
  next
    case (QHaveInputs tx)
    then show ?thesis using have_inputs_sim [OF g(1), of "vin tx"] g st
      by (auto simp: drive_views_def drive_spec_def Let_def HaveInputs_def utxo_have_inputs_def)
  next
    case (QValueIn tx)
    then show ?thesis using value_in_sim [OF g(1), of "vin tx" 0] g st
      by (auto simp: drive_views_def drive_spec_def Let_def GetValueIn_def utxo_value_in_def split: if_splits)
  next
    case (Connect tx h)
    then show ?thesis using UpdateCoins_sim [OF g(1), of Hash tx h] g st by (force simp: drive_views_def drive_spec_def Let_def)
  next
    case (Disconnect tx h us)
    then show ?thesis using disconnect_tx_sim [OF g(1), of Hash h tx us] g st by (force simp: drive_views_def drive_spec_def Let_def)
  next
    case FlushCache
    then show ?thesis using Flush_spec [OF g(2,3)] g st by (auto simp: drive_views_def drive_spec_def Let_def good_view_def)
  next
    case DropCache
    then show ?thesis using g st
      by (cases v) (auto simp: drive_views_def drive_spec_def Let_def good_view_def is_cache_levels split: if_splits)
  qed (use g st Uncache_spec [OF g(2,3)] make_spec [OF g(2)] in
      \<open>auto simp: drive_views_def drive_spec_def Let_def good_view_def\<close>)
qed

section \<open>What the stack of views promises\<close>

text \<open>A small history: a reward, spent in a cache on top, which is flushed and dropped.\<close>

definition toy_id :: "byte \<Rightarrow> uint256" where
  "toy_id b = replicate 31 7 @ [b]"

definition toy_hash :: "bytes \<Rightarrow> uint256" where
  "toy_hash bs = toy_id (last bs)"

lemma toy_id_simps [simp]:
  "toy_id a = toy_id b \<longleftrightarrow> a = b" "toy_id a \<noteq> randpaytx" "toy_id a \<noteq> uint256_null" "randpaytx \<noteq> toy_id a"
proof -
  have "hd (toy_id a) = 7" "hd randpaytx = 0xEC" "hd uint256_null = 0" by (simp_all add: toy_id_def randpaytx_def uint256_null_def)
  then show "toy_id a \<noteq> randpaytx" "toy_id a \<noteq> uint256_null" "randpaytx \<noteq> toy_id a" by auto
qed (simp add: toy_id_def)

lemma toy_ComputeHash: "ComputeHash toy_hash tx = toy_id (last (Serialize_uint32 (nLockTime tx)))"
proof -
  have "Serialize_uint32 n \<noteq> []" for n
    by (metis Serialize_uint32_def length_WriteLE(2) list.size(3) ser_writedata32_def zero_neq_numeral)
  then show ?thesis by (simp add: ComputeHash_def SerializeTransaction_def toy_hash_def Let_def)
qed

definition toy_reward :: CTransaction where
  "toy_reward = \<lparr>tx_nVersion = 1, tx_nTime = 1000,
     vin = [\<lparr>prevout = COutPoint_SetNull, scriptSig = [0x51, 0x51], nSequence = SEQUENCE_FINAL, scriptWitness = []\<rparr>],
     vout = [\<lparr>nValue = 700, scriptPubKey = [0x51]\<rparr>, \<lparr>nValue = 300, scriptPubKey = [0x52]\<rparr>], nLockTime = 0\<rparr>"

definition toy_spend :: CTransaction where
  "toy_spend = \<lparr>tx_nVersion = 1, tx_nTime = 1001,
     vin = [\<lparr>prevout = \<lparr>out_hash = toy_id 0, out_n = 1\<rparr>, scriptSig = [], nSequence = SEQUENCE_FINAL, scriptWitness = []\<rparr>,
            \<lparr>prevout = \<lparr>out_hash = toy_id 0, out_n = 0\<rparr>, scriptSig = [], nSequence = SEQUENCE_FINAL, scriptWitness = []\<rparr>],
     vout = [\<lparr>nValue = 999, scriptPubKey = [0x53]\<rparr>], nLockTime = 0x01000000\<rparr>"

definition toy_views :: CCoinsView where
  "toy_views = CCoinsViewCache_make (CCoinsViewDB (\<lambda>_. None) uint256_null)"

definition toy_history :: "coin_op list" where
  "toy_history = [Connect toy_reward 1, NewCache, QHaveInputs toy_spend, QValueIn toy_spend, Connect toy_spend 2, FlushCache,
     DropCache, QHaveInputs toy_spend, FlushCache]"

lemma toy_views_good: "good_view toy_views"
  using make_spec [of "CCoinsViewDB (\<lambda>_. None) uint256_null"] by (simp add: toy_views_def good_view_def)

lemma last_le_bytes: "last (le_bytes (Suc n) v) = of_nat (v div 256 ^ n mod 256)"
  by (induction n arbitrary: v) (simp_all add: div_mult2_eq)

lemma toy_ids: "ComputeHash toy_hash toy_reward = toy_id 0" "ComputeHash toy_hash toy_spend = toy_id 1"
  using last_le_bytes [of 3]
  by (simp_all add: toy_ComputeHash toy_reward_def toy_spend_def Serialize_uint32_def ser_writedata32_def WriteLE32_def)

lemmas toy_coins_defs = FromTx_def ClearUnspendable_def Cleanup_def IsUnspendable_def IsCoinBase_def IsCoinStake_def CTxOut_IsNull_def
  CTxOut_IsEmpty_def COutPoint_IsNull_def COutPoint_SetNull_def CTxOut_SetNull_def

lemma toy_kinds: "IsCoinBase toy_reward" "\<not> IsCoinBase toy_spend"
  by (simp_all add: toy_coins_defs toy_reward_def toy_spend_def)

lemma toy_coins:
  "FromTx toy_reward h = \<lparr>c_fCoinBase = True, c_vout = vout toy_reward, c_nHeight = h, c_nVersion = 1, c_fCoinStake = False, c_nTime = 1000\<rparr>"
  "FromTx toy_spend h2 = \<lparr>c_fCoinBase = False, c_vout = vout toy_spend, c_nHeight = h2, c_nVersion = 1, c_fCoinStake = False, c_nTime = 1001\<rparr>"
  by (simp_all add: toy_coins_defs toy_reward_def toy_spend_def)

lemma toy_fields:
  "vin toy_spend = [\<lparr>prevout = \<lparr>out_hash = toy_id 0, out_n = 1\<rparr>, scriptSig = [], nSequence = SEQUENCE_FINAL, scriptWitness = []\<rparr>,
     \<lparr>prevout = \<lparr>out_hash = toy_id 0, out_n = 0\<rparr>, scriptSig = [], nSequence = SEQUENCE_FINAL, scriptWitness = []\<rparr>]"
  "vout toy_reward = [\<lparr>nValue = 700, scriptPubKey = [0x51]\<rparr>, \<lparr>nValue = 300, scriptPubKey = [0x52]\<rparr>]"
  "vout toy_spend = [\<lparr>nValue = 999, scriptPubKey = [0x53]\<rparr>]"
  by (simp_all add: toy_spend_def toy_reward_def)

lemma toy_reward_update: "utxo_update toy_hash toy_reward h m = Some ([], m(toy_id 0 \<mapsto> FromTx toy_reward h))"
  by (simp add: utxo_update_def toy_kinds toy_ids toy_coins prune_def IsPruned_def)
    (simp add: toy_fields CTxOut_IsNull_def)

definition toy_undo :: "int \<Rightarrow> CTxUndo" where
  "toy_undo h = [CTxInUndo_make \<lparr>nValue = 300, scriptPubKey = [0x52]\<rparr>,
    \<lparr>u_txout = \<lparr>nValue = 700, scriptPubKey = [0x51]\<rparr>, u_fCoinBase = True, u_nHeight = of_int h, u_nVersion = 1,
      u_fCoinStake = False, u_nTime = 1000\<rparr>]"

lemma toy_spend_update:
  assumes "m (toy_id 0) = Some (FromTx toy_reward h)" "m (toy_id 1) = None"
  shows "utxo_update toy_hash toy_spend h2 m = Some (toy_undo h, m(toy_id 0 := None, toy_id 1 \<mapsto> FromTx toy_spend h2))"
proof -
  have "utxo_spend (vin toy_spend) m = Some (toy_undo h, m(toy_id 0 := None))"
    using assms(1) by (simp add: toy_fields toy_coins coins_at_def spend_body_def Spend_def Cleanup_def toy_fields
        CTxOut_IsNull_def CTxOut_SetNull_def prune_def IsPruned_def toy_undo_def CTxInUndo_make_def)
  moreover have "\<not> IsPruned (FromTx toy_spend h2)" by (simp add: toy_coins IsPruned_def toy_fields CTxOut_IsNull_def)
  ultimately show ?thesis using assms(2) by (simp add: utxo_update_def toy_kinds toy_ids)
qed

lemma toy_available:
  assumes "m (toy_id 0) = Some (FromTx toy_reward h)"
  shows "utxo_have_inputs toy_spend m" "utxo_value_in toy_spend m = Some 1000"
  using assms by (simp_all add: utxo_have_inputs_def utxo_value_in_def toy_kinds toy_fields available_def output_of_def coins_at_def
      toy_coins IsAvailable_def toy_fields CTxOut_IsNull_def)

lemma toy_unavailable: "m (toy_id 0) = None \<Longrightarrow> \<not> utxo_have_inputs toy_spend m"
  by (simp add: utxo_have_inputs_def toy_kinds toy_fields available_def coins_at_def IsAvailable_def CCoins_empty_def)

lemma toy_history_runs:
  "map_option fst (run_step (drive_spec toy_hash) toy_history (levels toy_views)) =
    Some [UndoData [], Done, Answer True, Amount 1000, UndoData (toy_undo 1), Done, Done, Answer False, Done]"
proof -
  have "utxo_of (CCoinsViewDB (\<lambda>_. None) uint256_null) (toy_id 1) = None" by (simp add: utxo_of_def)
  then show ?thesis using make_spec(3) [of "CCoinsViewDB (\<lambda>_. None) uint256_null"]
    by (simp add: toy_history_def drive_spec_def Let_def toy_reward_update toy_spend_update toy_available toy_unavailable toy_views_def)
qed

text \<open>
  C2: the stack of coin views behaves like nested transactions over plain maps of unspent outputs. In
  whatever order coins are queried, transactions connected and disconnected, entries forgotten, and caches
  created, flushed and dropped, a run that the maps allow runs on the caches without an assertion or a
  logic error, with the same answers and the same undo data, and it leaves every level of the stack with
  the contents of its map.
\<close>

theorem coin_views_refine:
  assumes "good_view v" and "run_step (drive_spec Hash) xs (levels v) = Some (rs, ms)"
  shows "\<exists>v'. run_step (drive_views Hash) xs v = Some (rs, v') \<and> good_view v' \<and> levels v' = ms"
  using views.run [of v "levels v" Hash xs rs ms] assms by blast

theorem coin_views_refine_witness:
  "good_view toy_views \<and> (\<exists>rs ms v'. run_step (drive_spec toy_hash) toy_history (levels toy_views) = Some (rs, ms)
    \<and> run_step (drive_views toy_hash) toy_history toy_views = Some (rs, v') \<and> good_view v' \<and> levels v' = ms
    \<and> rs = [UndoData [], Done, Answer True, Amount 1000, UndoData (toy_undo 1), Done, Done, Answer False, Done])"
proof -
  obtain rs ms where r: "run_step (drive_spec toy_hash) toy_history (levels toy_views) = Some (rs, ms)"
    "rs = [UndoData [], Done, Answer True, Amount 1000, UndoData (toy_undo 1), Done, Done, Answer False, Done]"
    using toy_history_runs by auto
  show ?thesis using coin_views_refine [OF toy_views_good r(1)] toy_views_good r by blast
qed

end
