(* ===== verification/MFC_UtxoUndo.thy ===== *)
theory MFC_UtxoUndo
  imports MFC_Utxo
begin

text \<open>
  Disconnecting a block gives back the unspent outputs of before. The undo record of an input holds just
  enough to rebuild the record it was taken from; the operations of a block and their reversal are an
  instance of the contract \<open>undo_log\<close>; and the whole way is followed, from the coins through the undo file
  on disk to the loop of \<^verbatim>\<open>DisconnectBlock\<close>.
\<close>

section \<open>One output\<close>

text \<open>Spent outputs inside a record are in the form that \<^verbatim>\<open>SetNull\<close> gives them.\<close>

definition slots_ok :: "CTxOut list \<Rightarrow> bool" where
  "slots_ok vs \<longleftrightarrow> list_all (\<lambda>t. CTxOut_IsNull t \<longrightarrow> t = CTxOut_SetNull) vs"

definition coins_ok :: "CCoins \<Rightarrow> bool" where
  "coins_ok c \<longleftrightarrow> tidy_coins c \<and> slots_ok (c_vout c) \<and> length (c_vout c) < 4294967296 \<and> 0 < c_nHeight c \<and> c_nHeight c < 2147483648"

lemma trim_nulls:
  assumes "slots_ok vs"
  shows "\<exists>j. vs = rev (dropWhile CTxOut_IsNull (rev vs)) @ replicate j CTxOut_SetNull"
  using assms
proof (induction vs rule: rev_induct)
  case (snoc t vs)
  show ?case
  proof (cases "CTxOut_IsNull t")
    case True
    obtain j where "vs = rev (dropWhile CTxOut_IsNull (rev vs)) @ replicate j CTxOut_SetNull"
      using snoc by (auto simp: slots_ok_def)
    moreover have "t = CTxOut_SetNull" using True snoc.prems by (simp add: slots_ok_def)
    ultimately show ?thesis using True
      by (intro exI [of _ "Suc j"]) (simp add: replicate_append_same [symmetric] flip: append_assoc)
  qed (simp add: exI [of _ 0])
qed simp

lemma slots_ok_update: "slots_ok vs \<Longrightarrow> slots_ok (vs[n := CTxOut_SetNull])"
  by (auto simp: slots_ok_def list_all_iff dest!: subsetD [OF set_update_subset_insert])

lemma trim_spent:
  assumes "tidy vs" "slots_ok vs" "n < length vs"
  defines "ts \<equiv> rev (dropWhile CTxOut_IsNull (rev (vs[n := CTxOut_SetNull])))"
  shows "ts @ replicate (Suc n - length ts) CTxOut_SetNull = vs[n := CTxOut_SetNull]"
proof -
  obtain j where j: "vs[n := CTxOut_SetNull] = ts @ replicate j CTxOut_SetNull"
    using trim_nulls [OF slots_ok_update [OF assms(2)], of n] unfolding ts_def by blast
  have len: "length vs = length ts + j" using arg_cong [OF j, of length] by simp
  have "Suc n - length ts = j"
  proof (cases j)
    case (Suc i)
    have "last (vs[n := CTxOut_SetNull]) = CTxOut_SetNull" unfolding j Suc by simp
    moreover have "vs \<noteq> []" "unspent (last vs)" using assms(1,3) by (auto simp: tidy_def)
    ultimately have "n = length vs - 1"
      by (metis last_conv_nth length_list_update list_update_nonempty null_SetNull nth_list_update_neq)
    then show ?thesis using len assms(3) Suc by simp
  qed (use len assms(3) in simp)
  then show ?thesis using j by simp
qed

lemma height_back: "0 < h \<Longrightarrow> h < 2147483648 \<Longrightarrow> wrap32 (uint (of_int h :: u32)) = h \<and> (of_int h :: u32) \<noteq> 0"
proof -
  assume h: "0 < h" "h < 2147483648"
  have u: "uint (of_int h :: u32) = h" using h by (simp add: uint_word_of_int_eq take_bit_int_eq_self)
  then have "(of_int h :: u32) \<noteq> 0" using h by force
  then show "wrap32 (uint (of_int h :: u32)) = h \<and> (of_int h :: u32) \<noteq> 0" using u h by simp
qed

text \<open>Spending an output and applying the record that was made of it leads back.\<close>

lemma undo_spent:
  assumes c: "coins_ok c" and s: "spend_body (unat n) c = Inr (u, c')"
  shows "\<exists>c2. undo_body u n (case prune c' of Some d \<Rightarrow> d | None \<Rightarrow> CCoins_empty) = Inr (True, c2) \<and> Cleanup c2 = c"
    and "coins_ok c'" and "\<not> IsPruned c"
proof -
  let ?n = "unat n" and ?vs = "c_vout c"
  define ts where "ts = rev (dropWhile CTxOut_IsNull (rev (?vs[?n := CTxOut_SetNull])))"
  have n: "?n < length ?vs" "unspent (?vs ! ?n)" and c': "c' = c\<lparr>c_vout := ts\<rparr>"
    and u: "u = (if ts = [] then (CTxInUndo_make (?vs ! ?n))\<lparr>u_nHeight := of_int (c_nHeight c), u_fCoinBase := c_fCoinBase c,
               u_nVersion := c_nVersion c, u_fCoinStake := c_fCoinStake c, u_nTime := c_nTime c\<rparr> else CTxInUndo_make (?vs ! ?n))"
    using s by (auto simp: spend_body_def Spend_def Cleanup_def ts_def Let_def split: if_splits)
  have ok: "tidy ?vs" "slots_ok ?vs" "length ?vs < 4294967296" "0 < c_nHeight c" "c_nHeight c < 2147483648"
    using c by (auto simp: coins_ok_def tidy_coins_def)
  have trim: "ts @ replicate (Suc ?n - length ts) CTxOut_SetNull = ?vs[?n := CTxOut_SetNull]"
    unfolding ts_def by (rule trim_spent [OF ok(1,2) n(1)])
  have n1: "unat (n + 1) = Suc ?n"
    using n(1) ok(3) by (subst unat_word_ariths) simp
  have ts_n: "\<not> (?n < length ts \<and> unspent (ts ! ?n))"
    using arg_cong [OF trim, of "\<lambda>l. l ! ?n"] n(1) by (auto simp: nth_append)
  have ptd: "tidy_coins c'" using spend_body_tidy [OF s] .
  show "\<not> IsPruned c" using n by (auto simp: IsPruned_def list_all_length)
  have len: "length ts \<le> length ?vs" using arg_cong [OF trim, of length] by simp
  have "slots_ok ts" using slots_ok_update [OF ok(2), of ?n] unfolding trim [symmetric] by (simp add: slots_ok_def)
  then show "coins_ok c'" using ptd ok len by (simp add: coins_ok_def c')
  have fin: "Cleanup (c\<lparr>c_vout := (?vs[?n := CTxOut_SetNull])[?n := ?vs ! ?n]\<rparr>) = c"
    using ok(1) by (simp add: Cleanup_idem tidy_coins_def)
  show "\<exists>c2. undo_body u n (case prune c' of Some d \<Rightarrow> d | None \<Rightarrow> CCoins_empty) = Inr (True, c2) \<and> Cleanup c2 = c"
  proof (cases "ts = []")
    case True
    have "undo_body u n CCoins_empty = Inr (True, c\<lparr>c_vout := (?vs[?n := CTxOut_SetNull])[?n := ?vs ! ?n]\<rparr>)"
      using True trim n1 n(1) height_back [OF ok(4,5)]
      by (simp add: undo_body_def u Let_def CTxInUndo_make_def IsAvailable_def Clear_def CCoins_empty_def)
        (simp add: IsPruned_def)
    moreover have "prune c' = None" using True by (simp add: c' prune_def IsPruned_def)
    ultimately show ?thesis using fin by simp
  next
    case False
    have p: "\<not> IsPruned c'" using False tidy_pruned [OF ptd] by (simp add: c')
    have "undo_body u n c' = Inr (True, c\<lparr>c_vout := (?vs[?n := CTxOut_SetNull])[?n := ?vs ! ?n]\<rparr>)"
      using False trim n1 n(1) ts_n p
      by (simp add: undo_body_def u Let_def CTxInUndo_make_def IsAvailable_def c')
    then show ?thesis using p fin by simp
  qed
qed

section \<open>The inputs of a transaction\<close>

definition utxo_ok :: "utxo \<Rightarrow> bool" where
  "utxo_ok m \<longleftrightarrow> (\<forall>k c. m k = Some c \<longrightarrow> k = randpaytx \<or> (coins_ok c \<and> \<not> IsPruned c))"

lemma utxo_ok_update:
  "utxo_ok m \<Longrightarrow> coins_ok c \<Longrightarrow> utxo_ok (m(k := prune c))" "utxo_ok m \<Longrightarrow> utxo_ok (m(k := None))"
  by (auto simp: utxo_ok_def prune_eq)

lemma utxo_unspend_append: "utxo_unspend (a @ b) m = Option.bind (utxo_unspend a m) (utxo_unspend b)"
proof (induction a arbitrary: m)
  case (Cons x a)
  obtain txin undo where "x = (txin, undo)" by fastforce
  then show ?case by (simp add: Cons Let_def del: fun_upd_apply split: sum.split prod.split bool.split)
qed simp

lemma spend_undo_inputs:
  "utxo_spend vs m = Some (us, m') \<Longrightarrow> utxo_ok m \<Longrightarrow>
    utxo_ok m' \<and> (\<forall>k. m k = None \<longrightarrow> m' k = None) \<and> length us = length (filter (\<lambda>txin. out_hash (prevout txin) \<noteq> randpaytx) vs)
    \<and> utxo_unspend (rev (zip (filter (\<lambda>txin. out_hash (prevout txin) \<noteq> randpaytx) vs) us)) m' = Some m"
proof (induction vs arbitrary: us m)
  case (Cons txin vs)
  let ?k = "out_hash (prevout txin)" and ?n = "out_n (prevout txin)"
  show ?case
  proof (cases "?k = randpaytx")
    case True
    then show ?thesis using Cons by (simp add: Let_def)
  next
    case False
    then obtain u c' us1 where s: "spend_body (unat ?n) (coins_at m ?k) = Inr (u, c')"
      "utxo_spend vs (m(?k := prune c')) = Some (us1, m')" "us = u # us1"
      using Cons.prems(1) by (auto simp: Let_def split: sum.splits)
    have "m ?k \<noteq> None"
    proof
      assume "m ?k = None"
      then show False using s(1) by (simp add: coins_at_def spend_body_def CCoins_empty_def)
    qed
    then obtain c where mk: "m ?k = Some c" by blast
    then have c: "coins_ok c" "coins_at m ?k = c" using Cons.prems(2) False by (auto simp: utxo_ok_def coins_at_def)
    note sp = undo_spent [OF c(1), of ?n u c'] 
    have s1: "spend_body (unat ?n) c = Inr (u, c')" using s(1) c(2) by simp
    have ok: "utxo_ok (m(?k := prune c'))" by (rule utxo_ok_update(1) [OF Cons.prems(2) sp(2) [OF s1]])
    have ca: "coins_at (m(?k := prune c')) ?k = (case prune c' of Some d \<Rightarrow> d | None \<Rightarrow> CCoins_empty)" by (simp add: coins_at_def)
    have bk: "utxo_unspend [(txin, u)] (m(?k := prune c')) = Some m"
      using sp(1) [OF s1] sp(3) [OF s1] mk by (auto simp: Let_def ca fun_upd_idem)
    note ih = Cons.IH [OF s(2) ok]
    have "\<forall>k. m k = None \<longrightarrow> m' k = None" using ih mk by (metis fun_upd_apply option.distinct(1))
    then show ?thesis using ih bk s(3) False by (simp add: utxo_unspend_append del: fun_upd_apply utxo_unspend.simps)
  qed
qed simp

section \<open>A transaction\<close>

definition outputs_ok :: "CTransaction \<Rightarrow> bool" where
  "outputs_ok tx \<longleftrightarrow> list_all (\<lambda>t. nValue t \<noteq> -1) (vout tx) \<and> length (vout tx) < 4294967296"

lemma vout_FromTx:
  "c_vout (FromTx tx h) = rev (dropWhile CTxOut_IsNull (rev (map (\<lambda>t. if IsUnspendable (scriptPubKey t) then CTxOut_SetNull else t) (vout tx))))"
  by (simp add: FromTx_def ClearUnspendable_def Cleanup_def)

lemma spendable_null [simp]: "\<not> IsUnspendable (scriptPubKey CTxOut_SetNull)"
  by (simp add: IsUnspendable_def CTxOut_SetNull_def)

lemma FromTx_spendable: "t \<in> set (c_vout (FromTx tx h)) \<Longrightarrow> \<not> IsUnspendable (scriptPubKey t)"
  by (auto simp: vout_FromTx dest!: set_dropWhileD split: if_splits)

lemma ClearUnspendable_FromTx: "ClearUnspendable (FromTx tx h) = FromTx tx h"
proof -
  have "map (\<lambda>t. if IsUnspendable (scriptPubKey t) then CTxOut_SetNull else t) (c_vout (FromTx tx h)) = c_vout (FromTx tx h)"
    using FromTx_spendable by (intro map_idI) auto
  then show ?thesis using Cleanup_idem [OF tidy_FromTx, of tx h] by (simp add: ClearUnspendable_def)
qed

lemma FromTx_ok: "outputs_ok tx \<Longrightarrow> 0 < h \<Longrightarrow> h < 2147483648 \<Longrightarrow> coins_ok (FromTx tx h)"
proof -
  assume a: "outputs_ok tx" "0 < h" "h < 2147483648"
  have "length (c_vout (FromTx tx h)) \<le> length (vout tx)"
    using length_dropWhile_le [of CTxOut_IsNull "rev (map (\<lambda>t. if IsUnspendable (scriptPubKey t) then CTxOut_SetNull else t) (vout tx))"]
    by (simp add: vout_FromTx)
  moreover have "slots_ok (c_vout (FromTx tx h))"
    using a(1) by (auto simp: slots_ok_def list_all_iff outputs_ok_def vout_FromTx CTxOut_IsNull_def dest!: set_dropWhileD split: if_splits)
  moreover have "c_nHeight (FromTx tx h) = h" by (simp add: FromTx_def ClearUnspendable_def Cleanup_def)
  ultimately show ?thesis using a by (simp add: coins_ok_def outputs_ok_def)
qed

lemma outs_body_FromTx:
  assumes "m k = prune (FromTx tx h)"
  shows "fst (projr (outs_body tx h (coins_at m k)))"
proof (cases "IsPruned (FromTx tx h)")
  case True
  then show ?thesis using assms
    by (simp add: outs_body_def Let_def coins_at_def CCoins_eq_def)
      (simp add: ClearUnspendable_def Cleanup_def IsPruned_def CCoins_empty_def)
next
  case False
  have eq: "CCoins_eq a a" for a by (simp add: CCoins_eq_def)
  have "(FromTx tx h)\<lparr>c_nVersion := c_nVersion (FromTx tx h)\<rparr> = FromTx tx h" by simp
  then show ?thesis using False assms eq by (simp add: outs_body_def Let_def coins_at_def ClearUnspendable_FromTx)
qed

text \<open>
  The operation of a block is a transaction together with whether its inputs are restored; the state is
  the map with the undo records made so far, the last one first.
\<close>

definition connect_op :: "(bytes \<Rightarrow> uint256) \<Rightarrow> int \<Rightarrow> CTransaction \<times> bool \<Rightarrow> utxo \<times> CTxUndo list \<Rightarrow> (utxo \<times> CTxUndo list) option" where
  "connect_op Hash h x s = map_option (\<lambda>(us, m). (m, us # snd s)) (utxo_update Hash (fst x) h (fst s))"

definition disconnect_op :: "(bytes \<Rightarrow> uint256) \<Rightarrow> int \<Rightarrow> CTransaction \<times> bool \<Rightarrow> utxo \<times> CTxUndo list \<Rightarrow> (utxo \<times> CTxUndo list) option" where
  "disconnect_op Hash h x s =
     (case snd s of
        [] \<Rightarrow> None
      | us # uss \<Rightarrow> map_option (\<lambda>m. (m, uss)) (utxo_disconnect Hash h (fst x) (if snd x then Some us else None) (fst s)))"

lemma connect_op_eq:
  "connect_op Hash h x (m, uss) = Some s \<longleftrightarrow> (\<exists>us m'. utxo_update Hash (fst x) h m = Some (us, m') \<and> s = (m', us # uss))"
  by (auto simp: connect_op_def)

lemma disconnect_op_eq:
  "disconnect_op Hash h x (m, us # uss) = map_option (\<lambda>m. (m, uss)) (utxo_disconnect Hash h (fst x) (if snd x then Some us else None) m)"
  by (simp add: disconnect_op_def)

definition tx_fits :: "(bytes \<Rightarrow> uint256) \<Rightarrow> CTransaction \<times> bool \<Rightarrow> utxo \<times> CTxUndo list \<Rightarrow> bool" where
  "tx_fits Hash x s \<longleftrightarrow> fst s (ComputeHash Hash (fst x)) = None \<and> outputs_ok (fst x) \<and> snd x = (\<not> IsCoinBase (fst x))"

lemma disconnect_connect:
  assumes "utxo_ok m" "tx_fits Hash (tx, b) (m, uss)" "utxo_update Hash tx h m = Some (us, m')" "0 < h" "h < 2147483648"
  shows "utxo_ok m'" "utxo_disconnect Hash h tx (if b then Some us else None) m' = Some m"
proof -
  let ?k = "ComputeHash Hash tx"
  have f: "m ?k = None" "outputs_ok tx" "b = (\<not> IsCoinBase tx)" using assms(2) by (auto simp: tx_fits_def)
  obtain m1 where m1: "(if IsCoinBase tx then Some ([], m) else utxo_spend (vin tx) m) = Some (us, m1)"
    "m' = m1(?k := prune (FromTx tx h))"
    using assms(3) by (auto simp: utxo_update_def split: bind_splits if_splits)
  have s: "utxo_ok m1" "m1 ?k = None"
    "\<not> IsCoinBase tx \<longrightarrow> length us = length (real_inputs tx) \<and> utxo_unspend (rev (zip (real_inputs tx) us)) m1 = Some m"
    "IsCoinBase tx \<longrightarrow> m1 = m"
    using m1(1) spend_undo_inputs [of "vin tx" m us m1] assms(1) f(1) by (auto split: if_splits)
  show "utxo_ok m'" unfolding m1(2) by (rule utxo_ok_update(1) [OF s(1) FromTx_ok [OF f(2) assms(4,5)]])
  have "fst (projr (outs_body tx h (coins_at m' ?k)))" by (rule outs_body_FromTx) (simp add: m1(2))
  moreover have "m'(?k := None) = m1" using s(2) by (auto simp: m1(2))
  ultimately show "utxo_disconnect Hash h tx (if b then Some us else None) m' = Some m"
    using s(3,4) f(3) by (simp add: utxo_disconnect_def Let_def)
qed

interpretation coins: undo_log "\<lambda>s. utxo_ok (fst s) \<and> 0 < h \<and> h < 2147483648" "tx_fits Hash" "(=)"
  "connect_op Hash h" "disconnect_op Hash h" for Hash h
proof
  fix s s' :: "utxo \<times> CTxUndo list" and x
  assume inv: "utxo_ok (fst s) \<and> 0 < h \<and> h < 2147483648" and ok: "tx_fits Hash x s" and ap: "connect_op Hash h x s = Some s'"
  obtain m uss tx b where x: "s = (m, uss)" "x = (tx, b)" by (metis prod.collapse)
  obtain us m' where u: "utxo_update Hash tx h m = Some (us, m')" "s' = (m', us # uss)" using ap by (auto simp: connect_op_def x)
  show "(utxo_ok (fst s') \<and> 0 < h \<and> h < 2147483648) \<and> (\<exists>t. disconnect_op Hash h x s' = Some t \<and> t = s)"
    using disconnect_connect [of m Hash tx b uss h us m'] inv ok u by (simp add: x disconnect_op_def)
qed auto

section \<open>A block\<close>

abbreviation nNonCB :: "int \<Rightarrow> nat" where
  "nNonCB h \<equiv> (if isForkBlock h then forkCBPerBlock else 0)"

definition block_ops :: "int \<Rightarrow> CTransaction list \<Rightarrow> (CTransaction \<times> bool) list" where
  "block_ops h vtx = map (\<lambda>i. (vtx ! i, i > nNonCB h)) [0..<length vtx]"

lemma block_ops_simps [simp]: "length (block_ops h vtx) = length vtx" "map fst (block_ops h vtx) = vtx"
  "i < length vtx \<Longrightarrow> block_ops h vtx ! i = (vtx ! i, i > nNonCB h)"
  by (simp_all add: block_ops_def o_def map_nth)

text \<open>A block fits a map of unspent outputs when each transaction in turn finds its inputs, has a new id, and
  is a coinbase exactly where the code does not restore inputs.\<close>

definition block_fits :: "(bytes \<Rightarrow> uint256) \<Rightarrow> int \<Rightarrow> CTransaction list \<Rightarrow> utxo \<Rightarrow> bool" where
  "block_fits Hash h vtx m \<longleftrightarrow> vtx \<noteq> [] \<and> 0 < h \<and> h < 2147483648 \<and> utxo_ok m \<and> ok_run (tx_fits Hash) (connect_op Hash h) (block_ops h vtx) (m, [])
     \<and> run_ops (connect_op Hash h) (block_ops h vtx) (m, []) \<noteq> None"

lemma connect_loop_sim:
  "good_view v \<Longrightarrow> run_ops (connect_op Hash h) xs (utxo_of v, uss0) = Some (m1, uss) \<Longrightarrow>
    \<exists>us v1. connect_loop Hash h i (map fst xs) acc v = Inr (acc @ (if i > 0 then us else tl us), v1)
      \<and> uss = rev us @ uss0 \<and> length us = length xs \<and> good_view v1 \<and> levels v1 = m1 # tl (levels v)"
proof (induction xs arbitrary: v uss0 i acc)
  case Nil
  then show ?case using levels_Cons [of v] by auto
next
  case (Cons x xs)
  obtain u m where u: "utxo_update Hash (fst x) h (utxo_of v) = Some (u, m)"
    "run_ops (connect_op Hash h) xs (m, u # uss0) = Some (m1, uss)"
    using Cons.prems(2) by (auto simp: connect_op_eq split: bind_splits)
  obtain v' where v': "UpdateCoins Hash (fst x) [] h v = Inr (u, v')" "good_view v'" "levels v' = m # tl (levels v)"
    using UpdateCoins_sim [OF Cons.prems(1) u(1)] by blast
  have "utxo_of v' = m" using v'(3) levels_hd(1) [of v'] by simp
  then obtain us v1 where "connect_loop Hash h (Suc i) (map fst xs) (if i > 0 then acc @ [u] else acc) v'
      = Inr ((if i > 0 then acc @ [u] else acc) @ us, v1)"
    "uss = rev us @ u # uss0" "length us = length xs" "good_view v1" "levels v1 = m1 # tl (levels v')"
    using Cons.IH [OF v'(2), of "u # uss0" "Suc i" "if i > 0 then acc @ [u] else acc"] u(2) by auto
  then show ?case using v' by (intro exI [of _ "u # us"] exI [of _ v1]) simp
qed

lemma disconnect_loop_sim:
  "i \<le> length vtx \<Longrightarrow> length us = length vtx \<Longrightarrow> good_view v \<Longrightarrow>
    run_ops (disconnect_op Hash h) (rev (take i (block_ops h vtx))) (utxo_of v, rev (take i us)) = Some (m, []) \<Longrightarrow>
    \<exists>v'. disconnect_loop Hash h vtx (tl us) i True v = Inr (True, v') \<and> good_view v' \<and> levels v' = m # tl (levels v)"
proof (induction i arbitrary: v)
  case 0
  then show ?case using levels_Cons [of v] by auto
next
  case (Suc i)
  let ?u = "if i > nNonCB h then Some (us ! i) else None"
  obtain m' where m': "utxo_disconnect Hash h (vtx ! i) ?u (utxo_of v) = Some m'"
    "run_ops (disconnect_op Hash h) (rev (take i (block_ops h vtx))) (m', rev (take i us)) = Some (m, [])"
    using Suc.prems by (auto simp: take_Suc_conv_app_nth disconnect_op_eq split: bind_splits)
  obtain v1 where v1: "disconnect_tx Hash h (vtx ! i) ?u True v = Inr (True, v1)" "good_view v1" "levels v1 = m' # tl (levels v)"
    using disconnect_tx_sim [OF Suc.prems(3) m'(1)] by blast
  have "utxo_of v1 = m'" using v1(3) levels_hd(1) [of v1] by simp
  then obtain v' where v': "disconnect_loop Hash h vtx (tl us) i True v1 = Inr (True, v')" "good_view v'" "levels v' = m # tl (levels v1)"
    using Suc.IH [of v1] Suc.prems(1,2) v1(2) m'(2) by auto
  have "i > nNonCB h \<Longrightarrow> tl us ! (i - 1) = us ! i" using Suc.prems(1,2) by (cases i) (auto simp: nth_tl)
  then have "(if i > nNonCB h then Some (tl us ! (i - 1)) else None) = ?u" by auto
  then show ?case using v1 v' by (simp add: Let_def)
qed

lemma GetBestBlock_spec:
  "view_ok v \<Longrightarrow> GetBestBlock v = (b, v') \<Longrightarrow> view_ok v' \<and> levels v' = levels v \<and> is_cache v' = is_cache v"
proof (induction v arbitrary: b v')
  case (CCoinsViewCache cache hb base)
  obtain b1 base' where g: "GetBestBlock base = (b1, base')" by fastforce
  have ih: "view_ok base'" "levels base' = levels base"
    using CCoinsViewCache.IH [OF _ g] CCoinsViewCache.prems(1) by auto
  have u: "utxo_of base' = utxo_of base" by (rule same_utxo [OF ih(2)])
  then have "view_ok (CCoinsViewCache cache x base')" for x using CCoinsViewCache.prems(1) ih(1) by simp
  moreover have "utxo_of (CCoinsViewCache cache x base') = utxo_of (CCoinsViewCache cache y base)" for x y
    by (rule ext) (simp only: utxo_of_cache u)
  ultimately show ?case using CCoinsViewCache.prems g ih by (auto simp del: view_ok.simps split: if_splits)
qed auto

lemma SetBestBlock_spec: "good_view v \<Longrightarrow> good_view (SetBestBlock b v) \<and> levels (SetBestBlock b v) = levels v"
  by (cases v) (auto simp: good_view_def fun_eq_iff utxo_of_cache)

lemma UndoReadFromDisk_written:
  assumes "ok_block_undo us" "point_compression fully_valid decompress" "\<And>x. length (Hash x) = 32"
  shows "UndoReadFromDisk Hash fully_valid decompress (undo_file Hash fully_valid us hashPrev) hashPrev = Some us"
  using block_undo.dec_enc [of us fully_valid decompress] assms
  by (simp add: UndoReadFromDisk_def undo_file_def stream_read_def)

text \<open>All together: connecting succeeds on every stack that holds the map, and disconnecting on every stack
  that holds the result, for instance after flushing and restarting.\<close>

lemma connect_then_disconnect:
  assumes fits: "block_fits Hash h vtx m" and v: "good_view v" "utxo_of v = m"
  shows "\<exists>us m1 v1. connect_loop Hash h 0 vtx [] v = Inr (us, v1) \<and> good_view v1 \<and> levels v1 = m1 # tl (levels v) \<and> length us + 1 = length vtx
    \<and> (\<forall>w. good_view w \<longrightarrow> utxo_of w = m1 \<longrightarrow>
        (\<exists>w'. disconnect_loop Hash h vtx us (length vtx) True w = Inr (True, w') \<and> good_view w' \<and> levels w' = m # tl (levels w)))"
proof -
  have ok: "0 < h" "h < 2147483648" "utxo_ok m" "ok_run (tx_fits Hash) (connect_op Hash h) (block_ops h vtx) (m, [])" "vtx \<noteq> []"
    using fits by (auto simp: block_fits_def)
  obtain m1 uss where run: "run_ops (connect_op Hash h) (block_ops h vtx) (m, []) = Some (m1, uss)"
    using fits by (auto simp: block_fits_def)
  obtain us v1 where c: "connect_loop Hash h 0 vtx [] v = Inr (tl us, v1)" "uss = rev us" "length us = length vtx"
    "good_view v1" "levels v1 = m1 # tl (levels v)"
    using connect_loop_sim [OF v(1), of Hash h "block_ops h vtx" "[]" m1 uss 0 "[]"] run v(2) by auto
  have "run_ops (disconnect_op Hash h) (rev (block_ops h vtx)) (m1, rev us) = Some (m, [])"
    using coins.undo_run [of "(m, [])" h Hash "block_ops h vtx" "(m1, uss)"] ok run c(2) by auto
  then have "\<exists>w'. disconnect_loop Hash h vtx (tl us) (length vtx) True w = Inr (True, w') \<and> good_view w' \<and> levels w' = m # tl (levels w)"
    if "good_view w" "utxo_of w = m1" for w
    using disconnect_loop_sim [of "length vtx" vtx us w Hash h m] that c(3) by simp
  moreover have "length (tl us) + 1 = length vtx" using c(3) ok(5) by (cases us) auto
  ultimately show ?thesis using c by blast
qed

text \<open>
  C1: disconnecting a block restores the coins. Take a block whose transactions fit the unspent outputs: in
  turn each finds its inputs, has a new id, and is a coinbase exactly where the code does not restore
  inputs. After it was connected, its undo data written to disk and read again, \<^verbatim>\<open>DisconnectBlock\<close> on any
  stack of views with the resulting coins reports a clean result and leaves exactly the unspent outputs
  of before, with the best block set to the predecessor. The hypotheses on the data are that the undo
  records fit their format and that the curve library finds a valid key again from its compressed form.
\<close>

theorem block_coins_undone:
  assumes "block_fits Hash h vtx (utxo_of v)" and "good_view v" and "connect_loop Hash h 0 vtx [] v = Inr (us, v1)"
    and "ok_block_undo us" and "point_compression fully_valid decompress" and "\<And>x. length (Hash x) = 32"
    and "good_view w" and "utxo_of w = utxo_of v1" and "fst (GetBestBlock w) = hashBlock" and "hashPrev \<noteq> uint256_null"
  shows "\<exists>w'. DisconnectBlock Hash fully_valid decompress vtx h hashBlock hashPrev (Some (undo_file Hash fully_valid us hashPrev)) w
      = Inr (True, w') \<and> good_view w' \<and> utxo_of w' = utxo_of v \<and> fst (GetBestBlock w') = hashPrev"
proof -
  obtain m1 where c: "levels v1 = m1 # tl (levels v)" "length us + 1 = length vtx"
    "\<And>w. good_view w \<Longrightarrow> utxo_of w = m1 \<Longrightarrow>
      \<exists>w'. disconnect_loop Hash h vtx us (length vtx) True w = Inr (True, w') \<and> good_view w' \<and> levels w' = utxo_of v # tl (levels w)"
    using connect_then_disconnect [OF assms(1,2) refl] assms(3) by auto
  obtain w1 where w1: "GetBestBlock w = (hashBlock, w1)" using assms(9) by (metis prod.collapse)
  have g: "good_view w1" "utxo_of w1 = m1"
    using GetBestBlock_spec [OF _ w1] assms(7,8) c(1) levels_hd(1) [of v1] same_utxo [of w1 w] by (auto simp: good_view_def)
  obtain w' where w': "disconnect_loop Hash h vtx us (length vtx) True w1 = Inr (True, w')" "good_view w'"
    "levels w' = utxo_of v # tl (levels w1)" using c(3) [OF g] by blast
  have s: "good_view (SetBestBlock hashPrev w')" "levels (SetBestBlock hashPrev w') = levels w'" using SetBestBlock_spec [OF w'(2)] by auto
  then have "utxo_of (SetBestBlock hashPrev w') = utxo_of v" using w'(3) levels_hd(1) [of "SetBestBlock hashPrev w'"] by simp
  moreover have "fst (GetBestBlock (SetBestBlock hashPrev w')) = hashPrev"
    using w'(2) assms(10) by (cases w') (auto simp: good_view_def)
  moreover have "UndoReadFromDisk Hash fully_valid decompress (undo_file Hash fully_valid us hashPrev) hashPrev = Some us"
    by (rule UndoReadFromDisk_written [OF assms(4-6)])
  ultimately show ?thesis using w1 w'(1) c(2) s(1) by (simp add: DisconnectBlock_def)
qed

definition toy_block :: "CTransaction list" where
  "toy_block = [toy_reward, toy_spend]"

lemma toy_utxo: "utxo_of toy_views = [randpaytx \<mapsto> randpay_coins]"
proof -
  have "utxo_of (CCoinsViewDB (\<lambda>_. None) uint256_null) = Map.empty" by (simp add: fun_eq_iff utxo_of_def)
  then show ?thesis using make_spec(3) [of "CCoinsViewDB (\<lambda>_. None) uint256_null"] levels_hd(1) [of toy_views]
    by (simp add: toy_views_def)
qed

lemma toy_ops: "block_ops 400 toy_block = [(toy_reward, False), (toy_spend, True)]"
  by (simp add: block_ops_def toy_block_def isForkBlock_def)

lemma toy_block_fits: "block_fits toy_hash 400 toy_block (utxo_of toy_views)"
proof -
  let ?m = "utxo_of toy_views" and ?m1 = "(utxo_of toy_views)(toy_id 0 \<mapsto> FromTx toy_reward 400)"
  have ok: "utxo_ok ?m" by (simp add: utxo_ok_def toy_utxo)
  have c1: "connect_op toy_hash 400 (toy_reward, False) (?m, []) = Some (?m1, [[]])"
    by (simp add: connect_op_def toy_reward_update)
  obtain s2 where c2: "connect_op toy_hash 400 (toy_spend, True) (?m1, [[]]) = Some s2"
    using toy_spend_update [of ?m1 400 400] by (auto simp: connect_op_def toy_utxo)
  have t: "tx_fits toy_hash (toy_reward, False) (?m, [])" "tx_fits toy_hash (toy_spend, True) (?m1, [[]])"
    by (simp_all add: tx_fits_def toy_ids toy_utxo outputs_ok_def toy_fields toy_kinds)
  show ?thesis unfolding block_fits_def toy_ops using ok t by (simp add: c1 c2 toy_block_def)
qed

lemma toy_connects: "\<exists>v1. connect_loop toy_hash 400 0 toy_block [] toy_views = Inr ([toy_undo 400], v1) \<and> good_view v1"
proof -
  obtain v1 where v1: "UpdateCoins toy_hash toy_reward [] 400 toy_views = Inr ([], v1)" "good_view v1"
    "levels v1 = (utxo_of toy_views)(toy_id 0 \<mapsto> FromTx toy_reward 400) # tl (levels toy_views)"
    using UpdateCoins_sim [OF toy_views_good toy_reward_update] by blast
  have u1: "utxo_of v1 = (utxo_of toy_views)(toy_id 0 \<mapsto> FromTx toy_reward 400)" using v1(3) levels_hd(1) [of v1] by simp
  obtain v2 where "UpdateCoins toy_hash toy_spend [] 400 v1 = Inr (toy_undo 400, v2)" "good_view v2"
    using UpdateCoins_sim [OF v1(2) toy_spend_update [of "utxo_of v1" 400 400]] by (auto simp: u1 toy_utxo)
  then show ?thesis using v1(1) by (simp add: toy_block_def)
qed

theorem block_coins_undone_witness:
  "\<exists>us v1 w'. connect_loop toy_hash 400 0 toy_block [] toy_views = Inr (us, v1) \<and> us = [toy_undo 400]
    \<and> DisconnectBlock toy_hash base_valid base_decompress toy_block 400 (toy_id 9) (toy_id 8)
        (Some (undo_file toy_hash base_valid us (toy_id 8))) (SetBestBlock (toy_id 9) v1) = Inr (True, w')
    \<and> utxo_of w' = utxo_of toy_views \<and> fst (GetBestBlock w') = toy_id 8"
proof -
  obtain v1 where v1: "connect_loop toy_hash 400 0 toy_block [] toy_views = Inr ([toy_undo 400], v1)" "good_view v1"
    using toy_connects by blast
  have w: "good_view (SetBestBlock (toy_id 9) v1)" "utxo_of (SetBestBlock (toy_id 9) v1) = utxo_of v1"
    using SetBestBlock_spec [OF v1(2), of "toy_id 9"] same_utxo [of "SetBestBlock (toy_id 9) v1" v1] by simp_all
  have b: "fst (GetBestBlock (SetBestBlock (toy_id 9) v1)) = toy_id 9" using v1(2) by (cases v1) (auto simp: good_view_def)
  have u: "ok_block_undo [toy_undo 400]"
    by (simp add: ok_block_undo_def toy_undo_def ok_undo_def CTxInUndo_make_def ok_coin_out_def)
  have l: "\<And>x. length (toy_hash x) = 32" by (simp add: toy_hash_def toy_id_def)
  show ?thesis
    using block_coins_undone [OF toy_block_fits toy_views_good v1(1) u base_point_compression l w b, of "toy_id 8"] v1(1) by auto
qed

end
