(* ===== verification/MFC_TxChecks.thy ===== *)
theory MFC_TxChecks
  imports MFC_UtxoUndo MFC_VerifyProps MFC_BlockIndexProps
begin

unbundle bit_operations_syntax

text \<open>
  The checks of one transaction in \<^verbatim>\<open>src/src/validation.cpp\<close>: lock times, relative lock times against the block
  index, costs of signature operations, the checks without context, the reward of a coin stake, the checks
  of the inputs against a coin view and the verification of their scripts. The functions that take the view by
  constant reference are modelled by their answers: what they leave in the caches cannot be seen later
  (lemma \<open>query_unseen\<close>). Arithmetic is in 64-bit \<^verbatim>\<open>int64_t\<close> or 32-bit \<^verbatim>\<open>int\<close>, wrapped.
\<close>

section \<open>Outcomes and environment\<close>

text \<open>
  The ways a check ends without accepting: \<open>DoS\<close> is \<^verbatim>\<open>state.DoS(level, false, code, reason)\<close> (\<^verbatim>\<open>Invalid\<close> has
  level 0), \<open>Failure\<close> a plain \<^verbatim>\<open>false\<close>, \<open>RuntimeError\<close> what \<^verbatim>\<open>GetValueOut\<close> throws, \<open>BadIndex\<close> the use of a
  missing element or null pointer, \<open>Endless\<close> a walk over the block index that does not end.
\<close>

datatype check_error =
    DoS nat nat string
  | Failure
  | RuntimeError
  | ScriptException cpp_exn
  | AssertionFailure
  | BadIndex
  | Endless
  | CoinsFault coins_error

abbreviation (input) REJECT_INVALID :: nat where "REJECT_INVALID \<equiv> 0x10"
abbreviation (input) REJECT_NONSTANDARD :: nat where "REJECT_NONSTANDARD \<equiv> 0x40"
abbreviation (input) REJECT_RANDPAY :: nat where "REJECT_RANDPAY \<equiv> 0xEC"
abbreviation (input) MAX_BLOCK_BASE_SIZE :: nat where "MAX_BLOCK_BASE_SIZE \<equiv> 2000000"
abbreviation (input) WITNESS_SCALE_FACTOR :: nat where "WITNESS_SCALE_FACTOR \<equiv> 4"
abbreviation (input) LOCKTIME_THRESHOLD :: int where "LOCKTIME_THRESHOLD \<equiv> 500000000"
abbreviation (input) LOCKTIME_VERIFY_SEQUENCE :: int where "LOCKTIME_VERIFY_SEQUENCE \<equiv> 1"
abbreviation (input) LOCKTIME_MEDIAN_TIME_PAST :: int where "LOCKTIME_MEDIAN_TIME_PAST \<equiv> 2"
abbreviation (input) SEQ_DISABLE_FLAG :: u32 where "SEQ_DISABLE_FLAG \<equiv> 0x80000000"
abbreviation (input) SEQ_TYPE_FLAG :: u32 where "SEQ_TYPE_FLAG \<equiv> 0x400000"
abbreviation (input) SEQ_MASK :: u32 where "SEQ_MASK \<equiv> 0xffff"
abbreviation (input) STANDARD_NOT_MANDATORY_VERIFY_FLAGS :: u32 where "STANDARD_NOT_MANDATORY_VERIFY_FLAGS \<equiv> 0xffde"
abbreviation (input) TX_DP_AMOUNT :: CAmount where "TX_DP_AMOUNT \<equiv> 10000"

text \<open>
  What the checks read besides the view: the double hash of transactions, the checker of signatures and
  hash functions for an input, the transaction index and the block files behind it, parameters of the network
  and the block index.
\<close>

datatype tx_read = NotIndexed | Unreadable | ReadTx CTransaction

record check_env =
  env_Hash :: "bytes \<Rightarrow> uint256"
  env_checker :: "CTransaction \<Rightarrow> nat \<Rightarrow> CAmount \<Rightarrow> script_env"
  env_fTxIndex :: bool
  env_ReadTxIndex :: "uint256 \<Rightarrow> tx_read"
  env_nStakeMinAge :: int
  env_nCoinbaseMaturity :: int
  env_nCoinbaseMaturityOld :: int
  env_heap :: heap
  env_mapBlockIndex :: "uint256 \<Rightarrow> ptr option"

definition access :: "CCoinsView \<Rightarrow> uint256 \<Rightarrow> CCoins option" where
  "access v txid = fst (AccessCoins txid v)"

section \<open>Lock times\<close>

definition IsFinalTx :: "CTransaction \<Rightarrow> int \<Rightarrow> int \<Rightarrow> bool" where
  "IsFinalTx tx nBlockHeight nBlockTime =
     (if nLockTime tx = 0 then True
      else if uint (nLockTime tx) < (if uint (nLockTime tx) < LOCKTIME_THRESHOLD then nBlockHeight else nBlockTime) then True
      else list_all (\<lambda>txin. nSequence txin = SEQUENCE_FINAL) (vin tx))"

text \<open>
  The loop of \<^verbatim>\<open>CalculateSequenceLocks\<close> over the inputs with the heights of their coins; it also returns the
  heights as the function leaves them in its argument.
\<close>

fun locks_loop ::
  "heap \<Rightarrow> ptr \<Rightarrow> (CTxIn \<times> int) list \<Rightarrow> int \<Rightarrow> int \<Rightarrow> int list \<Rightarrow> check_error + (int \<times> int) \<times> int list" where
  "locks_loop H block [] nMinHeight nMinTime hs = Inr ((nMinHeight, nMinTime), hs)"
| "locks_loop H block ((txin, nCoinHeight) # ins) nMinHeight nMinTime hs =
     (if nSequence txin AND SEQ_DISABLE_FLAG \<noteq> 0 then locks_loop H block ins nMinHeight nMinTime (hs @ [0])
      else if nSequence txin AND SEQ_TYPE_FLAG \<noteq> 0 then
        (case GetAncestor H block (max (nCoinHeight - 1) 0) of
           None \<Rightarrow> Inl Endless
         | Some None \<Rightarrow> Inl BadIndex
         | Some (Some p) \<Rightarrow>
             let nCoinTime = GetMedianTimePast H p in
             locks_loop H block ins nMinHeight
               (max nMinTime (nCoinTime + uint (push_bit 9 (nSequence txin AND SEQ_MASK)) - 1)) (hs @ [nCoinHeight]))
      else locks_loop H block ins
             (max nMinHeight (wrap32 (nCoinHeight + uint (nSequence txin AND SEQ_MASK) - 1))) nMinTime (hs @ [nCoinHeight]))"

definition CalculateSequenceLocks ::
  "CTransaction \<Rightarrow> int \<Rightarrow> int list \<Rightarrow> heap \<Rightarrow> ptr \<Rightarrow> check_error + (int \<times> int) \<times> int list" where
  "CalculateSequenceLocks tx flags prevHeights H block =
     (if length prevHeights \<noteq> length (vin tx) then Inl AssertionFailure
      else let fEnforceBIP68 = ((of_int (tx_nVersion tx) :: u32) \<ge> 2 \<and> flags AND LOCKTIME_VERIFY_SEQUENCE \<noteq> 0)
      in if \<not> fEnforceBIP68 then Inr ((-1, -1), prevHeights)
         else locks_loop H block (zip (vin tx) prevHeights) (-1) (-1) [])"

definition EvaluateSequenceLocks :: "heap \<Rightarrow> ptr \<Rightarrow> int \<times> int \<Rightarrow> check_error + bool" where
  "EvaluateSequenceLocks H block lockPair =
     (case pprev (H block) of
        None \<Rightarrow> Inl AssertionFailure
      | Some p \<Rightarrow>
          let nBlockTime = GetMedianTimePast H p
          in Inr (\<not> (fst lockPair \<ge> nHeight (H block) \<or> snd lockPair \<ge> nBlockTime)))"

definition SequenceLocks :: "CTransaction \<Rightarrow> int \<Rightarrow> int list \<Rightarrow> heap \<Rightarrow> ptr \<Rightarrow> check_error + bool" where
  "SequenceLocks tx flags prevHeights H block =
     bind_sum (CalculateSequenceLocks tx flags prevHeights H block) (\<lambda>(lockPair, _). EvaluateSequenceLocks H block lockPair)"

section \<open>Signature operations\<close>

text \<open>\<^verbatim>\<open>unsigned int\<close> counters.\<close>

definition GetLegacySigOpCount :: "CTransaction \<Rightarrow> u32" where
  "GetLegacySigOpCount tx =
     fold (\<lambda>txout n. n + of_nat (GetSigOpCount (scriptPubKey txout) False)) (vout tx)
       (fold (\<lambda>txin n. n + of_nat (GetSigOpCount (scriptSig txin) False)) (vin tx) 0)"

definition output_for :: "CCoinsView \<Rightarrow> CTxIn \<Rightarrow> check_error + CTxOut \<times> int" where
  "output_for v txin =
     (case access v (out_hash (prevout txin)) of
        None \<Rightarrow> Inl AssertionFailure
      | Some coins \<Rightarrow>
          if IsAvailable coins (unat (out_n (prevout txin)))
          then Inr (c_vout coins ! unat (out_n (prevout txin)), c_nVersion coins) else Inl AssertionFailure)"

fun p2sh_loop :: "CCoinsView \<Rightarrow> CTxIn list \<Rightarrow> u32 \<Rightarrow> check_error + u32" where
  "p2sh_loop v [] nSigOps = Inr nSigOps"
| "p2sh_loop v (txin # vs) nSigOps =
     bind_sum (output_for v txin) (\<lambda>(out, version).
       case IsPayToScriptHash (scriptPubKey out) version of
         Inl x \<Rightarrow> Inl (ScriptException x)
       | Inr False \<Rightarrow> p2sh_loop v vs nSigOps
       | Inr True \<Rightarrow>
           (case GetSigOpCount_sig (scriptPubKey out) (scriptSig txin) version of
              Inl x \<Rightarrow> Inl (ScriptException x)
            | Inr n \<Rightarrow> p2sh_loop v vs (nSigOps + of_nat n)))"

definition GetP2SHSigOpCount :: "CTransaction \<Rightarrow> CCoinsView \<Rightarrow> check_error + u32" where
  "GetP2SHSigOpCount tx v = (if IsCoinBase tx then Inr 0 else p2sh_loop v (vin tx) 0)"

definition of_outcome :: "verify_outcome \<Rightarrow> check_error" where
  "of_outcome r = (case r of Threw x \<Rightarrow> ScriptException x | _ \<Rightarrow> AssertionFailure)"

fun witness_loop :: "CTransaction \<Rightarrow> u32 \<Rightarrow> CCoinsView \<Rightarrow> CTxIn list \<Rightarrow> int \<Rightarrow> check_error + int" where
  "witness_loop tx flags v [] nSigOps = Inr nSigOps"
| "witness_loop tx flags v (txin # vs) nSigOps =
     bind_sum (output_for v txin) (\<lambda>(out, _).
       case CountWitnessSigOps (scriptSig txin) (scriptPubKey out) (scriptWitness txin) flags (tx_nVersion tx) of
         Inl r \<Rightarrow> Inl (of_outcome r)
       | Inr n \<Rightarrow> witness_loop tx flags v vs (wrap64 (nSigOps + int n)))"

definition GetTransactionSigOpCost :: "CTransaction \<Rightarrow> CCoinsView \<Rightarrow> u32 \<Rightarrow> check_error + int" where
  "GetTransactionSigOpCost tx v flags =
     (let nSigOps = uint (GetLegacySigOpCount tx * of_nat WITNESS_SCALE_FACTOR) in
      if IsCoinBase tx then Inr nSigOps
      else bind_sum (if flags AND SCRIPT_VERIFY_P2SH \<noteq> 0
                     then bind_sum (GetP2SHSigOpCount tx v) (\<lambda>n. Inr (wrap64 (nSigOps + uint (n * of_nat WITNESS_SCALE_FACTOR))))
                     else Inr nSigOps)
             (\<lambda>nSigOps. witness_loop tx flags v (vin tx) nSigOps))"

section \<open>Checks without context\<close>

fun outputs_loop :: "CTransaction \<Rightarrow> CTxOut list \<Rightarrow> CAmount \<Rightarrow> check_error + unit" where
  "outputs_loop tx [] nValueOut = Inr ()"
| "outputs_loop tx (txout # os) nValueOut =
     (if CTxOut_IsEmpty txout \<and> \<not> IsCoinBase tx \<and> \<not> IsCoinStake tx then Inl (DoS 100 REJECT_INVALID ''empty-txout'')
      else if nValue txout > MAX_MONEY then Inl (DoS 100 REJECT_INVALID ''bad-txns-vout-toolarge'')
      else let nValueOut = wrap64 (nValueOut + nValue txout) in
        if \<not> MoneyRange nValueOut then Inl (DoS 100 REJECT_INVALID ''bad-txns-txouttotal-toolarge'')
        else outputs_loop tx os nValueOut)"

fun duplicates_loop :: "CTxIn list \<Rightarrow> COutPoint list \<Rightarrow> check_error + unit" where
  "duplicates_loop [] vInOutPoints = Inr ()"
| "duplicates_loop (txin # vs) vInOutPoints =
     (if prevout txin \<in> set vInOutPoints then Inl (DoS 100 REJECT_INVALID ''bad-txns-inputs-duplicate'')
      else duplicates_loop vs (prevout txin # vInOutPoints))"

fun randpay_loop :: "CTxIn list \<Rightarrow> bool \<Rightarrow> check_error + unit" where
  "randpay_loop [] fFound = Inr ()"
| "randpay_loop (txin # vs) fFound =
     (if out_hash (prevout txin) = randpaytx
      then (if fFound then Inl (DoS 100 REJECT_INVALID ''multiple-randpay-utxo'') else randpay_loop vs True)
      else randpay_loop vs fFound)"

definition CheckTransaction :: "CTransaction \<Rightarrow> bool \<Rightarrow> check_error + unit" where
  "CheckTransaction tx fCheckDuplicateInputs =
     (if vin tx = [] then Inl (DoS 10 REJECT_INVALID ''bad-txns-vin-empty'')
      else if vout tx = [] then Inl (DoS 10 REJECT_INVALID ''bad-txns-vout-empty'')
      else if length (SerializeTransaction False False tx) > MAX_BLOCK_BASE_SIZE
      then Inl (DoS 100 REJECT_INVALID ''bad-txns-oversize'')
      else bind_sum (outputs_loop tx (vout tx) 0) (\<lambda>_.
           bind_sum (if fCheckDuplicateInputs then duplicates_loop (vin tx) [] else Inr ()) (\<lambda>_.
           bind_sum (if IsCoinBase tx
                     then (if length (scriptSig (vin tx ! 0)) < 2 \<or> length (scriptSig (vin tx ! 0)) > 100
                           then Inl (DoS 100 REJECT_INVALID ''bad-cb-length'') else Inr ())
                     else (if list_ex (\<lambda>txin. COutPoint_IsNull (prevout txin)) (vin tx)
                           then Inl (DoS 10 REJECT_INVALID ''bad-txns-prevout-null'') else Inr ())) (\<lambda>_.
             randpay_loop (vin tx) False))))"

section \<open>Rewards\<close>

abbreviation (input) POW_REWARD :: CAmount where "POW_REWARD \<equiv> 25 * COIN"
abbreviation (input) POW_MIN_REWARD :: CAmount where "POW_MIN_REWARD \<equiv> 1 * COIN"
abbreviation (input) POW_HALVING_PERIOD :: int where "POW_HALVING_PERIOD \<equiv> 400000"

text \<open>The division by \<open>int64_t(1ull << n)\<close>: for a shift of 63 the divisor is negative.\<close>

definition GetProofOfWorkReward :: "int \<Rightarrow> CAmount" where
  "GetProofOfWorkReward height =
     (let nReductions = cdiv height POW_HALVING_PERIOD;
          reward = cdiv POW_REWARD (wrap64 (2 ^ nat (min nReductions 63)))
      in max reward POW_MIN_REWARD)"

text \<open>
  \<^verbatim>\<open>GetMfc7POSReward\<close>: \<open>Inr None\<close> is the result \<^verbatim>\<open>false\<close>. The age of the coins is a 256-bit number; the
  factor \<^verbatim>\<open>dt\<close> is converted to \<^verbatim>\<open>uint32_t\<close> by the choice of the overloaded operator.
\<close>

fun coin_age_loop ::
  "check_env \<Rightarrow> CTransaction \<Rightarrow> CCoinsView \<Rightarrow> CTxIn list \<Rightarrow> limbs \<Rightarrow> check_error + limbs option" where
  "coin_age_loop E tx v [] bnSatSecond = Inr (Some bnSatSecond)"
| "coin_age_loop E tx v (txin # vs) bnSatSecond =
     (case access v (out_hash (prevout txin)) of
        None \<Rightarrow> coin_age_loop E tx v vs bnSatSecond
      | Some coins \<Rightarrow>
          if tx_nTime tx < c_nTime coins then Inr None
          else if \<not> env_fTxIndex E then Inr None
          else case env_ReadTxIndex E (out_hash (prevout txin)) of
            NotIndexed \<Rightarrow> Inr None
          | Unreadable \<Rightarrow> Inr None
          | ReadTx txPrev \<Rightarrow>
              if ComputeHash (env_Hash E) txPrev \<noteq> out_hash (prevout txin) then Inr None
              else if wrap64 (uint (tx_nTime txPrev) + env_nStakeMinAge E) > uint (tx_nTime tx)
              then coin_age_loop E tx v vs bnSatSecond
              else if unat (out_n (prevout txin)) \<ge> length (vout txPrev) then Inl BadIndex
              else let nValueIn = nValue (vout txPrev ! unat (out_n (prevout txin)));
                       dt = tx_nTime tx - tx_nTime txPrev
                   in coin_age_loop E tx v vs (add256 bnSatSecond (mul32 (from_u64 (of_int nValueIn)) dt)))"

definition GetMfc7POSReward :: "check_env \<Rightarrow> CTransaction \<Rightarrow> CCoinsView \<Rightarrow> check_error + CAmount option" where
  "GetMfc7POSReward E tx v =
     (if IsCoinBase tx then Inr (Some 0)
      else bind_sum (coin_age_loop E tx v (vin tx) zero256) (\<lambda>age.
        case age of
          None \<Rightarrow> Inr None
        | Some bnSatSecond \<Rightarrow>
            (case Option.bind (div256 bnSatSecond (from_u64 (365 * 24 * 3600))) (\<lambda>bnSatYr.
                    div256 (mul32 bnSatYr 10) (from_u64 100)) of
               None \<Rightarrow> Inl RuntimeError
             | Some n \<Rightarrow> Inr (Some (wrap64 (int (unat (GetLow64 n) div nat TX_DP_AMOUNT * nat TX_DP_AMOUNT)))))))"

section \<open>The inputs\<close>

definition GetSpendHeight :: "check_env \<Rightarrow> CCoinsView \<Rightarrow> check_error + int" where
  "GetSpendHeight E v =
     (case env_mapBlockIndex E (fst (GetBestBlock v)) of
        None \<Rightarrow> Inl BadIndex
      | Some pindexPrev \<Rightarrow> Inr (wrap32 (nHeight (env_heap E pindexPrev) + 1)))"

fun txin_loop :: "check_env \<Rightarrow> CTransaction \<Rightarrow> CCoinsView \<Rightarrow> int \<Rightarrow> CTxIn list \<Rightarrow> CAmount \<Rightarrow> check_error + CAmount" where
  "txin_loop E tx v nSpendHeight [] nValueIn = Inr nValueIn"
| "txin_loop E tx v nSpendHeight (txin # vs) nValueIn =
     (case access v (out_hash (prevout txin)) of
        None \<Rightarrow> Inl AssertionFailure
      | Some coins \<Rightarrow>
          let cnbMaturity = (if nSpendHeight > 193912 then env_nCoinbaseMaturity E else env_nCoinbaseMaturityOld E) in
          if (c_fCoinBase coins \<or> c_fCoinStake coins) \<and> wrap32 (nSpendHeight - c_nHeight coins) < cnbMaturity
          then Inl (DoS 0 REJECT_INVALID ''bad-txns-premature-spend-of-coinbase/coinstake'')
          else if c_nTime coins > tx_nTime tx then Inl (DoS 100 REJECT_INVALID ''bad-txns-spent-too-early'')
          else if unat (out_n (prevout txin)) \<ge> length (c_vout coins) then Inl BadIndex
          else let n = nValue (c_vout coins ! unat (out_n (prevout txin))); nValueIn = wrap64 (nValueIn + n) in
            if \<not> MoneyRange n \<or> \<not> MoneyRange nValueIn
            then Inl (DoS 100 REJECT_INVALID ''bad-txns-inputvalues-outofrange'')
            else txin_loop E tx v nSpendHeight vs nValueIn)"

definition GetTxMinFee :: "CTransaction \<Rightarrow> CAmount" where
  "GetTxMinFee tx = GetMinFee (length (SerializeTransaction True False tx))"

definition value_out :: "CTransaction \<Rightarrow> check_error + CAmount" where
  "value_out tx = (case GetValueOut tx of None \<Rightarrow> Inl RuntimeError | Some n \<Rightarrow> Inr n)"

definition CheckTxInputs :: "check_env \<Rightarrow> CTransaction \<Rightarrow> CCoinsView \<Rightarrow> int \<Rightarrow> check_error + unit" where
  "CheckTxInputs E tx v nSpendHeight =
     (if \<not> fst (HaveInputs tx v) then Inl (DoS 0 0 '''')
      else bind_sum (txin_loop E tx v nSpendHeight (vin tx) 0) (\<lambda>nValueIn.
        if IsCoinStake tx then
          bind_sum (GetMfc7POSReward E tx v) (\<lambda>r.
            case r of
              None \<Rightarrow> Inl Failure
            | Some nLimit \<Rightarrow>
                bind_sum (value_out tx) (\<lambda>nOut.
                  let nStakeReward = wrap64 (nOut - nValueIn) in
                  if nStakeReward > wrap64 (nLimit - GetTxMinFee tx + MIN_TX_FEE)
                  then Inl (DoS 100 REJECT_INVALID ''bad-txns-coinstake-too-large'') else Inr ()))
        else
          bind_sum (value_out tx) (\<lambda>nOut.
            if nValueIn < nOut then Inl (DoS 100 REJECT_INVALID ''bad-txns-in-belowout'')
            else let nTxFee = wrap64 (nValueIn - nOut) in
              if nTxFee < 0 then Inl (DoS 100 REJECT_INVALID ''bad-txns-fee-negative'')
              else if \<not> MoneyRange nTxFee then Inl (DoS 100 REJECT_INVALID ''bad-txns-fee-outofrange'')
              else if nTxFee < GetTxMinFee tx then Inl (DoS 100 REJECT_INVALID ''bad-txns-fee-not-enough'')
              else Inr ())))"

section \<open>Scripts of the inputs\<close>

record CScriptCheck =
  sc_scriptPubKey :: script
  sc_amount :: CAmount
  sc_tx :: CTransaction
  sc_nIn :: nat
  sc_nFlags :: u32

definition script_check :: "check_env \<Rightarrow> CScriptCheck \<Rightarrow> verify_outcome" where
  "script_check E c =
     (let tx = sc_tx c; txin = vin tx ! sc_nIn c; C = env_checker E tx (sc_nIn c) (sc_amount c) in
      case (if out_hash (prevout txin) \<noteq> randpaytx then Inr (sc_scriptPubKey c)
            else if out_n (prevout txin) \<noteq> 0 then Inl Aborted
            else case GenerateScriptForRandPay (\<lambda>b. RIPEMD160 C (SHA256 C b)) (scriptPubKey (vout tx ! 0)) of
              Inl x \<Rightarrow> Inl (Threw x) | Inr s \<Rightarrow> Inr s) of
        Inl r \<Rightarrow> r
      | Inr scriptPubKey2 \<Rightarrow> VerifyScript C (scriptSig txin) scriptPubKey2 (tx_nVersion tx) (scriptWitness txin) (sc_nFlags c))"

definition make_check :: "CCoins \<Rightarrow> CTransaction \<Rightarrow> nat \<Rightarrow> u32 \<Rightarrow> check_error + CScriptCheck" where
  "make_check coins tx nIn flags =
     (let n = unat (out_n (prevout (vin tx ! nIn))) in
      if n \<ge> length (c_vout coins) then Inl BadIndex
      else Inr \<lparr>sc_scriptPubKey = scriptPubKey (c_vout coins ! n), sc_amount = nValue (c_vout coins ! n), sc_tx = tx,
             sc_nIn = nIn, sc_nFlags = flags\<rparr>)"

text \<open>The evaluation of a check in place, with the second look at the mandatory flags for the reason.\<close>

definition check_now :: "check_env \<Rightarrow> nat \<Rightarrow> string \<Rightarrow> CScriptCheck \<Rightarrow> check_error + unit" where
  "check_now E code who c =
     (case script_check E c of
        Verified \<Rightarrow> Inr ()
      | Failed e \<Rightarrow>
          if sc_nFlags c AND STANDARD_NOT_MANDATORY_VERIFY_FLAGS \<noteq> 0 then
            (case script_check E (c\<lparr>sc_nFlags := sc_nFlags c AND NOT STANDARD_NOT_MANDATORY_VERIFY_FLAGS\<rparr>) of
               Verified \<Rightarrow> Inl (DoS 0 (if code = REJECT_RANDPAY then code else REJECT_NONSTANDARD) (who @ ''non-mandatory-script-verify-flag''))
             | Failed e' \<Rightarrow> Inl (DoS 100 code (who @ ''mandatory-script-verify-flag-failed''))
             | r \<Rightarrow> Inl (of_outcome r))
          else Inl (DoS 100 code (who @ ''mandatory-script-verify-flag-failed''))
      | r \<Rightarrow> Inl (of_outcome r))"

text \<open>One input: with \<open>fQueue\<close> (\<^verbatim>\<open>pvChecks\<close> not null) the check is added to the list, otherwise it is run.\<close>

definition check_input ::
  "check_env \<Rightarrow> CTransaction \<Rightarrow> CCoinsView \<Rightarrow> u32 \<Rightarrow> bool \<Rightarrow> nat \<Rightarrow> string \<Rightarrow> nat \<Rightarrow> check_error + CScriptCheck list" where
  "check_input E tx v flags fQueue code who i =
     (case access v (out_hash (prevout (vin tx ! i))) of
        None \<Rightarrow> Inl AssertionFailure
      | Some coins \<Rightarrow>
          bind_sum (make_check coins tx i flags) (\<lambda>c.
            if fQueue then Inr [c] else bind_sum (check_now E code who c) (\<lambda>_. Inr [])))"

fun scripts_loop ::
  "check_env \<Rightarrow> CTransaction \<Rightarrow> CCoinsView \<Rightarrow> u32 \<Rightarrow> bool \<Rightarrow> bool \<Rightarrow> nat list \<Rightarrow> nat option
     \<Rightarrow> check_error + CScriptCheck list \<times> nat option" where
  "scripts_loop E tx v flags fQueue fRandPayLast [] nRandPayPos = Inr ([], nRandPayPos)"
| "scripts_loop E tx v flags fQueue fRandPayLast (i # is) nRandPayPos =
     (if access v (out_hash (prevout (vin tx ! i))) = None then Inl AssertionFailure
      else if fRandPayLast \<and> out_hash (prevout (vin tx ! i)) = randpaytx
      then scripts_loop E tx v flags fQueue fRandPayLast is (Some i)
      else bind_sum (check_input E tx v flags fQueue REJECT_INVALID '''' i) (\<lambda>cs.
           bind_sum (scripts_loop E tx v flags fQueue fRandPayLast is nRandPayPos) (\<lambda>(cs', p). Inr (cs @ cs', p))))"

definition CheckInputs ::
  "check_env \<Rightarrow> CTransaction \<Rightarrow> CCoinsView \<Rightarrow> bool \<Rightarrow> u32 \<Rightarrow> bool \<Rightarrow> bool \<Rightarrow> check_error + CScriptCheck list" where
  "CheckInputs E tx v fScriptChecks flags fQueue fRandPayLast =
     (if IsCoinBase tx then Inr []
      else bind_sum (GetSpendHeight E v) (\<lambda>h.
           bind_sum (CheckTxInputs E tx v h) (\<lambda>_.
           if \<not> fScriptChecks then Inr []
           else bind_sum (scripts_loop E tx v flags fQueue fRandPayLast [0..<length (vin tx)] None) (\<lambda>(cs, p).
             case p of
               None \<Rightarrow> Inr cs
             | Some i \<Rightarrow> bind_sum (check_input E tx v flags fQueue REJECT_RANDPAY ''randpay: '' i) (\<lambda>cs'. Inr (cs @ cs'))))))"

end
