(* ===== verification/MFC_TxChecksProps.thy ===== *)
theory MFC_TxChecksProps
  imports MFC_TxChecks
begin

unbundle bit_operations_syntax

text \<open>
  Properties of the checks of a transaction: relative lock times mean what they should, the checks without
  context exclude repeated inputs, rewards are the intended amounts, and the different ways to run the scripts
  of the inputs (queued or at once, the random payment last or in order) accept the same transactions.
\<close>

section \<open>Answers of a view\<close>

lemma access_lookup: "view_ok v \<Longrightarrow> access v k = lookup v k"
  using GetCoins_spec [of v k] by (cases "GetCoins k v") (simp add: access_def AccessCoins_def)

lemma query_unseen:
  assumes "view_ok v"
  shows "access (snd (AccessCoins j v)) k = access v k"
proof -
  obtain r v' where g: "GetCoins j v = (r, v')" by fastforce
  then show ?thesis using GetCoins_spec [OF assms g] assms by (simp add: access_lookup AccessCoins_def)
qed

section \<open>Relative lock times\<close>

text \<open>What the sequence number of an input asks for: a number of blocks on top of the coin, or 512-second
  steps of the median time since the block before the coin.\<close>

definition lock_met :: "heap \<Rightarrow> ptr \<Rightarrow> ptr \<Rightarrow> CTxIn \<times> int \<Rightarrow> bool" where
  "lock_met H block prev x \<longleftrightarrow>
     (let n = nSequence (fst x); k = uint (n AND SEQ_MASK); h = snd x in
      if n AND SEQ_DISABLE_FLAG \<noteq> 0 then True
      else if n AND SEQ_TYPE_FLAG \<noteq> 0
      then 512 * k \<le> GetMedianTimePast H prev - GetMedianTimePast H (up H (nat (nHeight (H block) - max (h - 1) 0)) block)
      else k \<le> nHeight (H block) - h)"

lemma seq_mask_bounds: "0 \<le> uint (n AND SEQ_MASK)" "uint (n AND SEQ_MASK) < 65536"
proof -
  have "n AND SEQ_MASK = take_bit 16 n" by (simp add: take_bit_eq_mask mask_eq_exp_minus_1)
  then show "uint (n AND SEQ_MASK) < 65536" using take_bit_int_less_exp [of 16 "uint n"] by (simp add: unsigned_take_bit_eq)
qed simp

lemma seq_time: "uint (push_bit 9 (n AND SEQ_MASK)) = 512 * uint (n AND SEQ_MASK)"
proof -
  have "uint (push_bit 9 w) = 512 * uint w" if "uint w < 65536" for w :: u32
    using that by (subst unsigned_push_bit_eq) (simp add: push_bit_eq_mult take_bit_int_eq_self)
  then show ?thesis using seq_mask_bounds(2) by blast
qed

lemma locks_loop_spec:
  assumes "wf_index H B" "block \<in> B" "nHeight (H block) < 2147418112"
  shows "list_all (\<lambda>x. 0 \<le> snd x \<and> snd x \<le> nHeight (H block)) ins \<Longrightarrow>
    \<exists>a b hs'. locks_loop H block ins mh mt hs = Inr ((a, b), hs')
      \<and> (a < nHeight (H block) \<and> b < GetMedianTimePast H prev \<longleftrightarrow>
         mh < nHeight (H block) \<and> mt < GetMedianTimePast H prev \<and> list_all (lock_met H block prev) ins)"
proof (induction ins arbitrary: mh mt hs)
  case (Cons x ins)
  obtain txin h where x: "x = (txin, h)" by fastforce
  let ?n = "nSequence txin"
  have h: "0 \<le> h" "h \<le> nHeight (H block)" and ins: "list_all (\<lambda>x. 0 \<le> snd x \<and> snd x \<le> nHeight (H block)) ins"
    using Cons.prems by (auto simp: x)
  consider "?n AND SEQ_DISABLE_FLAG \<noteq> 0" | "?n AND SEQ_DISABLE_FLAG = 0" "?n AND SEQ_TYPE_FLAG \<noteq> 0"
    | "?n AND SEQ_DISABLE_FLAG = 0" "?n AND SEQ_TYPE_FLAG = 0" by blast
  then show ?case
  proof cases
    case 1
    then show ?thesis using Cons.IH [OF ins, of mh mt "hs @ [0]"] by (simp add: x lock_met_def)
  next
    case 2
    have "GetAncestor H block (max (h - 1) 0) = Some (Some (up H (nat (nHeight (H block) - max (h - 1) 0)) block))"
      using GetAncestor_up [OF assms(1,2)] h by auto
    moreover obtain a b hs' where "locks_loop H block ins mh
        (max mt (GetMedianTimePast H (up H (nat (nHeight (H block) - max (h - 1) 0)) block) + 512 * uint (?n AND SEQ_MASK) - 1)) (hs @ [h])
        = Inr ((a, b), hs')"
      "a < nHeight (H block) \<and> b < GetMedianTimePast H prev \<longleftrightarrow> mh < nHeight (H block)
        \<and> max mt (GetMedianTimePast H (up H (nat (nHeight (H block) - max (h - 1) 0)) block) + 512 * uint (?n AND SEQ_MASK) - 1)
          < GetMedianTimePast H prev \<and> list_all (lock_met H block prev) ins"
      using Cons.IH [OF ins] by blast
    moreover have "lock_met H block prev x \<longleftrightarrow> 512 * uint (?n AND SEQ_MASK)
        \<le> GetMedianTimePast H prev - GetMedianTimePast H (up H (nat (nHeight (H block) - max (h - 1) 0)) block)"
      using 2 by (simp add: x lock_met_def)
    ultimately show ?thesis using 2 by (auto simp: x seq_time simp del: push_bit_and)
  next
    case 3
    have w: "wrap32 (h + uint (?n AND SEQ_MASK) - 1) = h + uint (?n AND SEQ_MASK) - 1"
      using h assms(3) seq_mask_bounds [of ?n] by (intro wrap32_id; linarith)
    obtain a b hs' where "locks_loop H block ins (max mh (h + uint (?n AND SEQ_MASK) - 1)) mt (hs @ [h]) = Inr ((a, b), hs')"
      "a < nHeight (H block) \<and> b < GetMedianTimePast H prev \<longleftrightarrow> max mh (h + uint (?n AND SEQ_MASK) - 1) < nHeight (H block)
        \<and> mt < GetMedianTimePast H prev \<and> list_all (lock_met H block prev) ins"
      using Cons.IH [OF ins] by blast
    moreover have "lock_met H block prev x \<longleftrightarrow> uint (?n AND SEQ_MASK) \<le> nHeight (H block) - h"
      using 3 by (simp add: x lock_met_def)
    ultimately show ?thesis using 3 w by (auto simp: x)
  qed
qed auto

lemma median_time_nonneg: "0 \<le> GetMedianTimePast H p"
proof -
  have t: "0 \<le> t" if "t \<in> set (times_back H n q)" for t n q
    using that by (induction H n q rule: times_back.induct) (auto simp: GetBlockTime_def)
  let ?ts = "sort (rev (times_back H nMedianTimeSpan (Some p)))"
  have "times_back H nMedianTimeSpan (Some p) \<noteq> []" by (cases nMedianTimeSpan) (auto simp: eval_nat_numeral)
  then have "length ?ts div 2 < length ?ts" by simp
  then have "?ts ! (length ?ts div 2) \<in> set ?ts" by (rule nth_mem)
  then show ?thesis using t by (auto simp: GetMedianTimePast_def Let_def)
qed

lemma SequenceLocks_eq:
  assumes "wf_index H B" "block \<in> B" "pprev (H block) = Some prev" "nHeight (H block) < 2147418112"
    "length heights = length (vin tx)" "list_all (\<lambda>h. 0 \<le> h \<and> h \<le> nHeight (H block)) heights"
  shows "SequenceLocks tx flags heights H block =
    Inr ((of_int (tx_nVersion tx) :: u32) < 2 \<or> flags AND LOCKTIME_VERIFY_SEQUENCE = 0
      \<or> list_all (lock_met H block prev) (zip (vin tx) heights))"
proof -
  have 0: "-1 < nHeight (H block)" "-1 < GetMedianTimePast H prev"
    using assms(1,2) median_time_nonneg [of H prev] by (auto simp: wf_index_def wf_entry_def)
  have e: "EvaluateSequenceLocks H block (a, b) = Inr (a < nHeight (H block) \<and> b < GetMedianTimePast H prev)" for a b
    by (auto simp: EvaluateSequenceLocks_def assms(3) Let_def)
  have "list_all (\<lambda>x. 0 \<le> snd x \<and> snd x \<le> nHeight (H block)) (zip (vin tx) heights)"
    using assms(5,6) by (auto simp: list_all_iff dest: set_zip_rightD)
  from locks_loop_spec [OF assms(1,2,4) this, of "-1" "-1" "[]" prev] obtain a b hs where
    l: "locks_loop H block (zip (vin tx) heights) (-1) (-1) [] = Inr ((a, b), hs)"
      "a < nHeight (H block) \<and> b < GetMedianTimePast H prev \<longleftrightarrow> list_all (lock_met H block prev) (zip (vin tx) heights)"
    using 0 by auto
  show ?thesis
  proof (cases "(of_int (tx_nVersion tx) :: u32) \<ge> 2 \<and> flags AND LOCKTIME_VERIFY_SEQUENCE \<noteq> 0")
    case True
    then show ?thesis using l e assms(5) by (auto simp: SequenceLocks_def CalculateSequenceLocks_def not_le)
  next
    case False
    then show ?thesis using 0 e assms(5) by (auto simp: SequenceLocks_def CalculateSequenceLocks_def not_le)
  qed
qed

section \<open>Checks without context\<close>

lemma duplicates_loop_iff:
  "duplicates_loop vs ps = Inr () \<longleftrightarrow> distinct (map prevout vs) \<and> (\<forall>txin \<in> set vs. prevout txin \<notin> set ps)"
  by (induction vs arbitrary: ps) (auto simp: image_iff)

lemma randpay_loop_iff:
  "randpay_loop vs b = Inr () \<longleftrightarrow>
    length (filter (\<lambda>txin. out_hash (prevout txin) = randpaytx) vs) + of_bool b \<le> 1"
  by (induction vs arbitrary: b) auto

lemma CheckTransaction_accepts:
  "CheckTransaction tx True = Inr () \<Longrightarrow> vin tx \<noteq> [] \<and> vout tx \<noteq> [] \<and> distinct (map prevout (vin tx))
     \<and> length (filter (\<lambda>txin. out_hash (prevout txin) = randpaytx) (vin tx)) \<le> 1
     \<and> (\<not> IsCoinBase tx \<longrightarrow> (\<forall>txin \<in> set (vin tx). \<not> COutPoint_IsNull (prevout txin)))"
  by (auto simp: CheckTransaction_def duplicates_loop_iff randpay_loop_iff list_ex_iff split: if_splits)

section \<open>Scripts of the inputs\<close>

definition verified :: "check_env \<Rightarrow> CScriptCheck \<Rightarrow> bool" where
  "verified E c \<longleftrightarrow> script_check E c = Verified"

definition planned :: "CTransaction \<Rightarrow> CCoinsView \<Rightarrow> u32 \<Rightarrow> nat \<Rightarrow> CScriptCheck option" where
  "planned tx v flags i =
     Option.bind (access v (out_hash (prevout (vin tx ! i)))) (\<lambda>coins.
       case make_check coins tx i flags of Inl e \<Rightarrow> None | Inr c \<Rightarrow> Some c)"

lemma check_now_iff: "check_now E code who c = Inr () \<longleftrightarrow> verified E c"
  by (auto simp: check_now_def verified_def split: verify_outcome.splits)

lemma check_input_iff:
  "check_input E tx v flags q code who i = Inr cs \<longleftrightarrow>
    (\<exists>c. planned tx v flags i = Some c \<and> (if q then cs = [c] else cs = [] \<and> verified E c))"
  by (auto simp: check_input_def planned_def check_now_iff split: option.splits sum.splits)

lemma planned_access: "planned tx v flags i = Some c \<Longrightarrow> access v (out_hash (prevout (vin tx ! i))) \<noteq> None"
  by (auto simp: planned_def split: bind_splits)

lemma scripts_loop_in_order:
  "scripts_loop E tx v flags q False is p = Inr (cs, p') \<longleftrightarrow>
    p' = p \<and> (\<forall>i \<in> set is. planned tx v flags i \<noteq> None)
    \<and> (if q then cs = map (the \<circ> planned tx v flags) is else cs = [] \<and> (\<forall>i \<in> set is. verified E (the (planned tx v flags i))))"
proof (induction "is" arbitrary: cs)
  case (Cons i "is")
  show ?case
  proof (cases "planned tx v flags i")
    case None
    then show ?thesis by (simp add: check_input_iff)
  next
    case (Some c)
    then show ?thesis using planned_access [OF Some] Cons.IH by (auto simp: check_input_iff)
  qed
qed auto

abbreviation (input) randpay_input :: "CTransaction \<Rightarrow> nat \<Rightarrow> bool" where
  "randpay_input tx i \<equiv> out_hash (prevout (vin tx ! i)) = randpaytx"

lemma scripts_loop_last:
  "scripts_loop E tx v flags False True is p = Inr (cs, p') \<longleftrightarrow>
    cs = [] \<and> (\<forall>i \<in> set is. access v (out_hash (prevout (vin tx ! i))) \<noteq> None)
    \<and> (\<forall>i \<in> set is. \<not> randpay_input tx i \<longrightarrow> (\<exists>c. planned tx v flags i = Some c \<and> verified E c))
    \<and> p' = fold (\<lambda>i p. if randpay_input tx i then Some i else p) is p"
proof (induction "is" arbitrary: cs p)
  case (Cons i "is")
  show ?case
  proof (cases "randpay_input tx i")
    case True
    then show ?thesis using Cons.IH by auto
  next
    case False
    then show ?thesis using Cons.IH planned_access by (auto simp: check_input_iff)
  qed
qed auto

lemma fold_last:
  "fold (\<lambda>i p. if P i then Some i else p) is p = (case filter P (rev is) of [] \<Rightarrow> p | i # _ \<Rightarrow> Some i)"
  by (induction "is" arbitrary: p) (auto split: list.splits)

lemma at_most_one:
  assumes "length (filter P [0..<n]) \<le> 1" "i < n" "j < n" "P i" "P j"
  shows "i = j"
proof -
  have "{i, j} \<subseteq> set (filter P [0..<n])" using assms by auto
  then have "card {i, j} \<le> length (filter P [0..<n])" by (meson card_length card_mono finite_set le_trans)
  then show ?thesis using assms(1) by (cases "i = j") auto
qed

lemma filter_index: "length (filter (\<lambda>i. P (xs ! i)) [0..<length xs]) = length (filter P xs)"
proof -
  have "filter P (map ((!) xs) [0..<length xs]) = map ((!) xs) (filter (\<lambda>i. P (xs ! i)) [0..<length xs])"
    by (simp add: filter_map comp_def)
  then show ?thesis by (metis length_map map_nth)
qed

lemma CheckInputs_queued:
  "(\<exists>cs. CheckInputs E tx v fScriptChecks flags True False = Inr cs \<and> list_all (verified E) cs)
    \<longleftrightarrow> CheckInputs E tx v fScriptChecks flags False False = Inr []"
proof -
  let ?is = "[0..<length (vin tx)]"
  have "(\<exists>cs. scripts_loop E tx v flags True False ?is None = Inr (cs, None) \<and> list_all (verified E) cs)
      \<longleftrightarrow> scripts_loop E tx v flags False False ?is None = Inr ([], None)"
    by (auto simp: scripts_loop_in_order list_all_iff)
  moreover have "p = None" if "scripts_loop E tx v flags q False ?is None = Inr (cs, p)" for q cs p
    using that by (simp add: scripts_loop_in_order)
  ultimately show ?thesis by (auto simp: CheckInputs_def split: if_splits option.splits) blast+
qed

lemma finish_iff:
  "bind_sum m (\<lambda>(cs, p). case p of None \<Rightarrow> Inr cs
       | Some i \<Rightarrow> bind_sum (check_input E tx v flags False code who i) (\<lambda>cs'. Inr (cs @ cs'))) = Inr []
    \<longleftrightarrow> (\<exists>p. m = Inr ([], p) \<and> (case p of None \<Rightarrow> True | Some i \<Rightarrow> \<exists>c. planned tx v flags i = Some c \<and> verified E c))"
  by (cases m) (auto simp: check_input_iff split: option.splits)

lemma CheckInputs_randpay:
  assumes "length (filter (\<lambda>txin. out_hash (prevout txin) = randpaytx) (vin tx)) \<le> 1"
  shows "CheckInputs E tx v fScriptChecks flags False True = Inr [] \<longleftrightarrow> CheckInputs E tx v fScriptChecks flags False False = Inr []"
proof -
  let ?is = "[0..<length (vin tx)]" and ?P = "\<lambda>i. randpay_input tx i"
  let ?good = "\<lambda>i. \<exists>c. planned tx v flags i = Some c \<and> verified E c"
  have one: "length (filter ?P ?is) \<le> 1"
    using assms filter_index [of "\<lambda>txin. out_hash (prevout txin) = randpaytx" "vin tx"] by simp
  have "(\<exists>p. scripts_loop E tx v flags False True ?is None = Inr ([], p)
        \<and> (case p of None \<Rightarrow> True | Some i \<Rightarrow> ?good i)) \<longleftrightarrow> (\<forall>i < length (vin tx). ?good i)"
  proof (cases "filter ?P (rev ?is)")
    case Nil
    then have "\<not> ?P i" if "i < length (vin tx)" for i using that by (auto simp: filter_empty_conv)
    then show ?thesis using Nil planned_access by (auto simp: scripts_loop_last fold_last)
  next
    case (Cons j js)
    then have "j \<in> set (filter ?P (rev ?is))" by simp
    then have j: "j < length (vin tx)" "?P j" by auto
    then have u: "?P i \<longleftrightarrow> i = j" if "i < length (vin tx)" for i using at_most_one [OF one that j(1)] by auto
    have "(\<forall>i < length (vin tx). ?good i) \<longleftrightarrow> (\<forall>i < length (vin tx). access v (out_hash (prevout (vin tx ! i))) \<noteq> None)
        \<and> (\<forall>i < length (vin tx). \<not> ?P i \<longrightarrow> ?good i) \<and> ?good j"
    proof -
      have "access v (out_hash (prevout (vin tx ! i))) \<noteq> None" if "?good i" for i using that planned_access by blast
      moreover have "?good i" if "\<not> ?P i \<longrightarrow> ?good i" "?good j" "i < length (vin tx)" for i
        using u [OF that(3)] that by (cases "i = j") auto
      ultimately show ?thesis using j(1) by blast
    qed
    then show ?thesis using Cons by (simp add: scripts_loop_last fold_last Ball_def)
  qed
  moreover have "scripts_loop E tx v flags False False ?is None = Inr ([], p) \<longleftrightarrow> p = None \<and> (\<forall>i < length (vin tx). ?good i)" for p
  proof -
    have "(\<exists>c. x = Some c \<and> verified E c) \<longleftrightarrow> x \<noteq> None \<and> verified E (the x)" for x by auto
    then show ?thesis by (auto simp: scripts_loop_in_order)
  qed
  ultimately have "(\<exists>p. scripts_loop E tx v flags False True ?is None = Inr ([], p) \<and> (case p of None \<Rightarrow> True | Some i \<Rightarrow> ?good i))
      \<longleftrightarrow> (\<exists>p. scripts_loop E tx v flags False False ?is None = Inr ([], p) \<and> (case p of None \<Rightarrow> True | Some i \<Rightarrow> ?good i))"
    by auto
  then show ?thesis
    by (cases "GetSpendHeight E v"; cases "CheckTxInputs E tx v (projr (GetSpendHeight E v))")
      (simp_all add: CheckInputs_def finish_iff del: bind_sum_eq_Inr)
qed

section \<open>Rewards\<close>

lemma cdiv_pos: "0 \<le> a \<Longrightarrow> 0 < b \<Longrightarrow> cdiv a b = a div b"
  by (auto simp: cdiv_def sgn_if)

lemma pow_reward_eq:
  assumes "0 \<le> height"
  shows "GetProofOfWorkReward height = max COIN (25 * COIN div 2 ^ nat (height div 400000))"
proof -
  let ?n = "height div 400000"
  have n: "cdiv height POW_HALVING_PERIOD = ?n" "0 \<le> ?n" using assms by (simp_all add: cdiv_pos)
  show ?thesis
  proof (cases "?n < 63")
    case True
    have "(2::int) ^ nat ?n \<le> 2 ^ 62" using True n(2) by (intro power_increasing) auto
    moreover have "0 < (2::int) ^ nat ?n" "(2::int) ^ 62 < 9223372036854775808" by simp_all
    ultimately have "wrap64 (2 ^ nat ?n) = 2 ^ nat ?n" by (intro wrap64_id) linarith+
    then show ?thesis using True n by (simp add: GetProofOfWorkReward_def cdiv_pos min_def max.commute)
  next
    case False
    have "wrap64 (2 ^ 63) = - 9223372036854775808" by (simp add: wrap64_def)
    then have "cdiv POW_REWARD (wrap64 (2 ^ nat (min ?n 63))) = 0" using False by (simp add: min_def cdiv_def)
    moreover have "(2::int) ^ 63 \<le> 2 ^ nat ?n" using False by (intro power_increasing) auto
    then have "25 * COIN div 2 ^ nat ?n = 0" by (intro div_pos_pos_trivial) auto
    ultimately show ?thesis using n by (simp add: GetProofOfWorkReward_def)
  qed
qed

text \<open>Units of value times seconds that an input adds to the age of the coins.\<close>

definition sat_seconds :: "check_env \<Rightarrow> CTransaction \<Rightarrow> CCoinsView \<Rightarrow> CTxIn \<Rightarrow> nat" where
  "sat_seconds E tx v txin =
     (case (access v (out_hash (prevout txin)), env_ReadTxIndex E (out_hash (prevout txin))) of
        (Some coins, ReadTx txPrev) \<Rightarrow>
          if wrap64 (uint (tx_nTime txPrev) + env_nStakeMinAge E) > uint (tx_nTime tx) then 0
          else unat (of_int (nValue (vout txPrev ! unat (out_n (prevout txin)))) :: u64) * unat (tx_nTime tx - tx_nTime txPrev)
      | _ \<Rightarrow> 0)"

lemma sat_seconds_less: "sat_seconds E tx v txin < 2 ^ 96"
proof -
  have "unat (a :: u64) * unat (b :: u32) < 2 ^ 64 * 2 ^ 32" for a b
    using unsigned_less [of a, where 'a = nat] unsigned_less [of b, where 'a = nat] by (intro mult_strict_mono) auto
  then show ?thesis by (auto simp: sat_seconds_def split: option.splits tx_read.splits)
qed

lemma sat_seconds_sum: "sum_list (map (sat_seconds E tx v) vs) \<le> length vs * 2 ^ 96"
proof (induction vs)
  case (Cons txin vs)
  then show ?case using sat_seconds_less [of E tx v txin] by simp
qed simp

lemma val_mul32: "val (mul32 a b) = (unat b * val a) mod B32 ^ length a"
  by (simp add: mul32_def val_mul32_loop)

lemma coin_age_loop_val:
  assumes "length b = WIDTH" "coin_age_loop E tx v vs b = Inr (Some b')"
  shows "length b' = WIDTH \<and> val b' = (val b + sum_list (map (sat_seconds E tx v) vs)) mod 2 ^ 256"
  using assms
proof (induction vs arbitrary: b)
  case Nil
  then show ?case using val_lt [of b] by simp
next
  case (Cons txin vs)
  let ?k = "out_hash (prevout txin)"
  show ?case
  proof (cases "access v ?k")
    case None
    then show ?thesis using Cons by (simp add: sat_seconds_def)
  next
    case (Some coins)
    then obtain p where p: "env_ReadTxIndex E ?k = ReadTx p" using Cons.prems(2) by (auto split: if_splits tx_read.splits)
    show ?thesis
    proof (cases "wrap64 (uint (tx_nTime p) + env_nStakeMinAge E) > uint (tx_nTime tx)")
      case True
      then show ?thesis using Cons Some p by (auto simp: sat_seconds_def split: if_splits)
    next
      case False
      define m where "m = mul32 (from_u64 (of_int (nValue (vout p ! unat (out_n (prevout txin))))))
         (tx_nTime tx - tx_nTime p)"
      have l: "length m = WIDTH" by (simp add: m_def mul32_def)
      have s: "sat_seconds E tx v txin =
          unat (of_int (nValue (vout p ! unat (out_n (prevout txin)))) :: u64) * unat (tx_nTime tx - tx_nTime p)"
        using Some p False by (simp add: sat_seconds_def)
      then have "val m = sat_seconds E tx v txin"
        using sat_seconds_less [of E tx v txin] by (simp add: m_def val_mul32 mult.commute)
      moreover have "coin_age_loop E tx v vs (add256 b m) = Inr (Some b')"
        using Cons.prems(2) Some p False by (auto simp: m_def Let_def split: if_splits)
      moreover have "val (add256 b m) = (val b + val m) mod 2 ^ 256" "length (add256 b m) = WIDTH"
        using val_add [of b m] l Cons.prems(1) by simp_all
      ultimately show ?thesis using Cons.IH [of "add256 b m"] by (simp add: mod_simps add.assoc)
    qed
  qed
qed

lemma stake_reward_eq:
  assumes "GetMfc7POSReward E tx v = Inr (Some r)" "\<not> IsCoinBase tx" "length (vin tx) < 2 ^ 64"
  defines "S \<equiv> sum_list (map (sat_seconds E tx v) (vin tx))"
  assumes "S div 31536000 * 10 div 100 < 2 ^ 63"
  shows "r = int (S div 31536000 * 10 div 100 div 10000 * 10000)"
proof -
  have "S \<le> length (vin tx) * 2 ^ 96" unfolding S_def by (rule sat_seconds_sum)
  also have "\<dots> \<le> 2 ^ 64 * 2 ^ 96" using assms(3) by (intro mult_right_mono) auto
  finally have S: "S \<le> 2 ^ 160" by simp
  obtain age where age: "coin_age_loop E tx v (vin tx) zero256 = Inr age"
    and e: "(case age of None \<Rightarrow> Inr None | Some b \<Rightarrow>
        (case Option.bind (div256 b (from_u64 31536000)) (\<lambda>y. div256 (mul32 y 10) (from_u64 100)) of
           None \<Rightarrow> Inl RuntimeError | Some n \<Rightarrow> Inr (Some (wrap64 (int (unat (GetLow64 n) div nat 10000 * nat 10000)))))) = Inr (Some r)"
    using assms(1,2) by (auto simp: GetMfc7POSReward_def)
  obtain b where b: "age = Some b" using e by (cases age) auto
  obtain y n where y: "div256 b (from_u64 31536000) = Some y"
    and n: "div256 (mul32 y 10) (from_u64 100) = Some n" and r: "r = wrap64 (int (unat (GetLow64 n) div 10000 * 10000))"
    using e by (auto simp: b split: option.split_asm bind_split_asm)
  have vb: "length b = WIDTH" "val b = S" using coin_age_loop_val [OF _ age [unfolded b]] S by (auto simp: S_def)
  have vy: "val y = S div 31536000" "length y = WIDTH"
    using val_div [of b "from_u64 31536000"] vb y length_div256 [OF y] by auto
  have "10 * (S div 31536000) \<le> 10 * 2 ^ 160" using S div_le_dividend [of S 31536000] by linarith
  then have "10 * (S div 31536000) < 2 ^ 256" by (rule le_less_trans) simp
  then have "val (mul32 y 10) = S div 31536000 * 10" using vy by (simp add: val_mul32)
  moreover have "length (mul32 y 10) = WIDTH" using vy by (simp add: mul32_def)
  ultimately have "val n = S div 31536000 * 10 div 100" "length n = WIDTH"
    using val_div [of "mul32 y 10" "from_u64 100"] n length_div256 [OF n] by auto
  then have "unat (GetLow64 n) = S div 31536000 * 10 div 100" using assms(5) by (simp add: unat_GetLow64)
  moreover have "S div 31536000 * 10 div 100 div 10000 * 10000 < 2 ^ 63" using assms(5) by linarith
  moreover have "wrap64 (int k) = int k" if "k < 2 ^ 63" for k using that by (intro wrap64_id) auto
  ultimately show ?thesis by (simp only: r)
qed

end
