(* ===== verification/MFC_AuxPow.thy ===== *)
theory MFC_AuxPow
  imports MFC_MerkleProps MFC_PowProps
begin

unbundle bit_operations_syntax

text \<open>
  Merged mining: the proof \<^verbatim>\<open>CAuxPow\<close> of \<^verbatim>\<open>src/src/auxpow.h\<close> that a parent block commits to a block of this chain,
  and its check in \<^verbatim>\<open>pow.cpp\<close>. The double hash is a parameter, and so is the proof that the pointer
  \<^verbatim>\<open>auxpow\<close> of a header refers to. \<open>None\<close> is the access to the first input of a parent transaction without inputs.
\<close>

section \<open>Data\<close>

record CMerkleTxSmall =
  amt_tx :: CTransaction
  amt_hashBlock :: uint256
  amt_vMerkleBranch :: "uint256 list"
  amt_nIndex :: int

record CAuxPow = CMerkleTxSmall +
  aux_vChainMerkleBranch :: "uint256 list"
  aux_nChainIndex :: u32
  aux_parentBlockHeader :: CBlockHeader

definition GetParentBlockHash :: "(bytes \<Rightarrow> uint256) \<Rightarrow> CAuxPow \<Rightarrow> uint256" where
  "GetParentBlockHash Hash aux = GetHash Hash (aux_parentBlockHeader aux)"

definition SetAuxPow :: "bool \<Rightarrow> bytes option \<Rightarrow> 'a CBlockHeader_scheme \<Rightarrow> 'a CBlockHeader_scheme" where
  "SetAuxPow nonnull pow b =
     (if nonnull then b\<lparr>hdr_nVersion := hdr_nVersion b OR BLOCK_VERSION_AUXPOW, auxpow := pow\<rparr>
      else b\<lparr>hdr_nVersion := hdr_nVersion b AND NOT BLOCK_VERSION_AUXPOW, auxpow := None\<rparr>)"

section \<open>The check\<close>

definition pchMergedMiningHeader :: bytes where
  "pchMergedMiningHeader = [0xfa, 0xbe, 0x6d, 0x6d]"

text \<open>\<^verbatim>\<open>std::search\<close>: the first position of the pattern, or the end.\<close>

fun std_search :: "bytes \<Rightarrow> bytes \<Rightarrow> nat" where
  "std_search [] pat = 0"
| "std_search (x # xs) pat = (if take (length pat) (x # xs) = pat then 0 else Suc (std_search xs pat))"

text \<open>The slot of a chain in the tree of chains.\<close>

definition chain_slot :: "u32 \<Rightarrow> int \<Rightarrow> u32 \<Rightarrow> u32" where
  "chain_slot nonce nChainID nSize =
     (let rand = nonce * 1103515245 + 12345; rand = rand + of_int nChainID; rand = rand * 1103515245 + 12345
      in rand mod nSize)"

definition check_coinbase :: "script \<Rightarrow> bytes \<Rightarrow> nat \<Rightarrow> int \<Rightarrow> u32 \<Rightarrow> bool" where
  "check_coinbase s vchRootHash nBranch nChainID nChainIndex =
     (let pcHead = std_search s pchMergedMiningHeader; pc = std_search s vchRootHash in
      if pcHead = length s then False
      else if pc = length s then False
      else if std_search (drop (pcHead + 1) s) pchMergedMiningHeader \<noteq> length (drop (pcHead + 1) s) then False
      else if pcHead + length pchMergedMiningHeader \<noteq> pc then False
      else
        let pc = pc + length vchRootHash in
        if int (length s) - int pc < 8 then False
        else
          let nSize = wrap32 (int (le_value (take 4 (drop pc s)))) in
          if nSize \<noteq> 2 ^ nBranch then False
          else let nonce = of_nat (le_value (take 4 (drop (pc + 4) s)))
          in nChainIndex = chain_slot nonce nChainID (of_int nSize))"

definition AuxPoWCheck :: "(bytes \<Rightarrow> uint256) \<Rightarrow> bool \<Rightarrow> CAuxPow \<Rightarrow> uint256 \<Rightarrow> int \<Rightarrow> bool option" where
  "AuxPoWCheck Hash fPowAllowMinDifficultyBlocks aux hashAuxBlock nChainID =
     (if amt_nIndex aux \<noteq> 0 then Some False
      else if \<not> fPowAllowMinDifficultyBlocks \<and> GetChainID (aux_parentBlockHeader aux) = nChainID then Some False
      else if length (aux_vChainMerkleBranch aux) > 30 then Some False
      else
        let nRootHash = ComputeMerkleRootFromBranch Hash hashAuxBlock (aux_vChainMerkleBranch aux) (unat (aux_nChainIndex aux)) in
        if ComputeMerkleRootFromBranch Hash (GetBtcHash Hash (amt_tx aux)) (amt_vMerkleBranch aux) (nat (amt_nIndex aux))
           \<noteq> hdr_hashMerkleRoot (aux_parentBlockHeader aux) then Some False
        else if vin (amt_tx aux) = [] then None
        else Some (check_coinbase (scriptSig (vin (amt_tx aux) ! 0)) (rev nRootHash) (length (aux_vChainMerkleBranch aux)) nChainID
               (aux_nChainIndex aux)))"

definition CheckBlockProofOfWork ::
  "(bytes \<Rightarrow> uint256) \<Rightarrow> bool \<Rightarrow> Params \<Rightarrow> 'a CBlockHeader_scheme \<Rightarrow> CAuxPow option \<Rightarrow> bool option" where
  "CheckBlockProofOfWork Hash fPowAllowMinDifficultyBlocks params b aux =
     (if hdr_GetBlockVersion b > 4 then
        if \<not> fPowAllowMinDifficultyBlocks \<and> hdr_nVersion b AND BLOCK_VERSION_AUXPOW \<noteq> 0 \<and> GetChainID b \<noteq> AUXPOW_CHAIN_ID
        then Some False
        else case aux of
          Some aux \<Rightarrow>
            (case AuxPoWCheck Hash fPowAllowMinDifficultyBlocks aux (GetHash Hash b) (GetChainID b) of
               Some True \<Rightarrow> Some (CheckProofOfWork (GetParentBlockHash Hash aux) (hdr_nBits b) params)
             | r \<Rightarrow> r)
        | None \<Rightarrow> Some (CheckProofOfWork (GetPoWHash b) (hdr_nBits b) params)
      else Some (CheckProofOfWork (GetPoWHash b) (hdr_nBits b) params))"

section \<open>What an accepted proof says\<close>

lemma std_search_found: "std_search s pat \<noteq> length s \<Longrightarrow> take (length pat) (drop (std_search s pat) s) = pat"
  by (induction s) (auto split: if_splits)

text \<open>The strings hashed on the way from a leaf to the root.\<close>

fun branch_hashed :: "(bytes \<Rightarrow> uint256) \<Rightarrow> uint256 \<Rightarrow> uint256 list \<Rightarrow> nat \<Rightarrow> bytes set" where
  "branch_hashed Hash hash [] nIndex = {}"
| "branch_hashed Hash hash (it # branch) nIndex =
     (let s = (if odd nIndex then it @ hash else hash @ it) in insert s (branch_hashed Hash (Hash s) branch (nIndex div 2)))"

lemma branch_determines:
  assumes "\<forall>b. length (Hash b) = 32"
  shows "ComputeMerkleRootFromBranch Hash h1 b1 i = ComputeMerkleRootFromBranch Hash h2 b2 i \<Longrightarrow> length b1 = length b2 \<Longrightarrow>
    length h1 = 32 \<Longrightarrow> length h2 = 32 \<Longrightarrow> \<forall>x \<in> set b1 \<union> set b2. length x = 32 \<Longrightarrow>
    \<not> collision Hash S \<Longrightarrow> branch_hashed Hash h1 b1 i \<union> branch_hashed Hash h2 b2 i \<subseteq> S \<Longrightarrow> h1 = h2 \<and> b1 = b2"
proof (induction b1 arbitrary: h1 h2 b2 i)
  case (Cons x b1)
  obtain y c where b2: "b2 = y # c" using Cons.prems(2) by (cases b2) simp_all
  let ?s = "\<lambda>it hash. if odd i then it @ hash else hash @ it"
  have sub: "?s x h1 \<in> S" "?s y h2 \<in> S"
    "branch_hashed Hash (Hash (?s x h1)) b1 (i div 2) \<union> branch_hashed Hash (Hash (?s y h2)) c (i div 2) \<subseteq> S"
    using Cons.prems(7) by (simp_all add: b2 Let_def)
  have "Hash (?s x h1) = Hash (?s y h2) \<and> b1 = c"
    by (rule Cons.IH) (use Cons.prems(1,2,5) sub(3) assms Cons.prems(6) in \<open>auto simp: b2 split: if_splits\<close>)
  then have "?s x h1 = ?s y h2" "b1 = c" using Cons.prems(6) sub(1,2) unfolding collision_def by blast+
  then show ?case using Cons.prems(3-5) by (auto simp: b2 split: if_splits)
qed auto

lemma check_coinbase_reads:
  assumes "check_coinbase s r n nChainID i"
  defines "pc \<equiv> std_search s pchMergedMiningHeader + 4"
  shows "r = take (length r) (drop pc s)" "(2 :: int) ^ n = wrap32 (int (le_value (take 4 (drop (pc + length r) s))))"
    "i = chain_slot (of_nat (le_value (take 4 (drop (pc + length r + 4) s)))) nChainID (of_int (wrap32 (int (le_value (take 4 (drop (pc + length r) s))))))"
proof -
  have p: "std_search s r = pc" "std_search s r \<noteq> length s"
    using assms(1) by (auto simp: check_coinbase_def Let_def pc_def pchMergedMiningHeader_def split: if_splits)
  then show "r = take (length r) (drop pc s)" using std_search_found [of s r] by simp
  show "(2 :: int) ^ n = wrap32 (int (le_value (take 4 (drop (pc + length r) s))))"
    "i = chain_slot (of_nat (le_value (take 4 (drop (pc + length r + 4) s)))) nChainID (of_int (wrap32 (int (le_value (take 4 (drop (pc + length r) s))))))"
    using assms(1) p by (auto simp: check_coinbase_def Let_def split: if_splits)
qed

lemma AuxPoWCheck_accepts:
  assumes "AuxPoWCheck Hash f aux h nChainID = Some True"
  shows "vin (amt_tx aux) \<noteq> []"
    "check_coinbase (scriptSig (vin (amt_tx aux) ! 0))
       (rev (ComputeMerkleRootFromBranch Hash h (aux_vChainMerkleBranch aux) (unat (aux_nChainIndex aux))))
       (length (aux_vChainMerkleBranch aux)) nChainID (aux_nChainIndex aux)"
  using assms by (auto simp: AuxPoWCheck_def Let_def split: if_splits)

lemma length_branch_root:
  "\<forall>b. length (Hash b) = 32 \<Longrightarrow> length h = 32 \<Longrightarrow> length (ComputeMerkleRootFromBranch Hash h b i) = 32"
  by (induction b arbitrary: h i) auto

section \<open>Properties\<close>

text \<open>C39: one parent coinbase commits to one block of this chain. Two proofs that are accepted for the same chain and
  whose parent transactions have the same first input script are for the same block and the same branch, unless
  two of the strings hashed along the two branches collide. So work on a parent block is never counted twice.\<close>

theorem aux_pow_commits_once:
  assumes "\<forall>b. length (Hash b) = 32" "length h1 = 32" "length h2 = 32"
    and "\<forall>x \<in> set (aux_vChainMerkleBranch a1) \<union> set (aux_vChainMerkleBranch a2). length x = 32"
    and "AuxPoWCheck Hash f1 a1 h1 nChainID = Some True" "AuxPoWCheck Hash f2 a2 h2 nChainID = Some True"
    and "scriptSig (vin (amt_tx a1) ! 0) = scriptSig (vin (amt_tx a2) ! 0)"
  shows "h1 = h2 \<and> aux_vChainMerkleBranch a1 = aux_vChainMerkleBranch a2 \<and> aux_nChainIndex a1 = aux_nChainIndex a2
    \<or> collision Hash (branch_hashed Hash h1 (aux_vChainMerkleBranch a1) (unat (aux_nChainIndex a1))
        \<union> branch_hashed Hash h2 (aux_vChainMerkleBranch a2) (unat (aux_nChainIndex a2)))"
proof -
  let ?r = "\<lambda>h a. ComputeMerkleRootFromBranch Hash h (aux_vChainMerkleBranch a) (unat (aux_nChainIndex a))"
  have l: "length (rev (?r h1 a1)) = 32" "length (rev (?r h2 a2)) = 32" using assms(1-3) by (simp_all add: length_branch_root)
  note c1 = check_coinbase_reads [OF AuxPoWCheck_accepts(2) [OF assms(5)], unfolded l]
    and c2 = check_coinbase_reads [OF AuxPoWCheck_accepts(2) [OF assms(6)], unfolded l]
  have r: "?r h1 a1 = ?r h2 a2" using c1(1) c2(1) assms(7) by (metis rev_rev_ident)
  have "(2 :: int) ^ length (aux_vChainMerkleBranch a1) = 2 ^ length (aux_vChainMerkleBranch a2)" using c1(2) c2(2) assms(7) by simp
  then have n: "length (aux_vChainMerkleBranch a1) = length (aux_vChainMerkleBranch a2)" by simp
  have i: "aux_nChainIndex a1 = aux_nChainIndex a2" using c1(3) c2(3) assms(7) by simp
  show ?thesis using branch_determines [OF assms(1) r [unfolded i] n assms(2-4) _ subset_refl] i by auto
qed

definition sample_parent :: CTransaction where
  "sample_parent = \<lparr>tx_nVersion = 1, tx_nTime = 0,
     vin = [\<lparr>prevout = COutPoint_SetNull, scriptSig = pchMergedMiningHeader @ replicate 32 7 @ [1, 0, 0, 0, 0, 0, 0, 0], nSequence = 0, scriptWitness = []\<rparr>],
     vout = [], nLockTime = 0\<rparr>"

definition sample_aux :: "CTransaction \<Rightarrow> uint256 \<Rightarrow> CAuxPow" where
  "sample_aux tx hashBlock = \<lparr>amt_tx = tx, amt_hashBlock = hashBlock, amt_vMerkleBranch = [], amt_nIndex = 0,
     aux_vChainMerkleBranch = [], aux_nChainIndex = 0,
     aux_parentBlockHeader = CBlockHeader_SetNull\<lparr>hdr_nVersion := 1, hdr_hashMerkleRoot := GetBtcHash pad32 tx\<rparr>\<rparr>"

lemma sample_coinbase: "check_coinbase (scriptSig (vin sample_parent ! 0)) (replicate 32 7) 0 666 0"
  by code_simp

lemma sample_aux_accepted: "AuxPoWCheck pad32 False (sample_aux sample_parent hashBlock) (replicate 32 7) 666 = Some True"
  using sample_coinbase by (simp add: AuxPoWCheck_def sample_aux_def sample_parent_def GetChainID_def cdiv_def)

theorem aux_pow_commits_once_witness:
  "AuxPoWCheck pad32 False (sample_aux sample_parent uint256_null) (replicate 32 7) 666 = Some True
   \<and> \<not> collision pad32 (branch_hashed pad32 (replicate 32 7) [] 0 \<union> branch_hashed pad32 (replicate 32 7) [] 0)
   \<and> aux_nChainIndex (sample_aux sample_parent uint256_null) = aux_nChainIndex (sample_aux sample_parent (replicate 32 1))"
  using aux_pow_commits_once [OF _ _ _ _ sample_aux_accepted [of uint256_null] sample_aux_accepted [of "replicate 32 1"]]
    sample_aux_accepted [of uint256_null]
  by (simp add: sample_aux_def collision_def)

text \<open>C40: the check reads the first input of the parent transaction without looking whether there is one. A proof whose
  parent transaction has no inputs and whose parent header carries the hash of that transaction as its Merkle root,
  which needs no work, leads every node to read outside the vector of inputs.\<close>

theorem aux_pow_missing_input:
  assumes "vin (amt_tx aux) = []" "amt_nIndex aux = 0" "length (aux_vChainMerkleBranch aux) \<le> 30" "amt_vMerkleBranch aux = []"
    and "GetChainID (aux_parentBlockHeader aux) \<noteq> GetChainID b"
    and "hdr_hashMerkleRoot (aux_parentBlockHeader aux) = GetBtcHash Hash (amt_tx aux)"
    and "hdr_GetBlockVersion b > 4" "GetChainID b = AUXPOW_CHAIN_ID"
  shows "CheckBlockProofOfWork Hash f params b (Some aux) = None"
  using assms by (simp add: CheckBlockProofOfWork_def AuxPoWCheck_def)

theorem aux_pow_missing_input_witness:
  "CheckBlockProofOfWork pad32 False sample_params CBlockHeader_SetNull (Some (sample_aux (sample_parent\<lparr>vin := []\<rparr>) uint256_null)) = None"
proof (rule aux_pow_missing_input)
  show "GetChainID CBlockHeader_SetNull = AUXPOW_CHAIN_ID"
    by (simp add: CBlockHeader_SetNull_def chain_id_SetBlockVersion)
  then show "GetChainID (aux_parentBlockHeader (sample_aux (sample_parent\<lparr>vin := []\<rparr>) uint256_null)) \<noteq> GetChainID CBlockHeader_SetNull"
    by (simp add: sample_aux_def GetChainID_def cdiv_def)
  show "4 < hdr_GetBlockVersion CBlockHeader_SetNull"
    by (simp add: hdr_GetBlockVersion_def CBlockHeader_SetNull_def SetBlockVersion_def)
qed (simp_all add: sample_aux_def)

end
