(* ===== verification/MFC_BlockChecks.thy ===== *)
theory MFC_BlockChecks
  imports MFC_TxChecksProps MFC_AuxPow
begin

unbundle bit_operations_syntax

text \<open>
  The checks of a block in \<^verbatim>\<open>src/src/validation.cpp\<close> before its transactions are connected: \<^verbatim>\<open>CheckBlock\<close>,
  \<^verbatim>\<open>ContextualCheckBlockHeader\<close>, \<^verbatim>\<open>ContextualCheckBlock\<close> and what they call. The memory-hard hash of \<^verbatim>\<open>mtp::verify\<close>,
  the check of signatures by \<^verbatim>\<open>CPubKey::Verify\<close> and the decoding of a merged-mining proof are parameters.
\<close>

section \<open>Environment\<close>

record block_env = check_env +
  env_params :: Params
  env_fPowAllowMinDifficultyBlocks :: bool
  env_mtp_verify :: "CBlock \<Rightarrow> uint256 option"
  env_auxpow :: "bytes \<Rightarrow> CAuxPow"
  env_Verify :: "bytes \<Rightarrow> uint256 \<Rightarrow> bytes \<Rightarrow> bool"
  env_hashGenesisBlock :: uint256
  env_BIP34Height :: int
  env_BIP34Hash :: uint256
  env_BIP65Height :: int
  env_BIP66Height :: int
  env_MMHeight :: int
  env_V7Height :: int

abbreviation (input) REJECT_OBSOLETE :: nat where "REJECT_OBSOLETE \<equiv> 0x11"
abbreviation (input) nMaxClockDrift :: int where "nMaxClockDrift \<equiv> 7200"
abbreviation (input) MAX_TX_AGE :: int where "MAX_TX_AGE \<equiv> 259200"
abbreviation (input) MAX_BLOCK_SIGOPS_COST :: int where "MAX_BLOCK_SIGOPS_COST \<equiv> 80000"
abbreviation (input) MAX_BLOCK_WEIGHT :: int where "MAX_BLOCK_WEIGHT \<equiv> 4000000"
abbreviation (input) MIN_TXOUT_AMOUNT :: CAmount where "MIN_TXOUT_AMOUNT \<equiv> MIN_TX_FEE"

section \<open>Sizes\<close>

text \<open>A block on the network: the merged-mining proof and the memory-hard proof are kept in their stored form.\<close>

definition SerializeBlock :: "bool \<Rightarrow> CBlock \<Rightarrow> bytes" where
  "SerializeBlock fAllowWitness b =
     SerializeHeader b
     @ (if hdr_nVersion b AND BLOCK_VERSION_AUXPOW \<noteq> 0 then (case auxpow b of Some a \<Rightarrow> a | None \<Rightarrow> []) else [])
     @ (if hdr_nFlags b AND 1 = 0 \<and> hdr_mtpHashValue b \<noteq> uint256_null then (case mtpHashData b of Some d \<Rightarrow> d | None \<Rightarrow> []) else [])
     @ Serialize_vector (SerializeTransaction fAllowWitness False) (vtx b) @ Serialize_bytes (vchBlockSig b)"

definition GetBlockWeight :: "CBlock \<Rightarrow> int" where
  "GetBlockWeight b =
     int (length (SerializeBlock False b)) * (int WITNESS_SCALE_FACTOR - 1) + int (length (SerializeBlock True b))"

section \<open>Checks without context\<close>

definition CheckMerkleTreeProof :: "block_env \<Rightarrow> CBlock \<Rightarrow> bool" where
  "CheckMerkleTreeProof E b =
     (if mtpHashData b = None then False
      else if hdr_mtpHashValue b = uint256_null then False
      else case env_mtp_verify E b of
        None \<Rightarrow> False
      | Some calculatedMtpHashValue \<Rightarrow> hdr_mtpHashValue b = calculatedMtpHashValue)"

definition CheckBlockHeader :: "block_env \<Rightarrow> CBlock \<Rightarrow> bool \<Rightarrow> check_error + unit" where
  "CheckBlockHeader E b fCheckPOW =
     (if \<not> fCheckPOW then Inr ()
      else case CheckBlockProofOfWork (env_Hash E) (env_fPowAllowMinDifficultyBlocks E) (env_params E) b
                  (map_option (env_auxpow E) (auxpow b)) of
        None \<Rightarrow> Inl BadIndex
      | Some False \<Rightarrow> Inl (DoS 50 REJECT_INVALID ''high-hash'')
      | Some True \<Rightarrow> Inr ())"

definition CheckCoinStakeTimestamp :: "int \<Rightarrow> int \<Rightarrow> bool" where
  "CheckCoinStakeTimestamp nTimeBlock nTimeTx =
     (if IsProtocolV03 (of_int nTimeTx) then nTimeBlock = nTimeTx
      else nTimeTx \<le> nTimeBlock \<and> nTimeBlock \<le> nTimeTx + nMaxClockDrift)"

text \<open>When a transaction fails its check, the caller passes the code and the reason on to \<^verbatim>\<open>state.Invalid\<close>, which
  adds a level of zero to the level that the check has set: the verdict of the check stands.\<close>

fun check_transactions :: "int \<Rightarrow> CTransaction list \<Rightarrow> check_error + unit" where
  "check_transactions nBlockTime [] = Inr ()"
| "check_transactions nBlockTime (tx # txs) =
     bind_sum (CheckTransaction tx True) (\<lambda>_.
       if nBlockTime < uint (tx_nTime tx) then Inl (DoS 50 REJECT_INVALID ''bad-tx-time'')
       else check_transactions nBlockTime txs)"

definition check_merkle :: "block_env \<Rightarrow> CBlock \<Rightarrow> check_error + unit" where
  "check_merkle E b =
     (case BlockMerkleRoot (env_Hash E) b of
        None \<Rightarrow> Inl Endless
      | Some (root, mutated) \<Rightarrow>
          if hdr_hashMerkleRoot b \<noteq> root then Inl (DoS 100 REJECT_INVALID ''bad-txnmrklroot'')
          else if mutated then Inl (DoS 100 REJECT_INVALID ''bad-txns-duplicate'')
          else if block_IsProofOfWork b \<and> \<not> CheckMerkleTreeProof E b then Inl (DoS 100 REJECT_INVALID ''bad-diffbits'')
          else Inr ())"

text \<open>The flag \<^verbatim>\<open>fChecked\<close> that remembers a success is a cache and left out: a block is checked each time.\<close>

definition CheckBlock :: "block_env \<Rightarrow> CBlock \<Rightarrow> bool \<Rightarrow> bool \<Rightarrow> check_error + unit" where
  "CheckBlock E b fCheckPOW fCheckMerkleRoot =
     bind_sum (CheckBlockHeader E b (fCheckPOW \<and> \<not> block_IsProofOfStake b)) (\<lambda>_.
     bind_sum (if fCheckMerkleRoot then check_merkle E b else Inr ()) (\<lambda>_.
       if vtx b = [] \<or> length (vtx b) > MAX_BLOCK_BASE_SIZE \<or> length (SerializeBlock False b) > MAX_BLOCK_BASE_SIZE
       then Inl (DoS 100 REJECT_INVALID ''bad-blk-length'')
       else if vtx b = [] \<or> \<not> IsCoinBase (vtx b ! 0) then Inl (DoS 100 REJECT_INVALID ''bad-cb-missing'')
       else if list_ex IsCoinStake (drop 2 (vtx b)) then Inl (DoS 100 REJECT_INVALID ''bad-cs-missing'')
       else if hdr_GetBlockTime b > uint (tx_nTime (vtx b ! 0)) + nMaxClockDrift then Inl (DoS 50 REJECT_INVALID ''bad-cb-time'')
       else if block_IsProofOfStake b \<and> \<not> CheckCoinStakeTimestamp (hdr_GetBlockTime b) (uint (tx_nTime (vtx b ! 1)))
       then Inl (DoS 50 REJECT_INVALID ''bad-cs-time'')
       else bind_sum (check_transactions (hdr_GetBlockTime b) (vtx b)) (\<lambda>_.
         let nSigOps = fold (\<lambda>tx n. n + GetLegacySigOpCount tx) (vtx b) 0 in
         if uint (nSigOps * of_nat WITNESS_SCALE_FACTOR) > MAX_BLOCK_SIGOPS_COST
         then Inl (DoS 100 REJECT_INVALID ''bad-blk-sigops'') else Inr ())))"

section \<open>Checks in context\<close>

definition is_commitment :: "script \<Rightarrow> bool" where
  "is_commitment s \<longleftrightarrow>
     length s \<ge> 38 \<and> s ! 0 = of_nat OP_RETURN \<and> s ! 1 = 0x24 \<and> s ! 2 = 0xaa \<and> s ! 3 = 0x21 \<and> s ! 4 = 0xa9 \<and> s ! 5 = 0xed"

text \<open>The last output of the coinbase that is a commitment, or -1.\<close>

definition GetWitnessCommitmentIndex :: "CBlock \<Rightarrow> int" where
  "GetWitnessCommitmentIndex b =
     (case vtx b of
        [] \<Rightarrow> -1
      | cb # _ \<Rightarrow> fold (\<lambda>i commitpos. if is_commitment (scriptPubKey (vout cb ! i)) then int i else commitpos) [0..<length (vout cb)] (-1))"

definition CheckMinTxOut_tx :: "CTransaction \<Rightarrow> bool" where
  "CheckMinTxOut_tx tx \<longleftrightarrow> list_all (\<lambda>txout. CTxOut_IsEmpty txout \<or> nValue txout \<ge> MIN_TXOUT_AMOUNT) (vout tx)"

definition CheckMinTxOut :: "CBlock \<Rightarrow> bool \<Rightarrow> bool" where
  "CheckMinTxOut b fV7Enabled \<longleftrightarrow>
     (if fV7Enabled then
        (let commitpos = (if hdr_nVersion b \<ge> 7 then GetWitnessCommitmentIndex b else -1); tx0 = vtx b ! 0
         in list_all (\<lambda>j. (commitpos \<ge> 0 \<and> commitpos = int j) \<or> CTxOut_IsEmpty (vout tx0 ! j) \<or> nValue (vout tx0 ! j) \<ge> MIN_TXOUT_AMOUNT)
              [0..<length (vout tx0)])
      else True)
     \<and> list_all CheckMinTxOut_tx (if fV7Enabled then drop 1 (vtx b) else vtx b)"

definition ContextualCheckBlockHeader ::
  "block_env \<Rightarrow> CBlock \<Rightarrow> bool \<Rightarrow> heap \<Rightarrow> ptr option \<Rightarrow> int \<Rightarrow> check_error + unit" where
  "ContextualCheckBlockHeader E b fProofOfStake H pindexPrev nAdjustedTime =
     (let height = (case pindexPrev of None \<Rightarrow> 0 | Some p \<Rightarrow> nHeight (H p) + 1) in
      case GetNextTargetRequired H pindexPrev fProofOfStake (env_params E) of
        None \<Rightarrow> Inl Endless
      | Some required \<Rightarrow>
          let max_error = required div 100000 in
          if (if height > 10000 then hdr_nBits b \<noteq> required
              else \<not> (hdr_nBits b \<ge> required - max_error \<and> hdr_nBits b \<le> required + max_error))
          then Inl (DoS 100 REJECT_INVALID ''bad-diffbits'')
          else case pindexPrev of
            None \<Rightarrow> Inl BadIndex
          | Some p \<Rightarrow>
              if hdr_GetBlockTime b \<le> GetMedianTimePast H p \<or> hdr_GetBlockTime b + nMaxClockDrift < GetBlockTime (H p)
              then Inl (DoS 0 REJECT_INVALID ''time-too-old'')
              else if hdr_GetBlockTime b > nAdjustedTime + nMaxClockDrift then Inl (DoS 0 REJECT_INVALID ''time-too-new'')
              else if (hdr_GetBlockVersion b < 2 \<and> height \<ge> env_BIP34Height E)
                 \<or> (hdr_GetBlockVersion b < 3 \<and> height \<ge> env_BIP66Height E)
                 \<or> (hdr_GetBlockVersion b < 4 \<and> height \<ge> env_BIP65Height E)
                 \<or> (hdr_GetBlockVersion b < 5 \<and> height \<ge> env_MMHeight E)
                 \<or> (hdr_GetBlockVersion b < 7 \<and> height \<ge> env_V7Height E)
              then Inl (DoS 100 REJECT_OBSOLETE ''bad-version'')
              else if auxpow b \<noteq> None \<and> height < env_MMHeight E then Inl (DoS 100 REJECT_INVALID ''premature auxpow block'')
              else Inr ())"

text \<open>The outer sum is a thrown script error; \<open>None\<close> is the result \<^verbatim>\<open>false\<close>.\<close>

fun select_loop :: "CTxOut list \<Rightarrow> cpp_exn + bytes list option" where
  "select_loop [] = Inr None"
| "select_loop (txout # os) =
     bind_sum (Solver (scriptPubKey txout) TX_NONSTANDARD) (\<lambda>(ok, whichType, vSolutions).
       if ok \<and> whichType = TX_PUBKEY then Inr (Some vSolutions) else select_loop os)"

definition SelectPubkeyForBlockSigning :: "CBlock \<Rightarrow> bool \<Rightarrow> check_error + bytes list option" where
  "SelectPubkeyForBlockSigning b fV7Enabled =
     (if fV7Enabled \<and> \<not> block_IsProofOfStake b then map_sum ScriptException id (select_loop (vout (vtx b ! 0)))
      else
        let txout = (if block_IsProofOfStake b then vout (vtx b ! 1) ! 1 else vout (vtx b ! 0) ! 0)
        in map_sum ScriptException id (select_loop [txout]))"

definition CheckBlockSignature :: "block_env \<Rightarrow> CBlock \<Rightarrow> bool \<Rightarrow> check_error + bool" where
  "CheckBlockSignature E b fV7Enabled =
     (if GetHash (env_Hash E) b = env_hashGenesisBlock E then Inr (vchBlockSig b = [])
      else bind_sum (SelectPubkeyForBlockSigning b fV7Enabled) (\<lambda>s.
        case s of
          None \<Rightarrow> Inr False
        | Some vSolutions \<Rightarrow>
            if vchBlockSig b = [] then Inr False
            else Inr (env_Verify E (vSolutions ! 0) (GetHash (env_Hash E) b) (vchBlockSig b))))"

text \<open>The commitment to the witnesses; the result tells whether the block has one.\<close>

definition check_witness :: "block_env \<Rightarrow> CBlock \<Rightarrow> check_error + bool" where
  "check_witness E b =
     (let commitpos = GetWitnessCommitmentIndex b in
      if commitpos = -1 then Inr False
      else case BlockWitnessMerkleRoot (env_Hash E) b of
        None \<Rightarrow> Inl Endless
      | Some (hashWitness, malleated) \<Rightarrow>
          let nonce = scriptWitness (vin (vtx b ! 0) ! 0) in
          if length nonce \<noteq> 1 \<or> length (nonce ! 0) \<noteq> 32 then Inl (DoS 100 REJECT_INVALID ''bad-witness-nonce-size'')
          else if env_Hash E (hashWitness @ nonce ! 0) \<noteq> take 32 (drop 6 (scriptPubKey (vout (vtx b ! 0) ! nat commitpos)))
          then Inl (DoS 100 REJECT_INVALID ''bad-witness-merkle-match'')
          else Inr True)"

definition check_coinbase_amount :: "CBlock \<Rightarrow> int \<Rightarrow> check_error + unit" where
  "check_coinbase_amount b h =
     (if isForkBlock h then Inr ()
      else if list_ex IsCoinBase (drop 1 (vtx b)) then Inl (DoS 100 REJECT_INVALID ''bad-cb-multiple'')
      else
        let powLimit = (if block_IsProofOfWork b
              then wrap64 (GetProofOfWorkReward h - GetTxMinFee (vtx b ! 0) + MIN_TX_FEE) else 0)
        in bind_sum (value_out (vtx b ! 0)) (\<lambda>nOut.
             if nOut > powLimit then Inl (DoS 100 REJECT_INVALID ''bad-cb-amount'') else Inr ()))"

definition ContextualCheckBlock :: "block_env \<Rightarrow> CBlock \<Rightarrow> heap \<Rightarrow> ptr option \<Rightarrow> bool \<Rightarrow> check_error + unit" where
  "ContextualCheckBlock E b H pindexPrev fCheckSign =
     (let height = (case pindexPrev of None \<Rightarrow> 0 | Some p \<Rightarrow> nHeight (H p) + 1); fV7Enabled = IsV7Enabled H pindexPrev (env_V7Height E) in
      bind_sum (check_coinbase_amount b height) (\<lambda>_.
        let nLockTimeCutoff = (if fV7Enabled then GetMedianTimePast H (the pindexPrev) else hdr_GetBlockTime b);
            expect = push_int64 height; sig = scriptSig (vin (vtx b ! 0) ! 0)
        in if \<not> list_all (\<lambda>tx. IsFinalTx tx height nLockTimeCutoff) (vtx b) then Inl (DoS 10 REJECT_INVALID ''bad-txns-nonfinal'')
        else if \<not> isForkBlock height \<and> list_ex (\<lambda>tx. hdr_GetBlockTime b > uint (tx_nTime tx) + MAX_TX_AGE) (vtx b)
        then Inl (DoS 50 REJECT_INVALID ''bad-tx-time'')
        else if height \<ge> env_BIP34Height E \<and> (length sig < length expect \<or> take (length expect) sig \<noteq> expect)
        then Inl (DoS 100 REJECT_INVALID ''bad-cb-height'')
        else bind_sum (if fV7Enabled then check_witness E b else Inr False) (\<lambda>fHaveWitness.
          if block_IsProofOfStake b \<and> (length (vout (vtx b ! 0)) \<noteq> (if fHaveWitness then 2 else 1) \<or> \<not> CTxOut_IsEmpty (vout (vtx b ! 0) ! 0))
          then Inl (DoS 100 REJECT_INVALID ''pos-cb-not-empty'')
          else if \<not> fHaveWitness \<and> list_ex HasWitness (vtx b) then Inl (DoS 100 REJECT_INVALID ''unexpected-witness'')
          else if GetBlockWeight b > MAX_BLOCK_WEIGHT then Inl (DoS 100 REJECT_INVALID ''bad-blk-weight'')
          else bind_sum (if fCheckSign then CheckBlockSignature E b fV7Enabled else Inr True) (\<lambda>ok.
            if \<not> ok then Inl (DoS 100 REJECT_INVALID ''bad-blk-sign'')
            else if \<not> isForkBlock height \<and> \<not> CheckMinTxOut b fV7Enabled then Inl (DoS 100 REJECT_INVALID ''txout-too-low'')
            else Inr ()))))"

end
