(* ===== verification/Spec2Isabelle.thy ===== *)
theory Spec2Isabelle
  imports MFC_VerifyProps MFC_PowProps MFC_NameBlocks MFC_PartialTree MFC_CheckQueue MFC_BlockChecks
begin

text \<open>
  MFCoin: a verification library for the consensus core of the MFCoin node, a descendant of Bitcoin
  Core with proof of stake and a name index. Paths are relative to \<^verbatim>\<open>src/src/\<close>.

  \<^bold>\<open>The program.\<close> A node receives transactions and blocks. A transaction spends outputs of earlier ones by running
  their scripts in the interpreter; an output may carry a name operation in front of its script. A
  block joins transactions under a header with a proof of work or of stake. The headers form a
  tree; the node follows the branch with most trust, connects its blocks one by one, and disconnects
  them again when another branch wins. A block is checked first on its own and against its parent, with its
  Merkle root and its proof of work, which may be that of a block of another chain (merged mining); the
  scripts of its inputs are run by a queue of worker threads. Connecting a block spends and creates coins
  in a stack of caches over the coin database and updates the name index; disconnecting restores both,
  the coins from undo records that were stored with the block.

  \<^bold>\<open>Theories and sources.\<close>
  \<^item> \<open>MFC_Prelude\<close>: bytes, words of fixed width, signed integers with written-out wrap-around, results that can be
    errors (\<open>bind_sum\<close>), little-endian codecs (\<^verbatim>\<open>crypto/common.h\<close>), generic lemmas.
  \<^item> \<open>MFC_Script\<close>: \<^verbatim>\<open>script/script.h\<close>, \<^verbatim>\<open>script.cpp\<close>: script numbers, pushing and reading instructions, signature
    operation counts, script templates.
  \<^item> \<open>MFC_NameScript\<close>: the name prefix of a script, built and removed (\<^verbatim>\<open>script.cpp\<close>, \<^verbatim>\<open>namecoin.cpp\<close>).
  \<^item> \<open>MFC_Interpreter\<close>, with its properties in \<open>MFC_InterpreterProps\<close> and \<open>MFC_VerifyProps\<close>: \<^verbatim>\<open>script/interpreter.cpp\<close>. The
    signature checker and the hash functions are parameters.
  \<^item> \<open>MFC_Standard\<close>: \<^verbatim>\<open>script/standard.cpp\<close>: output templates and addresses.
  \<^item> \<open>MFC_Arith256\<close>, \<open>MFC_Arith256Props\<close>: \<^verbatim>\<open>arith_uint256.h\<close> and \<^verbatim>\<open>.cpp\<close>, limb by limb.
  \<^item> \<open>MFC_Serialize\<close>, \<open>MFC_Tx\<close>, \<open>MFC_TxProps\<close>: \<^verbatim>\<open>serialize.h\<close>, \<^verbatim>\<open>primitives/transaction.h\<close> and \<^verbatim>\<open>.cpp\<close>, \<^verbatim>\<open>amount.h\<close>. The
    locale \<open>codec\<close> is the contract of a serializer and its reader.
  \<^item> \<open>MFC_Block\<close>: \<^verbatim>\<open>primitives/block.h\<close> and \<^verbatim>\<open>.cpp\<close>.
  \<^item> \<open>MFC_Chain\<close>, \<open>MFC_ChainProps\<close>: \<^verbatim>\<open>chain.h\<close>, \<^verbatim>\<open>chain.cpp\<close>. The block index is a heap from pointers to entries, so
    that the shared mutable entries of the code can be expressed.
  \<^item> \<open>MFC_BlockIndex\<close>, \<open>MFC_BlockIndexProps\<close>: the block tree of \<^verbatim>\<open>validation.cpp\<close>: new headers, received blocks, the best
    chain, pruning of candidates, failure marks.
  \<^item> \<open>MFC_Pow\<close>, \<open>MFC_PowProps\<close>: \<^verbatim>\<open>pow.cpp\<close> and the compact numbers of \<^verbatim>\<open>bignum.h\<close>.
  \<^item> \<open>MFC_Merkle\<close>, \<open>MFC_MerkleProps\<close>, \<open>MFC_PartialTree\<close>: \<^verbatim>\<open>consensus/merkle.cpp\<close> and \<^verbatim>\<open>merkleblock.cpp\<close>: roots and branches
    in constant space, and the partial trees for light clients. The hash function is a parameter.
  \<^item> \<open>MFC_Compress\<close>, \<open>MFC_Coins\<close>, \<open>MFC_CoinsProps\<close>: \<^verbatim>\<open>compressor.cpp\<close>, \<^verbatim>\<open>coins.h\<close>, \<^verbatim>\<open>undo.h\<close>: the coins of one transaction,
    the undo records, and their stored forms.
  \<^item> \<open>MFC_CoinsView\<close>, \<open>MFC_CoinsViewProps\<close>, \<open>MFC_Utxo\<close>, \<open>MFC_UtxoUndo\<close>: \<^verbatim>\<open>coins.cpp\<close> and the functions of \<^verbatim>\<open>validation.cpp\<close>
    that spend and restore coins. The locale \<open>simulation\<close> relates the stack of caches to nested maps; the coins of
    a block are an interpretation of \<open>undo_log\<close>.
  \<^item> \<open>MFC_CheckQueue\<close>: \<^verbatim>\<open>checkqueue.h\<close>, a transition system of the master and the workers.
  \<^item> \<open>MFC_TxChecks\<close>, \<open>MFC_TxChecksProps\<close>: the checks of a transaction in \<^verbatim>\<open>validation.cpp\<close>.
  \<^item> \<open>MFC_AuxPow\<close>: \<^verbatim>\<open>auxpow.h\<close> and \<^verbatim>\<open>auxpow.cpp\<close>, merged mining.
  \<^item> \<open>MFC_BlockChecks\<close>: the checks of a block in \<^verbatim>\<open>validation.cpp\<close> before it is connected.
  \<^item> \<open>MFC_Undo\<close>: the locale \<open>undo_log\<close>, the contract of state that is reverted with a block.
  \<^item> \<open>MFC_NameIndex\<close>, \<open>MFC_NameProps\<close>, \<open>MFC_NameBlocks\<close>: the name index of \<^verbatim>\<open>namecoin.cpp\<close> and \<^verbatim>\<open>namecoin.h\<close>, an
    interpretation of \<open>undo_log\<close>.

  \<^bold>\<open>What is shown.\<close> Codecs and encodings are exact inverses (script numbers, compact sizes, transactions, compact
    targets, name scripts, addresses), under the conditions that each property states. Limb arithmetic refines arithmetic modulo a power of two.
    The interpreter keeps its limits, decides multisignatures as specified and runs named outputs like plain
    ones. The skip list, the fork search and the active chain agree with following parent pointers;
    a header added to the block tree gets the entry that follows from its parent, the tree keeps its invariant and
    the best chain is found. The next target is always computed, and it is said exactly when it is one that a
    block can meet. Merkle roots commit to the leaves, and a partial tree with the right root names only
    transactions of the block, up to collisions of the hash function. Coins and undo records read back as stored; the caches cannot be told from nested maps of
    coins, and disconnecting a block restores the coins. The check queue answers, and answers right, in every
    interleaving. The same parent work proves only one block by merged mining, up to collisions. Lemmas about the checks
    of a transaction give relative lock times, repeated inputs, rewards and the orders of running scripts. The checks
    of a block are definitions so far, with no properties of their own. An
    accepted name operation has the right to its name, the name index keeps its invariant and disconnecting a
    block restores it. Error properties are inputs on which the code does not do what it means to;
    each names the place in the sources.

  \<^bold>\<open>Bounds and fuel.\<close> Loops over data are structural recursions or end by a measure. Loops along pointers are partial functions into
    options: not returning is \<open>None\<close>, and the properties show \<open>Some\<close> for well-formed heaps. Where a loop is
    given fuel, the fuel is the length of the data it consumes.

  \<^bold>\<open>Not modelled.\<close> Elliptic curve operations (\<^verbatim>\<open>secp256k1/\<close>), hash functions and the memory-hard proof of work enter as
    parameters. Of proof of stake only the checks of time stamps and of the form of a block are modelled; the stake kernel
    and its modifiers (\<^verbatim>\<open>kernel.cpp\<close>) are not. The driver \<^verbatim>\<open>ConnectBlock\<close> is not modelled as a whole, only the
    checks and the updates of coins and names that it calls. The memory pool, the miner, networking, storage
    engines, the wallet, the remote procedure calls and the user interface surround the core and are left out; so
    are the threads other than those of the check queue, tables of constants, bundled libraries and the tests.
\<close>

end
